(* ===== verification/Prelude.thy ===== *)
theory Prelude
  imports Complex_Main
begin

text \<open>
  Shared ground of the development: the Python values the code handles (JSON data, strings,
  exceptions), the few string operations of the standard library it calls, and tables of rows
  with a key, which is how every repository of \<^verbatim>\<open>src/krewhub/repositories\<close> sees SQLite.

  Strings are \<open>string\<close> (a list of characters); literals of the source outside ASCII are written as
  their UTF-8 bytes.  A text built by an f-string keeps its pieces (\<open>msg\<close>), so that the \<open>!r\<close>
  conversion of a value needs no model of \<open>repr\<close>.
\<close>

named_theorems row_simps \<open>equations that push lookups through table updates\<close>

section \<open>Python values\<close>

datatype json =
    JNull
  | JBool bool
  | JInt int
  | JFloat rat
  | JStr string
  | JArr "json list"
  | JObj "(string \<times> json) list"

text \<open>Numbers and booleans compare by value in Python: \<open>True == 1 == 1.0\<close>.\<close>

fun num_value :: "json \<Rightarrow> rat option" where
  "num_value (JBool b) = Some (if b then 1 else 0)"
| "num_value (JInt i) = Some (of_int i)"
| "num_value (JFloat r) = Some r"
| "num_value v = None"

fun py_eq :: "json \<Rightarrow> json \<Rightarrow> bool" where
  "py_eq JNull w = (w = JNull)"
| "py_eq (JStr s) w = (w = JStr s)"
| "py_eq (JArr xs) w = (case w of JArr ys \<Rightarrow> list_all2 py_eq xs ys | _ \<Rightarrow> False)"
| "py_eq (JObj xs) w = (case w of
      JObj ys \<Rightarrow> length xs = length ys \<and>
        list_all (\<lambda>kv. case map_of ys (fst kv) of
            None \<Rightarrow> False | Some u \<Rightarrow> py_eq (snd kv) u) xs
    | _ \<Rightarrow> False)"
| "py_eq v w = (num_value w \<noteq> None \<and> num_value v = num_value w)"

fun truthy :: "json \<Rightarrow> bool" where
  "truthy JNull = False"
| "truthy (JBool b) = b"
| "truthy (JInt i) = (i \<noteq> 0)"
| "truthy (JFloat r) = (r \<noteq> 0)"
| "truthy (JStr s) = (s \<noteq> [])"
| "truthy (JArr xs) = (xs \<noteq> [])"
| "truthy (JObj xs) = (xs \<noteq> [])"

fun is_dict :: "json \<Rightarrow> bool" where
  "is_dict (JObj _) = True"
| "is_dict _ = False"

fun is_list :: "json \<Rightarrow> bool" where
  "is_list (JArr _) = True"
| "is_list _ = False"

fun is_str :: "json \<Rightarrow> bool" where
  "is_str (JStr _) = True"
| "is_str _ = False"

text \<open>\<open>d.get(k)\<close> and \<open>k in d\<close> on a dictionary.\<close>

definition dict_get :: "(string \<times> json) list \<Rightarrow> string \<Rightarrow> json" where
  "dict_get d k = (case map_of d k of None \<Rightarrow> JNull | Some v \<Rightarrow> v)"

definition dict_has :: "(string \<times> json) list \<Rightarrow> string \<Rightarrow> bool" where
  "dict_has d k \<longleftrightarrow> map_of d k \<noteq> None"

definition dict_set :: "(string \<times> json) list \<Rightarrow> string \<Rightarrow> json \<Rightarrow> (string \<times> json) list" where
  "dict_set d k v = (if dict_has d k
     then map (\<lambda>(k', v'). if k' = k then (k', v) else (k', v')) d else d @ [(k, v)])"

lemma map_of_replace:
  "map_of (map (\<lambda>(k', v'). if k' = k then (k', v) else (k', v')) d) j =
     (if j = k then map_option (\<lambda>_. v) (map_of d k) else map_of d j)"
  by (induction d) auto

lemma dict_get_set [simp]: "dict_get (dict_set d k v) j = (if j = k then v else dict_get d j)"
  by (auto simp: dict_get_def dict_set_def dict_has_def map_of_replace map_add_def
      split: option.splits)

lemma dict_has_set [simp]: "dict_has (dict_set d k v) j \<longleftrightarrow> j = k \<or> dict_has d j"
  by (auto simp: dict_set_def dict_has_def map_of_replace map_add_def split: option.splits)

text \<open>An optional string is false in Python when it is \<open>None\<close> or empty.\<close>

definition opt_truthy :: "string option \<Rightarrow> bool" where
  "opt_truthy x \<longleftrightarrow> x \<noteq> None \<and> x \<noteq> Some []"

definition opt_json :: "string option \<Rightarrow> json" where
  "opt_json x = (case x of None \<Rightarrow> JNull | Some s \<Rightarrow> JStr s)"

definition opt_json_int :: "int option \<Rightarrow> json" where
  "opt_json_int x = (case x of None \<Rightarrow> JNull | Some n \<Rightarrow> JInt n)"

text \<open>\<open>str(v)\<close>, also inside an f-string: a text is itself, \<open>fmt\<close> stands for \<open>str\<close> on other values.\<close>

definition py_str :: "(json \<Rightarrow> string) \<Rightarrow> json \<Rightarrow> string" where
  "py_str fmt v = (case v of JStr s \<Rightarrow> s | _ \<Rightarrow> fmt v)"

section \<open>Exceptions\<close>

datatype part = Lit string | Repr json

type_synonym msg = "part list"

datatype py_exc =
    ValueError msg
  | TypeError msg
  | AttributeError msg
  | KeyError string
  | ConflictError string
  | StaleResourceError string string
  | SessionTokenMismatch string
  | GraphArtifactError nat string
  | IntegrityError
  | AssertionError
  | IndexError
  | GraphExecError string
  | HTTPException nat string

type_synonym 'a res = "py_exc + 'a"

fun is_ValueError :: "py_exc \<Rightarrow> bool" where
  "is_ValueError (ValueError _) = True"
| "is_ValueError _ = False"

fun bind_res :: "'a res \<Rightarrow> ('a \<Rightarrow> 'b res) \<Rightarrow> 'b res" where
  "bind_res (Inl e) f = Inl e"
| "bind_res (Inr x) f = f x"

lemma bind_res_Inr [simp]: "bind_res r f = Inr y \<longleftrightarrow> (\<exists>x. r = Inr x \<and> f x = Inr y)"
  by (cases r) auto

lemma bind_res_Inl: "bind_res r f = Inl e \<longleftrightarrow> r = Inl e \<or> (\<exists>x. r = Inr x \<and> f x = Inl e)"
  by (cases r) auto

text \<open>The same over a state: what was done before the exception stays done.\<close>

definition bind_st :: "'a res \<times> 's \<Rightarrow> ('a \<Rightarrow> 's \<Rightarrow> 'b res \<times> 's) \<Rightarrow> 'b res \<times> 's" where
  "bind_st p f = (case p of (Inl e, s) \<Rightarrow> (Inl e, s) | (Inr x, s) \<Rightarrow> f x s)"

lemma bind_st_simps [simp]: "bind_st (Inl e, s) f = (Inl e, s)" "bind_st (Inr x, s) f = f x s"
  by (simp_all add: bind_st_def)

lemma bind_st_ok: "bind_st p f = (Inr y, s') \<longleftrightarrow> (\<exists>x s. p = (Inr x, s) \<and> f x s = (Inr y, s'))"
  by (auto simp: bind_st_def split: prod.splits sum.splits)

text \<open>A loop whose body may raise: it stops at the first exception.\<close>

fun for_each :: "('a \<Rightarrow> unit res) \<Rightarrow> 'a list \<Rightarrow> unit res" where
  "for_each f [] = Inr ()"
| "for_each f (x # xs) = (case f x of Inl e \<Rightarrow> Inl e | Inr _ \<Rightarrow> for_each f xs)"

lemma for_each_ok: "for_each f xs = Inr u \<longleftrightarrow> (\<forall>x\<in>set xs. f x = Inr ())"
  by (induction xs) (auto split: sum.splits)

lemma for_each_err: "for_each f xs = Inl e \<Longrightarrow> \<exists>x\<in>set xs. f x = Inl e"
  by (induction xs) (auto split: sum.splits)

lemma for_each_cong [fundef_cong]:
  "xs = ys \<Longrightarrow> (\<And>x. x \<in> set ys \<Longrightarrow> f x = g x) \<Longrightarrow> for_each f xs = for_each g ys"
  by (induction xs arbitrary: ys) (auto split: sum.splits)

text \<open>\<open>for x in v\<close> over a JSON value.\<close>

fun py_iter :: "json \<Rightarrow> json list res" where
  "py_iter (JArr xs) = Inr xs"
| "py_iter (JObj d) = Inr (map (JStr \<circ> fst) d)"
| "py_iter (JStr s) = Inr (map (\<lambda>c. JStr [c]) s)"
| "py_iter v = Inl (TypeError [Lit ''object is not iterable''])"

section \<open>Strings\<close>

definition starts_with :: "string \<Rightarrow> string \<Rightarrow> bool" where
  "starts_with p s \<longleftrightarrow> take (length p) s = p"

definition ends_with :: "string \<Rightarrow> string \<Rightarrow> bool" where
  "ends_with p s \<longleftrightarrow> length p \<le> length s \<and> drop (length s - length p) s = p"

fun has_infix :: "string \<Rightarrow> string \<Rightarrow> bool" where
  "has_infix p [] = (p = [])"
| "has_infix p (c # s) = (starts_with p (c # s) \<or> has_infix p s)"

text \<open>\<open>s.partition(c)\<close> at the first occurrence of a character.\<close>

fun str_partition :: "char \<Rightarrow> string \<Rightarrow> string \<times> string" where
  "str_partition c [] = ([], [])"
| "str_partition c (x # xs) =
     (if x = c then ([], xs) else (let (a, b) = str_partition c xs in (x # a, b)))"

lemma str_partition_split:
  "c \<in> set s \<Longrightarrow> s = fst (str_partition c s) @ c # snd (str_partition c s)"
  by (induction s) (auto simp: Let_def split: prod.splits)

lemma str_partition_fst: "c \<notin> set (fst (str_partition c s))"
  by (induction s) (auto simp: Let_def split: prod.splits)

lemma str_partition_append: "c \<notin> set a \<Longrightarrow> str_partition c (a @ c # b) = (a, b)"
  by (induction a) (auto simp: Let_def split: prod.splits)

definition is_space :: "char \<Rightarrow> bool" where
  "is_space c \<longleftrightarrow> c \<in> {CHR '' '', CHR 0x09, CHR 0x0A, CHR 0x0B, CHR 0x0C, CHR 0x0D}"

definition str_rstrip :: "string \<Rightarrow> string" where
  "str_rstrip s = rev (dropWhile is_space (rev s))"

definition str_strip :: "string \<Rightarrow> string" where
  "str_strip s = str_rstrip (dropWhile is_space s)"

definition char_lower :: "char \<Rightarrow> char" where
  "char_lower c = (let n = (of_char c :: nat) in
     if 65 \<le> n \<and> n \<le> 90 then char_of (n + 32) else c)"

definition str_lower :: "string \<Rightarrow> string" where
  "str_lower s = map char_lower s"

fun str_join :: "string \<Rightarrow> string list \<Rightarrow> string" where
  "str_join sep [] = []"
| "str_join sep [x] = x"
| "str_join sep (x # y # r) = x @ sep @ str_join sep (y # r)"

fun digits_of :: "nat \<Rightarrow> string" where
  "digits_of n = (if n < 10 then [char_of (48 + n)] else digits_of (n div 10) @ [char_of (48 + n mod 10)])"

declare digits_of.simps [simp del]

definition str_of_nat :: "nat \<Rightarrow> string" where
  "str_of_nat n = digits_of n"

definition quoted :: "string \<Rightarrow> string" where
  "quoted s = [CHR 0x27] @ s @ [CHR 0x27]"

definition nl :: string where
  "nl = [CHR 0x0A]"

section \<open>Tables\<close>

text \<open>
  A table is the list of its rows in \<open>rowid\<close> order.  \<open>SELECT \<dots> WHERE id = ?\<close> is \<open>row_get\<close>,
  \<open>UPDATE \<dots> WHERE P\<close> is \<open>rows_update\<close>.
\<close>

definition row_get :: "('r \<Rightarrow> 'k) \<Rightarrow> 'k \<Rightarrow> 'r list \<Rightarrow> 'r option" where
  "row_get key k rows = find (\<lambda>r. key r = k) rows"

definition rows_update :: "('r \<Rightarrow> bool) \<Rightarrow> ('r \<Rightarrow> 'r) \<Rightarrow> 'r list \<Rightarrow> 'r list" where
  "rows_update P f rows = map (\<lambda>r. if P r then f r else r) rows"

definition row_count :: "('r \<Rightarrow> bool) \<Rightarrow> 'r list \<Rightarrow> nat" where
  "row_count P rows = length (filter P rows)"

lemma row_get_Some: "row_get key k rows = Some r \<Longrightarrow> key r = k \<and> r \<in> set rows"
  by (auto simp: row_get_def find_Some_iff in_set_conv_nth)

lemma row_get_None: "row_get key k rows = None \<longleftrightarrow> k \<notin> key ` set rows"
  by (auto simp: row_get_def find_None_iff)

lemma row_get_Nil [simp]: "row_get key k [] = None"
  by (simp add: row_get_def)

lemma row_get_Cons [simp]:
  "row_get key k (r # rows) = (if key r = k then Some r else row_get key k rows)"
  by (simp add: row_get_def)

lemma row_get_append:
  "row_get key k (xs @ ys) = (case row_get key k xs of None \<Rightarrow> row_get key k ys | Some r \<Rightarrow> Some r)"
  by (induction xs) auto

lemma row_get_in_set:
  "distinct (map key rows) \<Longrightarrow> r \<in> set rows \<Longrightarrow> row_get key (key r) rows = Some r"
  by (induction rows) auto

lemma length_rows_update [simp]: "length (rows_update P f rows) = length rows"
  by (simp add: rows_update_def)

lemma rows_update_Nil [simp]: "rows_update P f [] = []"
  by (simp add: rows_update_def)

lemma rows_update_none: "(\<And>r. r \<in> set rows \<Longrightarrow> \<not> P r) \<Longrightarrow> rows_update P f rows = rows"
  by (auto simp: rows_update_def intro: map_idI)

lemma set_rows_update: "set (rows_update P f rows) = (\<lambda>r. if P r then f r else r) ` set rows"
  by (simp add: rows_update_def)

lemma rows_update_cases:
  assumes "x \<in> set (rows_update P f rows)"
  obtains "x \<in> set rows" "\<not> P x" | y where "y \<in> set rows" "P y" "x = f y"
  using assms by (auto simp: rows_update_def)

lemma rows_update_image:
  "y \<in> set rows \<Longrightarrow> (if P y then f y else y) \<in> set (rows_update P f rows)"
  by (auto simp: rows_update_def)

lemma find_append: "find P (xs @ ys) = (case find P xs of None \<Rightarrow> find P ys | Some x \<Rightarrow> Some x)"
  by (induction xs) auto

text \<open>
  The interface every repository relies on: a table whose updates never touch the primary key.
\<close>

locale keyed_table =
  fixes key :: "'r \<Rightarrow> 'k"
    and upd :: "'u \<Rightarrow> 'r \<Rightarrow> 'r"
  assumes key_upd: "key (upd u r) = key r"
begin

lemma map_key_update: "map key (rows_update P (upd u) rows) = map key rows"
  by (auto simp: rows_update_def key_upd)

lemma get_update:
  "row_get key k (rows_update P (upd u) rows) =
     map_option (\<lambda>r. if P r then upd u r else r) (row_get key k rows)"
  by (induction rows) (auto simp: rows_update_def key_upd)

lemma get_update_key:
  "row_get key k (rows_update (\<lambda>r. key r = j) (upd u) rows) =
     (if k = j then map_option (upd u) (row_get key k rows) else row_get key k rows)"
  by (induction rows) (auto simp: rows_update_def key_upd)

lemma distinct_update: "distinct (map key (rows_update P (upd u) rows)) = distinct (map key rows)"
  by (simp add: map_key_update)

end

end
