(* ===== verification/Invocation_Model.thy ===== *)
theory Invocation_Model
  imports Prelude
begin

text \<open>
  The invocation contract of \<^verbatim>\<open>models/invocation.py\<close>: result envelopes, targets and the schema
  dialect.  \<open>parse_target\<close>, \<open>validate_request_schema\<close> and \<open>validate_content\<close> are the source's
  functions of these names; every \<open>raise\<close> is a branch, with the exceptions Python itself raises on
  ill-shaped JSON (iterating a number, hashing a list) written out.  \<open>conforms\<close> is the declarative
  reading of a schema that \<open>validate_content\<close> is proved against.
\<close>

section \<open>Envelopes\<close>

datatype action = Accept | Decline | Cancel | Error | Pending

record result_envelope =
  env_action :: action
  env_content :: json
  env_reason :: "msg option"

text \<open>\<open>not self.reason\<close>: absent or the empty string.\<close>

definition reason_missing :: "msg option \<Rightarrow> bool" where
  "reason_missing r \<longleftrightarrow> r = None \<or> r = Some [] \<or> r = Some [Lit []]"

definition ResultEnvelope :: "action \<Rightarrow> json \<Rightarrow> msg option \<Rightarrow> result_envelope res" where
  "ResultEnvelope a c r =
     (if (a = Cancel \<or> a = Error) \<and> reason_missing r
      then Inl (ValueError [Lit ''reason is required when action=''])
      else Inr \<lparr>env_action = a, env_content = c, env_reason = r\<rparr>)"

datatype invocation_status = IPending | IRunning | ICompleted | ICancelled | IErrored

section \<open>Targets\<close>

definition VALID_TARGET_TYPES :: "string list" where
  "VALID_TARGET_TYPES = [''sandbox'', ''agent'', ''human'']"

definition parse_target :: "string list option \<Rightarrow> string \<Rightarrow> (string \<times> string option) res" where
  "parse_target allowed_types target =
     (if target = [] then Inl (ValueError [Lit ''target must be a non-empty string''])
      else
        let (type_part, target_id) =
              (if CHR '':'' \<in> set target
               then (let (t, i) = str_partition CHR '':'' target in (t, if i = [] then None else Some i))
               else (target, None));
            valid = (case allowed_types of Some v \<Rightarrow> v | None \<Rightarrow> VALID_TARGET_TYPES)
        in if type_part \<notin> set valid
           then Inl (ValueError [Lit ''unknown target type: '', Repr (JStr type_part)])
           else if type_part = ''human''
           then (if target_id \<noteq> None then Inl (ValueError [Lit ''human accepts no id''])
                 else Inr (''human'', None))
           else (case target_id of
                   None \<Rightarrow> Inl (ValueError [Lit type_part, Lit '' requires an id''])
                 | Some i \<Rightarrow> Inr (type_part, Some i)))"

text \<open>The rendering \<^verbatim>\<open>InvocationService._run\<close> writes into the \<open>started\<close> event.\<close>

definition format_target :: "string \<Rightarrow> string option \<Rightarrow> string" where
  "format_target t i = t @ (case i of None \<Rightarrow> [] | Some x \<Rightarrow> if x = [] then [] else CHR '':'' # x)"

definition target_spec :: "string list \<Rightarrow> string \<Rightarrow> string \<Rightarrow> string option \<Rightarrow> bool" where
  "target_spec valid s t i \<longleftrightarrow>
     t \<in> set valid \<and> CHR '':'' \<notin> set t \<and> s \<noteq> [] \<and>
     (if t = ''human'' then i = None \<and> (s = ''human'' \<or> s = ''human:'')
      else \<exists>x. i = Some x \<and> x \<noteq> [] \<and> s = t @ CHR '':'' # x)"

lemma parse_target_sound:
  assumes "parse_target (Some v) s = Inr (t, i)"
  shows "target_spec v s t i"
proof (cases "CHR '':'' \<in> set s")
  case True
  obtain a b where ab: "str_partition CHR '':'' s = (a, b)" by fastforce
  then have "s = a @ CHR '':'' # b" "CHR '':'' \<notin> set a"
    using str_partition_split [OF True] str_partition_fst [of "CHR '':''" s] by simp_all
  with assms True ab show ?thesis
    by (auto simp: parse_target_def target_spec_def split: if_splits option.splits)
next
  case False
  with assms show ?thesis
    by (auto simp: parse_target_def target_spec_def split: if_splits option.splits)
qed

lemma parse_target_complete: "target_spec v s t i \<Longrightarrow> parse_target (Some v) s = Inr (t, i)"
proof -
  assume sp: "target_spec v s t i"
  have colon: "str_partition CHR '':'' (t @ CHR '':'' # x) = (t, x)" for x
    using sp by (simp add: target_spec_def str_partition_append)
  show ?thesis
  proof (cases "t = ''human''")
    case True
    with sp colon [of "[]"] show ?thesis
      by (auto simp: parse_target_def target_spec_def)
  next
    case False
    with sp obtain x where x: "i = Some x" "x \<noteq> []" "s = t @ CHR '':'' # x" "t \<in> set v"
      by (auto simp: target_spec_def)
    then have "CHR '':'' \<in> set s" by simp
    with x False colon [of x] show ?thesis
      by (simp add: parse_target_def)
  qed
qed

text \<open>\<open>parse_target\<close> accepts exactly the targets \<open><type>:<id>\<close> of an allowed type with a
  non-empty id (which may itself contain colons), and \<open>human\<close> or \<open>human:\<close> without one.\<close>

theorem parse_target_iff:
  "parse_target (Some v) s = Inr (t, i) \<longleftrightarrow> target_spec v s t i"
  using parse_target_sound parse_target_complete by blast

text \<open>What \<open>parse_target\<close> returns, rendered as the service renders it into the \<open>started\<close>
  event, parses back to the same type and id.\<close>

theorem parse_format_roundtrip:
  assumes "parse_target (Some v) s = Inr (t, i)"
  shows "parse_target (Some v) (format_target t i) = Inr (t, i)"
proof -
  have "target_spec v s t i" using assms by (rule parse_target_sound)
  then have "target_spec v (format_target t i) t i"
    by (cases "t = ''human''") (auto simp: target_spec_def format_target_def)
  then show ?thesis by (rule parse_target_complete)
qed

theorem parse_format_roundtrip_witness:
  "parse_target (Some VALID_TARGET_TYPES) (format_target ''sandbox'' (Some ''a:b''))
     = Inr (''sandbox'', Some ''a:b'')"
proof -
  have "parse_target (Some VALID_TARGET_TYPES) ''sandbox:a:b'' = Inr (''sandbox'', Some ''a:b'')"
    by (simp add: parse_target_def VALID_TARGET_TYPES_def)
  then show ?thesis by (rule parse_format_roundtrip)
qed

section \<open>The schema dialect\<close>

definition PRIMITIVE_TYPES :: "string list" where
  "PRIMITIVE_TYPES = [''string'', ''number'', ''integer'', ''boolean'']"

text \<open>\<open>t in frozenset(...)\<close>: a list or dictionary is not hashable and raises.\<close>

fun in_primitives :: "json \<Rightarrow> bool res" where
  "in_primitives (JArr _) = Inl (TypeError [Lit ''unhashable type: list''])"
| "in_primitives (JObj _) = Inl (TypeError [Lit ''unhashable type: dict''])"
| "in_primitives (JStr s) = Inr (s \<in> set PRIMITIVE_TYPES)"
| "in_primitives _ = Inr False"

definition prop_error :: "string \<Rightarrow> string \<Rightarrow> py_exc" where
  "prop_error name what = ValueError [Lit ''property '', Repr (JStr name), Lit what]"

definition validate_branches :: "string \<Rightarrow> string \<Rightarrow> json list \<Rightarrow> unit res" where
  "validate_branches name what bs = for_each (\<lambda>b. case b of
       JObj d \<Rightarrow> if dict_has d ''const'' then Inr () else Inl (prop_error name what)
     | _ \<Rightarrow> Inl (prop_error name what)) bs"

definition validate_array_items :: "string \<Rightarrow> json \<Rightarrow> unit res" where
  "validate_array_items name items = (case items of
       JObj d \<Rightarrow>
         (if dict_has d ''anyOf''
          then bind_res (py_iter (dict_get d ''anyOf''))
                 (validate_branches name '': array items.anyOf branches must be {const, title}'')
          else if dict_get d ''type'' = JStr ''object''
          then Inl (prop_error name '': array of objects is not supported'')
          else bind_res (in_primitives (dict_get d ''type'')) (\<lambda>prim.
                 if prim then Inr ()
                 else Inl (prop_error name '': array items must be a primitive type'')))
     | _ \<Rightarrow> Inl (prop_error name '': array items must be an object schema''))"

definition validate_property_schema :: "string \<Rightarrow> json \<Rightarrow> unit res" where
  "validate_property_schema name prop = (case prop of
       JObj d \<Rightarrow>
         (if dict_has d ''oneOf''
          then bind_res (py_iter (dict_get d ''oneOf''))
                 (validate_branches name '': oneOf branches must be {const, title}'')
          else bind_res (in_primitives (dict_get d ''type'')) (\<lambda>prim.
                 if prim then Inr ()
                 else if dict_get d ''type'' = JStr ''array''
                 then validate_array_items name (dict_get d ''items'')
                 else if dict_get d ''type'' = JStr ''object''
                 then Inl (prop_error name '': nested objects are not supported in this dialect'')
                 else Inl (ValueError [Lit ''property '', Repr (JStr name), Lit '': unsupported type '',
                        Repr (dict_get d ''type'')])))
     | _ \<Rightarrow> Inl (prop_error name '' must be an object schema''))"

definition validate_request_schema :: "json \<Rightarrow> unit res" where
  "validate_request_schema schema = (case schema of
       JObj d \<Rightarrow>
         (if dict_get d ''type'' \<noteq> JStr ''object''
          then Inl (ValueError [Lit ''schema root must be an object''])
          else (case dict_get d ''properties'' of
                  JNull \<Rightarrow> Inr ()
                | JObj ps \<Rightarrow> for_each (\<lambda>(name, prop). validate_property_schema name prop) ps
                | _ \<Rightarrow> Inl (ValueError [Lit ''schema.properties must be an object''])))
     | _ \<Rightarrow> Inl (ValueError [Lit ''schema must be a JSON object'']))"

section \<open>Checking content\<close>

definition mismatch :: "part list \<Rightarrow> py_exc" where
  "mismatch ps = ValueError (Lit ''schema_mismatch: '' # ps)"

definition is_mismatch :: "py_exc \<Rightarrow> bool" where
  "is_mismatch e \<longleftrightarrow> (\<exists>ps. e = mismatch ps)"

text \<open>\<open>[b.get("const") for b in bs]\<close>\<close>

fun consts_of :: "json list \<Rightarrow> json list res" where
  "consts_of [] = Inr []"
| "consts_of (JObj d # bs) = bind_res (consts_of bs) (\<lambda>cs. Inr (dict_get d ''const'' # cs))"
| "consts_of (b # bs) = Inl (AttributeError [Lit ''object has no attribute get''])"

definition branch_consts :: "json \<Rightarrow> json list res" where
  "branch_consts j = bind_res (py_iter j) consts_of"

definition check_const :: "json \<Rightarrow> string \<Rightarrow> json \<Rightarrow> unit res" where
  "check_const branches key value = bind_res (branch_consts branches) (\<lambda>consts.
     if list_ex (py_eq value) consts then Inr ()
     else Inl (mismatch [Repr (JStr key), Repr value, Lit '' not in oneOf '', Repr (JArr consts)]))"

text \<open>\<open>value in container\<close> for a string value: list, dictionary or substring membership.\<close>

fun str_in :: "string \<Rightarrow> json \<Rightarrow> bool res" where
  "str_in s (JArr xs) = Inr (JStr s \<in> set xs)"
| "str_in s (JObj d) = Inr (dict_has d s)"
| "str_in s (JStr t) = Inr (has_infix s t)"
| "str_in s v = Inl (TypeError [Lit ''argument is not iterable''])"

definition check_scalar :: "(string \<times> json) list \<Rightarrow> string \<Rightarrow> string \<Rightarrow> json \<Rightarrow> unit res" where
  "check_scalar prop t key value =
     (let wrong = Inl (mismatch [Repr (JStr key), Lit '' expected '', Lit t]) in
      if t = ''string'' then (case value of
          JStr s \<Rightarrow>
            (if dict_has prop ''enum''
             then bind_res (str_in s (dict_get prop ''enum'')) (\<lambda>b. if b then Inr ()
                    else Inl (mismatch [Repr (JStr key), Repr value, Lit '' not in enum '',
                           Repr (dict_get prop ''enum'')]))
             else Inr ())
        | _ \<Rightarrow> wrong)
      else if t = ''number'' then (case value of JInt _ \<Rightarrow> Inr () | JFloat _ \<Rightarrow> Inr () | _ \<Rightarrow> wrong)
      else if t = ''integer'' then (case value of JInt _ \<Rightarrow> Inr () | _ \<Rightarrow> wrong)
      else if t = ''boolean'' then (case value of JBool _ \<Rightarrow> Inr () | _ \<Rightarrow> wrong)
      else Inl (mismatch [Repr (JStr key), Lit '' unsupported schema type '', Lit t]))"

text \<open>\<open>items = prop.get("items") or {}\<close>; an ill-shaped \<open>items\<close> raises at its first use.\<close>

definition items_of :: "(string \<times> json) list \<Rightarrow> (string \<times> json) list res" where
  "items_of prop = (let it = dict_get prop ''items'' in
     if \<not> truthy it then Inr []
     else (case it of
         JObj d \<Rightarrow> Inr d
       | JStr s \<Rightarrow> if has_infix ''anyOf'' s then Inl (TypeError []) else Inl (AttributeError [])
       | JArr xs \<Rightarrow> if JStr ''anyOf'' \<in> set xs then Inl (TypeError []) else Inl (AttributeError [])
       | _ \<Rightarrow> Inl (TypeError [])))"

fun check_value :: "(string \<times> json) list \<Rightarrow> string \<Rightarrow> json \<Rightarrow> unit res"
  and check_items :: "(string \<times> json) list \<Rightarrow> string \<Rightarrow> json list \<Rightarrow> unit res" where
  "check_value prop key value =
     (if dict_has prop ''oneOf'' then check_const (dict_get prop ''oneOf'') key value
      else (case dict_get prop ''type'' of
          JStr t \<Rightarrow>
            (if t = ''array'' then
               (case value of
                  JArr vs \<Rightarrow> (case items_of prop of
                      Inl e \<Rightarrow> Inl e
                    | Inr items \<Rightarrow>
                        (if dict_has items ''anyOf''
                         then bind_res (branch_consts (dict_get items ''anyOf'')) (\<lambda>consts.
                                for_each (\<lambda>v. if list_ex (py_eq v) consts then Inr ()
                                  else Inl (mismatch [Repr (JStr key), Lit '' item '', Repr v,
                                         Lit '' not in oneOf '', Repr (JArr consts)])) vs)
                         else check_items (dict_set items ''type'' (dict_get items ''type''))
                                (key @ ''[]'') vs))
                | _ \<Rightarrow> Inl (mismatch [Repr (JStr key), Lit '' expected array'']))
             else check_scalar prop t key value)
        | t \<Rightarrow> Inl (mismatch [Repr (JStr key), Lit '' unsupported schema type '', Repr t])))"
| "check_items prop key [] = Inr ()"
| "check_items prop key (v # vs) =
     (case check_value prop key v of Inl e \<Rightarrow> Inl e | Inr _ \<Rightarrow> check_items prop key vs)"

declare check_value.simps [simp del]

lemma check_items_for_each: "check_items prop key vs = for_each (check_value prop key) vs"
  by (induction vs) (auto split: sum.splits)

text \<open>\<open>properties[key]\<close> after \<open>key in properties\<close>; \<open>None\<close> is the \<open>continue\<close>.\<close>

definition lookup_property :: "json \<Rightarrow> string \<Rightarrow> json option res" where
  "lookup_property properties key = (if \<not> truthy properties then Inr None
     else (case properties of
         JObj d \<Rightarrow> Inr (if dict_has d key then Some (dict_get d key) else None)
       | JStr s \<Rightarrow> if has_infix key s then Inl (TypeError []) else Inr None
       | JArr xs \<Rightarrow> if JStr key \<in> set xs then Inl (TypeError []) else Inr None
       | _ \<Rightarrow> Inl (TypeError [])))"

definition check_property :: "json \<Rightarrow> string \<Rightarrow> json \<Rightarrow> unit res" where
  "check_property prop key value = (case prop of
       JObj d \<Rightarrow> check_value d key value
     | JStr s \<Rightarrow> if has_infix ''oneOf'' s then Inl (TypeError []) else Inl (AttributeError [])
     | JArr xs \<Rightarrow> if JStr ''oneOf'' \<in> set xs then Inl (TypeError []) else Inl (AttributeError [])
     | _ \<Rightarrow> Inl (TypeError []))"

definition check_required :: "(string \<times> json) list \<Rightarrow> json \<Rightarrow> unit res" where
  "check_required content req = (case req of
       JArr _ \<Rightarrow> Inl (TypeError [])
     | JObj _ \<Rightarrow> Inl (TypeError [])
     | JStr s \<Rightarrow> if dict_has content s then Inr ()
                else Inl (mismatch [Lit ''missing required field '', Repr req])
     | _ \<Rightarrow> Inl (mismatch [Lit ''missing required field '', Repr req]))"

definition validate_content :: "(string \<times> json) list \<Rightarrow> json \<Rightarrow> unit res" where
  "validate_content schema content =
     (if dict_get schema ''type'' \<noteq> JStr ''object''
      then Inl (mismatch [Lit ''schema root must be object (rejected upstream)''])
      else (case content of
          JObj c \<Rightarrow>
            (let required = dict_get schema ''required'' in
             bind_res (if truthy required then py_iter required else Inr []) (\<lambda>reqs.
             bind_res (for_each (check_required c) reqs) (\<lambda>_.
             for_each (\<lambda>(key, value).
               bind_res (lookup_property (dict_get schema ''properties'') key) (\<lambda>p. case p of
                   None \<Rightarrow> Inr ()
                 | Some prop \<Rightarrow> check_property prop key value)) c)))
        | _ \<Rightarrow> Inl (mismatch [Lit ''content must be an object''])))"

section \<open>What a schema means\<close>

text \<open>
  The declarative reading: \<open>conforms d v\<close> says that \<open>v\<close> is a value of the property schema \<open>d\<close>.
  \<open>strict_prop\<close> is the part of well-formedness that \<open>validate_request_schema\<close> does not check.
\<close>

fun branch_values :: "json \<Rightarrow> json list" where
  "branch_values (JArr bs) = concat (map (\<lambda>b. case b of JObj d \<Rightarrow> [dict_get d ''const''] | _ \<Rightarrow> []) bs)"
| "branch_values _ = []"

fun json_list :: "json \<Rightarrow> json list" where
  "json_list (JArr xs) = xs"
| "json_list _ = []"

fun json_dict :: "json \<Rightarrow> (string \<times> json) list" where
  "json_dict (JObj d) = d"
| "json_dict _ = []"

fun scalar_conforms :: "(string \<times> json) list \<Rightarrow> string \<Rightarrow> json \<Rightarrow> bool" where
  "scalar_conforms d t (JStr s) \<longleftrightarrow> t = ''string'' \<and>
     (dict_has d ''enum'' \<longrightarrow> JStr s \<in> set (json_list (dict_get d ''enum'')))"
| "scalar_conforms d t (JInt _) \<longleftrightarrow> t = ''number'' \<or> t = ''integer''"
| "scalar_conforms d t (JFloat _) \<longleftrightarrow> t = ''number''"
| "scalar_conforms d t (JBool _) \<longleftrightarrow> t = ''boolean''"
| "scalar_conforms d t _ \<longleftrightarrow> False"

definition type_name :: "(string \<times> json) list \<Rightarrow> string" where
  "type_name d = (case dict_get d ''type'' of JStr t \<Rightarrow> t | _ \<Rightarrow> [])"

definition conforms :: "(string \<times> json) list \<Rightarrow> json \<Rightarrow> bool" where
  "conforms d v \<longleftrightarrow>
     (if dict_has d ''oneOf'' then list_ex (py_eq v) (branch_values (dict_get d ''oneOf''))
      else if type_name d = ''array'' then
        (let items = json_dict (dict_get d ''items'') in
         is_list v \<and>
         (\<forall>x\<in>set (json_list v).
            if dict_has items ''anyOf'' then list_ex (py_eq x) (branch_values (dict_get items ''anyOf''))
            else scalar_conforms items (type_name items) x))
      else scalar_conforms d (type_name d) v)"

definition enum_ok :: "(string \<times> json) list \<Rightarrow> bool" where
  "enum_ok d \<longleftrightarrow> dict_has d ''enum'' \<longrightarrow> is_list (dict_get d ''enum'')"

definition strict_prop :: "(string \<times> json) list \<Rightarrow> bool" where
  "strict_prop d \<longleftrightarrow>
     (if dict_has d ''oneOf'' then is_list (dict_get d ''oneOf'')
      else enum_ok d \<and> (type_name d = ''array'' \<longrightarrow>
        (let items = json_dict (dict_get d ''items'') in
         if dict_has items ''anyOf'' then is_list (dict_get items ''anyOf'')
         else enum_ok items \<and> \<not> dict_has items ''oneOf'')))"

definition strict_schema :: "(string \<times> json) list \<Rightarrow> bool" where
  "strict_schema s \<longleftrightarrow>
     (truthy (dict_get s ''required'') \<longrightarrow>
        is_list (dict_get s ''required'') \<and> list_all is_str (json_list (dict_get s ''required''))) \<and>
     (\<forall>(k, p)\<in>set (json_dict (dict_get s ''properties'')). strict_prop (json_dict p))"

definition content_ok :: "(string \<times> json) list \<Rightarrow> (string \<times> json) list \<Rightarrow> bool" where
  "content_ok s c \<longleftrightarrow>
     (\<forall>r\<in>set (json_list (dict_get s ''required'')). \<forall>k. r = JStr k \<longrightarrow> dict_has c k) \<and>
     (\<forall>(k, v)\<in>set c. dict_has (json_dict (dict_get s ''properties'')) k \<longrightarrow>
        conforms (json_dict (dict_get (json_dict (dict_get s ''properties'')) k)) v)"

text \<open>\<open>agrees r P\<close>: the check \<open>r\<close> decides \<open>P\<close>, and can only fail with a \<open>schema_mismatch\<close>.\<close>

definition agrees :: "unit res \<Rightarrow> bool \<Rightarrow> bool" where
  "agrees r P \<longleftrightarrow> (if P then r = Inr () else \<exists>e. r = Inl e \<and> is_mismatch e)"

lemma agreesI_if: "(P \<Longrightarrow> r = Inr ()) \<Longrightarrow> (\<not> P \<Longrightarrow> \<exists>ps. r = Inl (mismatch ps)) \<Longrightarrow> agrees r P"
  by (auto simp: agrees_def is_mismatch_def)

lemma agrees_simps [simp]: "agrees (Inr ()) P = P" "agrees (Inl (mismatch ps)) P = (\<not> P)"
  by (auto simp: agrees_def is_mismatch_def)

lemma agrees_then:
  "agrees r P \<Longrightarrow> (P \<Longrightarrow> agrees r' Q) \<Longrightarrow> agrees (bind_res r (\<lambda>_. r')) (P \<and> Q)"
  by (cases r) (auto simp: agrees_def split: if_splits)

lemma for_each_Cons_bind: "for_each f (x # xs) = bind_res (f x) (\<lambda>_. for_each f xs)"
  by (cases "f x") auto

lemma agrees_for_each:
  "(\<And>x. x \<in> set xs \<Longrightarrow> agrees (f x) (P x)) \<Longrightarrow> agrees (for_each f xs) (\<forall>x\<in>set xs. P x)"
proof (induction xs)
  case (Cons a xs)
  then have "agrees (bind_res (f a) (\<lambda>_. for_each f xs)) (P a \<and> (\<forall>x\<in>set xs. P x))"
    by (intro agrees_then) auto
  then show ?case by (simp add: for_each_Cons_bind del: for_each.simps)
qed simp

lemma consts_of_validated:
  assumes "validate_branches n w bs = Inr ()"
  shows "consts_of bs = Inr (branch_values (JArr bs))"
  using assms unfolding validate_branches_def
  by (induction bs) (auto split: json.splits if_splits sum.splits)

lemma check_const_agrees:
  assumes "bind_res (py_iter j) (validate_branches n w) = Inr ()" "is_list j"
  shows "agrees (check_const j key v) (list_ex (py_eq v) (branch_values j))"
  using assms by (cases j) (auto simp: check_const_def branch_consts_def dest: consts_of_validated)

lemma check_scalar_agrees:
  assumes "t \<in> set PRIMITIVE_TYPES" "enum_ok d"
  shows "agrees (check_scalar d t key v) (scalar_conforms d t v)"
  using assms
  by (cases v; cases "dict_get d ''enum''")
    (auto simp: check_scalar_def Let_def PRIMITIVE_TYPES_def enum_ok_def)

lemma in_primitives_True: "in_primitives t = Inr True \<longleftrightarrow> (\<exists>s. t = JStr s \<and> s \<in> set PRIMITIVE_TYPES)"
  by (cases t) auto

lemma array_not_primitive: "''array'' \<notin> set PRIMITIVE_TYPES"
  by (simp add: PRIMITIVE_TYPES_def)

lemma check_scalar_typed:
  "check_scalar (dict_set items ''type'' t) u key v = check_scalar items u key v"
  by (cases v) (simp_all add: check_scalar_def Let_def cong: if_cong)

lemma check_item_agrees:
  assumes "in_primitives (dict_get items ''type'') = Inr True" "enum_ok items"
    "\<not> dict_has items ''oneOf''"
  shows "agrees (check_value (dict_set items ''type'' (dict_get items ''type'')) key v)
           (scalar_conforms items (type_name items) v)"
proof -
  obtain t where t: "dict_get items ''type'' = JStr t" "t \<in> set PRIMITIVE_TYPES"
    using assms(1) by (auto simp: in_primitives_True)
  then have "t \<noteq> ''array''" using array_not_primitive by auto
  then show ?thesis
    using t assms check_scalar_agrees [of t items key v]
    by (simp add: check_value.simps check_scalar_typed type_name_def)
qed

lemma check_array_agrees:
  assumes "validate_array_items n (dict_get d ''items'') = Inr ()"
    "dict_get d ''type'' = JStr ''array''" "\<not> dict_has d ''oneOf''" "strict_prop d"
  shows "agrees (check_value d key v) (conforms d v)"
proof (cases v)
  case (JArr vs)
  obtain items where items: "dict_get d ''items'' = JObj items"
    using assms(1) by (auto simp: validate_array_items_def split: json.splits)
  then have ne: "items \<noteq> []"
    using assms(1) by (auto simp: validate_array_items_def dict_has_def dict_get_def)
  show ?thesis
  proof (cases "dict_has items ''anyOf''")
    case True
    then have "branch_consts (dict_get items ''anyOf'') = Inr (branch_values (dict_get items ''anyOf''))"
      using assms items
      by (cases "dict_get items ''anyOf''")
        (auto simp: validate_array_items_def strict_prop_def type_name_def Let_def branch_consts_def
           dest: consts_of_validated)
    with True JArr items ne assms show ?thesis
      by (auto simp: check_value.simps items_of_def conforms_def type_name_def Let_def
          intro!: agrees_for_each)
  next
    case False
    then have it: "in_primitives (dict_get items ''type'') = Inr True"
      using assms items by (auto simp: validate_array_items_def split: if_splits)
    have st: "enum_ok items" "\<not> dict_has items ''oneOf''"
      using assms items False by (auto simp: strict_prop_def type_name_def Let_def)
    show ?thesis
      using False JArr items ne assms check_item_agrees [OF it st]
      by (auto simp: check_value.simps items_of_def conforms_def type_name_def [of d] Let_def
          check_items_for_each intro!: agrees_for_each)
  qed
qed (use assms in \<open>auto simp: check_value.simps conforms_def type_name_def\<close>)

lemma check_value_agrees:
  assumes "validate_property_schema n (JObj d) = Inr ()" "strict_prop d"
  shows "agrees (check_value d key v) (conforms d v)"
proof (cases "dict_has d ''oneOf''")
  case True
  with assms show ?thesis
    by (auto simp: check_value.simps conforms_def validate_property_schema_def strict_prop_def
        intro!: check_const_agrees)
next
  case False
  then obtain t where t: "dict_get d ''type'' = JStr t" "t \<in> set PRIMITIVE_TYPES \<or> t = ''array''"
    using assms
    by (cases "dict_get d ''type''") (auto simp: validate_property_schema_def split: if_splits)
  show ?thesis
  proof (cases "t = ''array''")
    case True
    with t False assms show ?thesis
      by (intro check_array_agrees)
        (auto simp: validate_property_schema_def array_not_primitive)
  next
    case no: False
    with t False assms check_scalar_agrees [of t d key v] show ?thesis
      by (auto simp: check_value.simps conforms_def type_name_def strict_prop_def)
  qed
qed

lemma dict_has_in_set: "dict_has d k \<Longrightarrow> (k, dict_get d k) \<in> set d"
  by (auto simp: dict_has_def dict_get_def dest: map_of_SomeD)

lemma check_required_agrees:
  "is_str r \<Longrightarrow> agrees (check_required c r) (\<forall>k. r = JStr k \<longrightarrow> dict_has c k)"
  by (cases r) (auto simp: check_required_def)

lemma lookup_property_schema:
  assumes "validate_request_schema (JObj s) = Inr ()"
  shows "lookup_property (dict_get s ''properties'') k =
     Inr (if dict_has (json_dict (dict_get s ''properties'')) k
          then Some (dict_get (json_dict (dict_get s ''properties'')) k) else None)"
  using assms
  by (cases "dict_get s ''properties''")
    (auto simp: validate_request_schema_def lookup_property_def dict_has_def split: if_splits)

lemma declared_property_agrees:
  assumes "validate_request_schema (JObj s) = Inr ()" "strict_schema s"
    and "dict_has (json_dict (dict_get s ''properties'')) k"
  shows "agrees (check_property (dict_get (json_dict (dict_get s ''properties'')) k) k v)
           (conforms (json_dict (dict_get (json_dict (dict_get s ''properties'')) k)) v)"
proof -
  obtain ps where ps: "dict_get s ''properties'' = JObj ps"
    using assms by (cases "dict_get s ''properties''") (auto simp: dict_has_def)
  let ?p = "dict_get ps k"
  have mem: "(k, ?p) \<in> set ps" using assms(3) ps dict_has_in_set by simp
  then have val: "validate_property_schema k ?p = Inr ()"
    using assms(1) ps by (force simp: validate_request_schema_def for_each_ok split: if_splits)
  then obtain d where d: "?p = JObj d"
    by (auto simp: validate_property_schema_def split: json.splits)
  moreover have "strict_prop d"
    using assms(2) ps mem d by (force simp: strict_schema_def)
  ultimately show ?thesis
    using check_value_agrees [of k d] val ps by (simp add: check_property_def)
qed

lemma validate_content_dict:
  assumes ok: "validate_request_schema (JObj s) = Inr ()" and st: "strict_schema s"
  shows "agrees (validate_content s (JObj c)) (content_ok s c)"
proof -
  let ?req = "dict_get s ''required''"
  have obj: "dict_get s ''type'' = JStr ''object''"
    using ok by (auto simp: validate_request_schema_def split: if_splits)
  have reqs: "(if truthy ?req then py_iter ?req else Inr []) = Inr (json_list ?req)"
    using st by (cases ?req) (auto simp: strict_schema_def)
  have strs: "\<forall>r\<in>set (json_list ?req). is_str r"
    using st by (cases ?req) (auto simp: strict_schema_def list_all_iff)
  have r: "agrees (for_each (check_required c) (json_list ?req))
     (\<forall>r\<in>set (json_list ?req). \<forall>k. r = JStr k \<longrightarrow> dict_has c k)"
    by (rule agrees_for_each) (use strs check_required_agrees in blast)
  have v: "agrees (for_each (\<lambda>(key, value).
       bind_res (lookup_property (dict_get s ''properties'') key) (\<lambda>p. case p of
           None \<Rightarrow> Inr () | Some prop \<Rightarrow> check_property prop key value)) c)
     (\<forall>x\<in>set c. case x of (k, v) \<Rightarrow> dict_has (json_dict (dict_get s ''properties'')) k \<longrightarrow>
        conforms (json_dict (dict_get (json_dict (dict_get s ''properties'')) k)) v)"
    by (rule agrees_for_each)
      (use ok st in \<open>auto simp: lookup_property_schema declared_property_agrees split: prod.splits\<close>)
  show ?thesis
    using agrees_then [OF r v] obj reqs by (simp add: validate_content_def content_ok_def)
qed

text \<open>C1: for a schema that passed \<open>validate_request_schema\<close> and is strict, \<open>validate_content\<close>
  accepts exactly the dictionaries that have the required fields and whose declared fields conform
  to their property schemas, and every rejection is a \<open>schema_mismatch\<close> ValueError.\<close>

theorem validate_content_decides:
  assumes "validate_request_schema (JObj s) = Inr ()" "strict_schema s"
  shows "(validate_content s content = Inr () \<longleftrightarrow> (\<exists>c. content = JObj c \<and> content_ok s c)) \<and>
         (\<forall>e. validate_content s content = Inl e \<longrightarrow> is_mismatch e)"
proof (cases content)
  case (JObj c)
  with validate_content_dict [OF assms, of c] show ?thesis
    by (auto simp: agrees_def split: if_splits)
qed (use assms in \<open>auto simp: validate_content_def is_mismatch_def validate_request_schema_def
       split: if_splits\<close>)

definition sample_schema :: "(string \<times> json) list" where
  "sample_schema = [(''type'', JStr ''object''),
     (''required'', JArr [JStr ''ok'']),
     (''properties'', JObj [(''ok'', JObj [(''type'', JStr ''boolean'')]),
        (''tags'', JObj [(''type'', JStr ''array''), (''items'', JObj [(''type'', JStr ''string'')])])])]"

theorem validate_content_decides_witness:
  "validate_content sample_schema (JObj [(''ok'', JBool True), (''tags'', JArr [JStr ''x''])]) = Inr ()"
proof -
  have v: "validate_request_schema (JObj sample_schema) = Inr ()"
    by (simp add: sample_schema_def validate_request_schema_def dict_get_def dict_has_def
        validate_property_schema_def validate_array_items_def PRIMITIVE_TYPES_def)
  have st: "strict_schema sample_schema"
    by (simp add: sample_schema_def strict_schema_def strict_prop_def dict_get_def dict_has_def
        enum_ok_def type_name_def)
  have c: "content_ok sample_schema [(''ok'', JBool True), (''tags'', JArr [JStr ''x''])]"
    by (simp add: sample_schema_def content_ok_def conforms_def dict_get_def dict_has_def type_name_def)
  show ?thesis using validate_content_decides [OF v st] c by blast
qed

text \<open>The dialect check is not strict: a string property whose \<open>enum\<close> is a number passes
  \<open>validate_request_schema\<close>, and \<open>validate_content\<close> then raises TypeError, which is not the
  ValueError its callers catch.\<close>

theorem accepted_schema_can_crash:
  "\<exists>s c. validate_request_schema (JObj s) = Inr () \<and>
     (\<exists>m. validate_content s (JObj c) = Inl (TypeError m))"
proof -
  let ?s = "[(''type'', JStr ''object''),
     (''properties'', JObj [(''a'', JObj [(''type'', JStr ''string''), (''enum'', JInt 5)])])]"
  have "validate_request_schema (JObj ?s) = Inr ()"
    by (simp add: validate_request_schema_def dict_get_def dict_has_def
        validate_property_schema_def PRIMITIVE_TYPES_def)
  moreover have "\<exists>m. validate_content ?s (JObj [(''a'', JStr ''x'')]) = Inl (TypeError m)"
    by (simp add: validate_content_def dict_get_def dict_has_def lookup_property_def
        check_property_def check_value.simps check_scalar_def)
  ultimately show ?thesis by blast
qed

text \<open>A property whose \<open>type\<close> is a JSON list (as JSON Schema allows) makes
  \<open>validate_request_schema\<close> raise TypeError instead of the ValueError its docstring promises.\<close>

theorem type_list_not_rejected_cleanly:
  "\<exists>m. validate_request_schema (JObj [(''type'', JStr ''object''),
     (''properties'', JObj [(name, JObj [(''type'', JArr ts)])])]) = Inl (TypeError m)"
  by (simp add: validate_request_schema_def dict_get_def dict_has_def validate_property_schema_def)

end
