(* ===== verification/Event_Tape.thy ===== *)
theory Event_Tape
  imports Prelude
begin

text \<open>
  Append-only logs whose entries get a server-side number.  The locale \<open>numbered_log\<close> is the contract
  that SSE replay and the tape readers rely on; \<open>InvocationEventRepo\<close>
  (\<^verbatim>\<open>repositories/invocation_event_repo.py\<close>) provides it per tape, and the watch log of
  \<^verbatim>\<open>watch/store.py\<close> provides it in theory \<open>Watch\<close>.
\<close>

section \<open>The contract of a numbered log\<close>

locale numbered_log =
  fixes entries :: "'s \<Rightarrow> 'e list"
    and number :: "'e \<Rightarrow> int"
    and append :: "'a \<Rightarrow> 's \<Rightarrow> 's"
    and invar :: "'s \<Rightarrow> bool"
  assumes append_last: "invar s \<Longrightarrow> \<exists>e. entries (append a s) = entries s @ [e] \<and>
            (\<forall>x\<in>set (entries s). number x < number e)"
    and invar_append: "invar s \<Longrightarrow> invar (append a s)"
begin

definition run :: "'a list \<Rightarrow> 's \<Rightarrow> 's" where
  "run as s = fold append as s"

definition since :: "int \<Rightarrow> 's \<Rightarrow> 'e list" where
  "since k s = filter (\<lambda>e. k < number e) (entries s)"

lemma invar_run: "invar s \<Longrightarrow> invar (run as s)"
  unfolding run_def by (induction as arbitrary: s) (auto intro: invar_append)

lemma run_extends: "invar s \<Longrightarrow> \<exists>es. entries (run as s) = entries s @ es \<and> length es = length as"
proof (induction as arbitrary: s)
  case (Cons a as)
  obtain e where e: "entries (append a s) = entries s @ [e]"
    using append_last [OF Cons.prems] by blast
  obtain es where "entries (run as (append a s)) = entries (append a s) @ es" "length es = length as"
    using Cons.IH [OF invar_append [OF Cons.prems]] by blast
  with e have "entries (run (a # as) s) = entries s @ (e # es)" by (simp add: run_def)
  with \<open>length es = length as\<close> show ?case by (metis length_Cons)
qed (simp add: run_def)

lemma append_sorted:
  assumes "invar s" "sorted_wrt (<) (map number (entries s))"
  shows "sorted_wrt (<) (map number (entries (append a s)))"
  using append_last [OF assms(1), of a] assms(2) by (auto simp: sorted_wrt_append)

lemma run_sorted:
  "invar s \<Longrightarrow> sorted_wrt (<) (map number (entries s)) \<Longrightarrow>
     sorted_wrt (<) (map number (entries (run as s)))"
  unfolding run_def
  by (induction as arbitrary: s) (auto intro: invar_append append_sorted)

text \<open>A reader that has seen everything up to its cursor misses nothing on the next read.\<close>

lemma since_run:
  assumes inv: "invar s" and cur: "\<forall>e\<in>set (entries s). number e \<le> k"
    and new: "\<forall>e\<in>set (entries (run as s)). e \<notin> set (entries s) \<longrightarrow> k < number e"
    and sorted: "sorted_wrt (<) (map number (entries s))"
  shows "entries (run as s) = entries s @ since k (run as s)"
proof -
  obtain es where es: "entries (run as s) = entries s @ es"
    using run_extends [OF inv] by blast
  have ord: "sorted_wrt (<) (map number (entries s @ es))"
    using run_sorted [OF inv sorted] es by metis
  have "\<forall>e\<in>set es. k < number e"
  proof
    fix e assume "e \<in> set es"
    moreover from ord this have "e \<notin> set (entries s)"
      by (auto simp: sorted_wrt_append)
    ultimately show "k < number e" using new es by auto
  qed
  then have "filter (\<lambda>e. k < number e) es = es" by simp
  moreover have "filter (\<lambda>e. k < number e) (entries s) = []"
    using cur by (auto simp: filter_empty_conv)
  ultimately show ?thesis by (simp add: since_def es)
qed

end

section \<open>Invocation tapes\<close>

datatype actor_type = ABrain | ASandbox | AHuman | ASystem

datatype event_kind = KStarted | KDone | KThinking | KToolCall | KToolResult | KReply
  | KOutput | KDiff | KArtifact | KElicit | KDecision | KMilestone | KFork | KHandoff

record inv_event =
  ev_tape_id :: string
  ev_id :: int
  ev_parent_id :: "int option"
  ev_fork_id :: "string option"
  ev_actor_type :: actor_type
  ev_actor_id :: string
  ev_kind :: event_kind
  ev_body :: string
  ev_payload :: json
  ev_ts :: int

text \<open>What the caller of \<open>append\<close> supplies; the repository adds the tape, the id and the time.\<close>

record event_spec =
  sp_kind :: event_kind
  sp_body :: string
  sp_payload :: json
  sp_actor_type :: actor_type
  sp_actor_id :: string
  sp_parent_id :: "int option"

definition tape_rows :: "string \<Rightarrow> inv_event list \<Rightarrow> inv_event list" where
  "tape_rows t rows = filter (\<lambda>e. ev_tape_id e = t) rows"

text \<open>\<open>MAX(id)\<close> over the tape; SQL NULL when the tape has no row.\<close>

definition max_id :: "string \<Rightarrow> inv_event list \<Rightarrow> int option" where
  "max_id t rows = (case map ev_id (tape_rows t rows) of
      [] \<Rightarrow> None | x # xs \<Rightarrow> Some (fold max xs x))"

definition next_event_id :: "string \<Rightarrow> inv_event list \<Rightarrow> int" where
  "next_event_id t rows = (case max_id t rows of None \<Rightarrow> -1 | Some m \<Rightarrow> m) + 1"

definition tape_append :: "string \<Rightarrow> event_spec \<Rightarrow> int \<Rightarrow> inv_event list \<Rightarrow> inv_event \<times> inv_event list" where
  "tape_append t sp now rows =
     (let e = \<lparr>ev_tape_id = t, ev_id = next_event_id t rows, ev_parent_id = sp_parent_id sp,
               ev_fork_id = None, ev_actor_type = sp_actor_type sp, ev_actor_id = sp_actor_id sp,
               ev_kind = sp_kind sp, ev_body = sp_body sp,
               ev_payload = (if truthy (sp_payload sp) then sp_payload sp else JObj []), ev_ts = now\<rparr>
      in (e, rows @ [e]))"

definition sql_limit :: "int option \<Rightarrow> 'a list \<Rightarrow> 'a list" where
  "sql_limit l xs = (case l of None \<Rightarrow> xs | Some n \<Rightarrow> if n < 0 then xs else take (nat n) xs)"

definition list_for_tape :: "string \<Rightarrow> int option \<Rightarrow> int option \<Rightarrow> inv_event list \<Rightarrow> inv_event list" where
  "list_for_tape t after limit rows =
     sql_limit limit (sort_key ev_id
       (filter (\<lambda>e. case after of None \<Rightarrow> True | Some a \<Rightarrow> a < ev_id e) (tape_rows t rows)))"

definition latest_id :: "string \<Rightarrow> inv_event list \<Rightarrow> int" where
  "latest_id t rows = (case max_id t rows of None \<Rightarrow> -1 | Some m \<Rightarrow> m)"

text \<open>\<open>INSERT OR IGNORE\<close> keyed on the child tape.\<close>

definition register_fork :: "string \<Rightarrow> string \<Rightarrow> int \<Rightarrow> (string \<times> string \<times> int) list \<Rightarrow> (string \<times> string \<times> int) list" where
  "register_fork child parent point forks =
     (if child \<in> fst ` set forks then forks else forks @ [(child, parent, point)])"

section \<open>Ids are gapless\<close>

definition gapless :: "inv_event list \<Rightarrow> bool" where
  "gapless rows \<longleftrightarrow> (\<forall>t. map ev_id (tape_rows t rows) = map int [0..<length (tape_rows t rows)])"

lemma fold_max_upt: "fold max (map int [Suc 0..<Suc n]) 0 = int n"
  by (induction n) (auto simp: max_def)

lemma gapless_next: "gapless rows \<Longrightarrow> next_event_id t rows = int (length (tape_rows t rows))"
proof -
  assume "gapless rows"
  then have ids: "map ev_id (tape_rows t rows) = map int [0..<length (tape_rows t rows)]"
    by (simp add: gapless_def)
  show ?thesis
  proof (cases "length (tape_rows t rows)")
    case (Suc n)
    then have "map ev_id (tape_rows t rows) = 0 # map int [Suc 0..<Suc n]"
      using ids by (simp add: upt_conv_Cons del: upt_Suc)
    then show ?thesis
      using Suc fold_max_upt [of n] by (simp add: next_event_id_def max_id_def del: upt_Suc)
  qed (simp add: next_event_id_def max_id_def)
qed

lemma tape_rows_append [simp]:
  "tape_rows u (snd (tape_append t sp now rows)) =
     tape_rows u rows @ (if u = t then [fst (tape_append t sp now rows)] else [])"
  by (simp add: tape_rows_def tape_append_def Let_def)

lemma gapless_Nil [simp]: "gapless []"
  by (simp add: gapless_def tape_rows_def)

lemma gapless_append: "gapless rows \<Longrightarrow> gapless (snd (tape_append t sp now rows))"
  using gapless_next [of rows t]
  by (auto simp: gapless_def) (simp add: tape_append_def Let_def)

lemma tape_id_less:
  "gapless rows \<Longrightarrow> e \<in> set (tape_rows t rows) \<Longrightarrow> ev_id e < next_event_id t rows"
proof -
  assume g: "gapless rows" and e: "e \<in> set (tape_rows t rows)"
  then have "ev_id e \<in> set (map int [0..<length (tape_rows t rows)])"
    unfolding gapless_def by (metis imageI set_map)
  with gapless_next [OF g] show ?thesis by auto
qed

interpretation tape_log: numbered_log "tape_rows t" ev_id
  "\<lambda>a rows. snd (tape_append t (fst a) (snd a) rows)" gapless for t
proof
  fix rows and a :: "event_spec \<times> int"
  assume g: "gapless rows"
  have "ev_id (fst (tape_append t (fst a) (snd a) rows)) = next_event_id t rows"
    by (simp add: tape_append_def Let_def)
  then show "\<exists>e. tape_rows t (snd (tape_append t (fst a) (snd a) rows)) = tape_rows t rows @ [e] \<and>
      (\<forall>x\<in>set (tape_rows t rows). ev_id x < ev_id e)"
    using tape_id_less [OF g] by auto
  show "gapless (snd (tape_append t (fst a) (snd a) rows))"
    using g by (rule gapless_append)
qed

lemma gapless_sorted: "gapless rows \<Longrightarrow> sorted_wrt (<) (map ev_id (tape_rows t rows))"
  by (simp add: gapless_def sorted_wrt_map sorted_wrt_iff_nth_less)

lemma sort_key_tape:
  assumes "gapless rows"
  shows "sort_key ev_id (filter P (tape_rows t rows)) = filter P (tape_rows t rows)"
proof (rule sort_key_id_if_sorted)
  have "sorted_wrt (\<le>) (map ev_id (tape_rows t rows))"
    using gapless_sorted [OF assms] by (rule sorted_wrt_mono_rel [rotated]) simp
  then show "sorted (map ev_id (filter P (tape_rows t rows)))"
    by (intro sorted_filter) simp
qed

lemma list_for_tape_eq:
  "gapless rows \<Longrightarrow> list_for_tape t after limit rows =
     sql_limit limit (filter (\<lambda>e. case after of None \<Rightarrow> True | Some a \<Rightarrow> a < ev_id e) (tape_rows t rows))"
  by (simp add: list_for_tape_def sort_key_tape)

lemma list_for_tape_all: "gapless rows \<Longrightarrow> list_for_tape t None None rows = tape_rows t rows"
  by (simp add: list_for_tape_eq sql_limit_def)

lemma gapless_nth: "gapless rows \<Longrightarrow> i < length (tape_rows t rows) \<Longrightarrow> ev_id (tape_rows t rows ! i) = int i"
proof -
  assume "gapless rows" "i < length (tape_rows t rows)"
  then have "map ev_id (tape_rows t rows) ! i = map int [0..<length (tape_rows t rows)] ! i"
    unfolding gapless_def by metis
  with \<open>i < _\<close> show ?thesis by simp
qed

lemma latest_id_gapless: "gapless rows \<Longrightarrow> latest_id t rows = int (length (tape_rows t rows)) - 1"
  using gapless_next [of rows t] by (simp add: latest_id_def next_event_id_def)

text \<open>A page boundary: the rows with an id above \<open>k\<close> are those after the first \<open>k + 1\<close>.\<close>

lemma filter_drop:
  assumes "\<And>i. i < length xs \<Longrightarrow> f (xs ! i) = int (n + i)"
  shows "filter (\<lambda>e. int k \<le> f e) xs = drop (k - n) xs"
  using assms
proof (induction xs arbitrary: n)
  case (Cons x xs)
  have "f (xs ! i) = int (Suc n + i)" if "i < length xs" for i
    using Cons.prems [of "Suc i"] that by simp
  then have "filter (\<lambda>e. int k \<le> f e) xs = drop (k - Suc n) xs" by (rule Cons.IH)
  moreover have "f x = int n" using Cons.prems [of 0] by simp
  ultimately show ?case by (auto simp: drop_Cons' Suc_diff_le not_le)
qed simp

fun append_all :: "(string \<times> event_spec \<times> int) list \<Rightarrow> inv_event list \<Rightarrow> inv_event list" where
  "append_all [] rows = rows"
| "append_all ((t, sp, now) # ops) rows = append_all ops (snd (tape_append t sp now rows))"

lemma gapless_append_all: "gapless rows \<Longrightarrow> gapless (append_all ops rows)"
  by (induction ops rows rule: append_all.induct) (simp_all add: gapless_append)

text \<open>Whatever the interleaving of appends over the tapes, the ids of every tape are
  0, 1, 2, \<dots> in insertion order, and reading a tape returns them in that order.\<close>

theorem tape_ids_gapless:
  "map ev_id (list_for_tape t None None (append_all ops [])) =
     map int [0..<length (list_for_tape t None None (append_all ops []))]"
  using gapless_append_all [OF gapless_Nil, of ops]
  by (simp add: list_for_tape_all) (simp add: gapless_def)

text \<open>Paging loses and repeats nothing: the first \<open>k\<close> events followed by the events after
  the cursor \<open>k - 1\<close> are the whole tape.\<close>

theorem tape_paging_complete:
  assumes "gapless rows"
  shows "list_for_tape t None (Some (int k)) rows @ list_for_tape t (Some (int k - 1)) None rows
     = list_for_tape t None None rows"
proof -
  have "filter (\<lambda>e. int k - 1 < ev_id e) (tape_rows t rows) = filter (\<lambda>e. int k \<le> ev_id e) (tape_rows t rows)"
    by (rule filter_cong) auto
  also have "\<dots> = drop k (tape_rows t rows)"
    using filter_drop [of "tape_rows t rows" ev_id 0 k] gapless_nth [OF assms] by simp
  finally show ?thesis
    by (simp add: list_for_tape_eq [OF assms] sql_limit_def)
qed

definition sample_spec :: event_spec where
  "sample_spec = \<lparr>sp_kind = KOutput, sp_body = ''x'', sp_payload = JNull, sp_actor_type = ASandbox,
     sp_actor_id = ''sb'', sp_parent_id = None\<rparr>"

theorem tape_paging_complete_witness:
  "map ev_id (list_for_tape ''t'' None (Some 1) (append_all [(''t'', sample_spec, 1), (''u'', sample_spec, 2),
      (''t'', sample_spec, 3)] []) @ list_for_tape ''t'' (Some 0) None (append_all [(''t'', sample_spec, 1),
      (''u'', sample_spec, 2), (''t'', sample_spec, 3)] [])) = [0, 1]"
proof -
  define r where "r = append_all [(''t'', sample_spec, 1), (''u'', sample_spec, 2), (''t'', sample_spec, 3)] []"
  have g: "gapless r" unfolding r_def by (rule gapless_append_all) simp
  have "map ev_id (tape_rows ''t'' r) = [0, 1]"
    by (simp add: r_def tape_append_def tape_rows_def next_event_id_def max_id_def Let_def)
  then show ?thesis
    using tape_paging_complete [OF g, of "''t''" 1] unfolding r_def [symmetric]
    by (simp add: list_for_tape_all [OF g] del: map_append)
qed

text \<open>A reader that resumes from \<open>latest_id\<close> receives exactly the events appended since.\<close>

theorem tape_resume_exact:
  assumes "gapless rows"
  shows "list_for_tape t None None (append_all ops rows) =
     list_for_tape t None None rows @ list_for_tape t (Some (latest_id t rows)) None (append_all ops rows)"
proof -
  have g: "gapless (append_all ops rows)" using assms by (rule gapless_append_all)
  have pre: "\<exists>es. tape_rows t (append_all ops rows) = tape_rows t rows @ es" for rows
    by (induction ops rows rule: append_all.induct) auto
  then obtain es where es: "tape_rows t (append_all ops rows) = tape_rows t rows @ es" by blast
  have "filter (\<lambda>e. latest_id t rows < ev_id e) (tape_rows t (append_all ops rows)) =
        filter (\<lambda>e. int (length (tape_rows t rows)) \<le> ev_id e) (tape_rows t (append_all ops rows))"
    by (rule filter_cong) (auto simp: latest_id_gapless [OF assms])
  also have "\<dots> = drop (length (tape_rows t rows)) (tape_rows t (append_all ops rows))"
    using filter_drop [of "tape_rows t (append_all ops rows)" ev_id 0] gapless_nth [OF g] by simp
  finally show ?thesis
    by (simp add: list_for_tape_eq [OF g] list_for_tape_all [OF assms] sql_limit_def es)
qed

theorem tape_resume_exact_witness:
  "list_for_tape ''t'' None None (append_all [(''t'', sample_spec, 1)] []) =
     list_for_tape ''t'' (Some (-1)) None (append_all [(''t'', sample_spec, 1)] [])"
  using tape_resume_exact [OF gapless_Nil, of "''t''" "[(''t'', sample_spec, 1)]"]
  by (simp add: list_for_tape_all latest_id_def max_id_def tape_rows_def)

end
