(* ===== verification/Invocation_Service.thy ===== *)
theory Invocation_Service
  imports Invocation_Model Event_Tape
begin

text \<open>
  \<^verbatim>\<open>services/invocation_service.py\<close> with the repository it writes
  (\<^verbatim>\<open>repositories/invocation_repo.py\<close>).  A run is the coroutine \<open>_run\<close>: it advances in the pieces
  between two awaits of a write, so other operations interleave with it.  \<open>svc_apply\<close> executes one
  piece of one coroutine; \<open>svc_reachable\<close> is every state some interleaving reaches.  What a hand
  returns, and when, is chosen by the environment (\<open>hand_outcome\<close>).  A run whose coroutine died of an
  unhandled exception is at \<open>Dead\<close>.
\<close>

section \<open>State\<close>

record invocation =
  inv_id :: string
  inv_target_type :: string
  inv_target_id :: "string option"
  inv_input :: json
  inv_schema :: "(string \<times> json) list option"
  inv_deadline_s :: int
  inv_label :: "string option"
  inv_parent_tape_id :: "string option"
  inv_parent_fork_point :: "int option"
  inv_idempotency_key :: "string option"
  inv_tape_id :: string
  inv_task_id :: "string option"
  inv_status :: invocation_status
  inv_result :: "result_envelope option"
  inv_created_at :: int
  inv_started_at :: "int option"
  inv_completed_at :: "int option"
  inv_created_by :: string

record invocation_request =
  req_target :: string
  req_input :: json
  req_schema :: "(string \<times> json) list option"
  req_deadline_s :: int
  req_label :: "string option"
  req_parent_tape_id :: "string option"
  req_parent_fork_point :: "int option"
  req_idempotency_key :: "string option"
  req_task_id :: "string option"

text \<open>Where \<open>_run\<close> stands: before \<open>started\<close>, awaiting the hand, or at one of the writes of \<open>_finalize\<close>.\<close>

datatype run_pc = Scheduled | Executing | At_done result_envelope | At_status result_envelope
  | At_handoff result_envelope | At_pop | Dead

record run =
  run_inv :: invocation
  run_cancelled :: bool
  run_reason :: "string option"
  run_external :: "result_envelope option"
  run_pc :: run_pc

text \<open>A \<open>submit_result\<close> call past its checks: the row it read, its envelope, and whether it is past the
  \<open>decision\<close> write.\<close>

record submission =
  sub_inv :: invocation
  sub_env :: result_envelope
  sub_decided :: bool

record svc =
  svc_invs :: "invocation list"
  svc_events :: "inv_event list"
  svc_forks :: "(string \<times> string \<times> int) list"
  svc_watch :: "(string option \<times> inv_event) list"
  svc_runs :: "string \<rightharpoonup> run"
  svc_submits :: "submission list"

definition svc_init :: svc where
  "svc_init = \<lparr>svc_invs = [], svc_events = [], svc_forks = [], svc_watch = [], svc_runs = Map.empty,
     svc_submits = []\<rparr>"

section \<open>The invocations table\<close>

definition inv_get :: "string \<Rightarrow> invocation list \<Rightarrow> invocation option" where
  "inv_get i invs = row_get inv_id i invs"

definition find_by_idempotency_key :: "string \<Rightarrow> string \<Rightarrow> invocation list \<Rightarrow> invocation option" where
  "find_by_idempotency_key p k invs =
     find (\<lambda>i. inv_parent_tape_id i = Some p \<and> inv_idempotency_key i = Some k) invs"

text \<open>The constraints of the table: primary key, unique tape, unique (parent tape, key); SQL NULLs are
  distinct.\<close>

definition inv_conflicts :: "invocation \<Rightarrow> invocation \<Rightarrow> bool" where
  "inv_conflicts i j \<longleftrightarrow> inv_id i = inv_id j \<or> inv_tape_id i = inv_tape_id j \<or>
     (inv_idempotency_key i \<noteq> None \<and> inv_idempotency_key i = inv_idempotency_key j \<and>
      inv_parent_tape_id i \<noteq> None \<and> inv_parent_tape_id i = inv_parent_tape_id j)"

definition inv_create :: "invocation \<Rightarrow> invocation list \<Rightarrow> invocation list res" where
  "inv_create i invs = (if \<exists>j\<in>set invs. inv_conflicts i j then Inl IntegrityError else Inr (invs @ [i]))"

definition is_terminal :: "invocation_status \<Rightarrow> bool" where
  "is_terminal st \<longleftrightarrow> st = ICompleted \<or> st = ICancelled \<or> st = IErrored"

definition set_running :: "string \<Rightarrow> int \<Rightarrow> invocation list \<Rightarrow> invocation list" where
  "set_running i started invs =
     rows_update (\<lambda>r. inv_id r = i \<and> inv_status r = IPending)
       (\<lambda>r. r\<lparr>inv_status := IRunning, inv_started_at := Some started\<rparr>) invs"

definition set_terminal :: "string \<Rightarrow> invocation_status \<Rightarrow> result_envelope \<Rightarrow> int \<Rightarrow> invocation list \<Rightarrow> invocation list" where
  "set_terminal i st res completed invs =
     rows_update (\<lambda>r. inv_id r = i \<and> \<not> is_terminal (inv_status r))
       (\<lambda>r. r\<lparr>inv_status := st, inv_result := Some res, inv_completed_at := Some completed\<rparr>) invs"

section \<open>Writing to a tape\<close>

fun part_json :: "part \<Rightarrow> json" where
  "part_json (Lit s) = JStr s"
| "part_json (Repr v) = v"

fun action_name :: "action \<Rightarrow> string" where
  "action_name Accept = ''accept''"
| "action_name Decline = ''decline''"
| "action_name Cancel = ''cancel''"
| "action_name Error = ''error''"
| "action_name Pending = ''pending''"

text \<open>\<open>result.model_dump(mode="json")\<close>; a reason keeps the pieces of its text.\<close>

definition env_json :: "result_envelope \<Rightarrow> json" where
  "env_json e = JObj [(''action'', JStr (action_name (env_action e))), (''content'', env_content e),
     (''reason'', case env_reason e of None \<Rightarrow> JNull | Some m \<Rightarrow> JArr (map part_json m))]"

text \<open>\<open>_TapeWriter.append\<close>: the event, and its fan-out record tagged with the invocation.\<close>

definition tape_write :: "string option \<Rightarrow> string \<Rightarrow> event_spec \<Rightarrow> int \<Rightarrow> svc \<Rightarrow> svc" where
  "tape_write iv t sp now s =
     (let (e, rows) = tape_append t sp now (svc_events s)
      in s\<lparr>svc_events := rows, svc_watch := svc_watch s @ [(iv, e)]\<rparr>)"

definition sys_spec :: "event_kind \<Rightarrow> string \<Rightarrow> json \<Rightarrow> event_spec" where
  "sys_spec k body payload = \<lparr>sp_kind = k, sp_body = body, sp_payload = payload,
     sp_actor_type = ASystem, sp_actor_id = ''krewhub'', sp_parent_id = None\<rparr>"

definition middot :: string where "middot = [CHR '' '', CHR 0xC2, CHR 0xB7, CHR '' '']"
definition rarrow :: string where "rarrow = [CHR '' '', CHR 0xE2, CHR 0x86, CHR 0x92, CHR '' '']"
definition larrow :: string where "larrow = [CHR '' '', CHR 0xE2, CHR 0x86, CHR 0x90, CHR '' '']"

section \<open>Creating an invocation\<close>

definition new_invocation ::
  "invocation_request \<Rightarrow> string \<times> string option \<Rightarrow> string \<Rightarrow> int \<Rightarrow> string \<Rightarrow> string \<Rightarrow> invocation" where
  "new_invocation req tgt caller now iid tid =
     \<lparr>inv_id = iid, inv_target_type = fst tgt, inv_target_id = snd tgt, inv_input = req_input req,
      inv_schema = req_schema req, inv_deadline_s = req_deadline_s req, inv_label = req_label req,
      inv_parent_tape_id = req_parent_tape_id req, inv_parent_fork_point = req_parent_fork_point req,
      inv_idempotency_key = req_idempotency_key req, inv_tape_id = tid, inv_task_id = req_task_id req,
      inv_status = IPending, inv_result = None, inv_created_at = now, inv_started_at = None,
      inv_completed_at = None, inv_created_by = caller\<rparr>"

text \<open>The registered hands are the keys of \<open>self._hands\<close>; \<open>iid\<close> and \<open>tid\<close> are the two ids drawn.\<close>

definition create :: "string list \<Rightarrow> invocation_request \<Rightarrow> string \<Rightarrow> int \<Rightarrow> string \<Rightarrow> string \<Rightarrow> svc
    \<Rightarrow> invocation res \<times> svc" where
  "create hands req caller now iid tid s =
     (case parse_target (Some (hands @ VALID_TARGET_TYPES)) (req_target req) of
        Inl e \<Rightarrow> (Inl e, s)
      | Inr tgt \<Rightarrow>
     (case (case req_schema req of None \<Rightarrow> Inr () | Some sc \<Rightarrow> validate_request_schema (JObj sc)) of
        Inl e \<Rightarrow> (Inl e, s)
      | Inr _ \<Rightarrow>
     (case (if opt_truthy (req_parent_tape_id req) \<and> opt_truthy (req_idempotency_key req)
            then find_by_idempotency_key (the (req_parent_tape_id req)) (the (req_idempotency_key req)) (svc_invs s)
            else None) of
        Some existing \<Rightarrow> (Inr existing, s)
      | None \<Rightarrow>
     (let iv = new_invocation req tgt caller now iid tid in
      case inv_create iv (svc_invs s) of
        Inl e \<Rightarrow> (Inl e, s)
      | Inr invs \<Rightarrow>
        let forks = (case (req_parent_tape_id req, req_parent_fork_point req) of
               (Some p, Some k) \<Rightarrow> register_fork tid p k (svc_forks s) | _ \<Rightarrow> svc_forks s);
            iv' = iv\<lparr>inv_status := IRunning, inv_started_at := Some now\<rparr>
        in (Inr iv', s\<lparr>svc_invs := set_running iid now invs, svc_forks := forks,
              svc_runs := (svc_runs s)(iid \<mapsto> \<lparr>run_inv = iv', run_cancelled = False, run_reason = None,
                 run_external = None, run_pc = Scheduled\<rparr>)\<rparr>)))))"

section \<open>The run\<close>

datatype hand_outcome = Returned result_envelope | Timed_out | Cancelled_error | Crashed string

definition set_pc :: "string \<Rightarrow> run_pc \<Rightarrow> svc \<Rightarrow> svc" where
  "set_pc i pc s = s\<lparr>svc_runs := (svc_runs s)(i := map_option (\<lambda>r. r\<lparr>run_pc := pc\<rparr>) (svc_runs s i))\<rparr>"

definition plain_envelope :: "action \<Rightarrow> msg \<Rightarrow> result_envelope" where
  "plain_envelope a reason = \<lparr>env_action = a, env_content = JNull, env_reason = Some reason\<rparr>"

definition run_start :: "string list \<Rightarrow> int \<Rightarrow> invocation \<Rightarrow> svc \<Rightarrow> svc" where
  "run_start hands now iv s =
     (let s1 = tape_write (Some (inv_id iv)) (inv_tape_id iv)
            (sys_spec KStarted (''started'' @ rarrow @ inv_target_type iv)
              (JObj [(''target'', JStr (format_target (inv_target_type iv) (inv_target_id iv))),
                     (''deadline_ts'', JInt (now + inv_deadline_s iv))])) now s
      in if inv_target_type iv \<in> set hands then set_pc (inv_id iv) Executing s1
         else set_pc (inv_id iv) (At_done (plain_envelope Error
                [Lit ''no_hand_registered: target_type='', Repr (JStr (inv_target_type iv))])) s1)"

definition outcome_envelope :: "run \<Rightarrow> hand_outcome \<Rightarrow> result_envelope" where
  "outcome_envelope r out = (case out of
       Returned e \<Rightarrow> e
     | Timed_out \<Rightarrow> plain_envelope Cancel [Lit ''deadline_exceeded'']
     | Cancelled_error \<Rightarrow> plain_envelope Cancel
         [Lit (if opt_truthy (run_reason r) then the (run_reason r) else ''operator_cancelled'')]
     | Crashed m \<Rightarrow> plain_envelope Error [Lit ''hand_crash: '', Lit m])"

text \<open>Schema check of an accepted result.  Only ValueError is caught around \<open>validate_content\<close>; any
  other exception ends the coroutine (\<open>None\<close>).\<close>

definition check_schema :: "invocation \<Rightarrow> result_envelope \<Rightarrow> result_envelope option" where
  "check_schema iv res = (case inv_schema iv of
       None \<Rightarrow> Some res
     | Some sc \<Rightarrow>
         if env_action res = Accept \<and> env_content res \<noteq> JNull \<and> \<not> is_str (env_content res)
         then (case validate_content sc (env_content res) of
                 Inr _ \<Rightarrow> Some res
               | Inl (ValueError m) \<Rightarrow> Some (plain_envelope Error m)
               | Inl _ \<Rightarrow> None)
         else if env_action res = Accept \<and> is_str (env_content res)
         then Some (plain_envelope Error [Lit ''schema_mismatch: expected object content''])
         else Some res)"

definition resolve_result :: "run \<Rightarrow> hand_outcome \<Rightarrow> result_envelope option" where
  "resolve_result r out =
     check_schema (run_inv r)
       (case run_external r of Some submitted \<Rightarrow> submitted | None \<Rightarrow> outcome_envelope r out)"

definition run_finish :: "hand_outcome \<Rightarrow> run \<Rightarrow> svc \<Rightarrow> svc" where
  "run_finish out r s = set_pc (inv_id (run_inv r))
     (case resolve_result r out of Some e \<Rightarrow> At_done e | None \<Rightarrow> Dead) s"

fun action_to_status :: "action \<Rightarrow> invocation_status" where
  "action_to_status Accept = ICompleted"
| "action_to_status Decline = ICompleted"
| "action_to_status Cancel = ICancelled"
| "action_to_status _ = IErrored"

definition done_payload :: "result_envelope \<Rightarrow> json" where
  "done_payload e = JObj [(''result'', env_json e)]"

definition finalize_done :: "int \<Rightarrow> invocation \<Rightarrow> result_envelope \<Rightarrow> svc \<Rightarrow> svc" where
  "finalize_done now iv res s = set_pc (inv_id iv) (At_status res)
     (tape_write (Some (inv_id iv)) (inv_tape_id iv)
        (sys_spec KDone (''done'' @ middot @ action_name (env_action res)) (done_payload res)) now s)"

definition finalize_status :: "int \<Rightarrow> invocation \<Rightarrow> result_envelope \<Rightarrow> svc \<Rightarrow> svc" where
  "finalize_status now iv res s = set_pc (inv_id iv) (At_handoff res)
     (s\<lparr>svc_invs := set_terminal (inv_id iv) (action_to_status (env_action res)) res now (svc_invs s)\<rparr>)"

definition finalize_handoff :: "int \<Rightarrow> invocation \<Rightarrow> result_envelope \<Rightarrow> svc \<Rightarrow> svc" where
  "finalize_handoff now iv res s = set_pc (inv_id iv) At_pop
     (case inv_parent_tape_id iv of
        None \<Rightarrow> s
      | Some p \<Rightarrow> tape_write None p (sys_spec KHandoff (''handoff'' @ larrow @ inv_target_type iv)
          (JObj [(''from_fork'', JStr (inv_tape_id iv)), (''result'', env_json res)])) now s)"

definition finalize_pop :: "invocation \<Rightarrow> svc \<Rightarrow> svc" where
  "finalize_pop iv s = s\<lparr>svc_runs := (svc_runs s)(inv_id iv := None)\<rparr>"

section \<open>Submitting and cancelling\<close>

definition submit_check :: "string \<Rightarrow> result_envelope \<Rightarrow> svc \<Rightarrow> svc res" where
  "submit_check i env s = (case inv_get i (svc_invs s) of
       None \<Rightarrow> Inl (KeyError i)
     | Some iv \<Rightarrow>
         if is_terminal (inv_status iv) then Inl (ConflictError ''already terminal'')
         else if svc_runs s i = None then Inl (ConflictError ''has no active runner'')
         else Inr (s\<lparr>svc_submits := svc_submits s @
                [\<lparr>sub_inv = iv, sub_env = env, sub_decided = False\<rparr>]\<rparr>))"

definition submit_decision :: "int \<Rightarrow> submission \<Rightarrow> svc \<Rightarrow> svc" where
  "submit_decision now sub s =
     (let s1 = (if inv_target_type (sub_inv sub) = ''human''
                then tape_write (Some (inv_id (sub_inv sub))) (inv_tape_id (sub_inv sub))
                  \<lparr>sp_kind = KDecision, sp_body = ''decision'' @ middot @ action_name (env_action (sub_env sub)),
                   sp_payload = env_json (sub_env sub), sp_actor_type = AHuman,
                   sp_actor_id = inv_created_by (sub_inv sub), sp_parent_id = None\<rparr> now s
                else s)
      in s1\<lparr>svc_submits := remove1 sub (svc_submits s) @ [sub\<lparr>sub_decided := True\<rparr>]\<rparr>)"

text \<open>The future belongs to the run object; once it is popped, setting it has no effect on the state.\<close>

definition submit_set :: "submission \<Rightarrow> svc \<Rightarrow> svc" where
  "submit_set sub s = s\<lparr>svc_submits := remove1 sub (svc_submits s),
     svc_runs := (svc_runs s)(inv_id (sub_inv sub) := map_option
        (\<lambda>r. if run_external r = None then r\<lparr>run_external := Some (sub_env sub)\<rparr> else r)
        (svc_runs s (inv_id (sub_inv sub))))\<rparr>"

definition fire :: "string \<Rightarrow> run \<Rightarrow> run" where
  "fire reason r = (if run_cancelled r then r else r\<lparr>run_cancelled := True, run_reason := Some reason\<rparr>)"

definition cancel :: "string \<Rightarrow> string \<Rightarrow> svc \<Rightarrow> svc" where
  "cancel i reason s = (case inv_get i (svc_invs s) of
       None \<Rightarrow> s
     | Some iv \<Rightarrow>
         if is_terminal (inv_status iv) then s
         else s\<lparr>svc_runs := (svc_runs s)(i := map_option (fire reason) (svc_runs s i))\<rparr>)"

section \<open>One step of some coroutine\<close>

text \<open>A hand streams its own kinds; \<open>started\<close>, \<open>done\<close>, \<open>decision\<close> and \<open>handoff\<close> are the service's
  (\<^verbatim>\<open>invocations/protocol.py\<close>, rule 1 and 2 of \<open>Hand\<close>).\<close>

definition is_hand_kind :: "event_kind \<Rightarrow> bool" where
  "is_hand_kind k \<longleftrightarrow> k \<notin> {KStarted, KDone, KDecision, KHandoff}"

datatype svc_op =
    Op_create invocation_request string int string string
  | Op_start string int
  | Op_hand_event string event_spec int
  | Op_hand_end string hand_outcome
  | Op_finalize string int
  | Op_submit string result_envelope
  | Op_decide submission int
  | Op_set submission
  | Op_cancel string string

fun svc_apply :: "string list \<Rightarrow> svc_op \<Rightarrow> svc \<Rightarrow> svc option" where
  "svc_apply hands (Op_create req caller now iid tid) s = Some (snd (create hands req caller now iid tid s))"
| "svc_apply hands (Op_start i now) s = (case svc_runs s i of
       Some r \<Rightarrow> if run_pc r = Scheduled then Some (run_start hands now (run_inv r) s) else None
     | None \<Rightarrow> None)"
| "svc_apply hands (Op_hand_event i sp now) s = (case svc_runs s i of
       Some r \<Rightarrow> if run_pc r = Executing \<and> is_hand_kind (sp_kind sp)
                 then Some (tape_write (Some i) (inv_tape_id (run_inv r)) sp now s) else None
     | None \<Rightarrow> None)"
| "svc_apply hands (Op_hand_end i out) s = (case svc_runs s i of
       Some r \<Rightarrow> if run_pc r = Executing then Some (run_finish out r s) else None
     | None \<Rightarrow> None)"
| "svc_apply hands (Op_finalize i now) s = (case svc_runs s i of
       Some r \<Rightarrow> (case run_pc r of
            At_done e \<Rightarrow> Some (finalize_done now (run_inv r) e s)
          | At_status e \<Rightarrow> Some (finalize_status now (run_inv r) e s)
          | At_handoff e \<Rightarrow> Some (finalize_handoff now (run_inv r) e s)
          | At_pop \<Rightarrow> Some (finalize_pop (run_inv r) s)
          | _ \<Rightarrow> None)
     | None \<Rightarrow> None)"
| "svc_apply hands (Op_submit i env) s = (case submit_check i env s of Inl _ \<Rightarrow> None | Inr s' \<Rightarrow> Some s')"
| "svc_apply hands (Op_decide sub now) s =
     (if sub \<in> set (svc_submits s) \<and> \<not> sub_decided sub then Some (submit_decision now sub s) else None)"
| "svc_apply hands (Op_set sub) s =
     (if sub \<in> set (svc_submits s) \<and> sub_decided sub then Some (submit_set sub s) else None)"
| "svc_apply hands (Op_cancel i reason) s = Some (cancel i reason s)"

inductive svc_step :: "string list \<Rightarrow> svc \<Rightarrow> svc \<Rightarrow> bool" for hands where
  step: "svc_apply hands op s = Some s' \<Longrightarrow> svc_step hands s s'"

inductive svc_reachable :: "string list \<Rightarrow> svc \<Rightarrow> bool" for hands where
  init: "svc_reachable hands svc_init"
| next_step: "svc_reachable hands s \<Longrightarrow> svc_step hands s s' \<Longrightarrow> svc_reachable hands s'"

fun svc_exec :: "string list \<Rightarrow> svc_op list \<Rightarrow> svc \<Rightarrow> svc option" where
  "svc_exec hands [] s = Some s"
| "svc_exec hands (op # ops) s =
     (case svc_apply hands op s of None \<Rightarrow> None | Some s' \<Rightarrow> svc_exec hands ops s')"

lemma svc_exec_reachable:
  "svc_reachable hands s \<Longrightarrow> svc_exec hands ops s = Some s' \<Longrightarrow> svc_reachable hands s'"
proof (induction ops arbitrary: s)
  case (Cons op ops)
  then obtain s1 where "svc_apply hands op s = Some s1" "svc_exec hands ops s1 = Some s'"
    by (auto split: option.splits)
  with Cons show ?case by (blast intro: svc_reachable.next_step svc_step.step)
qed simp

section \<open>The invariant\<close>

definition dones :: "string \<Rightarrow> inv_event list \<Rightarrow> json list" where
  "dones t rows = map ev_payload (filter (\<lambda>e. ev_kind e = KDone) (tape_rows t rows))"

definition starts :: "string \<Rightarrow> inv_event list \<Rightarrow> nat" where
  "starts t rows = length (filter (\<lambda>e. ev_kind e = KStarted) (tape_rows t rows))"

text \<open>A finished row: terminal, with the result whose envelope the only \<open>done\<close> event carries.\<close>

definition finished :: "invocation \<Rightarrow> json list \<Rightarrow> bool" where
  "finished i ds \<longleftrightarrow> (\<exists>e. inv_result i = Some e \<and> inv_status i = action_to_status (env_action e) \<and>
     ds = [done_payload e])"

definition unfinished :: "invocation \<Rightarrow> bool" where
  "unfinished i \<longleftrightarrow> inv_status i = IRunning \<and> inv_result i = None"

fun phase_ok :: "invocation \<Rightarrow> run_pc option \<Rightarrow> json list \<Rightarrow> nat \<Rightarrow> bool" where
  "phase_ok i None ds n \<longleftrightarrow> finished i ds \<and> n = 1"
| "phase_ok i (Some Scheduled) ds n \<longleftrightarrow> unfinished i \<and> ds = [] \<and> n = 0"
| "phase_ok i (Some (At_status e)) ds n \<longleftrightarrow> unfinished i \<and> ds = [done_payload e] \<and> n = 1"
| "phase_ok i (Some (At_handoff e)) ds n \<longleftrightarrow> finished i ds \<and> n = 1"
| "phase_ok i (Some At_pop) ds n \<longleftrightarrow> finished i ds \<and> n = 1"
| "phase_ok i (Some pc) ds n \<longleftrightarrow> unfinished i \<and> ds = [] \<and> n = 1"

lemma phase_ok_terminal:
  "phase_ok i p ds n \<Longrightarrow> length ds \<le> 1 \<and> (is_terminal (inv_status i) \<longrightarrow>
     (\<exists>e. inv_result i = Some e \<and> inv_status i = action_to_status (env_action e) \<and>
        ds = [done_payload e] \<and> n = 1))"
  by (induction i p ds n rule: phase_ok.induct) (auto simp: finished_def unfinished_def is_terminal_def)

definition inv_ok :: "svc \<Rightarrow> invocation \<Rightarrow> bool" where
  "inv_ok s i \<longleftrightarrow> phase_ok i (map_option run_pc (svc_runs s (inv_id i)))
     (dones (inv_tape_id i) (svc_events s)) (starts (inv_tape_id i) (svc_events s))"

definition run_ok :: "svc \<Rightarrow> string \<Rightarrow> run \<Rightarrow> bool" where
  "run_ok s k r \<longleftrightarrow> inv_id (run_inv r) = k \<and>
     (\<exists>i\<in>set (svc_invs s). inv_id i = k \<and> inv_tape_id i = inv_tape_id (run_inv r))"

definition svc_inv :: "svc \<Rightarrow> bool" where
  "svc_inv s \<longleftrightarrow> gapless (svc_events s) \<and>
     distinct (map inv_id (svc_invs s)) \<and> distinct (map inv_tape_id (svc_invs s)) \<and>
     (\<forall>i\<in>set (svc_invs s). inv_ok s i) \<and>
     (\<forall>k r. svc_runs s k = Some r \<longrightarrow> run_ok s k r) \<and>
     (\<forall>e\<in>set (svc_events s). ev_kind e = KDone \<or> ev_kind e = KStarted \<longrightarrow>
        ev_tape_id e \<in> inv_tape_id ` set (svc_invs s))"

lemma svc_invD:
  assumes "svc_inv s"
  shows svc_inv_gapless: "gapless (svc_events s)"
    and svc_inv_ids: "distinct (map inv_id (svc_invs s))"
    and svc_inv_tapes: "distinct (map inv_tape_id (svc_invs s))"
    and svc_inv_rows: "i \<in> set (svc_invs s) \<Longrightarrow> inv_ok s i"
    and svc_inv_runs: "svc_runs s k = Some r \<Longrightarrow> run_ok s k r"
    and svc_inv_events: "e \<in> set (svc_events s) \<Longrightarrow> ev_kind e = KDone \<or> ev_kind e = KStarted \<Longrightarrow>
        ev_tape_id e \<in> inv_tape_id ` set (svc_invs s)"
  using assms by (auto simp: svc_inv_def)

subsection \<open>What the building blocks change\<close>

lemma tape_write_simps [simp]:
  "svc_invs (tape_write o' t sp now s) = svc_invs s"
  "svc_runs (tape_write o' t sp now s) = svc_runs s"
  "svc_submits (tape_write o' t sp now s) = svc_submits s"
  "svc_events (tape_write o' t sp now s) = snd (tape_append t sp now (svc_events s))"
  by (simp_all add: tape_write_def split: prod.splits)

lemma set_pc_simps [simp]:
  "svc_invs (set_pc k pc s) = svc_invs s"
  "svc_events (set_pc k pc s) = svc_events s"
  "svc_submits (set_pc k pc s) = svc_submits s"
  "svc_runs (set_pc k pc s) j = (if j = k then map_option (\<lambda>r. r\<lparr>run_pc := pc\<rparr>) (svc_runs s k) else svc_runs s j)"
  by (simp_all add: set_pc_def)

lemma appended_kind [simp]: "ev_kind (fst (tape_append t sp now rows)) = sp_kind sp"
  and appended_tape [simp]: "ev_tape_id (fst (tape_append t sp now rows)) = t"
  and appended_payload [simp]: "truthy (sp_payload sp) \<Longrightarrow> ev_payload (fst (tape_append t sp now rows)) = sp_payload sp"
  and appended_set [simp]: "set (snd (tape_append t sp now rows)) = insert (fst (tape_append t sp now rows)) (set rows)"
  by (simp_all add: tape_append_def Let_def)

lemma dones_append [simp]:
  "dones u (snd (tape_append t sp now rows)) =
     dones u rows @ (if u = t \<and> sp_kind sp = KDone then [ev_payload (fst (tape_append t sp now rows))] else [])"
  by (simp add: dones_def)

lemma starts_append [simp]:
  "starts u (snd (tape_append t sp now rows)) =
     starts u rows + (if u = t \<and> sp_kind sp = KStarted then 1 else 0)"
  by (simp add: starts_def)

lemma quiet_write:
  assumes "svc_inv s" "sp_kind sp \<noteq> KDone" "sp_kind sp \<noteq> KStarted"
  shows "svc_inv (tape_write o' t sp now s)"
  using assms by (auto simp: svc_inv_def inv_ok_def run_ok_def gapless_append)

text \<open>Rows other than the one a run belongs to are untouched by what the run writes.\<close>

lemma run_row:
  assumes "svc_inv s" "svc_runs s k = Some r"
  obtains i where "i \<in> set (svc_invs s)" "inv_id i = k" "inv_id (run_inv r) = k"
    "inv_tape_id (run_inv r) = inv_tape_id i" "inv_ok s i"
    "\<And>j. j \<in> set (svc_invs s) \<Longrightarrow> inv_id j = k \<or> inv_tape_id j = inv_tape_id i \<Longrightarrow> j = i"
proof -
  have "run_ok s k r" using assms by (rule svc_inv_runs)
  then obtain i where i: "i \<in> set (svc_invs s)" "inv_id i = k" "inv_tape_id i = inv_tape_id (run_inv r)"
    and "inv_id (run_inv r) = k" unfolding run_ok_def by blast
  moreover have "j = i" if "j \<in> set (svc_invs s)" "inv_id j = k \<or> inv_tape_id j = inv_tape_id i" for j
    using that i svc_inv_ids [OF assms(1)] svc_inv_tapes [OF assms(1)]
    unfolding distinct_map by (metis inj_onD)
  ultimately show ?thesis using that svc_inv_rows [OF assms(1)] by metis
qed

subsection \<open>Every operation keeps it\<close>

lemma start_inv:
  assumes I: "svc_inv s" and r: "svc_runs s k = Some r" "run_pc r = Scheduled"
  shows "svc_inv (run_start hands now (run_inv r) s)"
proof -
  obtain i where i: "i \<in> set (svc_invs s)" "inv_id i = k" "inv_id (run_inv r) = k"
    "inv_tape_id (run_inv r) = inv_tape_id i" "inv_ok s i"
    "\<And>j. j \<in> set (svc_invs s) \<Longrightarrow> inv_id j = k \<or> inv_tape_id j = inv_tape_id i \<Longrightarrow> j = i"
    using run_row [OF I r(1)] by metis
  show ?thesis
    using I i r unfolding run_start_def Let_def
    by (auto simp: svc_inv_def inv_ok_def run_ok_def gapless_append sys_spec_def split: if_splits)
qed

lemma finish_inv:
  assumes I: "svc_inv s" and r: "svc_runs s k = Some r" "run_pc r = Executing"
  shows "svc_inv (run_finish out r s)"
proof -
  obtain i where i: "i \<in> set (svc_invs s)" "inv_id i = k" "inv_id (run_inv r) = k" "inv_ok s i"
    "\<And>j. j \<in> set (svc_invs s) \<Longrightarrow> inv_id j = k \<or> inv_tape_id j = inv_tape_id i \<Longrightarrow> j = i"
    using run_row [OF I r(1)] by metis
  show ?thesis
    using I i r unfolding run_finish_def
    by (auto simp: svc_inv_def inv_ok_def run_ok_def split: option.splits if_splits)
qed

lemma done_inv:
  assumes I: "svc_inv s" and r: "svc_runs s k = Some r" "run_pc r = At_done e"
  shows "svc_inv (finalize_done now (run_inv r) e s)"
proof -
  obtain i where i: "i \<in> set (svc_invs s)" "inv_id i = k" "inv_id (run_inv r) = k"
    "inv_tape_id (run_inv r) = inv_tape_id i" "inv_ok s i"
    "\<And>j. j \<in> set (svc_invs s) \<Longrightarrow> inv_id j = k \<or> inv_tape_id j = inv_tape_id i \<Longrightarrow> j = i"
    using run_row [OF I r(1)] by metis
  show ?thesis
    using I i r unfolding finalize_done_def
    by (auto simp: svc_inv_def inv_ok_def run_ok_def gapless_append sys_spec_def done_payload_def split: if_splits)
qed


lemma set_terminal_key: "map inv_id (set_terminal k st e now rows) = map inv_id rows"
  and set_terminal_tape: "map inv_tape_id (set_terminal k st e now rows) = map inv_tape_id rows"
  by (simp_all add: set_terminal_def rows_update_def)

lemma set_terminal_tapes [simp]:
  "inv_tape_id ` set (set_terminal k st e now rows) = inv_tape_id ` set rows"
  using set_terminal_tape [of k st e now rows] by (metis list.set_map)

lemma set_terminal_rows:
  assumes "j \<in> set (set_terminal k st e now rows)"
  obtains "j \<in> set rows" "inv_id j \<noteq> k \<or> is_terminal (inv_status j)"
  | i where "i \<in> set rows" "inv_id i = k" "\<not> is_terminal (inv_status i)"
      "j = i\<lparr>inv_status := st, inv_result := Some e, inv_completed_at := Some now\<rparr>"
  using assms unfolding set_terminal_def by (elim rows_update_cases) (blast, metis)

lemma set_terminal_ref:
  "i \<in> set rows \<Longrightarrow> \<exists>j\<in>set (set_terminal k st e now rows). inv_id j = inv_id i \<and> inv_tape_id j = inv_tape_id i"
  unfolding set_terminal_def by (rule bexI [OF _ rows_update_image]) auto

lemma status_inv:
  assumes I: "svc_inv s" and r: "svc_runs s k = Some r" "run_pc r = At_status e"
  shows "svc_inv (finalize_status now (run_inv r) e s)"
proof -
  have k: "inv_id (run_inv r) = k" using svc_inv_runs [OF I r(1)] by (simp add: run_ok_def)
  let ?s = "finalize_status now (run_inv r) e s"
  have runs: "svc_runs ?s = (svc_runs s)(k \<mapsto> r\<lparr>run_pc := At_handoff e\<rparr>)"
    and ev: "svc_events ?s = svc_events s"
    and invs: "svc_invs ?s = set_terminal k (action_to_status (env_action e)) e now (svc_invs s)"
    using k r by (simp_all add: finalize_status_def set_pc_def)
  have u: "unfinished i \<and> dones (inv_tape_id i) (svc_events s) = [done_payload e] \<and>
      starts (inv_tape_id i) (svc_events s) = 1" if "i \<in> set (svc_invs s)" "inv_id i = k" for i
    using svc_inv_rows [OF I that(1)] that(2) r by (simp add: inv_ok_def)
  have rows: "inv_ok ?s j" if j: "j \<in> set (svc_invs ?s)" for j
    using j unfolding invs
  proof (cases rule: set_terminal_rows)
    case 1
    with u have "inv_id j \<noteq> k" by (auto simp: unfinished_def is_terminal_def)
    with svc_inv_rows [OF I 1(1)] show ?thesis by (simp add: inv_ok_def runs ev)
  next
    case (2 i)
    with u [of i] show ?thesis by (simp add: inv_ok_def runs ev finished_def)
  qed
  have runs_ok: "run_ok ?s k' r'" if "svc_runs ?s k' = Some r'" for k' r'
  proof -
    have "\<exists>r0. svc_runs s k' = Some r0 \<and> run_inv r' = run_inv r0"
      using that runs r by (auto split: if_splits)
    then obtain r0 where "run_ok s k' r0" "run_inv r' = run_inv r0" using svc_inv_runs [OF I] by blast
    then obtain i' where i': "i' \<in> set (svc_invs s)" "inv_id i' = k'"
      "inv_tape_id i' = inv_tape_id (run_inv r')" "inv_id (run_inv r') = k'"
      by (auto simp: run_ok_def)
    then show ?thesis
      using set_terminal_ref [OF i'(1), of k] by (auto simp: run_ok_def invs)
  qed
  show ?thesis
    using I rows runs_ok
    by (simp add: svc_inv_def ev invs set_terminal_key set_terminal_tape)
qed

lemma inv_ok_finished_pc:
  assumes I: "svc_inv s" and r: "svc_runs s k = Some r" "run_pc r = At_handoff e \<or> run_pc r = At_pop"
    and f: "svc_runs s' = (svc_runs s)(k := g)"
    and g: "g = None \<or> g = Some (r\<lparr>run_pc := At_pop\<rparr>)"
    and same: "svc_invs s' = svc_invs s" "svc_events s' = svc_events s"
  shows "svc_inv s'"
proof -
  have fin: "finished j (dones (inv_tape_id j) (svc_events s))" "starts (inv_tape_id j) (svc_events s) = 1"
    if "j \<in> set (svc_invs s)" "inv_id j = k" for j
    using svc_inv_rows [OF I that(1)] that(2) r by (auto simp: inv_ok_def)
  have "inv_ok s' j" if "j \<in> set (svc_invs s)" for j
    using svc_inv_rows [OF I that] fin [OF that] g by (auto simp: inv_ok_def f same)
  moreover have "run_ok s' k' r'" if "svc_runs s' k' = Some r'" for k' r'
    using svc_inv_runs [OF I r(1)] svc_inv_runs [OF I, of k' r'] that g
    by (auto simp: f run_ok_def same split: if_splits)
  ultimately show ?thesis using I by (simp add: svc_inv_def same)
qed

lemma handoff_inv:
  assumes I: "svc_inv s" and r: "svc_runs s k = Some r" "run_pc r = At_handoff e"
  shows "svc_inv (finalize_handoff now (run_inv r) e s)"
proof -
  have k: "inv_id (run_inv r) = k" using svc_inv_runs [OF I r(1)] by (simp add: run_ok_def)
  have "svc_inv (set_pc k At_pop s')" if "svc_inv s'" "svc_runs s' = svc_runs s" for s'
    by (rule inv_ok_finished_pc [where s = s' and k = k and r = r and e = e
        and g = "Some (r\<lparr>run_pc := At_pop\<rparr>)", OF that(1)])
      (use that r in \<open>simp_all add: set_pc_def\<close>)
  then show ?thesis
    using I unfolding finalize_handoff_def k
    by (auto simp: sys_spec_def quiet_write split: option.split)
qed

lemma pop_inv:
  assumes I: "svc_inv s" and r: "svc_runs s k = Some r" "run_pc r = At_pop"
  shows "svc_inv (finalize_pop (run_inv r) s)"
proof -
  have k: "inv_id (run_inv r) = k" using svc_inv_runs [OF I r(1)] by (simp add: run_ok_def)
  show ?thesis
    by (rule inv_ok_finished_pc [where s = s and k = k and r = r and g = None, OF I])
      (use r k in \<open>simp_all add: finalize_pop_def\<close>)
qed

text \<open>Submitting and cancelling touch neither the rows nor where a run stands.\<close>

lemma same_pcs_inv:
  assumes "svc_inv s" "svc_invs s' = svc_invs s" "svc_events s' = svc_events s"
    "\<And>k. map_option (\<lambda>r. (run_inv r, run_pc r)) (svc_runs s' k) =
          map_option (\<lambda>r. (run_inv r, run_pc r)) (svc_runs s k)"
  shows "svc_inv s'"
proof -
  have pc: "map_option run_pc (svc_runs s' k) = map_option run_pc (svc_runs s k)" for k
    using assms(4) [of k] by (cases "svc_runs s k"; cases "svc_runs s' k") auto
  have "run_ok s' k r" if "svc_runs s' k = Some r" for k r
  proof -
    have "\<exists>r'. svc_runs s k = Some r' \<and> run_inv r' = run_inv r"
      using assms(4) [of k] that by (cases "svc_runs s k") auto
    then obtain r' where "svc_runs s k = Some r'" "run_inv r' = run_inv r" by blast
    then show ?thesis using svc_inv_runs [OF assms(1)] assms(2) by (fastforce simp: run_ok_def)
  qed
  then show ?thesis using assms(1) by (auto simp: svc_inv_def inv_ok_def assms(2,3) pc)
qed

lemma set_inv: "svc_inv s \<Longrightarrow> svc_inv (submit_set sub s)"
  by (erule same_pcs_inv) (auto simp: submit_set_def option.map_comp o_def intro!: option.map_cong)

lemma cancel_inv: "svc_inv s \<Longrightarrow> svc_inv (cancel k reason s)"
  by (erule same_pcs_inv)
    (auto simp: cancel_def fire_def option.map_comp o_def split: option.split intro!: option.map_cong)

lemma check_inv: "svc_inv s \<Longrightarrow> submit_check k env s = Inr s' \<Longrightarrow> svc_inv s'"
  by (erule same_pcs_inv) (auto simp: submit_check_def split: option.splits if_splits)

lemma decision_inv: "svc_inv s \<Longrightarrow> svc_inv (submit_decision now sub s)"
  by (rule same_pcs_inv [where s = "if inv_target_type (sub_inv sub) = ''human''
        then tape_write (Some (inv_id (sub_inv sub))) (inv_tape_id (sub_inv sub))
          \<lparr>sp_kind = KDecision, sp_body = ''decision'' @ middot @ action_name (env_action (sub_env sub)),
           sp_payload = env_json (sub_env sub), sp_actor_type = AHuman,
           sp_actor_id = inv_created_by (sub_inv sub), sp_parent_id = None\<rparr> now s else s"])
    (auto simp: submit_decision_def Let_def quiet_write)

text \<open>A new row is on a tape of its own, so no \<open>done\<close> and no \<open>started\<close> is on it yet.\<close>

lemma no_events_no_phase:
  assumes "svc_inv s" "t \<notin> inv_tape_id ` set (svc_invs s)"
  shows "dones t (svc_events s) = []" "starts t (svc_events s) = 0"
  using assms by (auto simp: svc_inv_def dones_def starts_def tape_rows_def filter_empty_conv)

lemma set_running_new:
  assumes "iid \<notin> inv_id ` set invs" "inv_id iv = iid" "inv_status iv = IPending"
  shows "set_running iid now (invs @ [iv]) = invs @ [iv\<lparr>inv_status := IRunning, inv_started_at := Some now\<rparr>]"
proof -
  have "rows_update (\<lambda>r. inv_id r = iid \<and> inv_status r = IPending)
      (\<lambda>r. r\<lparr>inv_status := IRunning, inv_started_at := Some now\<rparr>) invs = invs"
    by (rule rows_update_none) (use assms(1) in \<open>metis imageI\<close>)
  then show ?thesis using assms by (simp add: set_running_def rows_update_def)
qed

lemma create_cases:
  assumes "create hands req caller now iid tid s = (res, s')"
  obtains "s' = s" "\<And>iv. res = Inr iv \<Longrightarrow> find_by_idempotency_key (the (req_parent_tape_id req))
        (the (req_idempotency_key req)) (svc_invs s) = Some iv"
  | tgt iv where "parse_target (Some (hands @ VALID_TARGET_TYPES)) (req_target req) = Inr tgt"
      "iv = new_invocation req tgt caller now iid tid" "\<forall>j\<in>set (svc_invs s). \<not> inv_conflicts iv j"
      "res = Inr (iv\<lparr>inv_status := IRunning, inv_started_at := Some now\<rparr>)"
      "svc_invs s' = svc_invs s @ [iv\<lparr>inv_status := IRunning, inv_started_at := Some now\<rparr>]"
      "svc_events s' = svc_events s" "svc_submits s' = svc_submits s"
      "svc_runs s' = (svc_runs s)(iid \<mapsto> \<lparr>run_inv = iv\<lparr>inv_status := IRunning, inv_started_at := Some now\<rparr>,
         run_cancelled = False, run_reason = None, run_external = None, run_pc = Scheduled\<rparr>)"
proof -
  have new: "set_running iid now (svc_invs s @ [new_invocation req tgt caller now iid tid]) =
      svc_invs s @ [(new_invocation req tgt caller now iid tid)\<lparr>inv_status := IRunning, inv_started_at := Some now\<rparr>]"
    if "\<forall>j\<in>set (svc_invs s). \<not> inv_conflicts (new_invocation req tgt caller now iid tid) j" for tgt
    by (rule set_running_new) (use that in \<open>auto simp: new_invocation_def inv_conflicts_def\<close>)
  show ?thesis
    using assms unfolding create_def Let_def
    by (cases "parse_target (Some (hands @ VALID_TARGET_TYPES)) (req_target req)")
      (auto simp: inv_create_def new split: sum.splits option.splits if_splits intro: that)
qed

lemma create_inv:
  assumes I: "svc_inv s"
  shows "svc_inv (snd (create hands req caller now iid tid s))"
proof -
  obtain res s' where c: "create hands req caller now iid tid s = (res, s')" by fastforce
  from c show ?thesis
  proof (cases rule: create_cases)
    case 1 then show ?thesis using I c by simp
  next
    case (2 tgt iv)
    let ?iv = "iv\<lparr>inv_status := IRunning, inv_started_at := Some now\<rparr>"
    have ids: "inv_id ?iv = iid" "inv_tape_id ?iv = tid" "unfinished ?iv"
      using 2(2) by (simp_all add: new_invocation_def unfinished_def)
    have fresh: "iid \<notin> inv_id ` set (svc_invs s)" "tid \<notin> inv_tape_id ` set (svc_invs s)"
      using 2(2,3) by (auto simp: new_invocation_def inv_conflicts_def)
    note new = no_events_no_phase [OF I fresh(2)]
    have "inv_ok s' j" if "j \<in> set (svc_invs s)" for j
      using svc_inv_rows [OF I that] that fresh by (auto simp: inv_ok_def 2(6,8))
    moreover have "inv_ok s' ?iv" using ids new by (simp add: inv_ok_def 2(6,8))
    moreover have "run_ok s' k r" if "svc_runs s' k = Some r" for k r
      using that svc_inv_runs [OF I, of k r] ids
      by (auto simp: run_ok_def 2(5,8) split: if_splits)
    moreover have "distinct (map inv_id (svc_invs s'))" "distinct (map inv_tape_id (svc_invs s'))"
      using svc_inv_ids [OF I] svc_inv_tapes [OF I] fresh ids by (auto simp: 2(5))
    ultimately have "svc_inv s'" using I by (auto simp: svc_inv_def 2(5,6))
    then show ?thesis by (simp add: c)
  qed
qed

lemmas op_invs = create_inv start_inv finish_inv done_inv status_inv handoff_inv pop_inv
  check_inv decision_inv set_inv cancel_inv

lemma apply_inv: "svc_inv s \<Longrightarrow> svc_apply hands op s = Some s' \<Longrightarrow> svc_inv s'"
  by (cases op) (auto intro: op_invs quiet_write simp: is_hand_kind_def
      split: option.splits if_splits run_pc.splits sum.splits)

lemma svc_init_inv: "svc_inv svc_init"
  by (simp add: svc_inv_def svc_init_def gapless_def tape_rows_def)

lemma reachable_inv: "svc_reachable hands s \<Longrightarrow> svc_inv s"
  by (induction rule: svc_reachable.induct) (auto intro: svc_init_inv apply_inv elim: svc_step.cases)

lemma set_running_keeps: "i \<in> set rows \<Longrightarrow> is_terminal (inv_status i) \<Longrightarrow> i \<in> set (set_running k now rows)"
  using rows_update_image [of i rows "\<lambda>r. inv_id r = k \<and> inv_status r = IPending"]
  by (auto simp: set_running_def is_terminal_def)

lemma set_terminal_keeps: "i \<in> set rows \<Longrightarrow> is_terminal (inv_status i) \<Longrightarrow> i \<in> set (set_terminal k st e now rows)"
  using rows_update_image [of i rows "\<lambda>r. inv_id r = k \<and> \<not> is_terminal (inv_status r)"]
  by (auto simp: set_terminal_def)

lemma service_invs [simp]:
  "svc_invs (run_start hands now iv s) = svc_invs s"
  "svc_invs (run_finish out r s) = svc_invs s"
  "svc_invs (finalize_done now iv e s) = svc_invs s"
  "svc_invs (finalize_status now iv e s) = set_terminal (inv_id iv) (action_to_status (env_action e)) e now (svc_invs s)"
  "svc_invs (finalize_handoff now iv e s) = svc_invs s"
  "svc_invs (finalize_pop iv s) = svc_invs s"
  "svc_invs (submit_decision now sub s) = svc_invs s"
  "svc_invs (submit_set sub s) = svc_invs s"
  "svc_invs (cancel k reason s) = svc_invs s"
  "submit_check k env s = Inr s' \<Longrightarrow> svc_invs s' = svc_invs s"
  by (auto simp: run_start_def run_finish_def finalize_done_def finalize_status_def finalize_handoff_def
      finalize_pop_def submit_decision_def submit_set_def cancel_def submit_check_def Let_def
      split: option.splits if_splits)

lemma create_invs:
  "svc_invs (snd (create hands req caller now iid tid s)) = svc_invs s \<or>
   (\<exists>iv. inv_status iv = IPending \<and> svc_invs (snd (create hands req caller now iid tid s)) =
      set_running iid now (svc_invs s @ [iv]))"
proof -
  have "inv_status (new_invocation req tgt caller now iid tid) = IPending" for tgt
    by (simp add: new_invocation_def)
  then show ?thesis
    by (fastforce simp: create_def Let_def inv_create_def split: sum.splits option.splits if_splits)
qed

lemma apply_keeps_terminal:
  "svc_apply hands op s = Some s' \<Longrightarrow> i \<in> set (svc_invs s) \<Longrightarrow> is_terminal (inv_status i) \<Longrightarrow>
     i \<in> set (svc_invs s')"
proof (cases op)
  case (Op_create req caller now iid tid)
  moreover assume "svc_apply hands op s = Some s'" "i \<in> set (svc_invs s)" "is_terminal (inv_status i)"
  ultimately show ?thesis
    using create_invs [of hands req caller now iid tid s] set_running_keeps [of i "svc_invs s @ [_]"] by auto
qed (auto intro: set_terminal_keeps split: option.splits if_splits run_pc.splits sum.splits)

section \<open>What clients rely on\<close>

text \<open>C2: in every state the service can reach, however its coroutines interleave, an invocation has at
  most one \<open>done\<close> event; and a terminal row carries a result, its status is the one of the result's
  action, and the tape has exactly one \<open>started\<close> and one \<open>done\<close>, the latter with that very result.\<close>

theorem terminal_iff_done:
  assumes "svc_reachable hands s" and "i \<in> set (svc_invs s)"
  shows "length (dones (inv_tape_id i) (svc_events s)) \<le> 1 \<and>
    (is_terminal (inv_status i) \<longrightarrow> (\<exists>e. inv_result i = Some e \<and>
        inv_status i = action_to_status (env_action e) \<and>
        dones (inv_tape_id i) (svc_events s) = [done_payload e] \<and>
        starts (inv_tape_id i) (svc_events s) = 1))"
proof -
  have "inv_ok s i" using assms reachable_inv svc_inv_rows by blast
  then show ?thesis unfolding inv_ok_def
    using phase_ok_terminal by blast
qed

definition sample_req :: invocation_request where
  "sample_req = \<lparr>req_target = ''human'', req_input = JNull,
     req_schema = Some [(''type'', JStr ''object''),
        (''properties'', JObj [(''p'', JObj [(''type'', JStr ''string''), (''enum'', JInt 5)])])],
     req_deadline_s = 60, req_label = None, req_parent_tape_id = Some ''root'',
     req_parent_fork_point = Some 3, req_idempotency_key = Some ''k'', req_task_id = None\<rparr>"

definition plain_req :: invocation_request where
  "plain_req = sample_req\<lparr>req_schema := None\<rparr>"

definition yes_env :: result_envelope where
  "yes_env = \<lparr>env_action = Accept, env_content = JObj [(''p'', JStr ''x'')], env_reason = None\<rparr>"

definition finished_run :: "svc_op list" where
  "finished_run = [Op_create plain_req ''u1'' 5 ''i1'' ''t1'', Op_start ''i1'' 6,
     Op_hand_end ''i1'' (Returned yes_env), Op_finalize ''i1'' 7, Op_finalize ''i1'' 8,
     Op_finalize ''i1'' 9, Op_finalize ''i1'' 9]"

definition finished_svc :: svc where
  "finished_svc = the (svc_exec [''human''] finished_run svc_init)"

lemma finished_svc_exec: "svc_exec [''human''] finished_run svc_init = Some finished_svc"
proof -
  have "svc_exec [''human''] finished_run svc_init \<noteq> None" by code_simp
  then show ?thesis by (metis finished_svc_def option.exhaust_sel)
qed

lemma finished_svc_row:
  "hd (svc_invs finished_svc) \<in> set (svc_invs finished_svc)"
  "is_terminal (inv_status (hd (svc_invs finished_svc)))"
proof -
  have "svc_invs finished_svc \<noteq> [] \<and> is_terminal (inv_status (hd (svc_invs finished_svc)))"
    unfolding finished_svc_def by code_simp
  then show "hd (svc_invs finished_svc) \<in> set (svc_invs finished_svc)"
    "is_terminal (inv_status (hd (svc_invs finished_svc)))" by simp_all
qed

lemma finished_svc_reachable: "svc_reachable [''human''] finished_svc"
  by (rule svc_exec_reachable [OF svc_reachable.init finished_svc_exec])

lemma terminal_iff_done_witness:
  "length (dones (inv_tape_id (hd (svc_invs finished_svc))) (svc_events finished_svc)) \<le> 1"
  using terminal_iff_done [OF finished_svc_reachable finished_svc_row(1)] by (rule conjunct1)

text \<open>C3: a terminal row is final: no step of any coroutine (a late submit, a cancel, the tail of a run)
  changes or removes it.\<close>

theorem terminal_is_final:
  assumes "svc_exec hands ops s = Some s'" and "i \<in> set (svc_invs s)" and "is_terminal (inv_status i)"
  shows "i \<in> set (svc_invs s')"
  using assms(1,2)
proof (induction ops arbitrary: s)
  case (Cons op ops)
  then obtain s1 where s1: "svc_apply hands op s = Some s1" "svc_exec hands ops s1 = Some s'"
    by (auto split: option.splits)
  from s1(1) Cons.prems(2) assms(3) have "i \<in> set (svc_invs s1)" by (rule apply_keeps_terminal)
  with Cons.IH s1(2) show ?case by blast
qed simp

lemma terminal_is_final_witness:
  "\<exists>s'. svc_exec [''human''] [Op_cancel ''i1'' ''late'', Op_create plain_req ''u2'' 9 ''i2'' ''t2''] finished_svc = Some s' \<and>
     hd (svc_invs finished_svc) \<in> set (svc_invs s')"
proof -
  have "svc_exec [''human''] [Op_cancel ''i1'' ''late'', Op_create plain_req ''u2'' 9 ''i2'' ''t2''] finished_svc \<noteq> None"
    by simp
  then obtain s' where
    "svc_exec [''human''] [Op_cancel ''i1'' ''late'', Op_create plain_req ''u2'' 9 ''i2'' ''t2''] finished_svc = Some s'"
    by blast
  with terminal_is_final [OF this finished_svc_row] show ?thesis by blast
qed

text \<open>The key of an invocation row never changes, and rows are only appended.\<close>

definition idem_key :: "invocation \<Rightarrow> string \<times> string option \<times> string option" where
  "idem_key i = (inv_id i, inv_parent_tape_id i, inv_idempotency_key i)"

lemma idem_key_set_running [simp]: "map idem_key (set_running k now rows) = map idem_key rows"
  and idem_key_set_terminal [simp]: "map idem_key (set_terminal k st e now rows) = map idem_key rows"
  by (simp_all add: set_running_def set_terminal_def rows_update_def idem_key_def)

lemma apply_extends_keys:
  assumes "svc_apply hands op s = Some s'"
  shows "\<exists>ks. map idem_key (svc_invs s') = map idem_key (svc_invs s) @ ks"
proof (cases op)
  case (Op_create req caller now iid tid)
  with assms show ?thesis
    using create_invs [of hands req caller now iid tid s] by auto
qed (use assms in \<open>auto split: option.splits if_splits run_pc.splits sum.splits\<close>)

lemma exec_extends_keys:
  "svc_exec hands ops s = Some s' \<Longrightarrow> \<exists>ks. map idem_key (svc_invs s') = map idem_key (svc_invs s) @ ks"
proof (induction ops arbitrary: s)
  case (Cons op ops)
  then show ?case by (fastforce dest: apply_extends_keys split: option.splits)
qed simp

lemma find_idem_key:
  "map_option inv_id (find_by_idempotency_key p k rows) =
     map_option fst (find (\<lambda>(i, p', k'). p' = Some p \<and> k' = Some k) (map idem_key rows))"
  by (induction rows) (auto simp: find_by_idempotency_key_def idem_key_def)

lemma find_by_key_stable:
  assumes "svc_exec hands ops s = Some s'" "find_by_idempotency_key p k (svc_invs s) = Some i"
  obtains i' where "find_by_idempotency_key p k (svc_invs s') = Some i'" "inv_id i' = inv_id i"
proof -
  obtain ks where "map idem_key (svc_invs s') = map idem_key (svc_invs s) @ ks"
    using exec_extends_keys [OF assms(1)] by blast
  then have "map_option inv_id (find_by_idempotency_key p k (svc_invs s')) = Some (inv_id i)"
    using find_idem_key [of p k "svc_invs s"] assms(2)
    by (cases "find (\<lambda>(i, p', k'). p' = Some p \<and> k' = Some k) (map idem_key (svc_invs s))")
      (simp_all add: find_idem_key find_append)
  then show ?thesis using that by (cases "find_by_idempotency_key p k (svc_invs s')") auto
qed

lemma create_registers_key:
  assumes "create hands req caller now iid tid s = (Inr iv, s1)"
    and "req_parent_tape_id req = Some p" "p \<noteq> []" "req_idempotency_key req = Some k" "k \<noteq> []"
  shows "\<exists>i. find_by_idempotency_key p k (svc_invs s1) = Some i \<and> inv_id i = inv_id iv"
proof (cases "find_by_idempotency_key p k (svc_invs s)")
  case None
  from assms(1) show ?thesis
  proof (cases rule: create_cases)
    case 1
    with assms None show ?thesis by auto
  next
    case (2 tgt iv0)
    with assms None show ?thesis
      by (auto simp: find_by_idempotency_key_def find_append new_invocation_def)
  qed
next
  case (Some i)
  with assms show ?thesis
    by (auto simp: create_def opt_truthy_def split: sum.splits if_splits)
qed

text \<open>\<open>create\<close> is idempotent on (parent tape, idempotency key): once a create with the key has
  succeeded, then after anything else the service did, any later well-formed create with the same key
  returns the same invocation and changes nothing.\<close>

theorem create_idempotent:
  assumes "create hands req caller now iid tid s = (Inr iv, s1)"
    and "svc_exec hands ops s1 = Some s2"
    and "req_parent_tape_id req = Some p" "p \<noteq> []" "req_idempotency_key req = Some k" "k \<noteq> []"
    and "req_parent_tape_id req2 = Some p" "req_idempotency_key req2 = Some k"
    and "parse_target (Some (hands @ VALID_TARGET_TYPES)) (req_target req2) = Inr tgt"
    and "req_schema req2 = None"
  shows "\<exists>iv'. create hands req2 caller2 now2 iid2 tid2 s2 = (Inr iv', s2) \<and> inv_id iv' = inv_id iv"
proof -
  obtain i where "find_by_idempotency_key p k (svc_invs s1) = Some i" "inv_id i = inv_id iv"
    using create_registers_key assms by blast
  then obtain i' where "find_by_idempotency_key p k (svc_invs s2) = Some i'" "inv_id i' = inv_id iv"
    using find_by_key_stable [OF assms(2)] by metis
  with assms(4,6-10) show ?thesis by (simp add: create_def opt_truthy_def)
qed

lemma create_idempotent_witness:
  "\<exists>iv s1 s2 iv'. create [''human''] plain_req ''u'' 5 ''i1'' ''t1'' svc_init = (Inr iv, s1) \<and>
     svc_exec [''human''] (tl finished_run) s1 = Some s2 \<and>
     create [''human''] plain_req ''u'' 50 ''i2'' ''t2'' s2 = (Inr iv', s2) \<and> inv_id iv' = inv_id iv"
proof -
  have "isl (fst (create [''human''] plain_req ''u'' 5 ''i1'' ''t1'' svc_init)) = False" by code_simp
  then obtain iv s1 where c: "create [''human''] plain_req ''u'' 5 ''i1'' ''t1'' svc_init = (Inr iv, s1)"
    by (cases "create [''human''] plain_req ''u'' 5 ''i1'' ''t1'' svc_init"; cases "fst (create [''human''] plain_req ''u'' 5 ''i1'' ''t1'' svc_init)") auto
  have "svc_exec [''human''] (tl finished_run) (snd (create [''human''] plain_req ''u'' 5 ''i1'' ''t1'' svc_init)) \<noteq> None"
    by code_simp
  then obtain s2 where s2: "svc_exec [''human''] (tl finished_run) s1 = Some s2" unfolding c by auto
  have "\<exists>iv'. create [''human''] plain_req ''u'' 50 ''i2'' ''t2'' s2 = (Inr iv', s2) \<and> inv_id iv' = inv_id iv"
    by (rule create_idempotent [OF c s2, where p = "''root''" and k = "''k''" and tgt = "(''human'', None)"])
      (simp_all add: plain_req_def sample_req_def, code_simp)
  with c s2 show ?thesis by blast
qed

lemma runs_other:
  "k \<noteq> inv_id iv \<Longrightarrow> svc_runs (run_start hands now iv s) k = svc_runs s k"
  "k \<noteq> inv_id (run_inv r) \<Longrightarrow> svc_runs (run_finish out r s) k = svc_runs s k"
  "k \<noteq> inv_id iv \<Longrightarrow> svc_runs (finalize_done now iv e s) k = svc_runs s k"
  "k \<noteq> inv_id iv \<Longrightarrow> svc_runs (finalize_status now iv e s) k = svc_runs s k"
  "k \<noteq> inv_id iv \<Longrightarrow> svc_runs (finalize_handoff now iv e s) k = svc_runs s k"
  "k \<noteq> inv_id iv \<Longrightarrow> svc_runs (finalize_pop iv s) k = svc_runs s k"
  by (auto simp: run_start_def run_finish_def finalize_done_def finalize_status_def finalize_handoff_def
      finalize_pop_def Let_def split: option.split)

lemma pcs_kept:
  "map_option run_pc (svc_runs (submit_decision now sub s) k) = map_option run_pc (svc_runs s k)"
  "map_option run_pc (svc_runs (submit_set sub s) k) = map_option run_pc (svc_runs s k)"
  "map_option run_pc (svc_runs (cancel j reason s) k) = map_option run_pc (svc_runs s k)"
  by (auto simp: submit_decision_def submit_set_def cancel_def fire_def Let_def option.map_comp o_def
      split: option.split intro!: option.map_cong)

lemma check_runs: "submit_check j env s = Inr s' \<Longrightarrow> svc_runs s' = svc_runs s"
  unfolding submit_check_def
  by (cases "inv_get j (svc_invs s)"; cases "svc_runs s j"; simp split: if_split_asm)
    (drule sym, simp)

text \<open>A run never moves once its coroutine has died.\<close>

lemma dead_stays:
  assumes I: "svc_inv s" and d: "map_option run_pc (svc_runs s k) = Some Dead" and a: "svc_apply hands op s = Some s'"
  shows "map_option run_pc (svc_runs s' k) = Some Dead"
proof -
  obtain r where r: "svc_runs s k = Some r" "run_pc r = Dead" using d by auto
  have ids: "inv_id (run_inv r') = j" if "svc_runs s j = Some r'" for j r'
    using svc_inv_runs [OF I that] by (simp add: run_ok_def)
  show ?thesis
  proof (cases op)
    case (Op_create req caller now iid tid)
    obtain i where i: "i \<in> set (svc_invs s)" "inv_id i = k" using run_row [OF I r(1)] by metis
    obtain res where "create hands req caller now iid tid s = (res, s')"
      using a Op_create by (cases "create hands req caller now iid tid s") auto
    then show ?thesis
      by (cases rule: create_cases) (use i r in \<open>auto simp: new_invocation_def inv_conflicts_def\<close>)
  next
    case (Op_start j now)
    with a r ids [of j] show ?thesis by (cases "j = k") (auto simp: runs_other split: option.splits if_splits)
  next
    case (Op_hand_event j sp now)
    with a r show ?thesis by (auto split: option.splits if_splits)
  next
    case (Op_hand_end j out)
    with a r ids [of j] show ?thesis by (cases "j = k") (auto simp: runs_other split: option.splits if_splits)
  next
    case (Op_finalize j now)
    with a r obtain r' where r': "svc_runs s j = Some r'" "j \<noteq> k"
      by (cases "svc_runs s j"; cases "j = k") auto
    have "k \<noteq> inv_id (run_inv r')" using ids [OF r'(1)] r'(2) by simp
    note same = runs_other(3-6) [OF this]
    have "svc_runs s' k = svc_runs s k"
      by (cases "run_pc r'"; insert a [unfolded Op_finalize svc_apply.simps r'(1)]; simp)
        (metis same)+
    then show ?thesis using r by simp
  next
    case (Op_submit j env)
    with a have "submit_check j env s = Inr s'" by (auto split: sum.splits)
    then have "svc_runs s' = svc_runs s" by (rule check_runs)
    with r show ?thesis by simp
  next
    case (Op_decide sub now)
    with a have "s' = submit_decision now sub s" by (simp split: if_splits)
    with d show ?thesis by (simp only: pcs_kept)
  next
    case (Op_set sub)
    with a have "s' = submit_set sub s" by (simp split: if_splits)
    with d show ?thesis by (simp only: pcs_kept)
  next
    case (Op_cancel j reason)
    with a have "s' = cancel j reason s" by simp
    with d show ?thesis by (simp only: pcs_kept)
  qed
qed

lemma dead_stays_exec:
  "svc_inv s \<Longrightarrow> map_option run_pc (svc_runs s k) = Some Dead \<Longrightarrow> svc_exec hands ops s = Some s' \<Longrightarrow>
     svc_inv s' \<and> map_option run_pc (svc_runs s' k) = Some Dead"
proof (induction ops arbitrary: s)
  case (Cons op ops)
  then obtain s1 where s1: "svc_apply hands op s = Some s1" "svc_exec hands ops s1 = Some s'"
    by (auto split: option.splits)
  show ?case
    using Cons.IH [OF apply_inv [OF Cons.prems(1) s1(1)] dead_stays [OF Cons.prems(1,2) s1(1)] s1(2)] .
qed simp

lemma dead_unfinished:
  assumes "svc_inv s" "map_option run_pc (svc_runs s k) = Some Dead"
  shows "map_option inv_status (inv_get k (svc_invs s)) = Some IRunning"
proof -
  obtain r where r: "svc_runs s k = Some r" using assms(2) by auto
  obtain i where i: "i \<in> set (svc_invs s)" "inv_id i = k" "inv_ok s i"
    using run_row [OF assms(1) r] by metis
  then have "inv_get k (svc_invs s) = Some i"
    using row_get_in_set [OF svc_inv_ids [OF assms(1)] i(1)] by (simp add: inv_get_def)
  with i assms(2) show ?thesis by (auto simp: inv_ok_def unfinished_def)
qed

lemma svc_exec_append:
  "svc_exec hands (xs @ ys) s = (case svc_exec hands xs s of None \<Rightarrow> None | Some s' \<Rightarrow> svc_exec hands ys s')"
  by (induction xs arbitrary: s) (auto split: option.split)

definition crash_ops :: "svc_op list" where
  "crash_ops = [Op_create sample_req ''u1'' 5 ''i1'' ''t1'', Op_start ''i1'' 6,
     Op_hand_end ''i1'' (Returned yes_env)]"

text \<open>C5: a schema the service accepts (\<open>"enum": 5\<close>) makes \<open>validate_content\<close> raise TypeError inside
  \<open>_run\<close>, which only catches ValueError there.  The coroutine dies before \<open>_finalize\<close>, and whatever is
  done afterwards (submitting, cancelling, other invocations) the invocation stays \<open>running\<close>.\<close>

theorem crashed_run_stuck:
  assumes "svc_exec [''human''] (crash_ops @ ops) svc_init = Some s"
  shows "map_option inv_status (inv_get ''i1'' (svc_invs s)) = Some IRunning"
proof -
  obtain s0 where s0: "svc_exec [''human''] crash_ops svc_init = Some s0" "svc_exec [''human''] ops s0 = Some s"
    using assms by (auto simp: svc_exec_append split: option.splits)
  have "map_option run_pc (svc_runs (the (svc_exec [''human''] crash_ops svc_init)) ''i1'') = Some Dead"
    by code_simp
  then have "map_option run_pc (svc_runs s0 ''i1'') = Some Dead" unfolding s0(1) option.sel .
  moreover have "svc_inv s0" by (rule reachable_inv [OF svc_exec_reachable [OF svc_reachable.init s0(1)]])
  ultimately show ?thesis using dead_stays_exec [OF _ _ s0(2)] dead_unfinished by blast
qed

lemma crashed_run_stuck_witness:
  "\<exists>s. svc_exec [''human''] (crash_ops @ [Op_cancel ''i1'' ''stop'', Op_submit ''i1'' yes_env]) svc_init = Some s \<and>
     map_option inv_status (inv_get ''i1'' (svc_invs s)) = Some IRunning"
proof -
  have "svc_exec [''human''] (crash_ops @ [Op_cancel ''i1'' ''stop'', Op_submit ''i1'' yes_env]) svc_init \<noteq> None"
    by code_simp
  then obtain s where
    "svc_exec [''human''] (crash_ops @ [Op_cancel ''i1'' ''stop'', Op_submit ''i1'' yes_env]) svc_init = Some s"
    by blast
  with crashed_run_stuck [OF this] show ?thesis by blast
qed

definition late_decision :: "svc_op list" where
  "late_decision = [Op_create plain_req ''u1'' 5 ''i1'' ''t1'', Op_start ''i1'' 6,
     Op_submit ''i1'' yes_env, Op_hand_end ''i1'' Timed_out, Op_finalize ''i1'' 66,
     Op_decide \<lparr>sub_inv = the (inv_get ''i1'' (svc_invs (the (svc_exec [''human'']
         [Op_create plain_req ''u1'' 5 ''i1'' ''t1''] svc_init)))), sub_env = yes_env, sub_decided = False\<rparr> 67]"

text \<open>\<open>submit_result\<close> writes \<open>decision\<close> before it resolves the run's future, but nothing orders that
  write against the run's own deadline: a submit that passed its checks just before the deadline writes
  its \<open>decision\<close> after \<open>done\<close>.\<close>

theorem decision_can_follow_done:
  "\<exists>s. svc_exec [''human''] late_decision svc_init = Some s \<and>
     map ev_kind (tape_rows ''t1'' (svc_events s)) = [KStarted, KDone, KDecision]"
proof -
  have e: "svc_exec [''human''] late_decision svc_init \<noteq> None" by code_simp
  have "map ev_kind (tape_rows ''t1'' (svc_events (the (svc_exec [''human''] late_decision svc_init)))) =
      [KStarted, KDone, KDecision]" by code_simp
  with e show ?thesis by (metis option.exhaust_sel)
qed

lemma executing_ends:
  assumes "svc_reachable hands s" and r: "svc_runs s k = Some r" "run_pc r = Executing"
    and e: "resolve_result r out = Some e"
  shows "\<exists>s'. svc_exec hands [Op_hand_end k out, Op_finalize k t1, Op_finalize k t2, Op_finalize k t3,
        Op_finalize k t4] s = Some s' \<and> svc_runs s' k = None \<and>
      (\<exists>i\<in>set (svc_invs s'). inv_id i = k \<and> inv_result i = Some e \<and>
        inv_status i = action_to_status (env_action e))"
proof -
  have I: "svc_inv s" using assms(1) by (rule reachable_inv)
  obtain i where i: "i \<in> set (svc_invs s)" "inv_id i = k" "inv_ok s i" and k: "inv_id (run_inv r) = k"
    using run_row [OF I r(1)] by metis
  define f where "f = (\<lambda>n::run_pc. r\<lparr>run_pc := n\<rparr>)"
  have un: "\<not> is_terminal (inv_status i)" using i r by (auto simp: inv_ok_def unfinished_def is_terminal_def)
  define s1 where "s1 = run_finish out r s"
  define s2 where "s2 = finalize_done t1 (run_inv r) e s1"
  define s3 where "s3 = finalize_status t2 (run_inv r) e s2"
  define s4 where "s4 = finalize_handoff t3 (run_inv r) e s3"
  have s1: "svc_runs s1 k = Some (f (At_done e))" using r k e by (simp add: s1_def run_finish_def f_def)
  have s2: "svc_runs s2 k = Some (f (At_status e))" using s1 k by (simp add: s2_def finalize_done_def f_def)
  have s3: "svc_runs s3 k = Some (f (At_handoff e))" using s2 k by (simp add: s3_def finalize_status_def f_def)
  have s4: "svc_runs s4 k = Some (f At_pop)" using s3 k
    by (simp add: s4_def finalize_handoff_def f_def split: option.split)
  have fin: "i\<lparr>inv_status := action_to_status (env_action e), inv_result := Some e, inv_completed_at := Some t2\<rparr>
      \<in> set (svc_invs s4)"
    using rows_update_image [OF i(1), of "\<lambda>r. inv_id r = k \<and> \<not> is_terminal (inv_status r)"] i(2) un k
    by (simp add: s4_def s3_def s2_def s1_def set_terminal_def)
  have "svc_exec hands [Op_hand_end k out, Op_finalize k t1, Op_finalize k t2, Op_finalize k t3,
        Op_finalize k t4] s = Some (finalize_pop (run_inv r) s4)"
    using r s1 s2 s3 s4 by (simp add: s1_def [symmetric] f_def s2_def [symmetric]
        s3_def [symmetric] s4_def [symmetric])
  moreover have "svc_runs (finalize_pop (run_inv r) s4) k = None" by (simp add: finalize_pop_def k)
  moreover have "\<exists>i\<in>set (svc_invs (finalize_pop (run_inv r) s4)). inv_id i = k \<and> inv_result i = Some e \<and>
        inv_status i = action_to_status (env_action e)"
    unfolding service_invs(6) by (rule bexI [OF _ fin]) (simp add: i(2))
  ultimately show ?thesis by blast
qed

text \<open>C4: an executing run whose result does not crash the schema check always finishes: when its hand
  ends, four writes later the row is terminal with the resolved envelope and the run is gone.\<close>

theorem run_completes:
  assumes "svc_reachable hands s" and r: "svc_runs s k = Some r" "run_pc r = Executing"
    and e: "resolve_result r out = Some e"
  shows "\<exists>s'. svc_exec hands [Op_hand_end k out, Op_finalize k t1, Op_finalize k t2, Op_finalize k t3,
        Op_finalize k t4] s = Some s' \<and> svc_runs s' k = None \<and>
      (\<exists>i\<in>set (svc_invs s'). inv_id i = k \<and> inv_result i = Some e \<and>
        inv_status i = action_to_status (env_action e))"
  by (rule executing_ends [OF assms])

lemma run_completes_witness:
  "\<exists>s s'. svc_exec [''human''] [Op_hand_end ''i1'' Timed_out, Op_finalize ''i1'' 66, Op_finalize ''i1'' 67,
       Op_finalize ''i1'' 68, Op_finalize ''i1'' 69] s = Some s' \<and> svc_runs s' ''i1'' = None"
proof -
  define s where "s = the (svc_exec [''human''] (take 2 finished_run) svc_init)"
  have "svc_exec [''human''] (take 2 finished_run) svc_init \<noteq> None" by code_simp
  then have reach: "svc_reachable [''human''] s"
    using svc_exec_reachable [OF svc_reachable.init] by (metis s_def option.exhaust_sel)
  have pc: "map_option run_pc (svc_runs s ''i1'') = Some Executing" unfolding s_def by code_simp
  have res: "map_option (\<lambda>r. resolve_result r Timed_out) (svc_runs s ''i1'') =
      Some (Some (plain_envelope Cancel [Lit ''deadline_exceeded'']))" unfolding s_def by code_simp
  from pc res obtain r where r: "svc_runs s ''i1'' = Some r" "run_pc r = Executing"
    "resolve_result r Timed_out = Some (plain_envelope Cancel [Lit ''deadline_exceeded''])" by auto
  show ?thesis using run_completes [OF reach r] by blast
qed

end
