(* ===== verification/Watch.thy ===== *)
theory Watch
  imports Event_Tape "HOL-Library.Multiset"
begin

text \<open>
  The watch log and its subscribers: \<^verbatim>\<open>watch/store.py\<close>, \<^verbatim>\<open>watch/service.py\<close>,
  \<^verbatim>\<open>watch/types.py\<close>, \<^verbatim>\<open>services/watch_channels.py\<close> and the reconnect sequence of
  \<^verbatim>\<open>routes/stream.py\<close>.  The log is an instance of \<open>numbered_log\<close>.  A subscriber's
  \<open>asyncio.Queue\<close> is an object of its own, known by its number: it outlives the subscription.
\<close>

section \<open>Entries, events, options\<close>

datatype watch_kind = WAdded | WModified | WDeleted

fun kind_lower :: "watch_kind \<Rightarrow> string" where
  "kind_lower WAdded = ''added''"
| "kind_lower WModified = ''modified''"
| "kind_lower WDeleted = ''deleted''"

record watch_entry =
  we_seq :: int
  we_type :: string
  we_id :: string
  we_kind :: watch_kind
  we_version :: json
  we_payload :: json
  we_cookbook :: "string option"
  we_created :: int

record watch_event =
  wv_kind :: watch_kind
  wv_type :: string
  wv_id :: string
  wv_version :: json
  wv_object :: json
  wv_cookbook :: "string option"
  wv_seq :: int
  wv_channel :: string

record watch_options =
  wo_type :: "string option"
  wo_cookbook :: "string option"
  wo_since :: int
  wo_types :: "string list"
  wo_channels :: "string list"

section \<open>Channels\<close>

definition TASK_STATUS_TO_CHANNEL :: "(string \<times> string) list" where
  "TASK_STATUS_TO_CHANNEL = [(''claimed'', ''task:claimed''), (''working'', ''task:working''),
     (''done'', ''task:completed''), (''blocked'', ''task:failed''), (''cancelled'', ''task:cancelled'')]"

definition BUNDLE_STATUS_TO_CHANNEL :: "(string \<times> string) list" where
  "BUNDLE_STATUS_TO_CHANNEL = [(''closed'', ''bundle:closed''), (''open'', ''bundle:reopened'')]"

definition EVENT_TYPE_TO_CHANNEL :: "(string \<times> string) list" where
  "EVENT_TYPE_TO_CHANNEL = [(''tool_use'', ''task:message''), (''tool_result'', ''task:message''),
     (''thinking'', ''task:message''), (''agent_reply'', ''task:message''), (''milestone'', ''task:message''),
     (''fact_added'', ''task:message''), (''code_pushed'', ''task:message''),
     (''session_start'', ''task:session_start''), (''session_end'', ''task:session_end''),
     (''bundle_closed'', ''bundle:closed''), (''bundle_reopened'', ''bundle:reopened''),
     (''prompt'', ''bundle:prompt''), (''plan'', ''bundle:plan''), (''task_claimed'', ''task:claimed''),
     (''task_working'', ''task:working'')]"

definition AGENT_STATUS_TO_CHANNEL :: "(string \<times> string) list" where
  "AGENT_STATUS_TO_CHANNEL = [(''online'', ''agent:online''), (''offline'', ''agent:offline''),
     (''busy'', ''agent:busy'')]"

text \<open>\<open>status and status in MAP\<close>, then \<open>MAP[status]\<close>; statuses of dumped models are strings.\<close>

definition mapped_channel :: "(string \<times> string) list \<Rightarrow> json \<Rightarrow> string option" where
  "mapped_channel m v = (case v of JStr s \<Rightarrow> if s = [] then None else map_of m s | _ \<Rightarrow> None)"

definition by_status :: "string \<Rightarrow> (string \<times> string) list \<Rightarrow> json \<Rightarrow> watch_kind \<Rightarrow> string" where
  "by_status prefix m v k = (case mapped_channel m v of Some c \<Rightarrow> c | None \<Rightarrow> prefix @ '':'' @ kind_lower k)"

definition derive_channel :: "string \<Rightarrow> watch_kind \<Rightarrow> (string \<times> json) list \<Rightarrow> string" where
  "derive_channel rt k obj =
     (if rt = ''task'' then
        if k = WAdded then ''task:added''
        else if dict_get obj ''_channel_hint'' = JStr ''task:progress'' then ''task:progress''
        else by_status rt TASK_STATUS_TO_CHANNEL (dict_get obj ''status'') k
      else if rt = ''bundle'' then
        if k = WAdded then ''bundle:added''
        else by_status rt BUNDLE_STATUS_TO_CHANNEL (dict_get obj ''status'') k
      else if rt = ''event'' then by_status rt EVENT_TYPE_TO_CHANNEL (dict_get obj ''type'') k
      else if rt = ''agent'' then
        if k = WAdded then ''agent:added''
        else by_status rt AGENT_STATUS_TO_CHANNEL (dict_get obj ''status'') k
      else rt @ '':'' @ kind_lower k)"

fun json_dict :: "json \<Rightarrow> (string \<times> json) list" where
  "json_dict (JObj d) = d"
| "json_dict _ = []"

definition entry_to_watch_event :: "watch_entry \<Rightarrow> watch_event" where
  "entry_to_watch_event e = \<lparr>wv_kind = we_kind e, wv_type = we_type e, wv_id = we_id e,
     wv_version = we_version e, wv_object = we_payload e, wv_cookbook = we_cookbook e, wv_seq = we_seq e,
     wv_channel = derive_channel (we_type e) (we_kind e) (json_dict (we_payload e))\<rparr>"

section \<open>State\<close>

text \<open>\<open>ws_last\<close> is the AUTOINCREMENT counter, which deletions do not reset; \<open>ws_queues\<close> the queue objects,
  \<open>ws_subs\<close> the subscriptions, in order.\<close>

record watch_state =
  ws_log :: "watch_entry list"
  ws_last :: int
  ws_queues :: "nat \<Rightarrow> watch_event list"
  ws_subs :: "(nat \<times> watch_options) list"
  ws_next :: nat

definition watch_init :: watch_state where
  "watch_init = \<lparr>ws_log = [], ws_last = 0, ws_queues = (\<lambda>_. []), ws_subs = [], ws_next = 0\<rparr>"

record mutation =
  mu_type :: string
  mu_id :: string
  mu_kind :: watch_kind
  mu_version :: json
  mu_payload :: json
  mu_cookbook :: "string option"
  mu_now :: int

section \<open>The store\<close>

definition next_entry :: "mutation \<Rightarrow> watch_state \<Rightarrow> watch_entry" where
  "next_entry m s = \<lparr>we_seq = ws_last s + 1, we_type = mu_type m, we_id = mu_id m, we_kind = mu_kind m,
     we_version = mu_version m, we_payload = mu_payload m, we_cookbook = mu_cookbook m,
     we_created = mu_now m\<rparr>"

definition log_append :: "mutation \<Rightarrow> watch_state \<Rightarrow> watch_state" where
  "log_append m s = s\<lparr>ws_log := ws_log s @ [next_entry m s], ws_last := ws_last s + 1\<rparr>"

text \<open>The limit is a default argument, 500, and no caller passes another.\<close>

definition list_since :: "int \<Rightarrow> string option \<Rightarrow> string option \<Rightarrow> nat \<Rightarrow> watch_state \<Rightarrow> watch_entry list" where
  "list_since k rt cb limit s = take limit (sort_key we_seq (filter (\<lambda>e. k < we_seq e \<and>
     (case rt of None \<Rightarrow> True | Some t \<Rightarrow> we_type e = t) \<and>
     (case cb of None \<Rightarrow> True | Some c \<Rightarrow> we_cookbook e = Some c)) (ws_log s)))"

definition latest_seq :: "watch_state \<Rightarrow> int" where
  "latest_seq s = (case map we_seq (ws_log s) of [] \<Rightarrow> 0 | x # xs \<Rightarrow> fold max xs x)"

definition trim_before :: "int \<Rightarrow> watch_state \<Rightarrow> nat \<times> watch_state" where
  "trim_before k s = (length (filter (\<lambda>e. we_seq e < k) (ws_log s)),
     s\<lparr>ws_log := filter (\<lambda>e. \<not> we_seq e < k) (ws_log s)\<rparr>)"

section \<open>Subscribers\<close>

definition channel_matches :: "string \<Rightarrow> string \<Rightarrow> bool" where
  "channel_matches pat ch \<longleftrightarrow> ch \<noteq> [] \<and>
     (if ends_with ''*'' pat then starts_with (butlast pat) ch else ch = pat)"

definition matches :: "watch_options \<Rightarrow> watch_event \<Rightarrow> bool" where
  "matches o' ev \<longleftrightarrow>
     \<not> (opt_truthy (wo_type o') \<and> wv_type ev \<noteq> the (wo_type o')) \<and>
     \<not> (wo_types o' \<noteq> [] \<and> wv_type ev \<notin> set (wo_types o')) \<and>
     \<not> (opt_truthy (wo_cookbook o') \<and> wv_cookbook ev \<noteq> wo_cookbook o') \<and>
     \<not> (wo_channels o' \<noteq> [] \<and> \<not> (\<exists>p\<in>set (wo_channels o'). channel_matches p (wv_channel ev)))"

definition QUEUE_MAX :: nat where "QUEUE_MAX = 256"

definition wants :: "watch_event \<Rightarrow> nat \<times> watch_options \<Rightarrow> bool" where
  "wants ev sub \<longleftrightarrow> matches (snd sub) ev"

fun notify_loop :: "watch_event \<Rightarrow> (nat \<times> watch_options) list \<Rightarrow> (nat \<Rightarrow> watch_event list) \<Rightarrow>
    (nat \<Rightarrow> watch_event list) \<times> (nat \<times> watch_options) list" where
  "notify_loop ev [] qs = (qs, [])"
| "notify_loop ev (sub # subs) qs =
     (if \<not> wants ev sub then notify_loop ev subs qs
      else if length (qs (fst sub)) < QUEUE_MAX
      then notify_loop ev subs (qs(fst sub := qs (fst sub) @ [ev]))
      else (let (qs', dead) = notify_loop ev subs qs in (qs', sub # dead)))"

definition notify :: "watch_event \<Rightarrow> watch_state \<Rightarrow> watch_state" where
  "notify ev s = (let (qs, dead) = notify_loop ev (ws_subs s) (ws_queues s)
     in s\<lparr>ws_queues := qs, ws_subs := fold remove1 dead (ws_subs s)\<rparr>)"

definition record_mutation :: "mutation \<Rightarrow> watch_state \<Rightarrow> watch_state" where
  "record_mutation m s = notify (entry_to_watch_event (next_entry m s)) (log_append m s)"

text \<open>\<open>record_resource\<close>: the version is read off the dumped resource.\<close>

definition resource_version_of :: "json \<Rightarrow> json" where
  "resource_version_of p = (case p of
       JObj d \<Rightarrow> if dict_has d ''resource_version'' then dict_get d ''resource_version'' else JInt 1
     | _ \<Rightarrow> JInt 1)"

definition record_resource ::
  "string \<Rightarrow> string \<Rightarrow> watch_kind \<Rightarrow> json \<Rightarrow> string option \<Rightarrow> int \<Rightarrow> watch_state \<Rightarrow> watch_state" where
  "record_resource rt i k p cb now s = record_mutation \<lparr>mu_type = rt, mu_id = i, mu_kind = k,
     mu_version = resource_version_of p, mu_payload = p, mu_cookbook = cb, mu_now = now\<rparr> s"

definition notify_ephemeral ::
  "string \<Rightarrow> string \<Rightarrow> watch_kind \<Rightarrow> json \<Rightarrow> string option \<Rightarrow> watch_state \<Rightarrow> watch_state" where
  "notify_ephemeral rt i k p cb s =
     (let obj = json_dict p in
      notify \<lparr>wv_kind = k, wv_type = rt, wv_id = i,
        wv_version = resource_version_of (JObj obj), wv_object = JObj obj,
        wv_cookbook = cb, wv_seq = latest_seq s, wv_channel = derive_channel rt k obj\<rparr> s)"

definition subscribe :: "watch_options \<Rightarrow> watch_state \<Rightarrow> nat \<times> watch_state" where
  "subscribe opts s = (ws_next s, s\<lparr>ws_queues := (ws_queues s)(ws_next s := []),
     ws_subs := ws_subs s @ [(ws_next s, opts)], ws_next := Suc (ws_next s)\<rparr>)"

definition unsubscribe :: "nat \<Rightarrow> watch_state \<Rightarrow> watch_state" where
  "unsubscribe q s = s\<lparr>ws_subs := filter (\<lambda>sub. fst sub \<noteq> q) (ws_subs s)\<rparr>"

text \<open>The generator takes the head of its queue; \<open>None\<close> is the 30 s timeout (a ping).\<close>

definition queue_get :: "nat \<Rightarrow> watch_state \<Rightarrow> watch_event option \<times> watch_state" where
  "queue_get q s = (case ws_queues s q of
       [] \<Rightarrow> (None, s)
     | ev # rest \<Rightarrow> (Some ev, s\<lparr>ws_queues := (ws_queues s)(q := rest)\<rparr>))"

definition replay :: "watch_options \<Rightarrow> watch_state \<Rightarrow> watch_event list" where
  "replay opts s = map entry_to_watch_event (list_since (wo_since opts) (wo_type opts) None 500 s)"

text \<open>\<open>GET /watch?since=\<dots>\<close>: the replayed events, then a subscription.\<close>

definition watch_stream :: "watch_options \<Rightarrow> watch_state \<Rightarrow> watch_event list \<times> nat \<times> watch_state" where
  "watch_stream opts s = (replay opts s, subscribe opts s)"

section \<open>Invariant\<close>

definition watch_ok :: "watch_state \<Rightarrow> bool" where
  "watch_ok s \<longleftrightarrow> sorted_wrt (<) (map we_seq (ws_log s)) \<and>
     (\<forall>e\<in>set (ws_log s). 0 < we_seq e \<and> we_seq e \<le> ws_last s) \<and> 0 \<le> ws_last s \<and>
     distinct (map fst (ws_subs s)) \<and> (\<forall>sub\<in>set (ws_subs s). fst sub < ws_next s)"

definition full :: "watch_event \<Rightarrow> (nat \<Rightarrow> watch_event list) \<Rightarrow> nat \<times> watch_options \<Rightarrow> bool" where
  "full ev qs sub \<longleftrightarrow> wants ev sub \<and> QUEUE_MAX \<le> length (qs (fst sub))"

lemma notify_loop_char:
  assumes "distinct (map fst subs)"
  shows "notify_loop ev subs qs =
    ((\<lambda>q. if (\<exists>sub\<in>set subs. fst sub = q \<and> wants ev sub) \<and> length (qs q) < QUEUE_MAX
          then qs q @ [ev] else qs q), filter (full ev qs) subs)"
  using assms
proof (induction subs arbitrary: qs)
  case (Cons sub subs)
  have d: "distinct (map fst subs)" and new: "\<And>b. (fst sub, b) \<notin> set subs" using Cons.prems by (auto simp: image_iff)
  have upd: "filter (full ev (qs(fst sub := qs (fst sub) @ [ev]))) subs = filter (full ev qs) subs"
    by (rule filter_cong) (use new in \<open>auto simp: full_def\<close>)
  show ?case
  proof (cases "wants ev sub \<and> length (qs (fst sub)) < QUEUE_MAX")
    case True
    then have "\<not> full ev qs sub" by (simp add: full_def)
    with True new show ?thesis
      unfolding notify_loop.simps Cons.IH [OF d] upd by (auto simp: fun_eq_iff)
  next
    case False
    then show ?thesis
      using new by (auto simp: Cons.IH [OF d] full_def fun_eq_iff not_less)
  qed
qed (simp add: fun_eq_iff)

lemma fold_remove1: "distinct ys \<Longrightarrow> fold remove1 xs ys = filter (\<lambda>y. y \<notin> set xs) ys"
proof (induction xs arbitrary: ys)
  case (Cons x xs)
  then have "remove1 x ys = filter (\<lambda>y. y \<noteq> x) ys"
    by (simp add: distinct_remove1_removeAll removeAll_filter_not_eq) (rule filter_cong, auto)
  moreover have "filter (\<lambda>y. y \<notin> set xs \<and> y \<noteq> x) ys = filter (\<lambda>y. y \<notin> set (x # xs)) ys"
    by (rule filter_cong) auto
  ultimately show ?case using Cons by simp
qed simp

lemma notify_queues:
  "watch_ok s \<Longrightarrow> ws_queues (notify ev s) q =
     (if (\<exists>opts. (q, opts) \<in> set (ws_subs s) \<and> matches opts ev) \<and> length (ws_queues s q) < QUEUE_MAX
      then ws_queues s q @ [ev] else ws_queues s q)"
proof -
  assume "watch_ok s"
  then have "distinct (map fst (ws_subs s))" by (simp add: watch_ok_def)
  moreover have "(\<exists>sub\<in>set (ws_subs s). fst sub = q \<and> wants ev sub) \<longleftrightarrow>
      (\<exists>opts. (q, opts) \<in> set (ws_subs s) \<and> matches opts ev)" by (force simp: wants_def)
  ultimately show ?thesis by (simp add: notify_def notify_loop_char)
qed

lemma notify_subs:
  assumes "watch_ok s"
  shows "ws_subs (notify ev s) = filter (\<lambda>sub. \<not> full ev (ws_queues s) sub) (ws_subs s)"
proof -
  have d: "distinct (map fst (ws_subs s))" using assms by (simp add: watch_ok_def)
  have "filter (\<lambda>sub. sub \<notin> set (filter (full ev (ws_queues s)) (ws_subs s))) (ws_subs s) =
      filter (\<lambda>sub. \<not> full ev (ws_queues s) sub) (ws_subs s)" by (rule filter_cong) auto
  then show ?thesis
    using d by (simp add: notify_def notify_loop_char fold_remove1 distinct_map)
qed

lemma notify_log [simp]:
  "ws_log (notify ev s) = ws_log s" "ws_last (notify ev s) = ws_last s" "ws_next (notify ev s) = ws_next s"
  by (simp_all add: notify_def split: prod.split)

lemma log_append_simps [simp]:
  "ws_log (log_append m s) = ws_log s @ [next_entry m s]" "ws_last (log_append m s) = ws_last s + 1"
  "ws_subs (log_append m s) = ws_subs s" "ws_queues (log_append m s) = ws_queues s"
  "ws_next (log_append m s) = ws_next s"
  by (simp_all add: log_append_def)

lemma next_entry_seq [simp]: "we_seq (next_entry m s) = ws_last s + 1"
  by (simp add: next_entry_def)

lemma notify_ok: "watch_ok s \<Longrightarrow> watch_ok (notify ev s)"
  using notify_subs [of s ev]
  by (auto simp: watch_ok_def distinct_map_filter)

lemma log_append_ok: "watch_ok s \<Longrightarrow> watch_ok (log_append m s)"
  by (fastforce simp: watch_ok_def sorted_wrt_append)

lemma record_ok: "watch_ok s \<Longrightarrow> watch_ok (record_mutation m s)"
  by (simp add: record_mutation_def notify_ok log_append_ok)

lemma record_log [simp]:
  "ws_log (record_mutation m s) = ws_log s @ [next_entry m s]"
  "ws_last (record_mutation m s) = ws_last s + 1"
  by (simp_all add: record_mutation_def)

lemma trim_ok: "watch_ok s \<Longrightarrow> watch_ok (snd (trim_before k s))"
  by (auto simp: watch_ok_def trim_before_def sorted_wrt_map sorted_wrt_filter)

lemma subscribe_ok: "watch_ok s \<Longrightarrow> watch_ok (snd (subscribe opts s))"
  by (fastforce simp: watch_ok_def subscribe_def)

lemma unsubscribe_ok: "watch_ok s \<Longrightarrow> watch_ok (unsubscribe q s)"
  by (auto simp: watch_ok_def unsubscribe_def distinct_map_filter)

lemma queue_get_ok: "watch_ok s \<Longrightarrow> watch_ok (snd (queue_get q s))"
  by (auto simp: watch_ok_def queue_get_def split: list.split)

lemma watch_init_ok: "watch_ok watch_init"
  by (simp add: watch_ok_def watch_init_def)

text \<open>The watch log provides the contract of a numbered log.\<close>

interpretation watch_log: numbered_log ws_log we_seq record_mutation watch_ok
proof
  fix a s assume "watch_ok s"
  then show "\<exists>e. ws_log (record_mutation a s) = ws_log s @ [e] \<and> (\<forall>x\<in>set (ws_log s). we_seq x < we_seq e)"
    by (force simp: watch_ok_def)
qed (rule record_ok)

section \<open>What a stream delivers\<close>

text \<open>The events recorded by a run, as a subscriber would see them.\<close>

definition recorded :: "watch_state \<Rightarrow> watch_state \<Rightarrow> watch_event list" where
  "recorded s s' = map entry_to_watch_event (drop (length (ws_log s)) (ws_log s'))"

definition record_all :: "mutation list \<Rightarrow> watch_state \<Rightarrow> watch_state" where
  "record_all ms s = fold record_mutation ms s"

lemma run_record_all: "watch_log.run = record_all"
  by (simp add: fun_eq_iff watch_log.run_def record_all_def)

lemmas record_all_extends = watch_log.run_extends [unfolded run_record_all]
  and record_all_ok = watch_log.invar_run [unfolded run_record_all]
  and record_all_sorted = watch_log.run_sorted [unfolded run_record_all]

lemma run_snoc: "record_all (ms @ [m]) s = record_mutation m (record_all ms s)"
  by (simp add: record_all_def)

lemma recorded_snoc:
  assumes "watch_ok s"
  shows "recorded s (record_all (ms @ [m]) s) =
     recorded s (record_all ms s) @ [entry_to_watch_event (next_entry m (record_all ms s))]"
  using record_all_extends [OF assms, of ms] by (auto simp: recorded_def run_snoc)

lemma notify_subs_subset: "watch_ok s \<Longrightarrow> set (ws_subs (notify ev s)) \<subseteq> set (ws_subs s)"
  by (auto simp: notify_subs)

lemma run_subs_subset: "watch_ok s \<Longrightarrow> set (ws_subs (record_all ms s)) \<subseteq> set (ws_subs s)"
proof (induction ms rule: rev_induct)
  case (snoc m ms)
  have "watch_ok (log_append m (record_all ms s))"
    using record_all_ok [OF snoc.prems] by (rule log_append_ok)
  from notify_subs_subset [OF this] snoc show ?case unfolding run_snoc record_mutation_def by auto
qed (simp add: record_all_def)

lemma queue_of_run:
  assumes ok: "watch_ok s" and sub: "(q, opts) \<in> set (ws_subs s)" and len: "length (ws_queues s q) \<le> QUEUE_MAX"
  shows "ws_queues (record_all ms s) q =
       take QUEUE_MAX (ws_queues s q @ filter (matches opts) (recorded s (record_all ms s))) \<and>
     ((q, opts) \<in> set (ws_subs (record_all ms s)) \<longleftrightarrow>
       length (ws_queues s q @ filter (matches opts) (recorded s (record_all ms s))) \<le> QUEUE_MAX)"
proof (induction ms rule: rev_induct)
  case Nil
  show ?case using sub len by (simp add: record_all_def recorded_def)
next
  case (snoc m ms)
  let ?r = "record_all ms s" and ?all = "ws_queues s q @ filter (matches opts) (recorded s (record_all ms s))"
  let ?l = "log_append m ?r" and ?ev = "entry_to_watch_event (next_entry m ?r)"
  have l: "watch_ok ?l" using record_all_ok [OF ok] by (rule log_append_ok)
  have only: "opts' = opts" if "(q, opts') \<in> set (ws_subs ?l)" for opts'
  proof -
    have "(q, opts') \<in> set (ws_subs s)" using that run_subs_subset [OF ok, of ms] by auto
    with sub ok show ?thesis by (auto simp: watch_ok_def dest: eq_key_imp_eq_value)
  qed
  have wq: "ws_queues (record_all (ms @ [m]) s) q =
      (if (q, opts) \<in> set (ws_subs ?r) \<and> matches opts ?ev \<and> length (ws_queues ?r q) < QUEUE_MAX
       then ws_queues ?r q @ [?ev] else ws_queues ?r q)"
    using only by (auto simp: run_snoc record_mutation_def notify_queues [OF l])
  have ws: "(q, opts) \<in> set (ws_subs (record_all (ms @ [m]) s)) \<longleftrightarrow>
      (q, opts) \<in> set (ws_subs ?r) \<and> \<not> (matches opts ?ev \<and> QUEUE_MAX \<le> length (ws_queues ?r q))"
    by (auto simp: run_snoc record_mutation_def notify_subs [OF l] full_def wants_def)
  have all: "ws_queues s q @ filter (matches opts) (recorded s (record_all (ms @ [m]) s)) =
      ?all @ (if matches opts ?ev then [?ev] else [])"
    by (simp add: recorded_snoc [OF ok])
  show ?case
    unfolding wq ws all using snoc.IH by (cases "length ?all < QUEUE_MAX") auto
qed

lemma live_stream_queue:
  assumes "watch_ok s" and "subscribe opts s = (q, s0)"
  shows "ws_queues (record_all ms s0) q =
       take 256 (filter (matches opts) (recorded s0 (record_all ms s0)))"
    and "(q, opts) \<in> set (ws_subs (record_all ms s0)) \<longleftrightarrow>
       length (filter (matches opts) (recorded s0 (record_all ms s0))) \<le> 256"
proof -
  have "watch_ok s0" using subscribe_ok [OF assms(1), of opts] assms(2) by simp
  moreover have "(q, opts) \<in> set (ws_subs s0)" "ws_queues s0 q = []"
    using assms(2) by (auto simp: subscribe_def)
  ultimately have "ws_queues (record_all ms s0) q =
       take 256 (filter (matches opts) (recorded s0 (record_all ms s0))) \<and>
     ((q, opts) \<in> set (ws_subs (record_all ms s0)) \<longleftrightarrow>
       length (filter (matches opts) (recorded s0 (record_all ms s0))) \<le> 256)"
    using queue_of_run [of s0 q opts ms] by (simp add: QUEUE_MAX_def)
  then show "ws_queues (record_all ms s0) q =
       take 256 (filter (matches opts) (recorded s0 (record_all ms s0)))"
    and "(q, opts) \<in> set (ws_subs (record_all ms s0)) \<longleftrightarrow>
       length (filter (matches opts) (recorded s0 (record_all ms s0))) \<le> 256" by auto
qed

text \<open>A live subscriber receives the matching mutations in order, each once, until 256 of them wait
  in its queue; the next one drops the subscription, and the queue stays at those 256.\<close>

theorem live_stream:
  assumes "watch_ok s" and "subscribe opts s = (q, s0)"
  shows "ws_queues (record_all ms s0) q =
       take 256 (filter (matches opts) (recorded s0 (record_all ms s0))) \<and>
     ((q, opts) \<in> set (ws_subs (record_all ms s0)) \<longleftrightarrow>
       length (filter (matches opts) (recorded s0 (record_all ms s0))) \<le> 256)"
  using live_stream_queue [OF assms] by blast

definition sample_options :: watch_options where
  "sample_options = \<lparr>wo_type = Some ''task'', wo_cookbook = None, wo_since = 0, wo_types = [], wo_channels = []\<rparr>"

definition sample_mutation :: mutation where
  "sample_mutation = \<lparr>mu_type = ''task'', mu_id = ''t'', mu_kind = WModified, mu_version = JInt 2,
     mu_payload = JObj [(''status'', JStr ''done'')], mu_cookbook = None, mu_now = 0\<rparr>"

lemma live_stream_witness:
  "fst (subscribe sample_options watch_init) = 0 \<and>
   ws_queues (record_all [sample_mutation] (snd (subscribe sample_options watch_init))) 0 =
     take 256 (filter (matches sample_options) (recorded (snd (subscribe sample_options watch_init))
       (record_all [sample_mutation] (snd (subscribe sample_options watch_init)))))"
  using live_stream [OF watch_init_ok, of sample_options 0 "snd (subscribe sample_options watch_init)" "[sample_mutation]"]
  by (simp add: subscribe_def watch_init_def)

text \<open>The entries a reconnecting client has not seen.\<close>

definition missed :: "watch_options \<Rightarrow> watch_state \<Rightarrow> watch_entry list" where
  "missed opts s = filter (\<lambda>e. wo_since opts < we_seq e \<and>
     (case wo_type opts of None \<Rightarrow> True | Some t \<Rightarrow> we_type e = t)) (ws_log s)"

definition plain_options :: "watch_options \<Rightarrow> bool" where
  "plain_options opts \<longleftrightarrow> wo_type opts \<noteq> Some [] \<and> wo_cookbook opts = None \<and> wo_types opts = [] \<and>
     wo_channels opts = []"

lemma sorted_log: "watch_ok s \<Longrightarrow> sorted (map we_seq (filter P (ws_log s)))"
proof -
  assume "watch_ok s"
  then have "sorted_wrt (<) (map we_seq (filter P (ws_log s)))"
    by (simp add: watch_ok_def sorted_wrt_map sorted_wrt_filter)
  then show ?thesis by (rule sorted_wrt_mono_rel [rotated]) simp
qed

lemma list_since_missed:
  "watch_ok s \<Longrightarrow> list_since (wo_since opts) (wo_type opts) None n s = take n (missed opts s)"
  using sorted_log by (simp add: list_since_def missed_def sorted_sort_id sort_key_id_if_sorted)

lemma replay_missed: "watch_ok s \<Longrightarrow> replay opts s = map entry_to_watch_event (take 500 (missed opts s))"
  by (simp add: replay_def list_since_missed)

lemma matches_plain:
  "plain_options opts \<Longrightarrow> matches opts (entry_to_watch_event e) \<longleftrightarrow>
     (case wo_type opts of None \<Rightarrow> True | Some t \<Rightarrow> we_type e = t)"
  by (auto simp: plain_options_def matches_def opt_truthy_def entry_to_watch_event_def split: option.split)

lemma missed_matching:
  assumes "plain_options opts"
  shows "map entry_to_watch_event (missed opts s) =
     filter (\<lambda>ev. wo_since opts < wv_seq ev \<and> matches opts ev) (map entry_to_watch_event (ws_log s))"
  by (simp add: missed_def filter_map o_def matches_plain [OF assms])
    (simp add: entry_to_watch_event_def)

lemma stream_parts:
  assumes "watch_stream opts s = (rep, q, s0)"
  shows "rep = replay opts s" "subscribe opts s = (q, s0)" "ws_log s0 = ws_log s" "ws_last s0 = ws_last s"
  using assms by (auto simp: watch_stream_def subscribe_def)

lemma recorded_seqs:
  assumes "watch_ok s" "ev \<in> set (recorded s (record_all ms s))"
  shows "ws_last s < wv_seq ev"
  using assms(2)
proof (induction ms rule: rev_induct)
  case (snoc m ms)
  have "ws_last s \<le> ws_last (record_all ms s)" by (induction ms rule: rev_induct) (simp_all add: record_all_def)
  with snoc show ?case by (auto simp: recorded_snoc [OF assms(1)] entry_to_watch_event_def)
qed (simp add: recorded_def record_all_def)

section \<open>A reconnect among everything else\<close>

text \<open>\<open>record\<close> commits an entry and tells it to the subscribers only after an await, and \<open>GET /watch\<close> subscribes
  only after the await of its replay.  The steps of the service are cut there: \<open>fd_flying\<close> holds the events committed
  and not yet told, \<open>fd_taken q\<close> what the reader of queue \<open>q\<close> took out of it.  An ephemeral event is told and not logged.\<close>

datatype feed_op = Commit mutation | Tell nat | Ephemeral watch_event | Join watch_options | Leave nat | Take nat

record feed =
  fd_watch :: watch_state
  fd_flying :: "watch_event list"
  fd_taken :: "nat \<Rightarrow> watch_event list"

fun feed_step :: "feed_op \<Rightarrow> feed \<Rightarrow> feed" where
  "feed_step (Commit m) f = f\<lparr>fd_watch := log_append m (fd_watch f),
     fd_flying := fd_flying f @ [entry_to_watch_event (next_entry m (fd_watch f))]\<rparr>"
| "feed_step (Tell k) f = (if k < length (fd_flying f)
     then f\<lparr>fd_watch := notify (fd_flying f ! k) (fd_watch f), fd_flying := take k (fd_flying f) @ drop (Suc k) (fd_flying f)\<rparr>
     else f)"
| "feed_step (Ephemeral ev) f = f\<lparr>fd_watch := notify ev (fd_watch f)\<rparr>"
| "feed_step (Join opts) f = f\<lparr>fd_watch := snd (subscribe opts (fd_watch f))\<rparr>"
| "feed_step (Leave q) f = f\<lparr>fd_watch := unsubscribe q (fd_watch f)\<rparr>"
| "feed_step (Take q) f = (case queue_get q (fd_watch f) of
       (None, _) \<Rightarrow> f
     | (Some ev, w) \<Rightarrow> f\<lparr>fd_watch := w, fd_taken := (fd_taken f)(q := fd_taken f q @ [ev])\<rparr>)"

fun feed_run :: "feed_op list \<Rightarrow> feed \<Rightarrow> feed" where
  "feed_run [] f = f"
| "feed_run (op # ops) f = feed_run ops (feed_step op f)"

text \<open>\<open>GET /watch\<close>: the replay reads the log, others run (\<open>between\<close>), the subscription is made, and the stream
  runs on (\<open>after\<close>).\<close>

definition reconnect :: "watch_options \<Rightarrow> feed_op list \<Rightarrow> feed_op list \<Rightarrow> feed \<Rightarrow> watch_event list \<times> nat \<times> feed" where
  "reconnect opts between after f =
     (let rep = replay opts (fd_watch f); f1 = feed_run between f; (q, w) = subscribe opts (fd_watch f1)
      in (rep, q, feed_run after (f1\<lparr>fd_watch := w, fd_taken := (fd_taken f1)(q := [])\<rparr>)))"

definition live_part :: "nat \<Rightarrow> feed \<Rightarrow> watch_event list" where
  "live_part q f = fd_taken f q @ ws_queues (fd_watch f) q"

text \<open>The events a run tells: those of the log, the others, and both in order.\<close>

fun told_in :: "feed_op list \<Rightarrow> feed \<Rightarrow> watch_event list" where
  "told_in [] f = []"
| "told_in (op # ops) f = (case op of Tell k \<Rightarrow> if k < length (fd_flying f) then [fd_flying f ! k] else [] | _ \<Rightarrow> []) @
     told_in ops (feed_step op f)"

fun ephemeral :: "feed_op list \<Rightarrow> watch_event list" where
  "ephemeral [] = []"
| "ephemeral (op # ops) = (case op of Ephemeral ev \<Rightarrow> [ev] | _ \<Rightarrow> []) @ ephemeral ops"

fun heard :: "feed_op list \<Rightarrow> feed \<Rightarrow> watch_event list" where
  "heard [] f = []"
| "heard (op # ops) f = (case op of Tell k \<Rightarrow> if k < length (fd_flying f) then [fd_flying f ! k] else []
       | Ephemeral ev \<Rightarrow> [ev] | _ \<Rightarrow> []) @ heard ops (feed_step op f)"

lemma record_is_commit_tell:
  "feed_step (Tell (length (fd_flying f))) (feed_step (Commit m) f) = f\<lparr>fd_watch := record_mutation m (fd_watch f)\<rparr>"
  by (simp add: record_mutation_def)

lemma heard_mset: "mset (heard ops f) = mset (told_in ops f) + mset (ephemeral ops)"
  by (induction ops f rule: heard.induct) (auto split: feed_op.split)

lemma heard_told: "ephemeral ops = [] \<Longrightarrow> heard ops f = told_in ops f"
  by (induction ops f rule: heard.induct) (auto split: feed_op.splits)

lemma feed_step_ok: "watch_ok (fd_watch f) \<Longrightarrow> watch_ok (fd_watch (feed_step op f))"
proof (cases op)
  case (Take q)
  assume "watch_ok (fd_watch f)"
  from queue_get_ok [OF this, of q] this Take show ?thesis by (auto split: option.split prod.split)
qed (simp_all add: log_append_ok notify_ok subscribe_ok unsubscribe_ok)

lemma feed_run_ok: "watch_ok (fd_watch f) \<Longrightarrow> watch_ok (fd_watch (feed_run ops f))"
  by (induction ops arbitrary: f) (simp_all add: feed_step_ok)

subsection \<open>Nothing is lost between the log and the subscribers\<close>

lemma mset_nth_cut: "k < length xs \<Longrightarrow> add_mset (xs ! k) (mset (take k xs @ drop (Suc k) xs)) = mset xs"
  by (metis Cons_nth_drop_Suc append_take_drop_id mset.simps(2) mset_append union_mset_add_mset_right)

definition in_turn :: "feed_op \<Rightarrow> bool" where
  "in_turn op \<longleftrightarrow> (case op of Tell k \<Rightarrow> k = 0 | _ \<Rightarrow> True)"

lemma feed_run_log:
  "\<exists>es. ws_log (fd_watch (feed_run ops f)) = ws_log (fd_watch f) @ es \<and> (\<forall>e\<in>set es. ws_last (fd_watch f) < we_seq e) \<and>
     ws_last (fd_watch f) \<le> ws_last (fd_watch (feed_run ops f)) \<and>
     mset (told_in ops f) + mset (fd_flying (feed_run ops f)) = mset (fd_flying f) + mset (map entry_to_watch_event es) \<and>
     (list_all in_turn ops \<longrightarrow> told_in ops f @ fd_flying (feed_run ops f) = fd_flying f @ map entry_to_watch_event es)"
proof (induction ops arbitrary: f)
  case (Cons op ops)
  let ?f = "feed_step op f"
  obtain es where es: "ws_log (fd_watch (feed_run ops ?f)) = ws_log (fd_watch ?f) @ es"
    "\<forall>e\<in>set es. ws_last (fd_watch ?f) < we_seq e" "ws_last (fd_watch ?f) \<le> ws_last (fd_watch (feed_run ops ?f))"
    "mset (told_in ops ?f) + mset (fd_flying (feed_run ops ?f)) = mset (fd_flying ?f) + mset (map entry_to_watch_event es)"
    "list_all in_turn ops \<Longrightarrow> told_in ops ?f @ fd_flying (feed_run ops ?f) = fd_flying ?f @ map entry_to_watch_event es"
    using Cons.IH [of ?f] by blast
  show ?case
  proof (cases op)
    case (Commit m)
    then show ?thesis using es by (intro exI [of _ "next_entry m (fd_watch f) # es"]) auto
  next
    case (Tell k)
    show ?thesis
    proof (cases "k < length (fd_flying f)")
      case True
      note cut = mset_nth_cut [OF True]
      have "in_turn op \<Longrightarrow> fd_flying f ! k # (take k (fd_flying f) @ drop (Suc k) (fd_flying f)) = fd_flying f"
        using True Tell by (simp add: in_turn_def Cons_nth_drop_Suc)
      then show ?thesis using es True Tell cut by (intro exI [of _ es]) (auto simp flip: cut)
    qed (use es Tell in \<open>auto\<close>)
  next
    case (Take q)
    then show ?thesis using es by (auto simp: queue_get_def split: list.splits)
  qed (use es in \<open>auto simp: subscribe_def unsubscribe_def\<close>)
qed simp

subsection \<open>A subscriber hears what matches\<close>

lemma gone_stays:
  assumes "watch_ok (fd_watch f)" "q < ws_next (fd_watch f)" "(q, opts) \<notin> set (ws_subs (fd_watch f))"
  shows "(q, opts) \<notin> set (ws_subs (fd_watch (feed_run ops f)))"
  using assms
proof (induction ops arbitrary: f)
  case (Cons op ops)
  have "q < ws_next (fd_watch (feed_step op f)) \<and> (q, opts) \<notin> set (ws_subs (fd_watch (feed_step op f)))"
    using Cons.prems
    by (cases op) (auto simp: subscribe_def unsubscribe_def queue_get_def notify_subs split: list.split)
  then show ?case using Cons.IH [OF feed_step_ok [OF Cons.prems(1)]] by simp
qed simp

lemma sub_next: "watch_ok w \<Longrightarrow> (q, opts) \<in> set (ws_subs w) \<Longrightarrow> q < ws_next w"
  by (auto simp: watch_ok_def)

lemma live_notify:
  assumes ok: "watch_ok (fd_watch f)" and sub: "(q, opts) \<in> set (ws_subs (fd_watch f))"
    and kept: "(q, opts) \<in> set (ws_subs (notify ev (fd_watch f)))"
  shows "ws_queues (notify ev (fd_watch f)) q = ws_queues (fd_watch f) q @ filter (matches opts) [ev]"
proof -
  have only: "opts' = opts" if "(q, opts') \<in> set (ws_subs (fd_watch f))" for opts'
    using that sub ok by (auto simp: watch_ok_def dest: eq_key_imp_eq_value)
  have ex: "(\<exists>opts'. (q, opts') \<in> set (ws_subs (fd_watch f)) \<and> matches opts' ev) \<longleftrightarrow> matches opts ev"
    using sub only by blast
  have "\<not> full ev (ws_queues (fd_watch f)) (q, opts)" using kept notify_subs [OF ok, of ev] by simp
  then show ?thesis unfolding notify_queues [OF ok] ex by (auto simp: full_def wants_def)
qed

lemma live_step:
  assumes ok: "watch_ok (fd_watch f)" and sub: "(q, opts) \<in> set (ws_subs (fd_watch f))"
    and kept: "(q, opts) \<in> set (ws_subs (fd_watch (feed_step op f)))"
  shows "live_part q (feed_step op f) = live_part q f @ filter (matches opts) (heard [op] f)"
proof (cases op)
  case (Take r)
  then show ?thesis by (auto simp: live_part_def queue_get_def split: list.split)
next
  case (Join o')
  then show ?thesis using sub_next [OF ok sub] by (simp add: live_part_def subscribe_def)
next
  case (Tell k)
  then show ?thesis using live_notify [OF ok sub, of "fd_flying f ! k"] kept by (auto simp: live_part_def)
next
  case (Ephemeral ev)
  then show ?thesis using live_notify [OF ok sub, of ev] kept by (auto simp: live_part_def)
qed (simp_all add: live_part_def unsubscribe_def)

lemma heard_Cons: "heard (op # ops) f = heard [op] f @ heard ops (feed_step op f)"
  by (cases op) simp_all

lemma live_run:
  assumes "watch_ok (fd_watch f)" "(q, opts) \<in> set (ws_subs (fd_watch f))" "(q, opts) \<in> set (ws_subs (fd_watch (feed_run ops f)))"
  shows "live_part q (feed_run ops f) = live_part q f @ filter (matches opts) (heard ops f)"
  using assms
proof (induction ops arbitrary: f)
  case (Cons op ops)
  have ok: "watch_ok (fd_watch (feed_step op f))" by (rule feed_step_ok [OF Cons.prems(1)])
  have next_up: "q < ws_next (fd_watch (feed_step op f))"
    using sub_next [OF Cons.prems(1,2)] by (cases op) (auto simp: subscribe_def unsubscribe_def queue_get_def split: list.split)
  have kept: "(q, opts) \<in> set (ws_subs (fd_watch (feed_step op f)))"
    using gone_stays [OF ok next_up, of opts ops] Cons.prems(3) by auto
  have "live_part q (feed_run (op # ops) f) = live_part q (feed_step op f) @ filter (matches opts) (heard ops (feed_step op f))"
    using Cons.IH [OF ok kept] Cons.prems(3) by simp
  then show ?case
    unfolding live_step [OF Cons.prems(1,2) kept] heard_Cons [of op ops f] filter_append append_assoc .
qed simp

lemma missed_due:
  assumes "wo_type opts \<noteq> Some []"
  shows "filter (matches opts) (map entry_to_watch_event (missed opts w)) =
     filter (\<lambda>ev. wo_since opts < wv_seq ev \<and> matches opts ev) (map entry_to_watch_event (ws_log w))"
proof -
  have "matches opts (entry_to_watch_event e) \<Longrightarrow> (case wo_type opts of None \<Rightarrow> True | Some t \<Rightarrow> we_type e = t)" for e
    using assms by (auto simp: matches_def opt_truthy_def entry_to_watch_event_def split: option.split)
  moreover have "wv_seq (entry_to_watch_event e) = we_seq e" for e by (simp add: entry_to_watch_event_def)
  ultimately show ?thesis unfolding missed_def filter_map filter_filter
    by (intro arg_cong [where f = "map entry_to_watch_event"] filter_cong) auto
qed

lemma later_due:
  assumes "\<forall>e\<in>set es. wo_since opts < we_seq e"
  shows "filter (\<lambda>ev. wo_since opts < wv_seq ev \<and> matches opts ev) (map entry_to_watch_event es) =
     filter (matches opts) (map entry_to_watch_event es)"
  using assms by (intro filter_cong) (auto simp: entry_to_watch_event_def)

text \<open>C10: what a reconnecting client gets, whatever else happens while it reconnects and afterwards: mutations are
  committed and told to the subscribers at different times, in any order; others join, leave and read; ephemeral
  events are sent. For a request with any filter whose type is not the empty text, with a cursor
  the log has reached, at most 500 entries replayed and as long as its subscription is not dropped for 256 waiting
  events: among the matching events, what it is replayed and what reaches its queue, together with what was told
  between its replay and its subscription and what is not told yet, is the log after its cursor, each entry once,
  together with what was committed but not told at its replay and the ephemeral events. So a matching mutation
  committed after the replay and told before the subscription is lost to it, and one committed before the replay and
  told after the subscription comes twice. When there are none of either kind, the events are told in the order of
  the commits and nothing ephemeral is sent, it gets the matching entries after its cursor in their order, each once, up
  to those not told yet. The live part matches the whole filter; the replayed part matches only its type, so it may
  hold events of other channels, and matches the whole filter when the request has none but its type.\<close>

theorem resume_complete:
  assumes ok: "watch_ok (fd_watch f)" and opts: "wo_type opts \<noteq> Some []" "wo_since opts \<le> ws_last (fd_watch f)"
    and run: "reconnect opts between after f = (rep, q, f')"
    and replayed: "length (missed opts (fd_watch f)) \<le> 500"
    and kept: "(q, opts) \<in> set (ws_subs (fd_watch f'))"
  defines "due \<equiv> \<lambda>ev. wo_since opts < wv_seq ev \<and> matches opts ev"
  shows "mset (filter (matches opts) (rep @ live_part q f')) + mset (filter (matches opts) (told_in between f)) +
        mset (filter (matches opts) (fd_flying f')) =
      mset (filter due (map entry_to_watch_event (ws_log (fd_watch f')))) + mset (filter (matches opts) (fd_flying f)) +
        mset (filter (matches opts) (ephemeral after)) \<and>
    (list_all in_turn (between @ after) \<and> fd_flying f = [] \<and> filter (matches opts) (told_in between f) = [] \<and> ephemeral after = [] \<longrightarrow>
      filter (matches opts) (rep @ live_part q f') @ filter (matches opts) (fd_flying f') =
        filter due (map entry_to_watch_event (ws_log (fd_watch f')))) \<and>
    filter (matches opts) (live_part q f') = live_part q f' \<and>
    rep = map entry_to_watch_event (missed opts (fd_watch f)) \<and> (plain_options opts \<longrightarrow> filter (matches opts) rep = rep)"
proof -
  let ?M = "filter (matches opts)" and ?D = "filter due" and ?E = "map entry_to_watch_event"
  define f1 where "f1 = feed_run between f"
  define w where "w = snd (subscribe opts (fd_watch f1))"
  define f2 where "f2 = f1\<lparr>fd_watch := w, fd_taken := (fd_taken f1)(q := [])\<rparr>"
  have sub: "subscribe opts (fd_watch f1) = (q, w)" and rep: "rep = replay opts (fd_watch f)" and f': "f' = feed_run after f2"
    using run by (auto simp: reconnect_def Let_def f1_def f2_def w_def subscribe_def)
  have ok1: "watch_ok (fd_watch f1)" unfolding f1_def by (rule feed_run_ok [OF ok])
  have ok2: "watch_ok (fd_watch f2)" using subscribe_ok [OF ok1, of opts] sub by (simp add: f2_def)
  have new: "(q, opts) \<in> set (ws_subs (fd_watch f2))" "live_part q f2 = []"
    using sub by (auto simp: f2_def live_part_def subscribe_def)
  have live: "live_part q f' = ?M (heard after f2)"
    using live_run [OF ok2 new(1), of after] kept new(2) by (simp add: f')
  have rep': "rep = ?E (missed opts (fd_watch f))" using replayed by (simp add: rep replay_missed [OF ok])
  obtain es1 where es1: "ws_log (fd_watch f1) = ws_log (fd_watch f) @ es1" "\<forall>e\<in>set es1. ws_last (fd_watch f) < we_seq e"
    "ws_last (fd_watch f) \<le> ws_last (fd_watch f1)" "mset (told_in between f) + mset (fd_flying f1) = mset (fd_flying f) + mset (?E es1)"
    "list_all in_turn between \<Longrightarrow> told_in between f @ fd_flying f1 = fd_flying f @ ?E es1"
    using feed_run_log [of between f] unfolding f1_def by blast
  have same: "ws_log (fd_watch f2) = ws_log (fd_watch f1)" "ws_last (fd_watch f2) = ws_last (fd_watch f1)" "fd_flying f2 = fd_flying f1"
    using sub by (auto simp: f2_def subscribe_def)
  obtain es2 where es2: "ws_log (fd_watch f') = ws_log (fd_watch f1) @ es2" "\<forall>e\<in>set es2. ws_last (fd_watch f1) < we_seq e"
    "mset (told_in after f2) + mset (fd_flying f') = mset (fd_flying f1) + mset (?E es2)"
    "list_all in_turn after \<Longrightarrow> told_in after f2 @ fd_flying f' = fd_flying f1 @ ?E es2"
    using feed_run_log [of after f2] unfolding f' same by blast
  have later: "\<forall>e\<in>set (es1 @ es2). wo_since opts < we_seq e" using es1(2,3) es2(2) opts(2) by fastforce
  have log: "?D (?E (ws_log (fd_watch f'))) = ?M rep @ ?M (?E es1) @ ?M (?E es2)"
    using missed_due [OF opts(1), of "fd_watch f"] later_due [OF later]
    by (simp add: due_def rep' es1(1) es2(1) del: filter_append add: filter_append [symmetric]) (simp add: filter_append)
  have cut: "mset (?M xs) + mset (?M ys) = mset (?M us) + mset (?M vs)" if "mset xs + mset ys = mset us + mset vs" for xs ys us vs
    using arg_cong [OF that, of "filter_mset (matches opts)"] by (simp add: mset_filter)
  have "mset (?M (rep @ live_part q f')) + mset (?M (told_in between f)) + mset (?M (fd_flying f')) =
      mset (?D (?E (ws_log (fd_watch f')))) + mset (?M (fd_flying f)) + mset (?M (ephemeral after))"
  proof -
    have "mset (?M (heard after f2)) = mset (?M (told_in after f2)) + mset (?M (ephemeral after))"
      using arg_cong [OF heard_mset, of "filter_mset (matches opts)" after f2] by (simp add: mset_filter)
    then show ?thesis
      using cut [OF es1(4)] cut [OF es2(3)] unfolding log live by (simp add: ac_simps) (metis add.assoc add.commute)
  qed
  moreover have "?M (rep @ live_part q f') @ ?M (fd_flying f') = ?D (?E (ws_log (fd_watch f')))"
    if turn: "list_all in_turn (between @ after)" and quiet: "fd_flying f = []" "?M (told_in between f) = []" "ephemeral after = []"
  proof -
    have "told_in between f @ fd_flying f1 = ?E es1" "told_in after f2 @ fd_flying f' = fd_flying f1 @ ?E es2"
      using es1(5) es2(4) turn quiet(1) by simp_all
    then have "?M (told_in between f) @ ?M (fd_flying f1) = ?M (?E es1)" "?M (told_in after f2) @ ?M (fd_flying f') = ?M (fd_flying f1) @ ?M (?E es2)"
      by (metis filter_append)+
    then show ?thesis unfolding log live by (simp add: quiet(2) heard_told [OF quiet(3)])
  qed
  moreover have "?M rep = rep" if "plain_options opts"
    unfolding rep' by (simp add: filter_map o_def matches_plain [OF that] missed_def)
  ultimately show ?thesis using rep' live by simp
qed

lemmas eval_watch = sample_options_def sample_mutation_def watch_init_def watch_stream_def subscribe_def
  record_all_def record_mutation_def notify_def log_append_def next_entry_def entry_to_watch_event_def
  missed_def plain_options_def replay_def list_since_def recorded_def

definition sample_feed :: feed where
  "sample_feed = \<lparr>fd_watch = record_all [sample_mutation] watch_init, fd_flying = [], fd_taken = (\<lambda>_. [])\<rparr>"

lemmas eval_feed = sample_feed_def reconnect_def live_part_def queue_get_def notify_loop.simps wants_def matches_def opt_truthy_def

lemma resume_complete_witness:
  "\<exists>f'. reconnect sample_options [] [Commit sample_mutation, Tell 0, Take 0] sample_feed =
      (replay sample_options (fd_watch sample_feed), 0, f') \<and>
     replay sample_options (fd_watch sample_feed) @ live_part 0 f' = map entry_to_watch_event (ws_log (fd_watch f')) \<and>
     length (ws_log (fd_watch f')) = 2"
proof -
  let ?after = "[Commit sample_mutation, Tell 0, Take 0]"
  obtain rep q f' where run: "reconnect sample_options [] ?after sample_feed = (rep, q, f')" by (rule prod_cases3)
  have ok: "watch_ok (fd_watch sample_feed)" using record_all_ok [OF watch_init_ok] by (simp add: sample_feed_def)
  have log: "ws_log (fd_watch f') = [next_entry sample_mutation watch_init, next_entry sample_mutation (fd_watch sample_feed)]"
    and q: "q = 0" and rep: "rep = replay sample_options (fd_watch sample_feed)" and kept: "(q, sample_options) \<in> set (ws_subs (fd_watch f'))"
    using run by (auto simp: eval_feed eval_watch QUEUE_MAX_def)
  have opts: "wo_type sample_options \<noteq> Some []" "wo_since sample_options \<le> ws_last (fd_watch sample_feed)"
    "length (missed sample_options (fd_watch sample_feed)) \<le> 500"
    by (simp_all add: eval_feed eval_watch)
  have fl: "fd_flying f' = []" using run by (auto simp: eval_feed eval_watch QUEUE_MAX_def)
  have turn: "list_all in_turn ([] @ ?after)" "fd_flying sample_feed = []" "ephemeral ?after = []" by (simp_all add: in_turn_def sample_feed_def)
  note spec = resume_complete [OF ok opts(1,2) run opts(3) kept]
  have plain: "plain_options sample_options" by (simp add: plain_options_def sample_options_def)
  have due: "filter (\<lambda>ev. wo_since sample_options < wv_seq ev \<and> matches sample_options ev) (map entry_to_watch_event (ws_log (fd_watch f'))) =
      map entry_to_watch_event (ws_log (fd_watch f'))"
    unfolding log by (simp add: eval_feed eval_watch)
  have "rep @ live_part q f' = map entry_to_watch_event (ws_log (fd_watch f'))"
    using spec turn fl plain unfolding due by (simp del: mset_append mset_filter) metis
  then show ?thesis using run q rep log by (intro exI [of _ f']) simp
qed

text \<open>The two races of a reconnect: a task told between the replay and the subscription never reaches the client,
  and one committed before and told after reaches it twice.\<close>

lemma resume_races:
  "\<exists>rep q f'. reconnect sample_options [Commit sample_mutation, Tell 0] [] sample_feed = (rep, q, f') \<and>
     length (rep @ live_part q f') = 1 \<and> length (ws_log (fd_watch f')) = 2"
  "\<exists>rep q f'. reconnect sample_options [] [Tell 0] (feed_step (Commit sample_mutation) sample_feed) = (rep, q, f') \<and>
     length (rep @ live_part q f') = 3 \<and> length (ws_log (fd_watch f')) = 2"
  by (simp_all add: eval_feed eval_watch QUEUE_MAX_def)

text \<open>A client that missed more than 500 entries loses some for good: an entry after its cursor that
  matches is neither replayed nor ever queued, whatever is recorded later.\<close>

theorem replay_gap:
  assumes ok: "watch_ok s" and opts: "plain_options opts"
    and stream: "watch_stream opts s = (rep, q, s0)"
    and many: "500 < length (missed opts s)"
  shows "\<exists>e\<in>set (ws_log s). wo_since opts < we_seq e \<and> matches opts (entry_to_watch_event e) \<and>
     entry_to_watch_event e \<notin> set (rep @ ws_queues (record_all ms s0) q)"
proof -
  note parts = stream_parts [OF stream]
  have ok0: "watch_ok s0" using subscribe_ok [OF ok, of opts] parts(2) by simp
  define e where "e = missed opts s ! 500"
  have e: "e \<in> set (missed opts s)" using many by (simp add: e_def)
  then have log: "e \<in> set (ws_log s)" "wo_since opts < we_seq e" "matches opts (entry_to_watch_event e)"
    by (auto simp: missed_def matches_plain [OF opts])
  have "distinct (map we_seq (missed opts s))"
    using ok by (auto simp: watch_ok_def missed_def strict_sorted_iff intro: distinct_map_filter)
  then have "we_seq e \<notin> set (map we_seq (take 500 (missed opts s)))"
    using many by (auto simp: e_def in_set_conv_nth distinct_conv_nth)
  then have "entry_to_watch_event e \<notin> set rep"
    by (auto simp: parts(1) replay_missed [OF ok] entry_to_watch_event_def)
  moreover have "entry_to_watch_event e \<notin> set (ws_queues (record_all ms s0) q)"
  proof
    assume "entry_to_watch_event e \<in> set (ws_queues (record_all ms s0) q)"
    then have "entry_to_watch_event e \<in> set (recorded s0 (record_all ms s0))"
      unfolding live_stream_queue [OF ok parts(2)] by (auto dest: in_set_takeD)
    from recorded_seqs [OF ok0 this] have "ws_last s < we_seq e"
      by (simp add: parts(4) entry_to_watch_event_def)
    with log(1) ok show False by (auto simp: watch_ok_def)
  qed
  ultimately show ?thesis using log by auto
qed

lemma sample_log:
  "length (ws_log (record_all (replicate n sample_mutation) watch_init)) = n \<and>
   (\<forall>e\<in>set (ws_log (record_all (replicate n sample_mutation) watch_init)). we_type e = ''task'')"
proof (induction n)
  case (Suc n)
  have "replicate (Suc n) sample_mutation = replicate n sample_mutation @ [sample_mutation]"
    by (simp add: replicate_append_same)
  with Suc show ?case
    by (simp only: run_snoc) (simp add: next_entry_def sample_mutation_def)
qed (simp add: record_all_def watch_init_def)

lemma replay_gap_witness:
  "\<exists>e\<in>set (ws_log (record_all (replicate 501 sample_mutation) watch_init)).
     entry_to_watch_event e \<notin> set (replay sample_options (record_all (replicate 501 sample_mutation) watch_init))"
proof -
  define s where "s = record_all (replicate 501 sample_mutation) watch_init"
  have ok: "watch_ok s" unfolding s_def by (rule record_all_ok [OF watch_init_ok])
  have "missed sample_options s = ws_log s"
    using ok sample_log [of 501]
    by (auto simp: missed_def sample_options_def s_def watch_ok_def intro!: filter_True)
  then have many: "500 < length (missed sample_options s)" using sample_log [of 501] by (simp add: s_def)
  obtain rep q s0 where stream: "watch_stream sample_options s = (rep, q, s0)" by (metis prod.exhaust)
  have "plain_options sample_options" by (simp add: plain_options_def sample_options_def)
  from replay_gap [OF ok this stream many, of "[]"] show ?thesis
    by (auto simp: s_def [symmetric] stream_parts(1) [OF stream])
qed

text \<open>A replay does not look at the channel filter of the request.\<close>

lemma replay_ignores_channels:
  "\<exists>ev\<in>set (replay (sample_options\<lparr>wo_channels := [''bundle:*'']\<rparr>) (record_all [sample_mutation] watch_init)).
     \<not> matches (sample_options\<lparr>wo_channels := [''bundle:*'']\<rparr>) ev"
  by (simp add: eval_watch notify_loop.simps matches_def channel_matches_def derive_channel_def by_status_def
      mapped_channel_def TASK_STATUS_TO_CHANNEL_def dict_get_def starts_with_def ends_with_def)

text \<open>Trimming the log never lets a sequence number be used again.\<close>

lemma seq_after_trim:
  assumes "watch_ok s" and "e \<in> set (ws_log s)"
  shows "we_seq e < we_seq (next_entry m (snd (trim_before k s)))"
  using assms by (auto simp: watch_ok_def trim_before_def)

end
