(* ===== verification/Domain.thy ===== *)
theory Domain
  imports Watch
begin

text \<open>
  The domain models of \<^verbatim>\<open>models/domain.py\<close> as records, with what \<open>model_dump(mode="json")\<close>
  makes of the ones that are published on the watch log, and the database they live in.  Times are
  integers; a dumped time is a \<open>JInt\<close>.  A JSON column that is NULL is \<open>JNull\<close>.
\<close>

section \<open>Statuses and types\<close>

datatype bundle_status = BOpen | BClosed

datatype task_status = TOpen | TClaimed | TWorking | TDone | TBlocked | TCancelled | TBlockedOnReview

datatype agent_status = AOnline | AOffline | ABusy

datatype actor_kind = ByHuman | ByAgent | BySystem | ByHook

datatype domain_event_type = EPrompt | EPlan | ETaskClaimed | ETaskWorking | EMilestone | EFactAdded
  | ECodePushed | EBundleClosed | EBundleReopened | ESessionStart | ESessionEnd | EToolUse | EToolResult
  | EAgentReply | EThinking | EProgress | EBlocker | ENeedsReview | ENeedsHuman | ELog

fun bundle_status_name :: "bundle_status \<Rightarrow> string" where
  "bundle_status_name BOpen = ''open''"
| "bundle_status_name BClosed = ''closed''"

fun task_status_name :: "task_status \<Rightarrow> string" where
  "task_status_name TOpen = ''open''"
| "task_status_name TClaimed = ''claimed''"
| "task_status_name TWorking = ''working''"
| "task_status_name TDone = ''done''"
| "task_status_name TBlocked = ''blocked''"
| "task_status_name TCancelled = ''cancelled''"
| "task_status_name TBlockedOnReview = ''blocked_on_review''"

fun agent_status_name :: "agent_status \<Rightarrow> string" where
  "agent_status_name AOnline = ''online''"
| "agent_status_name AOffline = ''offline''"
| "agent_status_name ABusy = ''busy''"

fun actor_kind_name :: "actor_kind \<Rightarrow> string" where
  "actor_kind_name ByHuman = ''human''"
| "actor_kind_name ByAgent = ''agent''"
| "actor_kind_name BySystem = ''system''"
| "actor_kind_name ByHook = ''hook''"

fun event_type_name :: "domain_event_type \<Rightarrow> string" where
  "event_type_name EPrompt = ''prompt''"
| "event_type_name EPlan = ''plan''"
| "event_type_name ETaskClaimed = ''task_claimed''"
| "event_type_name ETaskWorking = ''task_working''"
| "event_type_name EMilestone = ''milestone''"
| "event_type_name EFactAdded = ''fact_added''"
| "event_type_name ECodePushed = ''code_pushed''"
| "event_type_name EBundleClosed = ''bundle_closed''"
| "event_type_name EBundleReopened = ''bundle_reopened''"
| "event_type_name ESessionStart = ''session_start''"
| "event_type_name ESessionEnd = ''session_end''"
| "event_type_name EToolUse = ''tool_use''"
| "event_type_name EToolResult = ''tool_result''"
| "event_type_name EAgentReply = ''agent_reply''"
| "event_type_name EThinking = ''thinking''"
| "event_type_name EProgress = ''progress''"
| "event_type_name EBlocker = ''blocker''"
| "event_type_name ENeedsReview = ''needs_review''"
| "event_type_name ENeedsHuman = ''needs_human''"
| "event_type_name ELog = ''log''"

section \<open>Rows\<close>

record bundle_row =
  bundle_id :: string
  bundle_cookbook :: "string option"
  bundle_repo_spec :: json
  bundle_prompt :: string
  bundle_status :: bundle_status
  bundle_created_by :: string
  bundle_created_at :: int
  bundle_claimed_at :: "int option"
  bundle_cooked_at :: "int option"
  bundle_digested_at :: "int option"
  bundle_blocked_reason :: "string option"
  bundle_graph_terminal_at :: "int option"
  bundle_graph_code :: "string option"
  bundle_graph_mermaid :: "string option"
  bundle_version :: int
  bundle_generation :: int
  bundle_owner :: "string option"
  bundle_runtime :: "string option"
  bundle_sandbox :: "string option"
  bundle_autoplan :: bool

record task =
  task_id :: string
  task_bundle :: string
  task_title :: string
  task_description :: "string option"
  task_status :: task_status
  task_depends_on :: "string list"
  task_assigned :: "string option"
  task_claimed_by :: "string option"
  task_claimed_at :: "int option"
  task_completed_at :: "int option"
  task_blocked_reason :: "string option"
  task_node :: "string option"
  task_version :: int
  task_generation :: int
  task_progress :: json
  task_session_id :: "string option"
  task_work_dir :: "string option"
  task_artifacts :: json
  task_session_token :: "string option"
  task_runtime :: "string option"
  task_sandbox :: "string option"
  task_brief :: json
  task_report :: json
  task_orch :: json
  task_created_by :: "string option"
  task_updated_at :: "int option"

record event =
  event_id :: string
  event_cookbook :: "string option"
  event_bundle :: "string option"
  event_task :: "string option"
  event_type :: domain_event_type
  event_actor :: string
  event_actor_kind :: actor_kind
  event_body :: string
  event_payload :: json
  event_sequence :: int
  event_facts :: "json list"
  event_code_refs :: "json list"
  event_visibility :: string
  event_created_at :: int
  event_expires_at :: "int option"

record presence =
  agent_id :: string
  agent_cookbook :: string
  agent_display :: string
  agent_capabilities :: "string list"
  agent_max_tasks :: int
  agent_endpoint :: "string option"
  agent_status :: agent_status
  agent_heartbeat :: int
  agent_current_task :: "string option"
  agent_version :: int
  agent_owner :: "string option"
  agent_mint_tx :: "string option"
  agent_mint_token :: "int option"
  agent_wallet :: "string option"

section \<open>Dumps\<close>

text \<open>\<open>Task.model_dump(mode="json")\<close>, fields in declaration order.\<close>

definition task_json :: "task \<Rightarrow> json" where
  "task_json t = JObj [(''id'', JStr (task_id t)), (''bundle_id'', JStr (task_bundle t)),
     (''title'', JStr (task_title t)), (''description'', opt_json (task_description t)),
     (''status'', JStr (task_status_name (task_status t))),
     (''depends_on_task_ids'', JArr (map JStr (task_depends_on t))),
     (''assigned_agent_id'', opt_json (task_assigned t)),
     (''claimed_by_agent_id'', opt_json (task_claimed_by t)),
     (''claimed_at'', opt_json_int (task_claimed_at t)),
     (''completed_at'', opt_json_int (task_completed_at t)),
     (''blocked_reason'', opt_json (task_blocked_reason t)),
     (''graph_node_id'', opt_json (task_node t)), (''resource_version'', JInt (task_version t)),
     (''generation'', JInt (task_generation t)), (''progress'', task_progress t),
     (''session_id'', opt_json (task_session_id t)), (''work_dir'', opt_json (task_work_dir t)),
     (''artifacts'', task_artifacts t), (''session_token'', opt_json (task_session_token t)),
     (''assigned_runtime_id'', opt_json (task_runtime t)), (''sandbox_id'', opt_json (task_sandbox t)),
     (''brief'', task_brief t), (''report'', task_report t), (''orch'', task_orch t),
     (''created_by_task'', opt_json (task_created_by t)), (''updated_at'', opt_json_int (task_updated_at t))]"

text \<open>Two fields of the model are computed by one query only and absent (\<open>None\<close>) or equal to the
  creation time elsewhere.\<close>

definition bundle_json :: "int option \<Rightarrow> bundle_row \<Rightarrow> json" where
  "bundle_json activity b = JObj [(''id'', JStr (bundle_id b)), (''cookbook_id'', opt_json (bundle_cookbook b)),
     (''repo_spec'', bundle_repo_spec b), (''prompt'', JStr (bundle_prompt b)),
     (''status'', JStr (bundle_status_name (bundle_status b))), (''created_by'', JStr (bundle_created_by b)),
     (''created_at'', JInt (bundle_created_at b)), (''claimed_at'', opt_json_int (bundle_claimed_at b)),
     (''cooked_at'', opt_json_int (bundle_cooked_at b)), (''digested_at'', opt_json_int (bundle_digested_at b)),
     (''blocked_reason'', opt_json (bundle_blocked_reason b)),
     (''graph_terminal_at'', opt_json_int (bundle_graph_terminal_at b)),
     (''graph_code'', opt_json (bundle_graph_code b)), (''graph_mermaid'', opt_json (bundle_graph_mermaid b)),
     (''resource_version'', JInt (bundle_version b)), (''generation'', JInt (bundle_generation b)),
     (''owner_account_id'', opt_json (bundle_owner b)),
     (''default_agent_runtime_id'', opt_json (bundle_runtime b)), (''sandbox_id'', opt_json (bundle_sandbox b)),
     (''latest_task_activity_at'', opt_json_int activity), (''task_count'', JNull)]"

definition event_json :: "event \<Rightarrow> json" where
  "event_json e = JObj [(''id'', JStr (event_id e)), (''cookbook_id'', opt_json (event_cookbook e)),
     (''bundle_id'', opt_json (event_bundle e)), (''task_id'', opt_json (event_task e)),
     (''type'', JStr (event_type_name (event_type e))), (''actor_id'', JStr (event_actor e)),
     (''actor_type'', JStr (actor_kind_name (event_actor_kind e))), (''body'', JStr (event_body e)),
     (''payload'', event_payload e), (''sequence'', JInt (event_sequence e)),
     (''facts'', JArr (event_facts e)), (''code_refs'', JArr (event_code_refs e)),
     (''visibility'', JStr (event_visibility e)), (''created_at'', JInt (event_created_at e)),
     (''expires_at'', opt_json_int (event_expires_at e))]"

definition presence_json :: "presence \<Rightarrow> json" where
  "presence_json a = JObj [(''agent_id'', JStr (agent_id a)), (''cookbook_id'', JStr (agent_cookbook a)),
     (''display_name'', JStr (agent_display a)), (''capabilities'', JArr (map JStr (agent_capabilities a))),
     (''max_concurrent_tasks'', JInt (agent_max_tasks a)), (''endpoint_url'', opt_json (agent_endpoint a)),
     (''status'', JStr (agent_status_name (agent_status a))), (''last_heartbeat_at'', JInt (agent_heartbeat a)),
     (''current_task_id'', opt_json (agent_current_task a)), (''resource_version'', JInt (agent_version a)),
     (''owner_username'', opt_json (agent_owner a)), (''mint_tx_hash'', opt_json (agent_mint_tx a)),
     (''mint_token_id'', opt_json_int (agent_mint_token a)), (''aa_wallet_address'', opt_json (agent_wallet a))]"

text \<open>What the stream makes of a task's status.\<close>

lemma task_channel:
  "derive_channel ''task'' WModified (json_dict (task_json t)) =
     (case task_status t of TClaimed \<Rightarrow> ''task:claimed'' | TWorking \<Rightarrow> ''task:working''
      | TDone \<Rightarrow> ''task:completed'' | TBlocked \<Rightarrow> ''task:failed'' | TCancelled \<Rightarrow> ''task:cancelled''
      | _ \<Rightarrow> ''task:modified'')"
  by (cases "task_status t")
    (simp_all add: derive_channel_def task_json_def dict_get_def by_status_def mapped_channel_def
      TASK_STATUS_TO_CHANNEL_def)

section \<open>The database\<close>

record tape_entry =
  te_id :: int
  te_tape :: string
  te_kind :: string
  te_payload :: json
  te_meta :: json
  te_date :: int

text \<open>A row of \<open>task_links\<close> (\<^verbatim>\<open>routes/links.py\<close>).\<close>

record link =
  link_id :: string
  link_bundle :: string
  link_from :: string
  link_to :: string
  link_kind :: string
  link_payload_map :: "(string \<times> json) list"
  link_account :: string
  link_created_by_task :: "string option"
  link_created_at :: int
  link_fired_at :: "int option"
  link_revoked_at :: "int option"

text \<open>A verdict of the review gate, and a report of tokens used.\<close>

record review =
  review_id :: string
  review_of :: string
  review_action :: string
  review_reason :: "string option"
  review_diff :: "string option"
  review_by :: string
  review_at :: int

record usage =
  usage_id :: string
  usage_task :: string
  usage_input :: int
  usage_output :: int
  usage_model :: "string option"
  usage_cost :: "rat option"
  usage_duration :: "int option"
  usage_at :: int

text \<open>Cookbooks, who they are shared with and which repositories they may clone.\<close>

datatype share_role = Owner | Member | Viewer

datatype repo_provider = Github | Gitlab | Bitbucket

record cookbook =
  cb_id :: string
  cb_name :: string
  cb_owner :: string
  cb_created_at :: int
  cb_repo_path :: "string option"

record share =
  sh_id :: string
  sh_cookbook :: string
  sh_account :: string
  sh_role :: share_role
  sh_by :: string
  sh_at :: int
  sh_revoked_at :: "int option"

record grant =
  gr_id :: string
  gr_cookbook :: string
  gr_provider :: repo_provider
  gr_scope :: string
  gr_token_ref :: string
  gr_by :: string
  gr_at :: int
  gr_revoked_at :: "int option"

text \<open>A daemon process, and a sandbox it works in.\<close>

record runtime =
  rt_id :: string
  rt_agent :: string
  rt_account :: string
  rt_daemon :: "string option"
  rt_provider :: "string option"
  rt_host_info :: "(string \<times> json) list"
  rt_status :: string
  rt_last_seen :: int
  rt_started :: int

record sandbox =
  sb_id :: string
  sb_task :: "string option"
  sb_bundle :: "string option"
  sb_owner :: string
  sb_e2b :: string
  sb_template :: string
  sb_status :: string
  sb_created_at :: int
  sb_updated_at :: int
  sb_terminated_at :: "int option"
  sb_last_event :: "int option"

text \<open>The A2A gateway: the card of an agent and a message in its mailbox; and a question an invocation
  asks a human (\<open>elicits\<close>).\<close>

record agent_card =
  ac_owner :: string
  ac_agent :: string
  ac_json :: json
  ac_updated_at :: int

datatype mail_status = MPending | MProcessing | MCompleted | MFailed | MTimeout

record mail =
  ma_id :: string
  ma_owner :: string
  ma_agent :: string
  ma_method :: string
  ma_params :: json
  ma_caller :: json
  ma_status :: mail_status
  ma_result :: "json option"
  ma_error :: "string option"
  ma_created_at :: int
  ma_completed_at :: "int option"
  ma_expires_at :: int

datatype elicit_status = ElPending | ElInjecting | ElResolved | ElExpired

record elicit =
  el_id :: string
  el_invocation :: string
  el_op :: string
  el_payload :: string
  el_status :: elicit_status
  el_injecting_until :: "int option"
  el_created_at :: int
  el_resolved_at :: "int option"

text \<open>Tables are lists in \<open>rowid\<close> order.  \<open>db_ids\<close> is the
  stream \<open>uuid4\<close> draws from and \<open>db_drawn\<close> how much of it is used; ids drawn are taken to be new.\<close>

record db =
  db_accounts :: "string list"
  db_wallets :: "(string \<times> string) list"
  db_cookbooks :: "cookbook list"
  db_shares :: "share list"
  db_grants :: "grant list"
  db_bundles :: "bundle_row list"
  db_tasks :: "task list"
  db_events :: "event list"
  db_tapes :: "tape_entry list"
  db_agents :: "presence list"
  db_links :: "link list"
  db_reviews :: "review list"
  db_usage :: "usage list"
  db_runtimes :: "runtime list"
  db_sandboxes :: "sandbox list"
  db_cards :: "agent_card list"
  db_mail :: "mail list"
  db_elicits :: "elicit list"
  db_watch :: watch_state
  db_ids :: "nat \<Rightarrow> string"
  db_drawn :: nat

definition draw :: "string \<Rightarrow> db \<Rightarrow> string \<times> db" where
  "draw prefix s = (prefix @ db_ids s (db_drawn s), s\<lparr>db_drawn := Suc (db_drawn s)\<rparr>)"

definition publish ::
  "string \<Rightarrow> string \<Rightarrow> watch_kind \<Rightarrow> json \<Rightarrow> string option \<Rightarrow> int \<Rightarrow> db \<Rightarrow> db" where
  "publish rt i k p cb now s = s\<lparr>db_watch := record_resource rt i k p cb now (db_watch s)\<rparr>"

lemma publish_simps [simp]:
  "db_tasks (publish rt i k p cb now s) = db_tasks s" "db_bundles (publish rt i k p cb now s) = db_bundles s"
  "db_events (publish rt i k p cb now s) = db_events s" "db_agents (publish rt i k p cb now s) = db_agents s"
  "db_links (publish rt i k p cb now s) = db_links s" "db_cookbooks (publish rt i k p cb now s) = db_cookbooks s"
  "db_tapes (publish rt i k p cb now s) = db_tapes s" "db_ids (publish rt i k p cb now s) = db_ids s"
  "db_drawn (publish rt i k p cb now s) = db_drawn s" "db_reviews (publish rt i k p cb now s) = db_reviews s"
  "db_runtimes (publish rt i k p cb now s) = db_runtimes s" "db_usage (publish rt i k p cb now s) = db_usage s"
  "db_accounts (publish rt i k p cb now s) = db_accounts s" "db_wallets (publish rt i k p cb now s) = db_wallets s" "db_shares (publish rt i k p cb now s) = db_shares s"
  "db_grants (publish rt i k p cb now s) = db_grants s" "db_sandboxes (publish rt i k p cb now s) = db_sandboxes s"
  "db_cards (publish rt i k p cb now s) = db_cards s" "db_mail (publish rt i k p cb now s) = db_mail s"
  "db_elicits (publish rt i k p cb now s) = db_elicits s"
  by (simp_all add: publish_def)

lemma publish_log [simp]:
  "ws_log (db_watch (publish rt i k p cb now s)) = ws_log (db_watch s) @
     [next_entry \<lparr>mu_type = rt, mu_id = i, mu_kind = k, mu_version = resource_version_of p, mu_payload = p,
        mu_cookbook = cb, mu_now = now\<rparr> (db_watch s)]"
  by (simp add: publish_def record_resource_def)

lemma publish_ok: "watch_ok (db_watch s) \<Longrightarrow> watch_ok (db_watch (publish rt i k p cb now s))"
  by (simp add: publish_def record_resource_def record_ok)

lemma draw_simps [simp]:
  "db_tasks (snd (draw p s)) = db_tasks s" "db_bundles (snd (draw p s)) = db_bundles s"
  "db_events (snd (draw p s)) = db_events s" "db_agents (snd (draw p s)) = db_agents s"
  "db_links (snd (draw p s)) = db_links s" "db_cookbooks (snd (draw p s)) = db_cookbooks s"
  "db_tapes (snd (draw p s)) = db_tapes s" "db_watch (snd (draw p s)) = db_watch s"
  "db_reviews (snd (draw p s)) = db_reviews s" "db_runtimes (snd (draw p s)) = db_runtimes s"
  "db_usage (snd (draw p s)) = db_usage s"
  "db_accounts (snd (draw p s)) = db_accounts s" "db_wallets (snd (draw p s)) = db_wallets s" "db_shares (snd (draw p s)) = db_shares s"
  "db_grants (snd (draw p s)) = db_grants s" "db_sandboxes (snd (draw p s)) = db_sandboxes s"
  "db_cards (snd (draw p s)) = db_cards s" "db_mail (snd (draw p s)) = db_mail s" "db_elicits (snd (draw p s)) = db_elicits s"
  by (simp_all add: draw_def)

end
