(* ===== verification/Task_Repo.thy ===== *)
theory Task_Repo
  imports Domain
begin

text \<open>
  The tables of tasks and events (\<^verbatim>\<open>repositories/task_repo.py\<close>, \<^verbatim>\<open>repositories/event_repo.py\<close>,
  \<^verbatim>\<open>tape/manager.py\<close>), one definition per query.  \<open>keyed_table\<close> is interpreted on the UPDATE of a
  task, so what an update leaves alone is known without unfolding it.
\<close>

section \<open>Events\<close>

definition classify_visibility :: "string \<Rightarrow> string" where
  "classify_visibility t =
     (if t \<in> {''prompt'', ''plan'', ''task_claimed'', ''milestone'', ''fact_added'', ''code_pushed'',
              ''bundle_closed'', ''bundle_reopened''} then ''user''
      else ''system'')"

definition next_sequence :: "string option \<Rightarrow> event list \<Rightarrow> int" where
  "next_sequence t events = (case t of
       None \<Rightarrow> 0
     | Some i \<Rightarrow> (case map event_sequence (filter (\<lambda>e. event_task e = Some i) events) of
           [] \<Rightarrow> 0 | x # xs \<Rightarrow> fold max xs x) + 1)"

definition tape_payload :: "event \<Rightarrow> json" where
  "tape_payload e = JObj [(''event_id'', JStr (event_id e)), (''bundle_id'', opt_json (event_bundle e)),
     (''task_id'', opt_json (event_task e)), (''body'', JStr (event_body e)),
     (''facts'', JArr (event_facts e)), (''code_refs'', JArr (event_code_refs e))]"

definition tape_meta :: "event \<Rightarrow> json" where
  "tape_meta e = JObj [(''actor_id'', JStr (event_actor e)),
     (''actor_type'', JStr (actor_kind_name (event_actor_kind e))),
     (''event_type'', JStr (event_type_name (event_type e)))]"

text \<open>\<open>TapeManager\<close> prefixes a name without a colon.\<close>

definition tape_name_of :: "string \<Rightarrow> string" where
  "tape_name_of n = (if CHR '':'' \<in> set n then n else ''recipe:'' @ n)"

definition record_event :: "string \<Rightarrow> event \<Rightarrow> int \<Rightarrow> db \<Rightarrow> db" where
  "record_event name e now s = s\<lparr>db_tapes := db_tapes s @ [\<lparr>te_id = int (length (db_tapes s)) + 1,
     te_tape = tape_name_of name, te_kind = event_type_name (event_type e), te_payload = tape_payload e,
     te_meta = tape_meta e, te_date = now\<rparr>]\<rparr>"

definition event_create :: "event \<Rightarrow> int \<Rightarrow> db \<Rightarrow> db" where
  "event_create e now s = record_event
     (if opt_truthy (event_cookbook e) then ''cookbook:'' @ the (event_cookbook e) else ''orphan'') e now
     (s\<lparr>db_events := db_events s @ [e]\<rparr>)"

definition delete_expired :: "int \<Rightarrow> db \<Rightarrow> nat \<times> db" where
  "delete_expired now s =
     (let gone = (\<lambda>e. case event_expires_at e of None \<Rightarrow> False | Some x \<Rightarrow> x \<le> now)
      in (length (filter gone (db_events s)), s\<lparr>db_events := filter (\<lambda>e. \<not> gone e) (db_events s)\<rparr>))"

definition set_expiry_for_bundle :: "string \<Rightarrow> int \<Rightarrow> db \<Rightarrow> db" where
  "set_expiry_for_bundle b x s = s\<lparr>db_events := rows_update
     (\<lambda>e. event_bundle e = Some b \<and> event_expires_at e = None)
     (\<lambda>e. e\<lparr>event_expires_at := Some x\<rparr>) (db_events s)\<rparr>"

text \<open>\<open>ORDER BY sequence, created_at\<close>, and the most recent rows in that order when a limit is given.\<close>

definition by_time :: "event list \<Rightarrow> event list" where
  "by_time es = sort_key event_sequence (sort_key event_created_at es)"

definition events_by_task :: "string \<Rightarrow> db \<Rightarrow> event list" where
  "events_by_task t s = by_time (filter (\<lambda>e. event_task e = Some t) (db_events s))"

section \<open>Tasks\<close>

definition task_get :: "string \<Rightarrow> db \<Rightarrow> task option" where
  "task_get i s = row_get task_id i (db_tasks s)"

definition bundle_get :: "string \<Rightarrow> db \<Rightarrow> bundle_row option" where
  "bundle_get i s = row_get bundle_id i (db_bundles s)"

definition cookbook_get :: "string \<Rightarrow> db \<Rightarrow> cookbook option" where
  "cookbook_get i s = row_get cb_id i (db_cookbooks s)"

text \<open>The INSERT names some columns only; the others are NULL.\<close>

definition inserted_task :: "task \<Rightarrow> int \<Rightarrow> task" where
  "inserted_task t now = t\<lparr>task_progress := JNull, task_session_id := None, task_work_dir := None,
     task_artifacts := JObj [], task_session_token := None, task_runtime := None, task_sandbox := None,
     task_brief := JNull, task_report := JNull, task_orch := JNull, task_created_by := None,
     task_updated_at := Some now\<rparr>"

definition task_create :: "task \<Rightarrow> int \<Rightarrow> db \<Rightarrow> task res \<times> db" where
  "task_create t now s =
     (if task_get (task_id t) s \<noteq> None \<or> bundle_get (task_bundle t) s = None then (Inl IntegrityError, s)
      else (Inr (t\<lparr>task_updated_at := Some now\<rparr>),
            s\<lparr>db_tasks := db_tasks s @ [inserted_task t now]\<rparr>))"

definition list_by_bundle :: "string \<Rightarrow> db \<Rightarrow> task list" where
  "list_by_bundle b s = filter (\<lambda>t. task_bundle t = b) (db_tasks s)"

definition in_cookbook :: "string \<Rightarrow> db \<Rightarrow> task \<Rightarrow> bool" where
  "in_cookbook c s t \<longleftrightarrow> (case bundle_get (task_bundle t) s of
       None \<Rightarrow> False | Some b \<Rightarrow> bundle_cookbook b = Some c)"

definition list_open_by_cookbook :: "string \<Rightarrow> db \<Rightarrow> task list" where
  "list_open_by_cookbook c s =
     filter (\<lambda>t. in_cookbook c s t \<and> task_status t = TOpen \<and> task_node t = None) (db_tasks s)"

definition is_active :: "task \<Rightarrow> bool" where
  "is_active t \<longleftrightarrow> task_status t = TClaimed \<or> task_status t = TWorking"

definition list_active_by_agent :: "string option \<Rightarrow> string \<Rightarrow> db \<Rightarrow> task list" where
  "list_active_by_agent c a s = filter (\<lambda>t. (case c of None \<Rightarrow> True | Some c' \<Rightarrow> in_cookbook c' s t) \<and>
     task_claimed_by t = Some a \<and> is_active t) (db_tasks s)"

definition list_assigned_unclaimed_by_agent :: "string \<Rightarrow> string \<Rightarrow> db \<Rightarrow> task list" where
  "list_assigned_unclaimed_by_agent c a s = filter (\<lambda>t. in_cookbook c s t \<and> task_assigned t = Some a \<and>
     task_status t = TOpen \<and> task_claimed_by t = None) (db_tasks s)"

text \<open>The keyword arguments of \<open>TaskRepo.update\<close>.\<close>

record task_changes =
  up_title :: "string option"
  up_description :: "string option"
  up_status :: "task_status option"
  up_assigned :: "string option"
  up_claimed_by :: "string option"
  up_claimed_at :: "int option"
  up_completed_at :: "int option"
  up_blocked_reason :: "string option"
  up_clear_blocked_reason :: bool
  up_clear_claim :: bool
  up_depends_on :: "string list option"
  up_expected_version :: "int option"

definition no_update :: task_changes where
  "no_update = \<lparr>up_title = None, up_description = None, up_status = None, up_assigned = None,
     up_claimed_by = None, up_claimed_at = None, up_completed_at = None, up_blocked_reason = None,
     up_clear_blocked_reason = False, up_clear_claim = False, up_depends_on = None,
     up_expected_version = None\<rparr>"

definition spec_changed :: "task_changes \<Rightarrow> bool" where
  "spec_changed u \<longleftrightarrow> up_title u \<noteq> None \<or> up_description u \<noteq> None \<or> up_depends_on u \<noteq> None \<or>
     up_assigned u \<noteq> None"

text \<open>No column but the version is set: the query is not run.\<close>

definition nothing_set :: "task_changes \<Rightarrow> bool" where
  "nothing_set u \<longleftrightarrow> \<not> spec_changed u \<and> up_status u = None \<and> \<not> up_clear_claim u \<and>
     up_claimed_by u = None \<and> up_claimed_at u = None \<and> up_completed_at u = None \<and>
     \<not> up_clear_blocked_reason u \<and> up_blocked_reason u = None"

definition set_opt :: "'a option \<Rightarrow> 'a \<Rightarrow> 'a" where
  "set_opt new old = (case new of None \<Rightarrow> old | Some x \<Rightarrow> x)"

definition set_opt' :: "'a option \<Rightarrow> 'a option \<Rightarrow> 'a option" where
  "set_opt' new old = (case new of None \<Rightarrow> old | Some x \<Rightarrow> Some x)"

text \<open>The SET list.  \<open>clear_claim\<close> also assigns \<open>assigned_agent_id = NULL\<close>; SQLite applies the last
  assignment to a column, so the claim columns given with it win, and the assigned agent does not.\<close>

definition apply_update :: "task_changes \<times> int \<Rightarrow> task \<Rightarrow> task" where
  "apply_update un t = (case un of (u, now) \<Rightarrow> t\<lparr>
     task_version := task_version t + 1,
     task_title := set_opt (up_title u) (task_title t),
     task_description := set_opt' (up_description u) (task_description t),
     task_status := set_opt (up_status u) (task_status t),
     task_assigned := (if up_clear_claim u then None else set_opt' (up_assigned u) (task_assigned t)),
     task_claimed_by := set_opt' (up_claimed_by u) (if up_clear_claim u then None else task_claimed_by t),
     task_claimed_at := set_opt' (up_claimed_at u) (if up_clear_claim u then None else task_claimed_at t),
     task_completed_at := set_opt' (up_completed_at u) (task_completed_at t),
     task_blocked_reason := (if up_clear_blocked_reason u then None
                             else set_opt' (up_blocked_reason u) (task_blocked_reason t)),
     task_depends_on := set_opt (up_depends_on u) (task_depends_on t),
     task_generation := (if spec_changed u then task_generation t + 1 else task_generation t),
     task_updated_at := Some now\<rparr>)"

interpretation task_rows: keyed_table task_id apply_update
  by unfold_locales (simp add: apply_update_def split: prod.split)

definition update_where :: "string \<Rightarrow> task_changes \<Rightarrow> task \<Rightarrow> bool" where
  "update_where i u t \<longleftrightarrow> task_id t = i \<and>
     (case up_expected_version u of None \<Rightarrow> True | Some v \<Rightarrow> task_version t = v)"

definition task_update :: "string \<Rightarrow> task_changes \<Rightarrow> int \<Rightarrow> db \<Rightarrow> task option res \<times> db" where
  "task_update i u now s =
     (if nothing_set u then (Inr (task_get i s), s)
      else let s' = s\<lparr>db_tasks := rows_update (update_where i u) (apply_update (u, now)) (db_tasks s)\<rparr> in
        if up_expected_version u \<noteq> None \<and> row_count (update_where i u) (db_tasks s) = 0
        then (if task_get i s' \<noteq> None then Inl (StaleResourceError ''task'' i) else Inr None, s')
        else (Inr (task_get i s'), s'))"

text \<open>Foreign keys are on, and \<open>task_usage.task_id\<close> references the task without ON DELETE.\<close>

definition task_delete :: "string \<Rightarrow> db \<Rightarrow> bool res \<times> db" where
  "task_delete i s =
     (if task_get i s \<noteq> None \<and> list_ex (\<lambda>u. usage_task u = i) (db_usage s) then (Inl IntegrityError, s)
      else (Inr (row_count (\<lambda>t. task_id t = i) (db_tasks s) > 0),
            s\<lparr>db_tasks := filter (\<lambda>t. task_id t \<noteq> i) (db_tasks s)\<rparr>))"

definition reopened :: "int \<Rightarrow> task \<Rightarrow> task" where
  "reopened now t = t\<lparr>task_status := TOpen, task_assigned := None, task_claimed_by := None,
     task_claimed_at := None, task_completed_at := None, task_blocked_reason := None,
     task_version := task_version t + 1, task_updated_at := Some now\<rparr>"

interpretation reopened_rows: keyed_table task_id reopened
  by unfold_locales (simp add: reopened_def)

definition reopen_for_rerun :: "string \<Rightarrow> int \<Rightarrow> db \<Rightarrow> task option \<times> db" where
  "reopen_for_rerun i now s =
     (let s' = s\<lparr>db_tasks := rows_update (\<lambda>t. task_id t = i) (reopened now) (db_tasks s)\<rparr>
      in (task_get i s', s'))"

definition set_session_token :: "string \<Rightarrow> string \<Rightarrow> db \<Rightarrow> db" where
  "set_session_token i token s = s\<lparr>db_tasks := rows_update
     (\<lambda>t. task_id t = i \<and> task_session_token t = None)
     (\<lambda>t. t\<lparr>task_session_token := Some token\<rparr>) (db_tasks s)\<rparr>"

text \<open>A dict comprehension: a later row of the same node replaces an earlier one.\<close>

definition build_node_id_map :: "string \<Rightarrow> db \<Rightarrow> (string \<times> string) list" where
  "build_node_id_map b s = fold (\<lambda>t m. case task_node t of None \<Rightarrow> m
     | Some n \<Rightarrow> (case map_of m n of None \<Rightarrow> m @ [(n, task_id t)]
         | Some _ \<Rightarrow> map (\<lambda>(n', i). if n' = n then (n', task_id t) else (n', i)) m))
     (list_by_bundle b s) []"

section \<open>What the queries change\<close>

lemma task_update_db:
  "snd (task_update i u now s) = (if nothing_set u then s
     else s\<lparr>db_tasks := rows_update (update_where i u) (apply_update (u, now)) (db_tasks s)\<rparr>)"
  by (simp add: task_update_def Let_def)

lemma task_update_plain:
  assumes "up_expected_version u = None" "\<not> nothing_set u"
  shows "task_update i u now s =
    (Inr (map_option (apply_update (u, now)) (task_get i s)),
     s\<lparr>db_tasks := rows_update (\<lambda>t. task_id t = i) (apply_update (u, now)) (db_tasks s)\<rparr>)"
proof -
  have "update_where i u = (\<lambda>t. task_id t = i)" using assms(1) by (simp add: update_where_def fun_eq_iff)
  then show ?thesis
    using assms by (simp add: task_update_def Let_def task_get_def task_rows.get_update_key)
qed

lemma event_create_simps [simp]:
  "db_tasks (event_create e now s) = db_tasks s" "db_bundles (event_create e now s) = db_bundles s"
  "db_events (event_create e now s) = db_events s @ [e]" "db_agents (event_create e now s) = db_agents s"
  "db_links (event_create e now s) = db_links s" "db_watch (event_create e now s) = db_watch s"
  "db_cookbooks (event_create e now s) = db_cookbooks s" "db_ids (event_create e now s) = db_ids s"
  "db_drawn (event_create e now s) = db_drawn s" "db_reviews (event_create e now s) = db_reviews s"
  "db_runtimes (event_create e now s) = db_runtimes s" "db_usage (event_create e now s) = db_usage s"
  "db_accounts (event_create e now s) = db_accounts s" "db_wallets (event_create e now s) = db_wallets s" "db_shares (event_create e now s) = db_shares s"
  "db_grants (event_create e now s) = db_grants s" "db_sandboxes (event_create e now s) = db_sandboxes s"
  by (simp_all add: event_create_def record_event_def)

lemma task_get_cong [simp]:
  "task_get i (event_create e now s) = task_get i s"
  "task_get i (publish rt j k p cb now s) = task_get i s"
  "task_get i (snd (draw pre s)) = task_get i s"
  "bundle_get i (event_create e now s) = bundle_get i s"
  "bundle_get i (publish rt j k p cb now s) = bundle_get i s"
  "bundle_get i (snd (draw pre s)) = bundle_get i s"
  by (simp_all add: task_get_def bundle_get_def)

lemma task_get_update:
  "task_get j (s\<lparr>db_tasks := rows_update (\<lambda>t. task_id t = i) (apply_update un) (db_tasks s)\<rparr>) =
     (if j = i then map_option (apply_update un) (task_get i s) else task_get j s)"
  by (simp add: task_get_def task_rows.get_update_key)

lemma task_get_reopen:
  "task_get j (s\<lparr>db_tasks := rows_update (\<lambda>t. task_id t = i) (reopened now) (db_tasks s)\<rparr>) =
     (if j = i then map_option (reopened now) (task_get i s) else task_get j s)"
  by (simp add: task_get_def reopened_rows.get_update_key)

text \<open>Task rows keep their keys under every query but INSERT and DELETE.\<close>

definition task_keys :: "db \<Rightarrow> string list" where
  "task_keys s = map task_id (db_tasks s)"

lemma task_keys_update [simp]: "task_keys (snd (task_update i u now s)) = task_keys s"
  by (simp add: task_update_db task_keys_def task_rows.map_key_update)

lemma task_keys_reopen [simp]: "task_keys (snd (reopen_for_rerun i now s)) = task_keys s"
  by (simp add: reopen_for_rerun_def task_keys_def Let_def reopened_rows.map_key_update)

lemma task_keys_same [simp]:
  "task_keys (event_create e now s) = task_keys s"
  "task_keys (publish rt j k p cb now s) = task_keys s"
  "task_keys (snd (draw pre s)) = task_keys s"
  by (simp_all add: task_keys_def)

lemma task_get_key: "task_get i s = Some t \<Longrightarrow> task_id t = i \<and> t \<in> set (db_tasks s)"
  unfolding task_get_def by (rule row_get_Some)

end
