(* ===== verification/Task_Service.thy ===== *)
theory Task_Service
  imports Task_Repo
begin

text \<open>
  \<^verbatim>\<open>services/task_service.py\<close>, every method, over the tables of \<open>Task_Repo\<close>.  A method's result is
  what it returns or raises together with the database, since what it committed before an exception
  stays.  The clock is read once per call (\<open>now\<close>).
\<close>

section \<open>Operations\<close>

definition cookbook_id_for_bundle :: "string \<Rightarrow> db \<Rightarrow> string option" where
  "cookbook_id_for_bundle b s = (case bundle_get b s of None \<Rightarrow> None | Some r \<Rightarrow> bundle_cookbook r)"

definition check_and_stamp_session_token :: "string \<Rightarrow> string option \<Rightarrow> db \<Rightarrow> unit res \<times> db" where
  "check_and_stamp_session_token i token s =
     (if \<not> opt_truthy token then (Inr (), s)
      else case task_get i s of
        None \<Rightarrow> (Inr (), s)
      | Some t \<Rightarrow>
         (case task_session_token t of
            None \<Rightarrow> (Inr (), set_session_token i (the token) s)
          | Some k \<Rightarrow> if k = the token then (Inr (), s) else (Inl (SessionTokenMismatch i), s)))"

definition deps_done :: "string list \<Rightarrow> db \<Rightarrow> bool" where
  "deps_done deps s \<longleftrightarrow>
     list_all (\<lambda>d. case task_get d s of None \<Rightarrow> False | Some t \<Rightarrow> task_status t = TDone) deps"

text \<open>An event as the services build it; the caller gives what differs.\<close>

definition new_event :: "string \<Rightarrow> string option \<Rightarrow> string option \<Rightarrow> string option \<Rightarrow> domain_event_type \<Rightarrow>
    string \<Rightarrow> actor_kind \<Rightarrow> string \<Rightarrow> int \<Rightarrow> event" where
  "new_event i cb b t ty actor kind body now =
     \<lparr>event_id = i, event_cookbook = cb, event_bundle = b, event_task = t, event_type = ty,
      event_actor = actor, event_actor_kind = kind, event_body = body, event_payload = JObj [],
      event_sequence = 0, event_facts = [], event_code_refs = [], event_visibility = ''system'',
      event_created_at = now, event_expires_at = None\<rparr>"

definition publish_task :: "watch_kind \<Rightarrow> task \<Rightarrow> string option \<Rightarrow> int \<Rightarrow> db \<Rightarrow> db" where
  "publish_task k t cb now s = publish ''task'' (task_id t) k (task_json t) cb now s"

definition publish_event :: "event \<Rightarrow> string option \<Rightarrow> int \<Rightarrow> db \<Rightarrow> db" where
  "publish_event e cb now s = publish ''event'' (event_id e) WAdded (event_json e) cb now s"

definition publish_opt :: "task option \<Rightarrow> string option \<Rightarrow> int \<Rightarrow> db \<Rightarrow> db" where
  "publish_opt r cb now s = (case r of None \<Rightarrow> s | Some t \<Rightarrow> publish_task WModified t cb now s)"

definition claim_task :: "string \<Rightarrow> string \<Rightarrow> string option \<Rightarrow> int \<Rightarrow> db \<Rightarrow> task option res \<times> db" where
  "claim_task i agent cb now s = (case task_get i s of
       None \<Rightarrow> (Inr None, s)
     | Some t \<Rightarrow>
         if task_status t \<noteq> TOpen then (Inr None, s)
         else if list_active_by_agent cb agent s \<noteq> [] then (Inr None, s)
         else if \<not> deps_done (task_depends_on t) s then (Inr None, s)
         else let cookbook = cookbook_id_for_bundle (task_bundle t) s in
           bind_st (task_update i (no_update\<lparr>up_status := Some TClaimed, up_claimed_by := Some agent,
               up_claimed_at := Some now\<rparr>) now s)
           (\<lambda>updated s1. let (eid, s2) = draw ''evt_'' s1;
               e = new_event eid cookbook (Some (task_bundle t)) (Some i) ETaskClaimed agent ByAgent
                     (''Task '' @ [CHR 0x27] @ task_title t @ [CHR 0x27] @ '' claimed.'') now;
               s3 = event_create e now s2
             in (Inr updated, publish_opt updated cookbook now s3)))"

text \<open>A claimed task becomes working with its first event: status, its watch record, the
  \<open>task_working\<close> event and its watch record.\<close>

definition start_working :: "string \<Rightarrow> task \<Rightarrow> string option \<Rightarrow> string \<Rightarrow> actor_kind \<Rightarrow> int \<Rightarrow> db \<Rightarrow> unit res \<times> db" where
  "start_working i t cb actor kind now s =
     (if task_status t \<noteq> TClaimed then (Inr (), s)
      else bind_st (task_update i (no_update\<lparr>up_status := Some TWorking\<rparr>) now s)
        (\<lambda>updated s1. case updated of
            None \<Rightarrow> (Inr (), s1)
          | Some t' \<Rightarrow>
             let s2 = publish_task WModified t' cb now s1;
                 (eid, s3) = draw ''evt_'' s2;
                 e = new_event eid cb (Some (task_bundle t)) (Some i) ETaskWorking actor kind
                       (''Task '' @ [CHR 0x27] @ task_title t @ [CHR 0x27] @ '' is now working.'') now;
                 s4 = event_create e now s3
             in (Inr (), publish_event e cb now s4)))"

record event_input =
  in_type :: string
  in_actor :: string
  in_actor_kind :: string
  in_body :: string
  in_payload :: json
  in_facts :: "json list"
  in_code_refs :: "json list"
  in_visibility :: "string option"

definition all_event_types :: "domain_event_type list" where
  "all_event_types = [EPrompt, EPlan, ETaskClaimed, ETaskWorking, EMilestone, EFactAdded, ECodePushed,
     EBundleClosed, EBundleReopened, ESessionStart, ESessionEnd, EToolUse, EToolResult, EAgentReply,
     EThinking, EProgress, EBlocker, ENeedsReview, ENeedsHuman, ELog]"

text \<open>\<open>EventType(v)\<close> and \<open>ActorType(v)\<close>.\<close>

definition parse_event_type :: "string \<Rightarrow> domain_event_type res" where
  "parse_event_type v = (case find (\<lambda>t. event_type_name t = v) all_event_types of
       None \<Rightarrow> Inl (ValueError [Repr (JStr v), Lit '' is not a valid EventType'']) | Some t \<Rightarrow> Inr t)"

definition parse_actor_kind :: "string \<Rightarrow> actor_kind res" where
  "parse_actor_kind v = (case find (\<lambda>k. actor_kind_name k = v) [ByHuman, ByAgent, BySystem, ByHook] of
       None \<Rightarrow> Inl (ValueError [Repr (JStr v), Lit '' is not a valid ActorType'']) | Some k \<Rightarrow> Inr k)"

text \<open>One event with the next sequence number of the task.  \<open>Event.payload\<close> is declared twice and the
  last declaration, \<open>dict\<close>, counts: anything else fails validation.\<close>

definition append_event :: "string \<Rightarrow> task \<Rightarrow> string option \<Rightarrow> domain_event_type \<Rightarrow> actor_kind \<Rightarrow> event_input \<Rightarrow> int \<Rightarrow> db
    \<Rightarrow> event res \<times> db" where
  "append_event i t cb ty kind x now s =
     (let sq = next_sequence (Some i) (db_events s);
          vis = (if opt_truthy (in_visibility x) then the (in_visibility x)
                 else classify_visibility (event_type_name ty));
          (eid, s1) = draw ''evt_'' s
      in if \<not> is_dict (in_payload x) then (Inl (ValueError [Lit ''payload: Input should be a valid dictionary'']), s1)
         else let e = (new_event eid cb (Some (task_bundle t)) (Some i) ty (in_actor x) kind (in_body x) now)
                  \<lparr>event_payload := in_payload x, event_sequence := sq, event_facts := in_facts x,
                   event_code_refs := in_code_refs x, event_visibility := vis\<rparr>;
                  s2 = event_create e now s1
              in (Inr e, publish_event e cb now s2))"

definition post_event :: "string \<Rightarrow> domain_event_type \<Rightarrow> actor_kind \<Rightarrow> event_input \<Rightarrow> string option \<Rightarrow> int \<Rightarrow> db
    \<Rightarrow> event res \<times> db" where
  "post_event i ty kind x token now s =
     bind_st (check_and_stamp_session_token i token s) (\<lambda>_ s1.
       case task_get i s1 of
         None \<Rightarrow> (Inl (ValueError [Lit ''Task '', Lit i, Lit '' not found'']), s1)
       | Some t \<Rightarrow>
          let cb = cookbook_id_for_bundle (task_bundle t) s1 in
          bind_st (start_working i t cb (in_actor x) kind now s1) (\<lambda>_ s2. append_event i t cb ty kind x now s2))"

fun batch_loop :: "string \<Rightarrow> task \<Rightarrow> string option \<Rightarrow> int \<Rightarrow> event_input list \<Rightarrow> db \<Rightarrow> event list res \<times> db" where
  "batch_loop i t cb now [] s = (Inr [], s)"
| "batch_loop i t cb now (x # xs) s = (case parse_event_type (in_type x) of
       Inl e \<Rightarrow> (Inl e, s)
     | Inr ty \<Rightarrow> (case parse_actor_kind (in_actor_kind x) of
         Inl e \<Rightarrow> (Inl e, s)
       | Inr kind \<Rightarrow> bind_st (append_event i t cb ty kind x now s) (\<lambda>e s1.
           bind_st (batch_loop i t cb now xs s1) (\<lambda>es s2. (Inr (e # es), s2)))))"

text \<open>The \<open>task_working\<close> event takes its actor from the first item; an unknown actor type raises there,
  after the task has become working.\<close>

definition batch_start :: "string \<Rightarrow> task \<Rightarrow> string option \<Rightarrow> event_input \<Rightarrow> int \<Rightarrow> db \<Rightarrow> unit res \<times> db" where
  "batch_start i t cb x now s =
     (if task_status t \<noteq> TClaimed then (Inr (), s)
      else case parse_actor_kind (in_actor_kind x) of
          Inr kind \<Rightarrow> start_working i t cb (in_actor x) kind now s
        | Inl e \<Rightarrow> bind_st (task_update i (no_update\<lparr>up_status := Some TWorking\<rparr>) now s)
            (\<lambda>updated s1. case updated of None \<Rightarrow> (Inr (), s1)
               | Some t' \<Rightarrow> (Inl e, publish_task WModified t' cb now s1)))"

definition post_events_batch :: "string \<Rightarrow> event_input list \<Rightarrow> string option \<Rightarrow> int \<Rightarrow> db \<Rightarrow> event list res \<times> db" where
  "post_events_batch i xs token now s = (case xs of
       [] \<Rightarrow> (Inr [], s)
     | x # _ \<Rightarrow>
        bind_st (check_and_stamp_session_token i token s) (\<lambda>_ s1.
          case task_get i s1 of
            None \<Rightarrow> (Inl (ValueError [Lit ''Task '', Lit i, Lit '' not found'']), s1)
          | Some t \<Rightarrow>
             let cb = cookbook_id_for_bundle (task_bundle t) s1 in
             bind_st (batch_start i t cb x now s1) (\<lambda>_ s2. batch_loop i t cb now xs s2)))"

definition publish_task_update :: "task \<Rightarrow> int \<Rightarrow> db \<Rightarrow> db" where
  "publish_task_update t now s = (case bundle_get (task_bundle t) s of
       None \<Rightarrow> s | Some b \<Rightarrow> publish_task WModified t (bundle_cookbook b) now s)"

definition update_and_publish :: "string \<Rightarrow> task_changes \<Rightarrow> int \<Rightarrow> db \<Rightarrow> task option res \<times> db" where
  "update_and_publish i u now s = bind_st (task_update i u now s) (\<lambda>updated s1.
     (Inr updated, case updated of None \<Rightarrow> s1 | Some t \<Rightarrow> publish_task_update t now s1))"

definition mark_done :: "string \<Rightarrow> int \<Rightarrow> db \<Rightarrow> task option res \<times> db" where
  "mark_done i now s = (case task_get i s of
       None \<Rightarrow> (Inr None, s)
     | Some _ \<Rightarrow> update_and_publish i (no_update\<lparr>up_status := Some TDone, up_completed_at := Some now,
           up_clear_blocked_reason := True\<rparr>) now s)"

definition mark_blocked :: "string \<Rightarrow> string \<Rightarrow> int \<Rightarrow> db \<Rightarrow> task option res \<times> db" where
  "mark_blocked i reason now s = (case task_get i s of
       None \<Rightarrow> (Inr None, s)
     | Some _ \<Rightarrow> update_and_publish i (no_update\<lparr>up_status := Some TBlocked,
           up_blocked_reason := Some reason\<rparr>) now s)"

definition cancel_task :: "string \<Rightarrow> int \<Rightarrow> db \<Rightarrow> task option res \<times> db" where
  "cancel_task i now s = (case task_get i s of
       None \<Rightarrow> (Inr None, s)
     | Some t \<Rightarrow>
         if task_status t \<notin> {TOpen, TClaimed, TWorking} then (Inr None, s)
         else update_and_publish i (no_update\<lparr>up_status := Some TCancelled,
           up_clear_blocked_reason := True\<rparr>) now s)"

definition fresh_task :: "string \<Rightarrow> string \<Rightarrow> string \<Rightarrow> string option \<Rightarrow> string list \<Rightarrow> task" where
  "fresh_task i b title desc deps =
     \<lparr>task_id = i, task_bundle = b, task_title = title, task_description = desc, task_status = TOpen,
      task_depends_on = deps, task_assigned = None, task_claimed_by = None, task_claimed_at = None,
      task_completed_at = None, task_blocked_reason = None, task_node = None, task_version = 1,
      task_generation = 1, task_progress = JNull, task_session_id = None, task_work_dir = None,
      task_artifacts = JObj [], task_session_token = None, task_runtime = None, task_sandbox = None,
      task_brief = JNull, task_report = JNull, task_orch = JNull, task_created_by = None,
      task_updated_at = None\<rparr>"

definition add_task :: "string \<Rightarrow> string \<Rightarrow> string option \<Rightarrow> string list option \<Rightarrow> int \<Rightarrow> db \<Rightarrow> task res \<times> db" where
  "add_task b title desc deps now s =
     (let (i, s1) = draw ''task_'' s in
      bind_st (task_create (fresh_task i b title desc (case deps of None \<Rightarrow> [] | Some ds \<Rightarrow> ds)) now s1)
        (\<lambda>created s2. (Inr created, case bundle_get b s2 of
            None \<Rightarrow> s2 | Some r \<Rightarrow> publish_task WAdded created (bundle_cookbook r) now s2)))"

definition edit_task :: "string \<Rightarrow> string option \<Rightarrow> string option \<Rightarrow> string list option \<Rightarrow> int \<Rightarrow> db \<Rightarrow> task option res \<times> db" where
  "edit_task i title desc deps now s = update_and_publish i
     (no_update\<lparr>up_title := title, up_description := desc, up_depends_on := deps\<rparr>) now s"

definition remove_task :: "string \<Rightarrow> int \<Rightarrow> db \<Rightarrow> bool res \<times> db" where
  "remove_task i now s = (case task_get i s of
       None \<Rightarrow> (Inr False, s)
     | Some t \<Rightarrow>
         if task_status t \<noteq> TOpen then (Inr False, s)
         else bind_st (task_delete i s) (\<lambda>deleted s1.
           (Inr deleted,
            if deleted then publish ''task'' i WDeleted (task_json t)
              (cookbook_id_for_bundle (task_bundle t) s1) now s1 else s1)))"

section \<open>Claiming\<close>

lemmas update_simps = no_update_def nothing_set_def spec_changed_def set_opt_def set_opt'_def

definition claim_update :: "string \<Rightarrow> int \<Rightarrow> task_changes" where
  "claim_update agent now = no_update\<lparr>up_status := Some TClaimed, up_claimed_by := Some agent,
     up_claimed_at := Some now\<rparr>"

text \<open>When a claim goes through.\<close>

definition claimable :: "string \<Rightarrow> string \<Rightarrow> string option \<Rightarrow> db \<Rightarrow> bool" where
  "claimable i agent cb s \<longleftrightarrow> (\<exists>t. task_get i s = Some t \<and> task_status t = TOpen \<and>
     deps_done (task_depends_on t) s) \<and> list_active_by_agent cb agent s = []"

lemma claim_refused: "\<not> claimable i agent cb s \<Longrightarrow> claim_task i agent cb now s = (Inr None, s)"
  by (auto simp: claim_task_def claimable_def split: option.split)

lemma claim_granted:
  assumes "claimable i agent cb s" "task_get i s = Some t"
  shows "fst (claim_task i agent cb now s) = Inr (Some (apply_update (claim_update agent now, now) t))"
    and "db_tasks (snd (claim_task i agent cb now s)) =
       rows_update (\<lambda>r. task_id r = i) (apply_update (claim_update agent now, now)) (db_tasks s)"
    and "db_bundles (snd (claim_task i agent cb now s)) = db_bundles s"
  using assms
  by (simp_all add: claim_task_def claimable_def claim_update_def Let_def publish_opt_def publish_task_def
      task_update_plain nothing_set_def spec_changed_def no_update_def draw_def split: prod.split)

lemma claimed_row [simp]:
  "task_id (apply_update (claim_update a now, now) t) = task_id t"
  "task_bundle (apply_update (claim_update a now, now) t) = task_bundle t"
  "task_status (apply_update (claim_update a now, now) t) = TClaimed"
  "task_claimed_by (apply_update (claim_update a now, now) t) = Some a"
  "task_version (apply_update (claim_update a now, now) t) = task_version t + 1"
  by (simp_all add: apply_update_def claim_update_def update_simps)

lemma filter_rows_update_one:
  assumes "distinct (map key rows)" "row_get key i rows = Some r" "filter P rows = []" "P (f r)"
  shows "filter P (rows_update (\<lambda>r. key r = i) f rows) = [f r]"
  using assms
proof (induction rows)
  case (Cons x rows)
  show ?case
  proof (cases "key x = i")
    case True
    with Cons.prems have "rows_update (\<lambda>r. key r = i) f rows = rows"
      by (intro rows_update_none) (auto simp: image_iff)
    with True Cons.prems show ?thesis by (auto simp: rows_update_def split: if_splits)
  next
    case False
    with Cons show ?thesis by (auto simp: rows_update_def split: if_splits)
  qed
qed simp

text \<open>C6: called as the route calls it (with the cookbook of the task's bundle), \<open>claim_task\<close> succeeds
  exactly when the task is open, all its dependencies are done and the agent holds no other active task
  in the cookbook.  Then the task is the agent's only active one there, and no agent can claim it again;
  otherwise nothing changes.\<close>

theorem claim_exclusive:
  assumes keys: "distinct (task_keys s)" and t: "task_get i s = Some t"
    and cb: "cb = cookbook_id_for_bundle (task_bundle t) s"
  shows "if task_status t = TOpen \<and> deps_done (task_depends_on t) s \<and> list_active_by_agent cb agent s = []
     then (\<exists>t'. fst (claim_task i agent cb now s) = Inr (Some t') \<and>
        list_active_by_agent cb agent (snd (claim_task i agent cb now s)) = [t'] \<and>
        task_id t' = i \<and> task_status t' = TClaimed \<and> task_claimed_by t' = Some agent \<and>
        claim_task i other cb2 later (snd (claim_task i agent cb now s)) =
          (Inr None, snd (claim_task i agent cb now s)))
     else claim_task i agent cb now s = (Inr None, s)"
proof (cases "claimable i agent cb s")
  case True
  define s' where "s' = snd (claim_task i agent cb now s)"
  define t' where "t' = apply_update (claim_update agent now, now) t"
  note g = claim_granted [OF True t, of now, folded s'_def t'_def]
  have bg: "bundle_get b s' = bundle_get b s" for b using g(3) by (simp add: bundle_get_def)
  have ic: "in_cookbook c s' = in_cookbook c s" for c by (simp add: in_cookbook_def fun_eq_iff bg)
  have "in_cookbook (the cb) s t'" if "cb \<noteq> None"
    using cb t that by (auto simp: in_cookbook_def t'_def cookbook_id_for_bundle_def split: option.splits)
  then have "list_active_by_agent cb agent s' = [t']"
    using filter_rows_update_one [OF keys [unfolded task_keys_def] t [unfolded task_get_def],
        of "\<lambda>t. (case cb of None \<Rightarrow> True | Some c' \<Rightarrow> in_cookbook c' s t) \<and> task_claimed_by t = Some agent \<and> is_active t"
          "apply_update (claim_update agent now, now)"] True
    by (cases cb) (simp_all add: list_active_by_agent_def g(2) ic claimable_def t'_def is_active_def)
  moreover have "task_get i s' = Some t'"
    using t by (simp add: task_get_def g(2) task_rows.get_update_key t'_def)
  ultimately show ?thesis
    using True g(1) t task_get_key [OF t]
    by (auto simp: s'_def [symmetric] t'_def claimable_def intro!: claim_refused)
next
  case False
  then show ?thesis using t by (auto simp: claim_refused claimable_def)
qed

definition sample_cookbook :: cookbook where
  "sample_cookbook = \<lparr>cb_id = ''cb'', cb_name = ''c'', cb_owner = ''op'', cb_created_at = 0, cb_repo_path = None\<rparr>"

definition empty_db :: db where
  "empty_db = \<lparr>db_accounts = [''op''], db_wallets = [], db_cookbooks = [sample_cookbook], db_shares = [], db_grants = [], db_bundles = [], db_tasks = [], db_events = [], db_tapes = [],
     db_agents = [], db_links = [], db_reviews = [], db_usage = [], db_runtimes = [], db_sandboxes = [], db_cards = [], db_mail = [], db_elicits = [], db_watch = watch_init, db_ids = (\<lambda>n. replicate n (CHR ''x'')), db_drawn = 0\<rparr>"

definition plain_bundle :: "string \<Rightarrow> string \<Rightarrow> bundle_row" where
  "plain_bundle i cb = \<lparr>bundle_id = i, bundle_cookbook = Some cb, bundle_repo_spec = JNull, bundle_prompt = ''p'',
     bundle_status = BOpen, bundle_created_by = ''op'', bundle_created_at = 0, bundle_claimed_at = None,
     bundle_cooked_at = None, bundle_digested_at = None, bundle_blocked_reason = None,
     bundle_graph_terminal_at = None, bundle_graph_code = None, bundle_graph_mermaid = None,
     bundle_version = 1, bundle_generation = 1, bundle_owner = Some ''op'', bundle_runtime = None,
     bundle_sandbox = None, bundle_autoplan = False\<rparr>"

definition sample_db :: db where
  "sample_db = empty_db\<lparr>db_bundles := [plain_bundle ''b'' ''cb''],
     db_tasks := [fresh_task ''t1'' ''b'' ''first'' None [], fresh_task ''t2'' ''b'' ''second'' None [''t1'']]\<rparr>"

lemma sample_get [simp]:
  "task_get ''t1'' sample_db = Some (fresh_task ''t1'' ''b'' ''first'' None [])"
  "task_get ''t2'' sample_db = Some (fresh_task ''t2'' ''b'' ''second'' None [''t1''])"
  "bundle_get ''b'' sample_db = Some (plain_bundle ''b'' ''cb'')"
  "distinct (task_keys sample_db)"
  by (simp_all add: task_get_def bundle_get_def sample_db_def fresh_task_def plain_bundle_def task_keys_def)

lemma claim_exclusive_witness:
  "\<exists>t'. fst (claim_task ''t1'' ''a'' (Some ''cb'') 7 sample_db) = Inr (Some t') \<and> task_status t' = TClaimed"
proof -
  have "Some ''cb'' = cookbook_id_for_bundle (task_bundle (fresh_task ''t1'' ''b'' ''first'' None [])) sample_db"
    by (simp add: cookbook_id_for_bundle_def fresh_task_def plain_bundle_def)
  moreover have "list_active_by_agent (Some ''cb'') ''a'' sample_db = []"
    by (simp add: list_active_by_agent_def sample_db_def fresh_task_def)
  ultimately show ?thesis
    using claim_exclusive [OF sample_get(4,1), where cb = "Some ''cb''" and agent = "''a''" and now = 7 and
        other = "''c''" and ?cb2.0 = None and later = 8]
    by (auto simp: deps_done_def fresh_task_def simp del: sample_get)
qed

section \<open>Sequence numbers\<close>

definition seqs_ok :: "db \<Rightarrow> bool" where
  "seqs_ok s \<longleftrightarrow> (\<forall>e\<in>set (db_events s). 0 \<le> event_sequence e)"

definition top_seq :: "string \<Rightarrow> event list \<Rightarrow> int" where
  "top_seq i events = fold max (map event_sequence (filter (\<lambda>e. event_task e = Some i) events)) 0"

lemma next_sequence_top: "\<forall>e\<in>set events. 0 \<le> event_sequence e \<Longrightarrow> next_sequence (Some i) events = top_seq i events + 1"
proof -
  assume nn: "\<forall>e\<in>set events. 0 \<le> event_sequence e"
  then have "\<forall>n\<in>set (map event_sequence (filter (\<lambda>e. event_task e = Some i) events)). 0 \<le> n" by auto
  then show ?thesis
    by (cases "map event_sequence (filter (\<lambda>e. event_task e = Some i) events)")
      (auto simp: next_sequence_def top_seq_def max_def)
qed

lemma top_seq_snoc: "top_seq i (events @ [e]) = (if event_task e = Some i then max (event_sequence e) (top_seq i events) else top_seq i events)"
  by (simp add: top_seq_def)

lemma top_seq_nonneg: "0 \<le> top_seq i events"
proof -
  have "n \<le> fold max ns n" for ns and n :: int
    by (induction ns arbitrary: n) (auto, metis max.bounded_iff)
  then show ?thesis by (simp add: top_seq_def)
qed

lemma publish_event_simps [simp]:
  "db_tasks (publish_event e cb now s) = db_tasks s" "db_events (publish_event e cb now s) = db_events s"
  "db_bundles (publish_event e cb now s) = db_bundles s" "task_get i (publish_event e cb now s) = task_get i s"
  "db_tasks (publish_task k t cb now s) = db_tasks s" "db_events (publish_task k t cb now s) = db_events s"
  "db_bundles (publish_task k t cb now s) = db_bundles s" "task_get i (publish_task k t cb now s) = task_get i s"
  by (simp_all add: publish_event_def publish_task_def)

lemma append_event_ok:
  assumes "append_event i t cb ty kind x now s = (Inr e, s')"
  shows "event_sequence e = next_sequence (Some i) (db_events s)" "event_task e = Some i"
    "db_events s' = db_events s @ [e]" "db_tasks s' = db_tasks s" "db_bundles s' = db_bundles s"
  using assms by (auto simp: append_event_def Let_def draw_def new_event_def split: prod.splits if_splits)

lemma append_event_tasks: "db_tasks (snd (append_event i t cb ty kind x now s)) = db_tasks s"
  by (simp add: append_event_def Let_def draw_def split: prod.splits)

lemma start_working_events:
  "snd (start_working i t cb actor kind now s) = s' \<Longrightarrow> \<exists>es. db_events s' = db_events s @ es \<and>
     (\<forall>e\<in>set es. event_sequence e = 0)"
  by (auto simp: start_working_def task_update_plain nothing_set_def no_update_def Let_def draw_def
      new_event_def split: option.splits)

lemma start_working_seq:
  assumes "seqs_ok s" "snd (start_working i t cb actor kind now s) = s'"
  shows "seqs_ok s'" "top_seq j (db_events s') = top_seq j (db_events s)"
proof -
  obtain es where es: "db_events s' = db_events s @ es" "\<forall>e\<in>set es. event_sequence e = 0"
    using start_working_events [OF assms(2)] by blast
  show "seqs_ok s'" using assms(1) es by (auto simp: seqs_ok_def)
  have "top_seq j (db_events s @ es) = top_seq j (db_events s)" using es(2)
  proof (induction es rule: rev_induct)
    case (snoc e es)
    then show ?case
      using top_seq_snoc [of j "db_events s @ es" e] top_seq_nonneg [of j "db_events s"] by simp
  qed simp
  then show "top_seq j (db_events s') = top_seq j (db_events s)" by (simp add: es)
qed

lemma batch_start_seq:
  assumes "seqs_ok s" "batch_start i t cb x now s = (r, s')"
  shows "seqs_ok s'" "top_seq j (db_events s') = top_seq j (db_events s)"
proof -
  have "db_events s' = db_events s \<or> (\<exists>kind. snd (start_working i t cb (in_actor x) kind now s) = s')"
    using assms(2) by (auto simp: batch_start_def task_update_plain nothing_set_def no_update_def
        split: if_splits sum.splits option.splits) (metis snd_conv)
  then show "seqs_ok s'" "top_seq j (db_events s') = top_seq j (db_events s)"
    using start_working_seq [OF assms(1)] assms(1) by (auto simp: seqs_ok_def)
qed

lemma batch_loop_seqs:
  assumes "batch_loop i t cb now xs s = (Inr es, s')" "seqs_ok s"
  shows "map event_sequence es = map (\<lambda>k. top_seq i (db_events s) + 1 + int k) [0..<length xs] \<and>
     db_events s' = db_events s @ es"
  using assms
proof (induction xs arbitrary: s es)
  case (Cons x xs)
  obtain ty kind e s1 es' where e: "append_event i t cb ty kind x now s = (Inr e, s1)"
    and rest: "batch_loop i t cb now xs s1 = (Inr es', s')" and es: "es = e # es'"
    using Cons.prems(1) by (auto simp: bind_st_ok split: sum.splits)
  note a = append_event_ok [OF e]
  have sq: "event_sequence e = top_seq i (db_events s) + 1"
    using a(1) Cons.prems(2) next_sequence_top [of "db_events s"] by (simp add: seqs_ok_def)
  have "seqs_ok s1" using Cons.prems(2) sq top_seq_nonneg [of i "db_events s"] by (auto simp: seqs_ok_def a(3))
  moreover have "top_seq i (db_events s1) = top_seq i (db_events s) + 1"
    using sq a(2) by (simp add: a(3) top_seq_snoc)
  ultimately have ih: "map event_sequence es' = map (\<lambda>k. top_seq i (db_events s) + 2 + int k) [0..<length xs]"
      "db_events s' = db_events s1 @ es'"
    using Cons.IH [OF rest] by simp_all
  have "map (\<lambda>k. top_seq i (db_events s) + 1 + int k) [0..<length (x # xs)] =
      (top_seq i (db_events s) + 1) # map (\<lambda>k. top_seq i (db_events s) + 2 + int k) [0..<length xs]"
    by (simp add: upt_conv_Cons map_Suc_upt [symmetric] del: upt_Suc)
  with ih sq show ?case by (simp add: es a(3))
qed simp

lemma token_events [simp]: "db_events (snd (check_and_stamp_session_token i token s)) = db_events s"
  by (simp add: check_and_stamp_session_token_def set_session_token_def split: option.split)

text \<open>A batch that is accepted gets consecutive sequence numbers, right after the highest the task
  had, in the order of the request, whatever other tasks' events are in the table.\<close>

theorem batch_sequences:
  assumes "post_events_batch i xs token now s = (Inr es, s')" and ok: "seqs_ok s"
  shows "map event_sequence es = map (\<lambda>k. next_sequence (Some i) (db_events s) + int k) [0..<length xs]"
proof (cases xs)
  case Nil
  with assms show ?thesis by (simp add: post_events_batch_def)
next
  case (Cons x ys)
  obtain s1 t where tok: "check_and_stamp_session_token i token s = (Inr (), s1)" and t: "task_get i s1 = Some t"
    using assms(1) Cons by (auto simp: post_events_batch_def bind_st_ok split: option.splits)
  have ev1: "db_events s1 = db_events s" using token_events [of i token s] tok by simp
  then have ok1: "seqs_ok s1" using ok by (simp add: seqs_ok_def)
  obtain s2 where start: "batch_start i t (cookbook_id_for_bundle (task_bundle t) s1) x now s1 = (Inr (), s2)"
    and loop: "batch_loop i t (cookbook_id_for_bundle (task_bundle t) s1) now xs s2 = (Inr es, s')"
    using assms(1) tok t by (auto simp: post_events_batch_def Cons bind_st_ok Let_def simp del: batch_loop.simps)
  have "seqs_ok s2 \<and> top_seq i (db_events s2) = top_seq i (db_events s)"
    using batch_start_seq [OF ok1 start] ev1 by simp
  with batch_loop_seqs [OF loop] next_sequence_top [of "db_events s" i] ok show ?thesis
    by (simp add: seqs_ok_def)
qed

definition sample_input :: event_input where
  "sample_input = \<lparr>in_type = ''milestone'', in_actor = ''a'', in_actor_kind = ''agent'', in_body = ''hi'',
     in_payload = JObj [], in_facts = [], in_code_refs = [], in_visibility = None\<rparr>"

lemma batch_sequences_witness:
  "\<exists>es s'. post_events_batch ''t1'' [sample_input, sample_input] None 3 sample_db = (Inr es, s') \<and>
     map event_sequence es = [1, 2]"
proof -
  have "isl (fst (post_events_batch ''t1'' [sample_input, sample_input] None 3 sample_db)) = False"
    by (simp add: post_events_batch_def check_and_stamp_session_token_def opt_truthy_def batch_start_def
        sample_input_def parse_event_type_def parse_actor_kind_def all_event_types_def append_event_def
        Let_def draw_def bind_st_def fresh_task_def)
  then obtain es s' where b: "post_events_batch ''t1'' [sample_input, sample_input] None 3 sample_db = (Inr es, s')"
    by (cases "post_events_batch ''t1'' [sample_input, sample_input] None 3 sample_db";
        cases "fst (post_events_batch ''t1'' [sample_input, sample_input] None 3 sample_db)") auto
  have "seqs_ok sample_db" by (simp add: seqs_ok_def sample_db_def empty_db_def)
  from batch_sequences [OF b this] b show ?thesis
    by (auto simp: next_sequence_def sample_db_def empty_db_def upt_rec)
qed

section \<open>Session tokens\<close>

lemma apply_update_token [simp]: "task_session_token (apply_update un t) = task_session_token t"
  by (simp add: apply_update_def split: prod.split)

lemma task_update_token:
  "map_option task_session_token (task_get j (snd (task_update i u now s))) =
     map_option task_session_token (task_get j s)"
  by (simp add: task_update_db task_get_def task_rows.get_update option.map_comp o_def if_distrib cong: if_cong)

lemma token_get:
  "row_get task_id i rows = Some t \<Longrightarrow> task_session_token t = None \<Longrightarrow>
     row_get task_id i (rows_update (\<lambda>t. task_id t = i \<and> task_session_token t = None)
       (\<lambda>t. t\<lparr>task_session_token := Some tok\<rparr>) rows) = Some (t\<lparr>task_session_token := Some tok\<rparr>)"
  by (induction rows) (auto simp: rows_update_def split: if_splits)

lemma start_working_token:
  "map_option task_session_token (task_get j (snd (start_working i t cb actor kind now s))) =
     map_option task_session_token (task_get j s)"
  by (simp add: start_working_def task_update_plain nothing_set_def no_update_def Let_def draw_def
      task_get_def task_rows.get_update_key option.map_comp o_def split: option.split prod.split)

text \<open>The first event that carries a session token binds the task to it: events with the same token
  are let through and the token stays; an event with another token is refused and changes nothing.\<close>

theorem session_token_first_wins:
  assumes "task_get i s = Some t" and "tok \<noteq> []"
  shows "case task_session_token t of
      Some k \<Rightarrow> if k = tok
        then map_option task_session_token (task_get i (snd (post_event i ty kind x (Some tok) now s))) = Some (Some k)
        else post_event i ty kind x (Some tok) now s = (Inl (SessionTokenMismatch i), s)
    | None \<Rightarrow> map_option task_session_token (task_get i (snd (post_event i ty kind x (Some tok) now s))) = Some (Some tok)"
proof -
  have rest: "map_option task_session_token (task_get i (snd (post_event i ty kind x (Some tok) now s))) = Some (Some k)"
    if c: "check_and_stamp_session_token i (Some tok) s = (Inr (), s1)"
      and t1: "task_get i s1 = Some t1" "task_session_token t1 = Some k" for s1 t1 k
  proof -
    let ?w = "start_working i t1 (cookbook_id_for_bundle (task_bundle t1) s1) (in_actor x) kind now s1"
    have w: "map_option task_session_token (task_get i (snd ?w)) = Some (Some k)"
      using t1 by (simp only: start_working_token) simp
    have "task_get i (snd (append_event i t1 cb ty kind x now s2)) = task_get i s2" for cb s2
      by (simp add: task_get_def append_event_tasks)
    with w show ?thesis
      by (cases ?w; cases "fst ?w") (simp_all add: post_event_def c t1 Let_def)
  qed
  show ?thesis
  proof (cases "task_session_token t")
    case None
    let ?s1 = "set_session_token i tok s"
    have "task_get i ?s1 = Some (t\<lparr>task_session_token := Some tok\<rparr>)"
      using assms(1) None by (simp add: set_session_token_def task_get_def token_get)
    moreover have "check_and_stamp_session_token i (Some tok) s = (Inr (), ?s1)"
      using assms None by (simp add: check_and_stamp_session_token_def opt_truthy_def)
    ultimately show ?thesis using rest None by simp
  next
    case (Some k)
    show ?thesis
    proof (cases "k = tok")
      case True
      then show ?thesis
        using assms Some rest [of s t k] by (simp add: check_and_stamp_session_token_def opt_truthy_def)
    next
      case False
      then show ?thesis
        using assms Some by (simp add: check_and_stamp_session_token_def opt_truthy_def post_event_def)
    qed
  qed
qed

lemma session_token_first_wins_witness:
  "map_option task_session_token (task_get ''t1''
     (snd (post_event ''t1'' EMilestone ByAgent sample_input (Some ''k'') 3 sample_db))) = Some (Some ''k'')"
  using session_token_first_wins [OF sample_get(1), of "''k''" EMilestone ByAgent sample_input 3]
  by (simp add: fresh_task_def)

section \<open>Every change is published\<close>

lemma apply_update_version [simp]: "task_version (apply_update un t) = task_version t + 1"
  and apply_update_bundle [simp]: "task_bundle (apply_update un t) = task_bundle t"
  and apply_update_id [simp]: "task_id (apply_update un t) = task_id t"
  by (simp_all add: apply_update_def split: prod.split)

lemma update_and_publish_spec:
  assumes "update_and_publish i u now s = (Inr (Some t'), s')" "up_expected_version u = None"
    "task_get i s = Some t" "bundle_get (task_bundle t) s = Some b"
  shows "task_get i s' = Some t' \<and> task_version t \<le> task_version t' \<and>
    (\<exists>e. ws_log (db_watch s') = ws_log (db_watch s) @ [e] \<and> we_type e = ''task'' \<and> we_id e = i \<and>
       we_kind e = WModified \<and> we_payload e = task_json t' \<and> we_cookbook e = bundle_cookbook b)"
proof (cases "nothing_set u")
  case True
  with assms task_get_key [OF assms(3)] show ?thesis
    by (auto simp: update_and_publish_def task_update_def publish_task_update_def publish_task_def next_entry_def)
next
  case False
  with assms task_get_key [OF assms(3)] show ?thesis
    by (auto simp: update_and_publish_def task_update_plain publish_task_update_def publish_task_def
        next_entry_def task_get_update bundle_get_def)
qed

text \<open>C7: whatever \<open>mark_done\<close>, \<open>mark_blocked\<close>, \<open>cancel_task\<close> or \<open>edit_task\<close> returns is the row now
  stored, its version never goes back, and exactly one entry is appended to the watch log: a MODIFIED of
  that task in its bundle's cookbook, carrying the dump of the stored row.\<close>

theorem task_change_published:
  assumes r: "r \<in> {mark_done i now s, mark_blocked i reason now s, cancel_task i now s, edit_task i title desc deps now s}"
    and "fst r = Inr (Some t')" and t: "task_get i s = Some t" "bundle_get (task_bundle t) s = Some b"
  shows "task_get i (snd r) = Some t' \<and> task_version t \<le> task_version t' \<and>
    (\<exists>e. ws_log (db_watch (snd r)) = ws_log (db_watch s) @ [e] \<and> we_type e = ''task'' \<and> we_id e = i \<and>
       we_kind e = WModified \<and> we_payload e = task_json t' \<and> we_cookbook e = bundle_cookbook b)"
proof -
  have "\<exists>u. r = update_and_publish i u now s \<and> up_expected_version u = None"
    using r assms(2) t
    by (auto simp: mark_done_def mark_blocked_def cancel_task_def edit_task_def no_update_def split: if_splits)
  then obtain u where u: "r = update_and_publish i u now s" "up_expected_version u = None" by blast
  have "update_and_publish i u now s = (Inr (Some t'), snd r)"
    using u assms(2) by (metis prod.collapse)
  from update_and_publish_spec [OF this u(2) t] show ?thesis .
qed

lemma task_change_published_witness:
  "\<exists>t'. task_get ''t1'' (snd (mark_done ''t1'' 9 sample_db)) = Some t' \<and> task_status t' = TDone"
proof -
  have "\<exists>t'. fst (mark_done ''t1'' 9 sample_db) = Inr (Some t') \<and> task_status t' = TDone"
    by (simp add: mark_done_def update_and_publish_def task_update_plain nothing_set_def no_update_def
        apply_update_def set_opt_def)
  then obtain t' where "fst (mark_done ''t1'' 9 sample_db) = Inr (Some t')" "task_status t' = TDone" by blast
  moreover have "bundle_get (task_bundle (fresh_task ''t1'' ''b'' ''first'' None [])) sample_db = Some (plain_bundle ''b'' ''cb'')"
    by (simp add: fresh_task_def)
  ultimately show ?thesis
    using task_change_published [OF _ _ sample_get(1), of "mark_done ''t1'' 9 sample_db" 9] by blast
qed

end
