(* ===== verification/Bundle_Service.thy ===== *)
theory Bundle_Service
  imports Task_Service
begin

text \<open>
  Bundles: \<^verbatim>\<open>repositories/bundle_repo.py\<close> and \<^verbatim>\<open>services/bundle_service.py\<close>.  The graph sandbox
  and the renderer that \<open>attach_graph_artifact\<close> calls are theories of their own; here they are the
  argument \<open>compile\<close>, which either rejects the code or gives the nodes, the edges and the diagram.
\<close>

section \<open>The bundles table\<close>

definition bundle_insert :: "bundle_row \<Rightarrow> db \<Rightarrow> bundle_row res \<times> db" where
  "bundle_insert b s =
     (if bundle_get (bundle_id b) s \<noteq> None \<or>
         (case bundle_cookbook b of None \<Rightarrow> False | Some c \<Rightarrow> cookbook_get c s = None)
      then (Inl IntegrityError, s)
      else (Inr b, s\<lparr>db_bundles := db_bundles s @
        [b\<lparr>bundle_repo_spec := (if truthy (bundle_repo_spec b) then bundle_repo_spec b else JNull),
           bundle_graph_terminal_at := None, bundle_autoplan := False\<rparr>]\<rparr>))"

text \<open>The UPDATE statements of the repository, each with the version bump.\<close>

datatype bundle_set =
    Set_sandbox string
  | Set_default_agent_runtime string
  | Set_status bundle_status
  | Graph_succeeded int
  | Graph_failed "string option"
  | Reopen_for_rerun
  | Attach_graph string string

fun bundle_apply :: "bundle_set \<Rightarrow> bundle_row \<Rightarrow> bundle_row" where
  "bundle_apply (Set_sandbox x) b = b\<lparr>bundle_sandbox := Some x, bundle_version := bundle_version b + 1\<rparr>"
| "bundle_apply (Set_default_agent_runtime x) b =
     b\<lparr>bundle_runtime := Some x, bundle_version := bundle_version b + 1\<rparr>"
| "bundle_apply (Set_status st) b = b\<lparr>bundle_status := st, bundle_version := bundle_version b + 1\<rparr>"
| "bundle_apply (Graph_succeeded now) b = b\<lparr>bundle_graph_terminal_at :=
       (case bundle_graph_terminal_at b of None \<Rightarrow> Some now | Some x \<Rightarrow> Some x),
     bundle_version := bundle_version b + 1\<rparr>"
| "bundle_apply (Graph_failed reason) b = b\<lparr>bundle_blocked_reason :=
       Some (take 500 (if opt_truthy reason then the reason else ''graph run failed'')),
     bundle_version := bundle_version b + 1\<rparr>"
| "bundle_apply Reopen_for_rerun b = b\<lparr>bundle_status := BOpen, bundle_blocked_reason := None,
     bundle_graph_terminal_at := None, bundle_version := bundle_version b + 1\<rparr>"
| "bundle_apply (Attach_graph code mermaid) b = b\<lparr>bundle_graph_code := Some code,
     bundle_graph_mermaid := Some mermaid, bundle_version := bundle_version b + 1\<rparr>"

interpretation bundle_rows: keyed_table bundle_id bundle_apply
proof
  show "bundle_id (bundle_apply u r) = bundle_id r" for u r by (cases u) simp_all
qed

definition bundle_update :: "string \<Rightarrow> bundle_set \<Rightarrow> db \<Rightarrow> bundle_row option \<times> db" where
  "bundle_update i u s =
     (let s' = s\<lparr>db_bundles := rows_update (\<lambda>b. bundle_id b = i) (bundle_apply u) (db_bundles s)\<rparr>
      in (bundle_get i s', s'))"

definition mark_graph_terminal :: "string \<Rightarrow> bool \<Rightarrow> string option \<Rightarrow> int \<Rightarrow> db \<Rightarrow> bundle_row option \<times> db" where
  "mark_graph_terminal i success reason now s =
     bundle_update i (if success then Graph_succeeded now else Graph_failed reason) s"

definition runnable :: "bundle_row \<Rightarrow> bool" where
  "runnable b \<longleftrightarrow> bundle_graph_code b \<noteq> None \<and> bundle_status b = BOpen \<and>
     bundle_graph_terminal_at b = None \<and> bundle_blocked_reason b = None"

definition list_runnable :: "db \<Rightarrow> bundle_row list" where
  "list_runnable s = sort_key bundle_created_at (filter runnable (db_bundles s))"

definition has_any_for_cookbook :: "string \<Rightarrow> db \<Rightarrow> bool" where
  "has_any_for_cookbook c s \<longleftrightarrow> (\<exists>b\<in>set (db_bundles s). bundle_cookbook b = Some c)"

text \<open>\<open>MAX(tasks.updated_at)\<close>, or the creation time of a bundle without tasks.\<close>

definition task_activity :: "bundle_row \<Rightarrow> db \<Rightarrow> int" where
  "task_activity b s = (case List.map_filter task_updated_at (list_by_bundle (bundle_id b) s) of
       [] \<Rightarrow> bundle_created_at b | x # xs \<Rightarrow> fold max xs x)"

definition bundles_by_cookbook :: "string \<Rightarrow> db \<Rightarrow> (bundle_row \<times> int \<times> nat) list" where
  "bundles_by_cookbook c s = map (\<lambda>b. (b, task_activity b s, length (list_by_bundle (bundle_id b) s)))
     (rev (sort_key bundle_created_at (rev (filter (\<lambda>b. bundle_cookbook b = Some c) (db_bundles s)))))"

section \<open>The service\<close>

record task_input =
  ti_id :: "string option"
  ti_title :: string
  ti_description :: "string option"
  ti_depends_on :: "string list"

fun create_tasks :: "string \<Rightarrow> task_input list \<Rightarrow> int \<Rightarrow> db \<Rightarrow> task list res \<times> db" where
  "create_tasks b [] now s = (Inr [], s)"
| "create_tasks b (x # xs) now s =
     (let (drawn, s1) = draw ''task_'' s;
          i = (case ti_id x of Some k \<Rightarrow> k | None \<Rightarrow> drawn)
      in bind_st (task_create (fresh_task i b (ti_title x) (ti_description x) (ti_depends_on x)) now s1)
           (\<lambda>t s2. bind_st (create_tasks b xs now s2) (\<lambda>ts s3. (Inr (t # ts), s3))))"

definition publish_bundle :: "watch_kind \<Rightarrow> int option \<Rightarrow> bundle_row \<Rightarrow> string option \<Rightarrow> int \<Rightarrow> db \<Rightarrow> db" where
  "publish_bundle k activity b cb now s =
     publish ''bundle'' (bundle_id b) k (bundle_json activity b) cb now s"

definition plan_body :: "nat \<Rightarrow> bool \<Rightarrow> string" where
  "plan_body n autoplan =
     (if n > 0 then ''Created bundle with '' @ str_of_nat n @ '' tasks.''
      else if autoplan then ''Created empty bundle; awaiting planner dispatch.''
      else ''Created empty bundle; add tasks when ready.'')"

definition fresh_bundle :: "string \<Rightarrow> string \<Rightarrow> json \<Rightarrow> string \<Rightarrow> string \<Rightarrow> int \<Rightarrow> bundle_row" where
  "fresh_bundle i cb repo_spec prompt created_by now =
     \<lparr>bundle_id = i, bundle_cookbook = Some cb, bundle_repo_spec = repo_spec, bundle_prompt = prompt,
      bundle_status = BOpen, bundle_created_by = created_by, bundle_created_at = now,
      bundle_claimed_at = None, bundle_cooked_at = None, bundle_digested_at = None,
      bundle_blocked_reason = None, bundle_graph_terminal_at = None, bundle_graph_code = None,
      bundle_graph_mermaid = None, bundle_version = 1, bundle_generation = 1, bundle_owner = None,
      bundle_runtime = None, bundle_sandbox = None, bundle_autoplan = False\<rparr>"

definition create_bundle :: "string \<Rightarrow> string \<Rightarrow> string \<Rightarrow> task_input list \<Rightarrow> bool \<Rightarrow> json \<Rightarrow> int \<Rightarrow> db
    \<Rightarrow> (bundle_row \<times> task list) res \<times> db" where
  "create_bundle cb prompt created_by tasks autoplan repo_spec now s =
     (let (bid, s0) = draw ''bun_'' s in
      bind_st (bundle_insert (fresh_bundle bid cb repo_spec prompt created_by now) s0) (\<lambda>b s1.
      let s2 = (if autoplan then s1\<lparr>db_bundles := rows_update (\<lambda>r. bundle_id r = bid)
                  (\<lambda>r. r\<lparr>bundle_autoplan := True\<rparr>) (db_bundles s1)\<rparr> else s1) in
      bind_st (create_tasks bid tasks now s2) (\<lambda>ts s3.
      let (e1, s4) = draw ''evt_'' s3;
          s5 = event_create (new_event e1 (Some cb) (Some bid) None EPrompt created_by ByHuman prompt now) now s4;
          (e2, s6) = draw ''evt_'' s5;
          s7 = event_create (new_event e2 (Some cb) (Some bid) None EPlan ''system'' BySystem
                 (plan_body (length ts) autoplan) now) now s6;
          s8 = publish_bundle WAdded None b None now s7;
          s9 = fold (\<lambda>t. publish_task WAdded t None now) ts s8
      in (Inr (b, ts), s9))))"

text \<open>\<open>re.sub(r"(?<!^)(?=[A-Z])", " ", node_id)\<close>, then \<open>.replace("_", " ").title()\<close>.\<close>

definition is_upper :: "char \<Rightarrow> bool" where
  "is_upper c \<longleftrightarrow> (let n = (of_char c :: nat) in 65 \<le> n \<and> n \<le> 90)"

definition is_letter :: "char \<Rightarrow> bool" where
  "is_letter c \<longleftrightarrow> is_upper c \<or> (let n = (of_char c :: nat) in 97 \<le> n \<and> n \<le> 122)"

definition char_upper :: "char \<Rightarrow> char" where
  "char_upper c = (let n = (of_char c :: nat) in if 97 \<le> n \<and> n \<le> 122 then char_of (n - 32) else c)"

fun space_uppers :: "string \<Rightarrow> string" where
  "space_uppers [] = []"
| "space_uppers (c # cs) = (if is_upper c then CHR '' '' # c # space_uppers cs else c # space_uppers cs)"

fun title_from :: "bool \<Rightarrow> string \<Rightarrow> string" where
  "title_from in_word [] = []"
| "title_from in_word (c # cs) =
     (if is_letter c then (if in_word then char_lower c else char_upper c) # title_from True cs
      else c # title_from False cs)"

definition humanize_node :: "string \<Rightarrow> string" where
  "humanize_node n = title_from False (map (\<lambda>c. if c = CHR ''_'' then CHR '' '' else c)
     (case n of [] \<Rightarrow> [] | c # cs \<Rightarrow> c # space_uppers cs))"

fun create_node_tasks :: "string \<Rightarrow> string list \<Rightarrow> int \<Rightarrow> db \<Rightarrow> task list res \<times> db" where
  "create_node_tasks b [] now s = (Inr [], s)"
| "create_node_tasks b (n # ns) now s =
     (let (i, s1) = draw ''task_'' s in
      bind_st (task_create ((fresh_task i b (humanize_node n)
            (Some (''Graph step '' @ [CHR 0x27] @ n @ [CHR 0x27])) [])\<lparr>task_node := Some n\<rparr>) now s1)
        (\<lambda>t s2. bind_st (create_node_tasks b ns now s2) (\<lambda>ts s3. (Inr (t # ts), s3))))"

definition incoming :: "(string \<times> string) list \<Rightarrow> string \<Rightarrow> string list" where
  "incoming edges n = map fst (filter (\<lambda>e. snd e = n) edges)"

text \<open>\<open>node_to_task_id\<close>, and the second pass that stores the dependencies.\<close>

definition node_task :: "string list \<Rightarrow> task list \<Rightarrow> string \<Rightarrow> string option" where
  "node_task nodes ts n = map_option task_id (map_of (rev (zip nodes ts)) n)"

fun replace_first :: "task \<Rightarrow> task list \<Rightarrow> task list" where
  "replace_first u [] = []"
| "replace_first u (t # ts) = (if task_id t = task_id u then u # ts else t # replace_first u ts)"

fun set_deps :: "(string \<Rightarrow> string option) \<Rightarrow> (string \<times> string) list \<Rightarrow> string list \<Rightarrow> int \<Rightarrow> task list \<Rightarrow> db
    \<Rightarrow> task list res \<times> db" where
  "set_deps node_id edges [] now ts s = (Inr ts, s)"
| "set_deps node_id edges (n # ns) now ts s =
     (case those (map node_id (incoming edges n)) of
        None \<Rightarrow> (Inl (KeyError n), s)
      | Some deps \<Rightarrow>
          if deps = [] then set_deps node_id edges ns now ts s
          else case node_id n of
              None \<Rightarrow> (Inl (KeyError n), s)
            | Some i \<Rightarrow> bind_st (task_update i (no_update\<lparr>up_depends_on := Some deps\<rparr>) now s) (\<lambda>updated s1.
                set_deps node_id edges ns now
                  (case updated of None \<Rightarrow> ts | Some u \<Rightarrow> replace_first u ts) s1))"

record compiled =
  cg_nodes :: "string list"
  cg_edges :: "(string \<times> string) list"
  cg_mermaid :: string

text \<open>The steps of \<open>attach_graph_artifact\<close> after the code was accepted.\<close>

definition attach_compiled :: "string \<Rightarrow> string \<Rightarrow> string \<Rightarrow> compiled \<Rightarrow> int \<Rightarrow> db
    \<Rightarrow> (bundle_row \<times> task list) res \<times> db" where
  "attach_compiled i code created_by g now s =
     (if cg_nodes g = [] then (Inl (GraphArtifactError 422 ''graph contains no executable steps''), s)
      else if \<not> list_all (\<lambda>e. snd e \<in> set (cg_nodes g)) (cg_edges g)
      then (Inl (KeyError ''edge target''), s)
      else bind_st (create_node_tasks i (cg_nodes g) now s) (\<lambda>ts s1.
        bind_st (set_deps (node_task (cg_nodes g) ts) (cg_edges g) (cg_nodes g) now ts s1) (\<lambda>ts' s2.
        let (updated, s3) = bundle_update i (Attach_graph code (cg_mermaid g)) s2 in
        case updated of
          None \<Rightarrow> (Inl (GraphArtifactError 404 ''disappeared mid-attach''), s3)
        | Some b \<Rightarrow>
           let (eid, s4) = draw ''evt_'' s3;
               e = (new_event eid None (Some i) None EPlan created_by ByAgent
                     (''Graph attached: '' @ str_of_nat (length (cg_nodes g)) @ '' steps, '' @
                      str_of_nat (length (cg_edges g)) @ '' edges'') now)
                   \<lparr>event_payload := JObj [(''node_ids'', JArr (map JStr (cg_nodes g))),
                      (''edges'', JArr (map (\<lambda>e. JArr [JStr (fst e), JStr (snd e)]) (cg_edges g))),
                      (''mermaid'', JStr (cg_mermaid g))]\<rparr>;
               s5 = event_create e now s4;
               s6 = publish_bundle WModified (Some (bundle_created_at b)) b None now s5;
               s7 = fold (\<lambda>t. publish_task WAdded t None now) ts' s6
           in (Inr (b, ts'), s7))))"

definition attach_graph_artifact :: "(string \<Rightarrow> string + compiled) \<Rightarrow> string \<Rightarrow> string \<Rightarrow> string \<Rightarrow> int \<Rightarrow> db
    \<Rightarrow> (bundle_row \<times> task list) res \<times> db" where
  "attach_graph_artifact compile i code created_by now s = (case bundle_get i s of
       None \<Rightarrow> (Inl (GraphArtifactError 404 ''not found''), s)
     | Some b \<Rightarrow>
         if bundle_graph_code b \<noteq> None
         then (Inl (GraphArtifactError 409 ''already has graph_code attached''), s)
         else case compile code of
             Inl msg \<Rightarrow> (Inl (GraphArtifactError 422 (''graph code rejected: '' @ msg)), s)
           | Inr g \<Rightarrow> attach_compiled i code created_by g now s)"

definition emit_lifecycle_event :: "bundle_row \<Rightarrow> domain_event_type \<Rightarrow> string \<Rightarrow> string option \<Rightarrow> int \<Rightarrow> db \<Rightarrow> db" where
  "emit_lifecycle_event b ty actor reason now s =
     (let body = ''Bundle '' @ event_type_name ty @ (if opt_truthy reason then '': '' @ the reason else []);
          (eid, s1) = draw ''evt_'' s
      in event_create (new_event eid (bundle_cookbook b) (Some (bundle_id b)) None ty actor ByHuman body now) now s1)"

definition set_bundle_status :: "bundle_status \<Rightarrow> domain_event_type \<Rightarrow> string \<Rightarrow> string \<Rightarrow> string option \<Rightarrow> int \<Rightarrow> db
    \<Rightarrow> bundle_row option \<times> db" where
  "set_bundle_status st ty i actor reason now s = (case bundle_get i s of
       None \<Rightarrow> (None, s)
     | Some b \<Rightarrow>
         if bundle_status b = st then (Some b, s)
         else let (updated, s1) = bundle_update i (Set_status st) s in
           case updated of
             None \<Rightarrow> (None, s1)
           | Some b' \<Rightarrow> (Some b', publish_bundle WModified (Some (bundle_created_at b')) b' (bundle_cookbook b') now
               (emit_lifecycle_event b' ty actor reason now s1)))"

definition close_bundle :: "string \<Rightarrow> string \<Rightarrow> string option \<Rightarrow> int \<Rightarrow> db \<Rightarrow> bundle_row option \<times> db" where
  "close_bundle = set_bundle_status BClosed EBundleClosed"

definition reopen_bundle :: "string \<Rightarrow> string \<Rightarrow> string option \<Rightarrow> int \<Rightarrow> db \<Rightarrow> bundle_row option \<times> db" where
  "reopen_bundle = set_bundle_status BOpen EBundleReopened"

section \<open>Close and reopen\<close>

lemma bundle_get_update:
  "bundle_get j (snd (bundle_update i u s)) =
     (if j = i then map_option (bundle_apply u) (bundle_get i s) else bundle_get j s)"
  by (simp add: bundle_update_def Let_def bundle_get_def bundle_rows.get_update_key)

lemma bundle_update_fst: "fst (bundle_update i u s) = map_option (bundle_apply u) (bundle_get i s)"
  by (simp add: bundle_update_def Let_def bundle_get_def bundle_rows.get_update_key)

lemma bundle_update_simps [simp]:
  "db_tasks (snd (bundle_update i u s)) = db_tasks s" "db_events (snd (bundle_update i u s)) = db_events s"
  "db_watch (snd (bundle_update i u s)) = db_watch s"
  by (simp_all add: bundle_update_def Let_def)

lemma bundle_update_pair: "bundle_update i u s = (map_option (bundle_apply u) (bundle_get i s), snd (bundle_update i u s))"
  by (metis bundle_update_fst prod.collapse)

lemma bundle_get_key: "bundle_get i s = Some b \<Longrightarrow> bundle_id b = i"
  using row_get_Some [of bundle_id i "db_bundles s" b] by (simp add: bundle_get_def)

lemma emit_simps [simp]:
  "db_tasks (emit_lifecycle_event b ty actor reason now s) = db_tasks s"
  "db_bundles (emit_lifecycle_event b ty actor reason now s) = db_bundles s"
  "bundle_get i (emit_lifecycle_event b ty actor reason now s) = bundle_get i s"
  "length (db_events (emit_lifecycle_event b ty actor reason now s)) = Suc (length (db_events s))"
  "event_type (last (db_events (emit_lifecycle_event b ty actor reason now s))) = ty"
  by (simp_all add: emit_lifecycle_event_def Let_def draw_def bundle_get_def new_event_def)

lemma publish_bundle_simps [simp]:
  "db_tasks (publish_bundle k act b cb now s) = db_tasks s"
  "db_events (publish_bundle k act b cb now s) = db_events s"
  "bundle_get i (publish_bundle k act b cb now s) = bundle_get i s"
  by (simp_all add: publish_bundle_def)

lemma set_status_flip:
  assumes "bundle_get i s = Some b" "bundle_status b \<noteq> st"
  defines "b' \<equiv> b\<lparr>bundle_status := st, bundle_version := bundle_version b + 1\<rparr>"
  shows "set_bundle_status st ty i actor reason now s = (Some b',
     publish_bundle WModified (Some (bundle_created_at b')) b' (bundle_cookbook b') now
       (emit_lifecycle_event b' ty actor reason now (snd (bundle_update i (Set_status st) s))))"
  using assms unfolding set_bundle_status_def by (subst bundle_update_pair) simp

lemma set_status_spec:
  assumes "bundle_get i s = Some b" "bundle_status b \<noteq> st"
  shows "fst (set_bundle_status st ty i actor reason now s) =
       Some (b\<lparr>bundle_status := st, bundle_version := bundle_version b + 1\<rparr>)"
    "bundle_get j (snd (set_bundle_status st ty i actor reason now s)) = (if j = i then
       Some (b\<lparr>bundle_status := st, bundle_version := bundle_version b + 1\<rparr>) else bundle_get j s)"
    "db_tasks (snd (set_bundle_status st ty i actor reason now s)) = db_tasks s"
    "length (db_events (snd (set_bundle_status st ty i actor reason now s))) = Suc (length (db_events s))"
    "event_type (last (db_events (snd (set_bundle_status st ty i actor reason now s)))) = ty"
  using assms(1) unfolding set_status_flip [OF assms] by (simp_all add: bundle_get_update)

lemma set_status_same:
  "bundle_get i s = Some b \<Longrightarrow> bundle_status b = st \<Longrightarrow> set_bundle_status st ty i actor reason now s = (Some b, s)"
  by (simp add: set_bundle_status_def)

text \<open>Closing an open bundle flips its status, writes one \<open>bundle_closed\<close> event and leaves every task
  alone; closing it again changes nothing; reopening gives back the same bundle up to its version.\<close>

theorem bundle_lifecycle:
  assumes b: "bundle_get i s = Some b" "bundle_status b = BOpen"
    and close: "close_bundle i actor reason now s = (r, s1)"
  shows "\<exists>b1. r = Some b1 \<and> bundle_status b1 = BClosed \<and>
      bundle_version b < bundle_version b1 \<and> db_tasks s1 = db_tasks s \<and>
      length (db_events s1) = Suc (length (db_events s)) \<and> event_type (last (db_events s1)) = EBundleClosed \<and>
      close_bundle i actor2 reason2 now2 s1 = (Some b1, s1) \<and>
      fst (reopen_bundle i actor3 reason3 now3 s1) = Some (b\<lparr>bundle_version := bundle_version b + 2\<rparr>)"
proof -
  have ne: "bundle_status b \<noteq> BClosed" using b(2) by simp
  have r: "r = fst (close_bundle i actor reason now s)" and s1: "snd (close_bundle i actor reason now s) = s1"
    using close by simp_all
  note c = set_status_spec [OF b(1) ne, where ty = EBundleClosed and actor = actor and reason = reason and now = now, folded close_bundle_def, unfolded s1]
  define b1 where "b1 = b\<lparr>bundle_status := BClosed, bundle_version := bundle_version b + 1\<rparr>"
  have b1: "bundle_get i s1 = Some b1" using c(2) by (simp add: b1_def)
  have "fst (reopen_bundle i actor3 reason3 now3 s1) = Some (b\<lparr>bundle_version := bundle_version b + 2\<rparr>)"
    using set_status_spec(1) [OF b1, where st = BOpen and ty = EBundleReopened and actor = actor3 and reason = reason3 and now = now3] b(2)
    by (cases b) (simp add: b1_def reopen_bundle_def)
  then show ?thesis
    using c b1 set_status_same [OF b1] r by (auto simp: b1_def close_bundle_def)
qed

lemma bundle_lifecycle_witness:
  "\<exists>b1. fst (close_bundle ''b'' ''op'' None 5 sample_db) = Some b1 \<and> bundle_status b1 = BClosed"
proof -
  have "bundle_status (plain_bundle ''b'' ''cb'') = BOpen" by (simp add: plain_bundle_def)
  then show ?thesis using bundle_lifecycle [OF sample_get(3) _ surjective_pairing] by blast
qed

section \<open>A graph runs once\<close>

definition run_sets :: "(string \<times> bundle_set) list \<Rightarrow> db \<Rightarrow> db" where
  "run_sets us s = fold (\<lambda>(i, u) s. snd (bundle_update i u s)) us s"

lemma runnable_monotone:
  "u \<noteq> Reopen_for_rerun \<Longrightarrow> bundle_graph_terminal_at b \<noteq> None \<or> bundle_blocked_reason b \<noteq> None \<Longrightarrow>
     bundle_graph_terminal_at (bundle_apply u b) \<noteq> None \<or> bundle_blocked_reason (bundle_apply u b) \<noteq> None"
  by (cases u) (auto split: option.split)

definition ran :: "string \<Rightarrow> db \<Rightarrow> bool" where
  "ran i s \<longleftrightarrow> (\<forall>b\<in>set (db_bundles s). bundle_id b = i \<longrightarrow>
     bundle_graph_terminal_at b \<noteq> None \<or> bundle_blocked_reason b \<noteq> None)"

lemma ran_update:
  assumes "ran i s" "(j, u) \<noteq> (i, Reopen_for_rerun)"
  shows "ran i (snd (bundle_update j u s))"
  unfolding ran_def
proof (intro ballI impI)
  fix b assume b: "b \<in> set (db_bundles (snd (bundle_update j u s)))" "bundle_id b = i"
  from b(1) have "b \<in> set (rows_update (\<lambda>b. bundle_id b = j) (bundle_apply u) (db_bundles s))"
    by (simp add: bundle_update_def Let_def)
  then show "bundle_graph_terminal_at b \<noteq> None \<or> bundle_blocked_reason b \<noteq> None"
  proof (cases rule: rows_update_cases)
    case 1
    then show ?thesis using assms(1) b(2) by (auto simp: ran_def)
  next
    case (2 b0)
    then have "bundle_id b0 = i" using b(2) bundle_rows.key_upd by auto
    moreover have "u \<noteq> Reopen_for_rerun" using assms(2) 2(2) calculation by auto
    ultimately show ?thesis using runnable_monotone assms(1) 2 by (auto simp: ran_def)
  qed
qed

lemma ran_run_sets: "ran i s \<Longrightarrow> (i, Reopen_for_rerun) \<notin> set us \<Longrightarrow> ran i (run_sets us s)"
proof (induction us arbitrary: s)
  case (Cons u us)
  obtain j v where u: "u = (j, v)" by fastforce
  have "ran i (snd (bundle_update j v s))" using Cons.prems u by (intro ran_update) auto
  with Cons.IH Cons.prems(2) u show ?case by (simp add: run_sets_def)
qed (simp add: run_sets_def)

lemma terminal_ran: "ran i (snd (mark_graph_terminal i success reason now s))"
  unfolding ran_def
proof (intro ballI impI)
  fix b assume "b \<in> set (db_bundles (snd (mark_graph_terminal i success reason now s)))" "bundle_id b = i"
  then have "b \<in> set (rows_update (\<lambda>b. bundle_id b = i)
      (bundle_apply (if success then Graph_succeeded now else Graph_failed reason)) (db_bundles s))"
    by (simp add: mark_graph_terminal_def bundle_update_def Let_def)
  then show "bundle_graph_terminal_at b \<noteq> None \<or> bundle_blocked_reason b \<noteq> None"
    using \<open>bundle_id b = i\<close> by (cases rule: rows_update_cases) (auto split: option.split)
qed

text \<open>C9: once the runner has marked a bundle terminal, success or failure, it is never runnable again,
  whatever other updates the repository makes to it, until \<open>reopen_for_rerun\<close>.\<close>

theorem graph_runs_once:
  assumes "(i, Reopen_for_rerun) \<notin> set us"
  shows "i \<notin> bundle_id ` set (list_runnable (run_sets us (snd (mark_graph_terminal i success reason now s))))"
  using ran_run_sets [OF terminal_ran assms, of success reason now s]
  unfolding ran_def list_runnable_def runnable_def by fastforce

lemma graph_runs_once_witness:
  "''b'' \<notin> bundle_id ` set (list_runnable (run_sets [(''b'', Attach_graph ''x'' ''y''), (''b'', Set_status BOpen)]
     (snd (mark_graph_terminal ''b'' True None 5 sample_db))))"
  by (rule graph_runs_once) simp

section \<open>Attaching a graph\<close>

lemma create_node_tasks_ok:
  assumes "create_node_tasks b ns now s = (Inr ts, s')"
  shows "map task_node ts = map Some ns \<and> db_tasks s' = db_tasks s @ ts \<and>
     (distinct (task_keys s) \<longrightarrow> distinct (task_keys s')) \<and>
     (\<forall>t\<in>set ts. task_status t = TOpen \<and> task_depends_on t = [] \<and> task_bundle t = b)"
  using assms
proof (induction ns arbitrary: s ts)
  case (Cons n ns)
  obtain i s1 where d: "draw ''task_'' s = (i, s1)" by fastforce
  let ?t = "(fresh_task i b (humanize_node n) (Some (''Graph step '' @ [CHR 0x27] @ n @ [CHR 0x27])) [])\<lparr>task_node := Some n\<rparr>"
  obtain t s2 ts' where t: "task_create ?t now s1 = (Inr t, s2)"
    and rest: "create_node_tasks b ns now s2 = (Inr ts', s')" and ts: "ts = t # ts'"
    using Cons.prems by (auto simp: d bind_st_ok)
  have s1: "db_tasks s1 = db_tasks s" using draw_simps(1) [of "''task_''" s] d by simp
  have t': "t = inserted_task ?t now" "db_tasks s2 = db_tasks s @ [t]" "task_get i s1 = None"
    using t by (auto simp: task_create_def inserted_task_def fresh_task_def s1 split: if_splits)
  have "task_id t \<notin> set (task_keys s)"
    using t'(3) by (simp add: t'(1) task_get_def row_get_None s1 task_keys_def inserted_task_def fresh_task_def)
  with Cons.IH [OF rest] show ?case
    by (auto simp: ts t'(2) task_keys_def) (auto simp: t'(1) inserted_task_def fresh_task_def)
qed simp

text \<open>What the second pass makes of the row of one node.\<close>

definition dep_row :: "(string \<Rightarrow> string option) \<Rightarrow> (string \<times> string) list \<Rightarrow> int \<Rightarrow> string \<Rightarrow> task \<Rightarrow> task" where
  "dep_row node_id edges now n t = (case those (map node_id (incoming edges n)) of
       None \<Rightarrow> t
     | Some deps \<Rightarrow> if deps = [] then t else apply_update (no_update\<lparr>up_depends_on := Some deps\<rparr>, now) t)"

definition dep_rows :: "(string \<Rightarrow> string option) \<Rightarrow> (string \<times> string) list \<Rightarrow> int \<Rightarrow> string list \<Rightarrow> task list \<Rightarrow> task list" where
  "dep_rows node_id edges now ns ts = map (\<lambda>t. case task_node t of
       None \<Rightarrow> t | Some n \<Rightarrow> if n \<in> set ns then dep_row node_id edges now n t else t) ts"

lemma replace_first_map:
  "distinct (map task_id ts) \<Longrightarrow> replace_first u ts = map (\<lambda>t. if task_id t = task_id u then u else t) ts"
proof (induction ts)
  case (Cons t ts)
  then have "map (\<lambda>t. if task_id t = task_id u then u else t) ts = ts" if "task_id t = task_id u"
    using that by (intro map_idI) (auto simp: image_iff)
  with Cons show ?case by auto
qed simp

lemma update_one_row:
  assumes "distinct (map task_id (old @ ts))" "t \<in> set ts"
  shows "rows_update (\<lambda>r. task_id r = task_id t) f (old @ ts) =
     old @ map (\<lambda>r. if task_id r = task_id t then f t else r) ts"
proof -
  have "rows_update (\<lambda>r. task_id r = task_id t) f old = old"
    using assms by (intro rows_update_none) auto
  moreover have "rows_update (\<lambda>r. task_id r = task_id t) f ts = map (\<lambda>r. if task_id r = task_id t then f t else r) ts"
    unfolding rows_update_def
  proof (rule map_cong [OF refl])
    fix x assume "x \<in> set ts"
    moreover have "inj_on task_id (set ts)" using assms(1) by (auto simp: distinct_map)
    ultimately show "(if task_id x = task_id t then f x else x) = (if task_id x = task_id t then f t else x)"
      using assms(2) by (auto dest: inj_onD)
  qed
  ultimately show ?thesis by (simp add: rows_update_def)
qed

lemma set_deps_ok:
  assumes "set_deps node_id edges ns now ts s = (Inr ts', s')"
    and "db_tasks s = old @ ts" "distinct (map task_id (old @ ts))"
    and "\<forall>t\<in>set ts. \<forall>n. task_node t = Some n \<longrightarrow> node_id n = Some (task_id t)"
    and "\<forall>n\<in>set ns. \<exists>t\<in>set ts. task_node t = Some n" and "distinct ns"
  shows "ts' = dep_rows node_id edges now ns ts \<and> db_tasks s' = old @ ts' \<and>
    (\<forall>n\<in>set ns. those (map node_id (incoming edges n)) \<noteq> None)"
  using assms
proof (induction ns arbitrary: ts s)
  case Nil
  then show ?case by (auto simp: dep_rows_def intro!: map_idI [symmetric] split: option.split)
next
  case (Cons n ns)
  obtain deps where deps: "those (map node_id (incoming edges n)) = Some deps"
    using Cons.prems(1) by (auto split: option.splits)
  obtain t where t: "t \<in> set ts" "task_node t = Some n" using Cons.prems(5) by auto
  have nid: "node_id n = Some (task_id t)" using Cons.prems(4) t by blast
  define ts1 where "ts1 = map (\<lambda>r. if task_id r = task_id t then dep_row node_id edges now n t else r) ts"
  define s1 where "s1 = s\<lparr>db_tasks := old @ ts1\<rparr>"
  have inj: "r = t" if "r \<in> set ts" "task_id r = task_id t" for r
    using that t(1) Cons.prems(3) by (auto simp: distinct_map dest: inj_onD)
  have node: "task_node (dep_row node_id edges now n r) = task_node r" "task_id (dep_row node_id edges now n r) = task_id r" for r
    by (auto simp: dep_row_def apply_update_def split: option.split prod.split)
  have same: "map task_id ts1 = map task_id ts" "map task_node ts1 = map task_node ts"
    using inj by (auto simp: ts1_def node)
  have step: "set_deps node_id edges ns now ts1 s1 = (Inr ts', s')"
  proof (cases "deps = []")
    case True
    have "ts1 = ts" unfolding ts1_def using inj True by (intro map_idI) (auto simp: dep_row_def deps dest: sym)
    moreover from this have "s1 = s" using Cons.prems(2) by (simp add: s1_def)
    ultimately show ?thesis using Cons.prems(1) deps True by simp
  next
    case False
    let ?u = "no_update\<lparr>up_depends_on := Some deps\<rparr>"
    have get: "task_get (task_id t) s = Some t"
      using row_get_in_set [of task_id "db_tasks s" t] Cons.prems(2,3) t(1) by (simp add: task_get_def)
    have row: "dep_row node_id edges now n t = apply_update (?u, now) t" using False by (simp add: dep_row_def deps)
    have "task_update (task_id t) ?u now s = (Inr (Some (apply_update (?u, now) t)), s1)"
      using get update_one_row [OF Cons.prems(3) t(1), of "apply_update (?u, now)"]
      by (simp add: task_update_plain update_simps s1_def ts1_def Cons.prems(2) row)
    moreover have "replace_first (apply_update (?u, now) t) ts = ts1"
      using Cons.prems(3) by (subst replace_first_map) (simp_all add: ts1_def row)
    ultimately show ?thesis using Cons.prems(1) deps False nid by simp
  qed
  have prem4: "\<forall>r\<in>set ts1. \<forall>m. task_node r = Some m \<longrightarrow> node_id m = Some (task_id r)"
    using Cons.prems(4) t(1) by (auto simp: ts1_def node)
  have prem5: "\<forall>m\<in>set ns. \<exists>r\<in>set ts1. task_node r = Some m"
    using Cons.prems(5) same(2) by (metis (no_types, lifting) image_iff list.set_intros(2) list.set_map)
  have ih: "ts' = dep_rows node_id edges now ns ts1 \<and> db_tasks s' = old @ ts' \<and>
      (\<forall>n\<in>set ns. those (map node_id (incoming edges n)) \<noteq> None)"
    using Cons.IH [OF step _ _ prem4 prem5] Cons.prems(3,6) same(1) by (simp add: s1_def)
  have one: "r = t" if "r \<in> set ts" "task_node r = Some n" for r
    using that Cons.prems(4) nid inj by fastforce
  have "dep_rows node_id edges now ns ts1 = dep_rows node_id edges now (n # ns) ts"
    unfolding dep_rows_def ts1_def map_map
  proof (rule map_cong [OF refl])
    fix r assume r: "r \<in> set ts"
    show "((\<lambda>t. case task_node t of None \<Rightarrow> t | Some n \<Rightarrow> if n \<in> set ns then dep_row node_id edges now n t else t) \<circ>
         (\<lambda>r. if task_id r = task_id t then dep_row node_id edges now n t else r)) r =
      (case task_node r of None \<Rightarrow> r | Some m \<Rightarrow> if m \<in> set (n # ns) then dep_row node_id edges now m r else r)"
    proof (cases "r = t")
      case True
      then show ?thesis using Cons.prems(6) t(2) by (simp add: node)
    next
      case False
      then have "task_id r \<noteq> task_id t" "task_node r \<noteq> Some n" using inj [OF r] one [OF r] by auto
      then show ?thesis by (cases "task_node r") auto
    qed
  qed
  with ih deps show ?case by simp
qed

lemma node_task_zip:
  assumes "map task_node ts = map Some ns" "distinct ns" "t \<in> set ts" "task_node t = Some n"
  shows "node_task ns ts n = Some (task_id t)"
proof -
  have len: "length ts = length ns" using assms(1) by (metis length_map)
  obtain k where k: "k < length ts" "ts ! k = t" using assms(3) by (auto simp: in_set_conv_nth)
  have "map task_node ts ! k = map Some ns ! k" using assms(1) by simp
  then have "ns ! k = n" using k assms(4) len by simp
  then have "(n, t) \<in> set (zip ns ts)" using k len by (force simp: set_zip)
  moreover have "distinct (map fst (rev (zip ns ts)))" using assms(2) len by (simp add: rev_map [symmetric])
  ultimately show ?thesis by (simp add: node_task_def)
qed

lemma those_map: "those (map f xs) = Some ys \<Longrightarrow> ys = map (the \<circ> f) xs"
  by (induction xs arbitrary: ys) (auto split: option.splits)

lemma node_task_ids: "node_task ns ts n = map_of (rev (zip ns (map task_id ts))) n"
proof -
  have "rev (zip ns (map task_id ts)) = map (\<lambda>(n, t). (n, task_id t)) (rev (zip ns ts))"
    by (simp add: zip_map2 rev_map)
  then show ?thesis by (simp add: node_task_def map_of_map o_def)
qed

lemma fold_publish_task [simp]:
  "db_tasks (fold (\<lambda>t. publish_task k t cb now) ts s) = db_tasks s"
  "db_bundles (fold (\<lambda>t. publish_task k t cb now) ts s) = db_bundles s"
  by (induction ts arbitrary: s) simp_all

lemma attach_compiled_parts:
  assumes "attach_compiled i code by g now s = (Inr (b, ts), s')"
  obtains ts0 s1 s2 where "create_node_tasks i (cg_nodes g) now s = (Inr ts0, s1)"
    "set_deps (node_task (cg_nodes g) ts0) (cg_edges g) (cg_nodes g) now ts0 s1 = (Inr ts, s2)"
    "map_option (bundle_apply (Attach_graph code (cg_mermaid g))) (bundle_get i s2) = Some b"
    "db_tasks s' = db_tasks s2" "bundle_get i s' = Some b"
proof -
  obtain ts0 s1 where c: "create_node_tasks i (cg_nodes g) now s = (Inr ts0, s1)"
    using assms unfolding attach_compiled_def by (auto simp: bind_st_ok split: if_splits)
  obtain ts1 s2 where d: "set_deps (node_task (cg_nodes g) ts0) (cg_edges g) (cg_nodes g) now ts0 s1 = (Inr ts1, s2)"
    using assms c unfolding attach_compiled_def by (auto simp: bind_st_ok split: if_splits)
  let ?b = "map_option (bundle_apply (Attach_graph code (cg_mermaid g))) (bundle_get i s2)"
  obtain s3 where s3: "bundle_update i (Attach_graph code (cg_mermaid g)) s2 = (?b, s3)"
    using bundle_update_pair by blast
  have s3': "db_tasks s3 = db_tasks s2" "bundle_get i s3 = ?b"
    using bundle_update_simps(1) [of i _ s2] bundle_get_update [of i i _ s2] s3 by (metis snd_conv)+
  have "?b = Some b \<and> ts1 = ts \<and> db_tasks s' = db_tasks s3 \<and> bundle_get i s' = bundle_get i s3"
    using assms c d s3 unfolding attach_compiled_def
    by (auto simp: Let_def bundle_get_def publish_bundle_def draw_def split: if_splits option.splits)
  with that [OF c] d s3' show ?thesis by simp
qed

lemma attach_graph_spec:
  assumes "attach_graph_artifact compile i code by now s = (Inr (b, ts), s')"
    and g: "compile code = Inr g" and nodes: "distinct (cg_nodes g)" and keys: "distinct (task_keys s)"
  shows "map task_node ts = map Some (cg_nodes g) \<and> db_tasks s' = db_tasks s @ ts \<and> distinct (task_keys s') \<and>
    (\<forall>t\<in>set ts. task_status t = TOpen \<and> task_depends_on t =
       map (\<lambda>n. the (node_task (cg_nodes g) ts n)) (incoming (cg_edges g) (the (task_node t)))) \<and>
    bundle_graph_code b = Some code \<and>
    attach_graph_artifact compile2 i code2 by2 now2 s' =
      (Inl (GraphArtifactError 409 ''already has graph_code attached''), s')"
proof -
  have "attach_compiled i code by g now s = (Inr (b, ts), s')"
    using assms(1) g by (auto simp: attach_graph_artifact_def split: option.splits if_splits)
  then obtain ts0 s1 s2 where c: "create_node_tasks i (cg_nodes g) now s = (Inr ts0, s1)"
    and d: "set_deps (node_task (cg_nodes g) ts0) (cg_edges g) (cg_nodes g) now ts0 s1 = (Inr ts, s2)"
    and b: "map_option (bundle_apply (Attach_graph code (cg_mermaid g))) (bundle_get i s2) = Some b"
    and s': "db_tasks s' = db_tasks s2" "bundle_get i s' = Some b"
    by (rule attach_compiled_parts)
  note c' = create_node_tasks_ok [OF c]
  have nid: "\<forall>t\<in>set ts0. \<forall>n. task_node t = Some n \<longrightarrow> node_task (cg_nodes g) ts0 n = Some (task_id t)"
    using node_task_zip c' nodes by blast
  have all: "\<forall>n\<in>set (cg_nodes g). \<exists>t\<in>set ts0. task_node t = Some n"
    using c' by (metis (no_types, lifting) imageE imageI list.set_map)
  have "distinct (map task_id (db_tasks s @ ts0))" using c' keys unfolding task_keys_def by metis
  note d' = set_deps_ok [OF d conjunct1 [OF conjunct2 [OF c']] this nid all nodes]
  have row: "task_node (dep_row nm edges now n t) = task_node t" "task_id (dep_row nm edges now n t) = task_id t"
    "task_status (dep_row nm edges now n t) = task_status t" for nm edges n t
    by (auto simp: dep_row_def apply_update_def update_simps split: option.split prod.split)
  have ts: "map task_node ts = map task_node ts0" "map task_id ts = map task_id ts0"
    using d' by (auto simp: dep_rows_def row split: option.split)
  have "task_status t = TOpen \<and> task_depends_on t =
       map (\<lambda>n. the (node_task (cg_nodes g) ts n)) (incoming (cg_edges g) (the (task_node t)))"
    if "t \<in> set ts" for t
  proof -
    obtain t0 where t0: "t0 \<in> set ts0" "t = (case task_node t0 of None \<Rightarrow> t0
        | Some n \<Rightarrow> if n \<in> set (cg_nodes g) then dep_row (node_task (cg_nodes g) ts0) (cg_edges g) now n t0 else t0)"
      using d' \<open>t \<in> set ts\<close> by (auto simp: dep_rows_def)
    obtain n where n: "task_node t0 = Some n" "n \<in> set (cg_nodes g)"
      using t0(1) c' by (metis (no_types, lifting) imageE imageI list.set_map)
    obtain deps where deps: "those (map (node_task (cg_nodes g) ts0) (incoming (cg_edges g) n)) = Some deps"
      using d' n(2) by auto
    have "task_depends_on t = deps"
      using t0 n c' deps by (auto simp: dep_row_def apply_update_def update_simps)
    with those_map [OF deps] t0 n c' show ?thesis
      by (auto simp: row node_task_ids ts(2))
  qed
  moreover have "bundle_graph_code b = Some code" using b by auto
  moreover have "distinct (map task_id (db_tasks s @ ts))"
    using \<open>distinct (map task_id (db_tasks s @ ts0))\<close> ts(2) by simp
  ultimately show ?thesis
    using c' d' s' ts(1) by (simp add: attach_graph_artifact_def task_keys_def)
qed

text \<open>C8: attaching an accepted graph creates one open task per node, in order, and stores them; the task
  of a node depends on exactly the tasks of the nodes with an edge into it; and the bundle carries the
  code, so that a second attach is refused with 409 and changes nothing.\<close>

theorem attach_graph_tasks:
  assumes "attach_graph_artifact compile i code by now s = (Inr (b, ts), s')"
    and g: "compile code = Inr g" and nodes: "distinct (cg_nodes g)" and keys: "distinct (task_keys s)"
  shows "map task_node ts = map Some (cg_nodes g) \<and> db_tasks s' = db_tasks s @ ts \<and>
    (\<forall>t\<in>set ts. task_status t = TOpen \<and> task_depends_on t =
       map (\<lambda>n. the (node_task (cg_nodes g) ts n)) (incoming (cg_edges g) (the (task_node t)))) \<and>
    bundle_graph_code b = Some code \<and>
    attach_graph_artifact compile2 i code2 by2 now2 s' =
      (Inl (GraphArtifactError 409 ''already has graph_code attached''), s')"
  using attach_graph_spec [OF assms] by simp

definition sample_graph :: compiled where
  "sample_graph = \<lparr>cg_nodes = [''n'', ''m''], cg_edges = [(''n'', ''m'')], cg_mermaid = ''g''\<rparr>"

lemma attach_graph_tasks_witness:
  "\<exists>b ts s'. attach_graph_artifact (\<lambda>_. Inr sample_graph) ''b'' ''code'' ''orch'' 4 sample_db = (Inr (b, ts), s') \<and>
     map task_node ts = [Some ''n'', Some ''m'']"
proof -
  have "\<not> isl (fst (attach_graph_artifact (\<lambda>_. Inr sample_graph) ''b'' ''code'' ''orch'' 4 sample_db))"
    by (simp add: attach_graph_artifact_def attach_compiled_def sample_graph_def sample_db_def empty_db_def
        plain_bundle_def fresh_task_def draw_def task_create_def task_get_def bundle_get_def inserted_task_def
        node_task_def incoming_def task_update_plain update_simps task_rows.get_update_key rows_update_def
        apply_update_def bundle_update_def Let_def)
  then obtain b ts s' where a: "attach_graph_artifact (\<lambda>_. Inr sample_graph) ''b'' ''code'' ''orch'' 4 sample_db = (Inr (b, ts), s')"
    by (cases "attach_graph_artifact (\<lambda>_. Inr sample_graph) ''b'' ''code'' ''orch'' 4 sample_db";
        cases "fst (attach_graph_artifact (\<lambda>_. Inr sample_graph) ''b'' ''code'' ''orch'' 4 sample_db)") auto
  have "distinct (cg_nodes sample_graph)" by (simp add: sample_graph_def)
  from attach_graph_tasks [OF a refl this sample_get(4)] a show ?thesis by (auto simp: sample_graph_def)
qed

section \<open>What a cookbook's stream sees of a new bundle\<close>

lemma publish_uncooked:
  assumes "watch_ok (db_watch s)" "(q, opts) \<in> set (ws_subs (db_watch s))" "wo_cookbook opts = Some c" "c \<noteq> []"
  shows "ws_queues (db_watch (publish rt i k p None now s)) q = ws_queues (db_watch s) q"
proof -
  define m where "m = \<lparr>mu_type = rt, mu_id = i, mu_kind = k, mu_version = resource_version_of p, mu_payload = p,
     mu_cookbook = None, mu_now = now\<rparr>"
  have only: "opts' = opts" if "(q, opts') \<in> set (ws_subs (db_watch s))" for opts'
    using that assms(1,2) by (auto simp: watch_ok_def dest: eq_key_imp_eq_value)
  have "\<not> matches opts (entry_to_watch_event (next_entry m (db_watch s)))"
    using assms(3,4) by (auto simp: matches_def opt_truthy_def entry_to_watch_event_def next_entry_def m_def)
  then show ?thesis
    using only notify_queues [OF log_append_ok [OF assms(1), of m]]
    by (auto simp: publish_def record_resource_def record_mutation_def m_def)
qed

lemma publish_keeps_sub:
  assumes "watch_ok (db_watch s)" "(q, opts) \<in> set (ws_subs (db_watch s))" "wo_cookbook opts = Some c" "c \<noteq> []"
  shows "(q, opts) \<in> set (ws_subs (db_watch (publish rt i k p None now s)))"
proof -
  define m where "m = \<lparr>mu_type = rt, mu_id = i, mu_kind = k, mu_version = resource_version_of p, mu_payload = p,
     mu_cookbook = None, mu_now = now\<rparr>"
  have "\<not> matches opts (entry_to_watch_event (next_entry m (db_watch s)))"
    using assms(3,4) by (auto simp: matches_def opt_truthy_def entry_to_watch_event_def next_entry_def m_def)
  then show ?thesis
    using assms(2) notify_subs [OF log_append_ok [OF assms(1), of m]]
    by (auto simp: publish_def record_resource_def record_mutation_def m_def full_def wants_def)
qed

definition deaf :: "nat \<Rightarrow> watch_options \<Rightarrow> db \<Rightarrow> db \<Rightarrow> bool" where
  "deaf q opts s s' \<longleftrightarrow> watch_ok (db_watch s') \<and> (q, opts) \<in> set (ws_subs (db_watch s')) \<and>
     ws_queues (db_watch s') q = ws_queues (db_watch s) q"

lemma deaf_publish:
  "deaf q opts s s' \<Longrightarrow> wo_cookbook opts = Some c \<Longrightarrow> c \<noteq> [] \<Longrightarrow> deaf q opts s (publish rt i k p None now s')"
  using publish_uncooked [of s' q opts c] publish_keeps_sub [of s' q opts c] publish_ok [of s']
  by (simp add: deaf_def)

lemma deaf_fold:
  "deaf q opts s s' \<Longrightarrow> wo_cookbook opts = Some c \<Longrightarrow> c \<noteq> [] \<Longrightarrow>
     deaf q opts s (fold (\<lambda>t. publish_task k t None now) ts s')"
  by (induction ts arbitrary: s') (simp_all add: publish_task_def deaf_publish)

lemma bind_st_watch:
  "db_watch (snd p) = w \<Longrightarrow> (\<And>x s1. db_watch s1 = w \<Longrightarrow> db_watch (snd (f x s1)) = w) \<Longrightarrow> db_watch (snd (bind_st p f)) = w"
  by (cases p; cases "fst p") auto

lemma create_tasks_watch: "db_watch (snd (create_tasks b xs now s)) = db_watch s"
proof (induction xs arbitrary: s)
  case (Cons x xs)
  have t: "db_watch (snd (task_create t now s1)) = db_watch s1" for t s1 by (simp add: task_create_def)
  show ?case
    by (simp add: draw_def Let_def, intro bind_st_watch) (simp_all add: t Cons.IH)
qed simp

lemma log_fold [simp]: "length (ws_log (db_watch (fold (\<lambda>t. publish_task k t cb now) ts s))) =
    length (ws_log (db_watch s)) + length ts"
  by (induction ts arbitrary: s) (simp_all add: publish_task_def)

lemma create_bundle_shape:
  assumes "create_bundle cb prompt by tasks autoplan spec now s = (Inr (b, ts), s')"
  obtains s7 where "db_watch s7 = db_watch s"
    "s' = fold (\<lambda>t. publish_task WAdded t None now) ts (publish_bundle WAdded None b None now s7)"
proof -
  obtain bid s0 where d: "draw ''bun_'' s = (bid, s0)" by fastforce
  have s0: "db_watch s0 = db_watch s" using draw_simps(8) [of "''bun_''" s] d by simp
  obtain s1 where i: "bundle_insert (fresh_bundle bid cb spec prompt by now) s0 = (Inr b, s1)"
    using assms unfolding create_bundle_def d by (auto simp: bind_st_ok Let_def draw_def)
  define s2 where "s2 = (if autoplan then s1\<lparr>db_bundles := rows_update (\<lambda>r. bundle_id r = bid)
                  (\<lambda>r. r\<lparr>bundle_autoplan := True\<rparr>) (db_bundles s1)\<rparr> else s1)"
  have s2: "db_watch s2 = db_watch s"
    using i s0 by (auto simp: s2_def bundle_insert_def split: if_splits)
  obtain s3 where c: "create_tasks bid tasks now s2 = (Inr ts, s3)"
    using assms i unfolding create_bundle_def d by (auto simp: bind_st_ok Let_def draw_def s2_def)
  have s3: "db_watch s3 = db_watch s" using create_tasks_watch [of bid tasks now s2] c s2 by simp
  let ?e1 = "\<lambda>e. new_event e (Some cb) (Some bid) None EPrompt by ByHuman prompt now"
  let ?e2 = "\<lambda>e. new_event e (Some cb) (Some bid) None EPlan ''system'' BySystem (plan_body (length ts) autoplan) now"
  obtain e1 s4 where d1: "draw ''evt_'' s3 = (e1, s4)" by fastforce
  obtain e2 s6 where d2: "draw ''evt_'' (event_create (?e1 e1) now s4) = (e2, s6)" by fastforce
  have s6: "db_watch s6 = db_watch s"
    using draw_simps(8) [of "''evt_''" s3] draw_simps(8) [of "''evt_''" "event_create (?e1 e1) now s4"] d1 d2 s3 by simp
  have "s' = fold (\<lambda>t. publish_task WAdded t None now) ts
      (publish_bundle WAdded None b None now (event_create (?e2 e2) now s6))"
    using assms i c d1 d2 unfolding create_bundle_def d by (simp add: Let_def s2_def [symmetric])
  with s6 show ?thesis by (intro that [of "event_create (?e2 e2) now s6"]) simp_all
qed

text \<open>A subscriber of a cookbook's stream is not told of a bundle created in it, nor of its tasks:
  \<open>create_bundle\<close> records them without the cookbook, and the stream filters on it.\<close>

theorem cookbook_stream_misses_new_bundles:
  assumes "watch_ok (db_watch s)" "(q, opts) \<in> set (ws_subs (db_watch s))" "wo_cookbook opts = Some cb" "cb \<noteq> []"
    and "create_bundle cb prompt by tasks autoplan spec now s = (Inr (b, ts), s')"
  shows "ws_queues (db_watch s') q = ws_queues (db_watch s) q \<and>
    length (ws_log (db_watch s')) = length (ws_log (db_watch s)) + 1 + length ts"
proof -
  obtain s7 where s7: "db_watch s7 = db_watch s"
    "s' = fold (\<lambda>t. publish_task WAdded t None now) ts (publish_bundle WAdded None b None now s7)"
    using create_bundle_shape [OF assms(5)] by blast
  have "deaf q opts s s7" using assms(1,2) s7(1) by (simp add: deaf_def)
  then have "deaf q opts s s'"
    unfolding s7(2) publish_bundle_def by (intro deaf_fold [OF deaf_publish]) (use assms(3,4) in auto)
  then show ?thesis by (simp add: deaf_def s7 publish_bundle_def)
qed

definition cookbook_options :: watch_options where
  "cookbook_options = \<lparr>wo_type = None, wo_cookbook = Some ''cb'', wo_since = 0, wo_types = [], wo_channels = []\<rparr>"

definition watched_db :: db where
  "watched_db = sample_db\<lparr>db_watch := snd (subscribe cookbook_options watch_init)\<rparr>"

lemma cookbook_stream_misses_new_bundles_witness:
  "\<exists>b s'. create_bundle ''cb'' ''do it'' ''op'' [] False JNull 5 watched_db = (Inr (b, []), s') \<and>
     ws_queues (db_watch s') 0 = []"
proof -
  have "\<exists>b s'. create_bundle ''cb'' ''do it'' ''op'' [] False JNull 5 watched_db = (Inr (b, []), s')"
    by (simp add: create_bundle_def draw_def bundle_insert_def fresh_bundle_def watched_db_def sample_db_def
        empty_db_def bundle_get_def plain_bundle_def Let_def cookbook_get_def sample_cookbook_def)
  then obtain b s' where c: "create_bundle ''cb'' ''do it'' ''op'' [] False JNull 5 watched_db = (Inr (b, []), s')"
    by blast
  have ok: "watch_ok (db_watch watched_db)" by (simp add: watched_db_def subscribe_ok watch_init_ok)
  have sub: "(0, cookbook_options) \<in> set (ws_subs (db_watch watched_db))" "ws_queues (db_watch watched_db) 0 = []"
    by (simp_all add: watched_db_def subscribe_def watch_init_def)
  have "wo_cookbook cookbook_options = Some ''cb''" by (simp add: cookbook_options_def)
  from cookbook_stream_misses_new_bundles [OF ok sub(1) this _ c] c sub(2) show ?thesis by simp
qed

end
