(* ===== verification/Reachability.thy ===== *)
theory Reachability
  imports Prelude
begin

text \<open>
  The graph searches of the code: the stack search behind the cycle guards of
  \<^verbatim>\<open>routes/links.py\<close>, and the collapsing walk of \<^verbatim>\<open>graph_sandbox/renderer.py\<close>.  A graph is a
  dictionary from a node to its successors; a node without an entry has none.
\<close>

definition succs :: "('a \<times> 'a list) list \<Rightarrow> 'a \<Rightarrow> 'a list" where
  "succs adj x = (case map_of adj x of None \<Rightarrow> [] | Some ys \<Rightarrow> ys)"

definition edge_rel :: "('a \<times> 'a list) list \<Rightarrow> ('a \<times> 'a) set" where
  "edge_rel adj = {(x, y). y \<in> set (succs adj x)}"

lemma succs_outside: "x \<notin> fst ` set adj \<Longrightarrow> succs adj x = []"
  by (simp add: succs_def map_of_eq_None_iff [symmetric])

section \<open>Stack search\<close>

text \<open>The top of the Python stack is the head of the list: \<open>extend\<close> pushes the successors in order.\<close>

function search :: "('a \<times> 'a list) list \<Rightarrow> 'a \<Rightarrow> 'a list \<Rightarrow> 'a list \<Rightarrow> bool" where
  "search adj target [] seen = False"
| "search adj target (cur # stack) seen =
     (if cur = target then True
      else if cur \<in> set seen then search adj target stack seen
      else search adj target (rev (succs adj cur) @ stack) (cur # seen))"
  by pat_completeness auto

lemma unseen_decreases:
  assumes "cur \<notin> set seen"
  shows "card (fst ` set adj - set (cur # seen)) < card (fst ` set adj - set seen) \<or>
     (card (fst ` set adj - set (cur # seen)) = card (fst ` set adj - set seen) \<and> succs adj cur = [])"
proof (cases "cur \<in> fst ` set adj")
  case True
  then have "fst ` set adj - set (cur # seen) \<subset> fst ` set adj - set seen"
    using assms unfolding list.set by blast
  then have "card (fst ` set adj - set (cur # seen)) < card (fst ` set adj - set seen)"
    by (rule psubset_card_mono [rotated]) simp
  then show ?thesis by blast
next
  case False
  then have "succs adj cur = []" by (rule succs_outside)
  moreover have "fst ` set adj - set (cur # seen) = fst ` set adj - set seen"
    using False unfolding list.set by blast
  ultimately show ?thesis by metis
qed

termination search
proof (relation "measures [\<lambda>(adj, _, _, seen). card (fst ` set adj - set seen), \<lambda>(_, _, stack, _). length stack]",
    simp, simp)
  fix adj and cur :: 'a and stack seen target
  assume "cur \<notin> set seen"
  from unseen_decreases [OF this, of adj]
  show "((adj, target, rev (succs adj cur) @ stack, cur # seen), adj, target, cur # stack, seen) \<in>
      measures [\<lambda>(adj, _, _, seen). card (fst ` set adj - set seen), \<lambda>(_, _, stack, _). length stack]"
    by auto
qed

lemma search_sound: "search adj target stack seen \<Longrightarrow> \<exists>x\<in>set stack. (x, target) \<in> (edge_rel adj)\<^sup>*"
proof (induction adj target stack seen rule: search.induct)
  case (2 adj target cur stack seen)
  show ?case
  proof (cases "cur = target \<or> cur \<in> set seen")
    case True
    then show ?thesis using 2 by auto
  next
    case False
    with 2 obtain x where x: "x \<in> set (succs adj cur) \<or> x \<in> set stack" "(x, target) \<in> (edge_rel adj)\<^sup>*" by auto
    from x(1) show ?thesis
    proof
      assume "x \<in> set (succs adj cur)"
      then have "(cur, x) \<in> edge_rel adj" by (simp add: edge_rel_def)
      then have "(cur, target) \<in> (edge_rel adj)\<^sup>*" using x(2) by (rule converse_rtrancl_into_rtrancl)
      then show ?thesis by auto
    next
      assume "x \<in> set stack"
      then show ?thesis using x(2) by auto
    qed
  qed
qed simp

text \<open>A failed search leaves a set that holds the start, is closed under edges and misses the target.\<close>

lemma search_complete:
  assumes "\<not> search adj target stack seen" "target \<notin> set seen"
    "\<forall>x\<in>set seen. set (succs adj x) \<subseteq> set seen \<union> set stack"
  shows "\<exists>S. set seen \<union> set stack \<subseteq> S \<and> target \<notin> S \<and> (\<forall>x\<in>S. set (succs adj x) \<subseteq> S)"
  using assms
proof (induction adj target stack seen rule: search.induct)
  case (1 adj target seen)
  then show ?case by (intro exI [of _ "set seen"]) simp
next
  case (2 adj target cur stack seen)
  have ne: "cur \<noteq> target" using 2(3) by auto
  show ?case
  proof (cases "cur \<in> set seen")
    case True
    have f: "\<not> search adj target stack seen" using 2(3) ne True by simp
    have same: "set seen \<union> set (cur # stack) = set seen \<union> set stack" using True by auto
    show ?thesis using 2(1) [OF ne True f 2(4) 2(5) [unfolded same]] unfolding same .
  next
    case False
    have f: "\<not> search adj target (rev (succs adj cur) @ stack) (cur # seen)" using 2(3) ne False by simp
    have closed: "\<forall>x\<in>set (cur # seen). set (succs adj x) \<subseteq> set (cur # seen) \<union> set (rev (succs adj cur) @ stack)"
      using 2(5) by auto
    have "target \<notin> set (cur # seen)" using 2(4) ne by simp
    from 2(2) [OF ne False f this closed] obtain S where
      "set (cur # seen) \<union> set (rev (succs adj cur) @ stack) \<subseteq> S" "target \<notin> S" "\<forall>x\<in>S. set (succs adj x) \<subseteq> S"
      by metis
    moreover have "set seen \<union> set (cur # stack) \<subseteq> set (cur # seen) \<union> set (rev (succs adj cur) @ stack)" by auto
    ultimately show ?thesis by (meson subset_trans)
  qed
qed

lemma search_iff: "search adj target [start] [] \<longleftrightarrow> (start, target) \<in> (edge_rel adj)\<^sup>*"
proof
  assume "search adj target [start] []"
  then show "(start, target) \<in> (edge_rel adj)\<^sup>*" using search_sound by fastforce
next
  assume r: "(start, target) \<in> (edge_rel adj)\<^sup>*"
  show "search adj target [start] []"
  proof (rule ccontr)
    assume "\<not> search adj target [start] []"
    then obtain S where S: "start \<in> S" "target \<notin> S" "\<forall>x\<in>S. set (succs adj x) \<subseteq> S"
      using search_complete [of adj target "[start]" "[]"] by auto
    from r have "target \<in> S" by induction (use S in \<open>auto simp: edge_rel_def\<close>)
    with S(2) show False by simp
  qed
qed

section \<open>Adding an edge to an acyclic graph\<close>

lemma acyclic_insert_edge:
  assumes "acyclic r" "(y, x) \<notin> r\<^sup>*"
  shows "acyclic (insert (x, y) r)"
  using assms by (simp add: acyclic_insert)

section \<open>Adjacency built edge by edge\<close>

text \<open>\<open>adj.setdefault(x, []).append(y)\<close>.\<close>

fun add_edge :: "'a \<times> 'a \<Rightarrow> ('a \<times> 'a list) list \<Rightarrow> ('a \<times> 'a list) list" where
  "add_edge (x, y) [] = [(x, [y])]"
| "add_edge (x, y) ((k, ys) # adj) = (if k = x then (k, ys @ [y]) # adj else (k, ys) # add_edge (x, y) adj)"

lemma succs_add_edge: "succs (add_edge (x, y) adj) z = (if z = x then succs adj x @ [y] else succs adj z)"
  by (induction "(x, y)" adj rule: add_edge.induct) (auto simp: succs_def)

lemma edge_rel_add: "edge_rel (add_edge e adj) = insert e (edge_rel adj)"
  by (cases e) (auto simp: edge_rel_def succs_add_edge split: if_splits)

lemma edge_rel_fold: "edge_rel (fold add_edge es adj) = set es \<union> edge_rel adj"
  by (induction es arbitrary: adj) (auto simp: edge_rel_add)

lemma edge_rel_build: "edge_rel (fold add_edge es []) = set es"
  by (simp add: edge_rel_fold) (simp add: edge_rel_def succs_def)

end
