(* ===== verification/Graph_Attachment.thy ===== *)
theory Graph_Attachment
  imports Bundle_Service Reachability
begin

text \<open>
  The guarded way to attach a graph (\<^verbatim>\<open>services/graph_attachment_service.py\<close>): the three-colour search
  that rejects cyclic edge sets, proved to decide acyclicity, and the attachment behind it.  The route
  \<^verbatim>\<open>POST /bundles/{id}/graph\<close> calls \<open>BundleService.attach_graph_artifact\<close> instead, which has no such
  guard; what a cyclic graph does there is proved too.
\<close>

section \<open>The three-colour search\<close>

datatype colour = White | Grey | Black

text \<open>\<open>adj.setdefault(k, [])\<close>.\<close>

definition touch :: "'a \<Rightarrow> ('a \<times> 'a list) list \<Rightarrow> ('a \<times> 'a list) list" where
  "touch k adj = (if k \<in> fst ` set adj then adj else adj @ [(k, [])])"

definition build_adj :: "'a list \<Rightarrow> ('a \<times> 'a) list \<Rightarrow> ('a \<times> 'a list) list" where
  "build_adj nodes edges =
     fold (\<lambda>e adj. touch (snd e) (add_edge e adj)) edges (map (\<lambda>n. (n, [])) (rev (remdups (rev nodes))))"

text \<open>The top of the Python stack is the head of the list; a frame keeps what its iterator has left.\<close>

function dfs :: "('a \<times> 'a list) list \<Rightarrow> ('a \<Rightarrow> colour) \<Rightarrow> ('a \<times> 'a list) list \<Rightarrow> bool \<times> ('a \<Rightarrow> colour)" where
  "dfs adj col [] = (False, col)"
| "dfs adj col ((node, []) # stack) = dfs adj (col(node := Black)) stack"
| "dfs adj col ((node, nxt # its) # stack) =
     (case col nxt of
        Grey \<Rightarrow> (True, col)
      | White \<Rightarrow> dfs adj (col(nxt := Grey)) ((nxt, succs adj nxt) # (node, its) # stack)
      | Black \<Rightarrow> dfs adj col ((node, its) # stack))"
  by pat_completeness auto

definition whites :: "('a \<times> 'a list) list \<Rightarrow> ('a \<Rightarrow> colour) \<Rightarrow> nat" where
  "whites adj col = card {x \<in> fst ` set adj. col x = White}"

definition pending :: "('a \<times> 'a list) list \<Rightarrow> nat" where
  "pending stack = (\<Sum>f\<leftarrow>stack. 2 * length (snd f) + 1)"

lemma whites_mono: "c \<noteq> White \<Longrightarrow> whites adj (col(x := c)) \<le> whites adj col"
  unfolding whites_def by (rule card_mono) (auto split: if_splits)

lemma whites_less:
  assumes "c \<noteq> White" "col x = White" "x \<in> fst ` set adj"
  shows "whites adj (col(x := c)) < whites adj col"
  unfolding whites_def using assms by (intro psubset_card_mono) auto

termination dfs
proof (relation "measures [\<lambda>(adj, col, stack). whites adj col, \<lambda>(adj, col, stack). pending stack]", simp)
  show "((adj, col(node := Black), stack), adj, col, (node, []) # stack) \<in>
      measures [\<lambda>(adj, col, stack). whites adj col, \<lambda>(adj, col, stack). pending stack]" for adj col and node :: 'a and stack
    using whites_mono [of Black adj col node] by (auto simp: pending_def)
  show "((adj, col(nxt := Grey), (nxt, succs adj nxt) # (node, its) # stack), adj, col, (node, nxt # its) # stack) \<in>
      measures [\<lambda>(adj, col, stack). whites adj col, \<lambda>(adj, col, stack). pending stack]"
    if "col nxt = White" for adj col node nxt and its :: "'a list" and stack
    using whites_mono [of Grey adj col nxt] whites_less [of Grey col nxt adj] that succs_outside [of nxt adj]
    by (cases "nxt \<in> fst ` set adj") (auto simp: pending_def)
  show "((adj, col, (node, its) # stack), adj, col, (node, nxt # its) # stack) \<in>
      measures [\<lambda>(adj, col, stack). whites adj col, \<lambda>(adj, col, stack). pending stack]"
    for adj col node nxt and its :: "'a list" and stack
    by (simp add: pending_def)
qed

fun from_roots :: "('a \<times> 'a list) list \<Rightarrow> 'a list \<Rightarrow> ('a \<Rightarrow> colour) \<Rightarrow> bool" where
  "from_roots adj [] col = False"
| "from_roots adj (r # rs) col =
     (if col r \<noteq> White then from_roots adj rs col
      else case dfs adj (col(r := Grey)) [(r, succs adj r)] of
          (True, _) \<Rightarrow> True
        | (False, col') \<Rightarrow> from_roots adj rs col')"

definition edges_have_cycle :: "'a list \<Rightarrow> ('a \<times> 'a) list \<Rightarrow> bool" where
  "edges_have_cycle nodes edges =
     (let adj = build_adj nodes edges in from_roots adj (map fst adj) (\<lambda>_. White))"

section \<open>The search decides acyclicity\<close>

text \<open>
  Black nodes are closed under edges and on no cycle; each frame has its scanned successors black or, for
  one of them, on the frame above.
\<close>

fun frames :: "('a \<times> 'a) set \<Rightarrow> 'a set \<Rightarrow> 'a set \<Rightarrow> ('a \<times> 'a list) list \<Rightarrow> bool" where
  "frames R B A [] = True"
| "frames R B A ((x, its) # st) \<longleftrightarrow> set its \<subseteq> R `` {x} \<and> R `` {x} \<subseteq> set its \<union> B \<union> A \<and> A \<subseteq> R `` {x} \<and>
     frames R B {x} st"

definition dfs_inv :: "('a \<times> 'a) set \<Rightarrow> ('a \<Rightarrow> colour) \<Rightarrow> ('a \<times> 'a list) list \<Rightarrow> bool" where
  "dfs_inv R col stack \<longleftrightarrow> distinct (map fst stack) \<and> {x. col x = Grey} = fst ` set stack \<and>
     R `` {x. col x = Black} \<subseteq> {x. col x = Black} \<and> (\<forall>x. col x = Black \<longrightarrow> (x, x) \<notin> R\<^sup>+) \<and>
     frames R {x. col x = Black} {} stack"

lemma frames_mono: "frames R B A st \<Longrightarrow> B \<subseteq> B' \<Longrightarrow> frames R B' A st"
  by (induction R B A st rule: frames.induct) auto

lemma frames_pop: "frames R B {x} st \<Longrightarrow> frames R (insert x B) {} st"
  by (cases st) (auto intro: frames_mono)

lemma frames_path: "frames R B {a} st \<Longrightarrow> y \<in> fst ` set st \<Longrightarrow> (y, a) \<in> R\<^sup>+"
proof (induction st arbitrary: a)
  case (Cons f st)
  obtain x its where f: "f = (x, its)" by force
  then have xa: "(x, a) \<in> R" and st: "frames R B {x} st" using Cons.prems(1) by auto
  show ?case
  proof (cases "y = x")
    case False
    then have "(y, x) \<in> R\<^sup>+" using Cons.IH [OF st] Cons.prems(2) f by auto
    then show ?thesis using xa by (rule trancl_into_trancl)
  qed (use xa in auto)
qed simp

lemma closed_trancl:
  assumes "R `` B \<subseteq> B" "(x, y) \<in> R\<^sup>+" "x \<in> B"
  shows "y \<in> B"
  using assms(2,1,3) by (induction rule: trancl_induct) auto

lemma closed_insert_acyclic:
  assumes B: "R `` B \<subseteq> B" and x: "x \<notin> B" and step: "R `` {x} \<subseteq> B"
  shows "(x, x) \<notin> R\<^sup>+"
proof
  assume "(x, x) \<in> R\<^sup>+"
  then obtain y where "(x, y) \<in> R" "y = x \<or> (y, x) \<in> R\<^sup>+" by (metis converse_tranclE)
  then have "y \<in> B" "y = x \<or> (y, x) \<in> R\<^sup>+" using step by auto
  then have "x \<in> B" using closed_trancl [OF B] by auto
  with x show False ..
qed

lemma dfs_inv_pop:
  assumes "dfs_inv R col ((x, []) # st)"
  shows "dfs_inv R (col(x := Black)) st"
proof -
  have col: "col x = Grey" and gr: "{y. col y = Grey} = insert x (fst ` set st)" "x \<notin> fst ` set st"
    and fr: "frames R {x. col x = Black} {x} st" and step: "R `` {x} \<subseteq> {x. col x = Black}"
    and B: "R `` {x. col x = Black} \<subseteq> {x. col x = Black}" and ac: "\<forall>x. col x = Black \<longrightarrow> (x, x) \<notin> R\<^sup>+"
    using assms unfolding dfs_inv_def by auto
  have b: "{y. (col(x := Black)) y = Black} = insert x {x. col x = Black}" by auto
  have "(x, x) \<notin> R\<^sup>+" using closed_insert_acyclic [OF B _ step] col by simp
  then have "\<forall>y. (col(x := Black)) y = Black \<longrightarrow> (y, y) \<notin> R\<^sup>+" using ac by auto
  moreover have "{y. (col(x := Black)) y = Grey} = fst ` set st" using gr by auto
  moreover have "distinct (map fst st)" using assms unfolding dfs_inv_def by simp
  moreover have "R `` insert x {x. col x = Black} \<subseteq> insert x {x. col x = Black}" using step B by auto
  ultimately show ?thesis
    unfolding dfs_inv_def b using frames_pop [OF fr] by blast
qed

lemma dfs_correct:
  assumes "dfs_inv (edge_rel adj) col stack" "dfs adj col stack = (found, col')"
  shows "if found then \<not> acyclic (edge_rel adj)
    else dfs_inv (edge_rel adj) col' [] \<and> (\<forall>x. col x \<noteq> White \<longrightarrow> col' x = Black)"
  using assms
proof (induction adj col stack rule: dfs.induct)
  case (1 adj col)
  then show ?case by (auto simp: dfs_inv_def) (metis colour.exhaust)
next
  case (2 adj col node stack)
  have "dfs adj (col(node := Black)) stack = (found, col')" using 2(3) by simp
  from 2(1) [OF dfs_inv_pop [OF 2(2)] this] show ?case by (simp split: if_splits)
next
  case (3 adj col node nxt its stack)
  let ?R = "edge_rel adj"
  note inv = 3(3) [unfolded dfs_inv_def]
  show ?case
  proof (cases "col nxt")
    case Grey
    then have found: "found" using 3(4) by simp
    have "nxt = node \<or> (nxt, node) \<in> ?R\<^sup>+"
      using inv Grey frames_path [of ?R "{x. col x = Black}" node stack nxt] by auto
    moreover have "(node, nxt) \<in> ?R" using inv by auto
    ultimately have "(node, node) \<in> ?R\<^sup>+" by (auto intro: trancl_into_trancl2)
    then show ?thesis using found by (auto simp: acyclic_def)
  next
    case White
    have "{x. col x = Grey} = fst ` set ((node, nxt # its) # stack)" using inv by blast
    then have "fst ` set ((node, its) # stack) = {x. col x = Grey}" by simp
    with White have "nxt \<notin> fst ` set ((node, its) # stack)" by simp
    moreover have "{x. (col(nxt := Grey)) x = Black} = {x. col x = Black}" using White by auto
    moreover have "{x. (col(nxt := Grey)) x = Grey} = insert nxt {x. col x = Grey}" by auto
    ultimately have "dfs_inv ?R (col(nxt := Grey)) ((nxt, succs adj nxt) # (node, its) # stack)"
      using inv unfolding dfs_inv_def by (auto simp: edge_rel_def)
    moreover have "dfs adj (col(nxt := Grey)) ((nxt, succs adj nxt) # (node, its) # stack) = (found, col')"
      using 3(4) White by simp
    ultimately have "if found then \<not> acyclic (edge_rel adj)
        else dfs_inv (edge_rel adj) col' [] \<and> (\<forall>x. (col(nxt := Grey)) x \<noteq> White \<longrightarrow> col' x = Black)"
      using 3(1) [OF White] by blast
    then show ?thesis by (cases found) auto
  next
    case Black
    then have "dfs_inv ?R col ((node, its) # stack)" using inv unfolding dfs_inv_def by auto
    from 3(2) [OF Black this] 3(4) Black show ?thesis by simp
  qed
qed

lemma from_roots_correct:
  assumes "dfs_inv (edge_rel adj) col []"
  shows "from_roots adj rs col \<Longrightarrow> \<not> acyclic (edge_rel adj)"
    and "\<not> from_roots adj rs col \<Longrightarrow> r \<in> set rs \<or> col r = Black \<Longrightarrow> (r, r) \<notin> (edge_rel adj)\<^sup>+"
  using assms
proof (induction adj rs col rule: from_roots.induct)
  case (1 adj col)
  { case 1 then show ?case by simp }
  { case 2 then show ?case by (auto simp: dfs_inv_def) }
next
  case (2 adj q rs col)
  obtain found col' where d: "dfs adj (col(q := Grey)) [(q, succs adj q)] = (found, col')" by force
  have start: "dfs_inv (edge_rel adj) (col(q := Grey)) [(q, succs adj q)]" if "col q = White" "dfs_inv (edge_rel adj) col []"
  proof -
    have "{x. (col(q := Grey)) x = Black} = {x. col x = Black}" "{x. (col(q := Grey)) x = Grey} = {q}"
      using that by (auto simp: dfs_inv_def)
    then show ?thesis using that unfolding dfs_inv_def by (auto simp: edge_rel_def)
  qed
  note dc = dfs_correct [OF start d]
  { case 1
    show ?case
    proof (cases "col q = White")
      case True
      show ?thesis
      proof (cases found)
        case False
        with True 1(1) d have "from_roots adj rs col'" by simp
        with 2(3) [OF _ d [symmetric]] False True dc [OF True 1(2)] show ?thesis by auto
      qed (use dc [OF True 1(2)] in simp)
    qed (use 1 2(1) in simp) }
  { case 2
    have bl: "col q = Black" if "col q \<noteq> White" using 2(3) that by (cases "col q") (auto simp: dfs_inv_def)
    show ?case
    proof (cases "col q = White")
      case True
      have f: "\<not> found" "\<not> from_roots adj rs col'" using True 2(1) d by (auto split: if_splits bool.splits)
      have "col' r = Black" if "r = q \<or> col r = Black" using dc [OF True 2(3)] f that by (auto split: if_splits)
      then have "r \<in> set rs \<or> col' r = Black" using 2(2) by auto
      then show ?thesis using "2.IH"(4) [OF _ d [symmetric]] f True dc [OF True 2(3)] by auto
    qed (use 2 "2.IH"(2) bl in auto) }
qed

lemma touch_keys [simp]: "fst ` set (touch k adj) = insert k (fst ` set adj)"
  by (auto simp: touch_def)

lemma edge_rel_touch [simp]: "edge_rel (touch k adj) = edge_rel adj"
proof -
  have "succs (touch k adj) x = succs adj x" for x
    using succs_outside [of k adj] by (auto simp: touch_def succs_def map_add_def split: option.splits)
  then show ?thesis by (simp add: edge_rel_def)
qed

lemma add_edge_keys [simp]: "fst ` set (add_edge e adj) = insert (fst e) (fst ` set adj)"
  by (induction e adj rule: add_edge.induct) auto

lemma build_adj_rel:
  fixes nodes :: "'a list"
  shows "edge_rel (build_adj nodes edges) = set edges"
proof -
  have "edge_rel (fold (\<lambda>e adj. touch (snd e) (add_edge e adj)) es adj) = set es \<union> edge_rel adj"
    for es and adj :: "('a \<times> 'a list) list"
    by (induction es arbitrary: adj) (auto simp: edge_rel_add)
  moreover have "edge_rel (map (\<lambda>n. (n, [])) ns) = {}" for ns :: "'a list"
    by (auto simp: edge_rel_def succs_def split: option.splits dest!: map_of_SomeD [OF sym] map_of_SomeD)
  ultimately show ?thesis by (simp add: build_adj_def)
qed

lemma edges_have_cycle_acyclic: "edges_have_cycle nodes edges = (\<not> acyclic (set edges))"
proof -
  let ?adj = "build_adj nodes edges"
  have inv: "dfs_inv (edge_rel ?adj) (\<lambda>_. White) []" by (simp add: dfs_inv_def)
  show ?thesis
  proof (cases "edges_have_cycle nodes edges")
    case True
    then show ?thesis
      using from_roots_correct(1) [OF inv] by (simp add: edges_have_cycle_def Let_def build_adj_rel)
  next
    case False
    then have no: "\<not> from_roots ?adj (map fst ?adj) (\<lambda>_. White)" by (simp add: edges_have_cycle_def Let_def)
    have "(x, x) \<notin> (set edges)\<^sup>+" for x
    proof (cases "x \<in> set (map fst ?adj)")
      case True
      then show ?thesis using from_roots_correct(2) [OF inv no] by (simp add: build_adj_rel)
    next
      case False
      then have "(x, y) \<notin> set edges" for y
        using succs_outside [of x ?adj] unfolding build_adj_rel [symmetric, of edges nodes] by (simp add: edge_rel_def)
      then show ?thesis by (meson tranclD)
    qed
    then show ?thesis using False by (simp add: acyclic_def)
  qed
qed

text \<open>C26: \<open>_edges_have_cycle\<close> answers true exactly when the edges contain a cycle, self-loops included,
  whatever nodes are listed and however often an edge is.\<close>

theorem cycle_check_exact: "edges_have_cycle nodes edges = (\<not> acyclic (set edges))"
  by (rule edges_have_cycle_acyclic)

section \<open>Attaching behind the guard\<close>

definition guarded_attach :: "(string \<Rightarrow> string + compiled) \<Rightarrow> string \<Rightarrow> string \<Rightarrow> string \<Rightarrow> int \<Rightarrow> db
    \<Rightarrow> (bundle_row \<times> task list) res \<times> db" where
  "guarded_attach compile i code created_by now s = (case bundle_get i s of
       None \<Rightarrow> (Inl (GraphArtifactError 404 (''bundle '' @ i @ '' not found'')), s)
     | Some b \<Rightarrow>
         if bundle_graph_code b \<noteq> None
         then (Inl (GraphArtifactError 409 (''bundle '' @ i @ '' already has graph_code attached'')), s)
         else case compile code of
             Inl msg \<Rightarrow> (Inl (GraphArtifactError 422 (''graph code rejected: '' @ msg)), s)
           | Inr g \<Rightarrow>
               if cg_nodes g = [] then (Inl (GraphArtifactError 422 ''graph contains no executable steps''), s)
               else if edges_have_cycle (cg_nodes g) (cg_edges g)
               then (Inl (GraphArtifactError 422 ''graph contains a dependency cycle (depends_on would loop)''), s)
               else attach_compiled i code created_by g now s)"

text \<open>A nonempty set of tasks in which each waits for another keeps all of them from being claimed.\<close>

definition deadlocked :: "task list \<Rightarrow> bool" where
  "deadlocked ts \<longleftrightarrow> ts \<noteq> [] \<and> (\<forall>t\<in>set ts. task_status t = TOpen \<and>
     (\<exists>u\<in>set ts. task_id u \<in> set (task_depends_on t)))"

lemma deadlocked_refused:
  assumes "deadlocked ts" "\<forall>t\<in>set ts. task_get (task_id t) s = Some t" "t \<in> set ts"
  shows "claim_task (task_id t) agent cb now s = (Inr None, s)"
proof -
  obtain u where u: "u \<in> set ts" "task_id u \<in> set (task_depends_on t)" "task_status u = TOpen"
    using assms(1,3) unfolding deadlocked_def by blast
  then have "\<not> deps_done (task_depends_on t) s"
    using assms(2) by (force simp: deps_done_def list_all_iff)
  then show ?thesis using assms(2,3) by (auto simp: claim_task_def)
qed

lemma cycle_predecessor:
  assumes "(y, y) \<in> R\<^sup>+"
  obtains x where "(x, y) \<in> R" "(x, x) \<in> R\<^sup>+"
proof -
  obtain x where x: "(y, x) \<in> R\<^sup>*" "(x, y) \<in> R" using assms by (meson tranclD2)
  then have "(x, x) \<in> R\<^sup>+" by (rule rtrancl_into_trancl2 [rotated])
  with x that show ?thesis by blast
qed

text \<open>C27: a cyclic graph that the route's service attaches leaves tasks that wait for each other: none of
  them can be claimed, in the state it leaves or in any other in which their rows are unchanged.  The
  guarded service rejects the same graph with 422 and writes nothing.\<close>

theorem cyclic_graph_attached:
  assumes "attach_graph_artifact compile i code by now s = (Inr (b, ts), s')"
    and g: "compile code = Inr g" and nodes: "distinct (cg_nodes g)" and keys: "distinct (task_keys s)"
    and edges: "set (cg_edges g) \<subseteq> set (cg_nodes g) \<times> set (cg_nodes g)" and cyc: "\<not> acyclic (set (cg_edges g))"
  shows "(\<exists>ds. set ds \<subseteq> set ts \<and> deadlocked ds \<and> (\<forall>t\<in>set ds. task_get (task_id t) s' = Some t) \<and>
      (\<forall>s2. (\<forall>t\<in>set ds. task_get (task_id t) s2 = Some t) \<longrightarrow>
        (\<forall>t\<in>set ds. \<forall>agent cb now2. claim_task (task_id t) agent cb now2 s2 = (Inr None, s2)))) \<and>
    guarded_attach compile i code by now s =
      (Inl (GraphArtifactError 422 ''graph contains a dependency cycle (depends_on would loop)''), s)"
proof -
  let ?R = "set (cg_edges g)"
  note spec = attach_graph_spec [OF assms(1-4)]
  define ds where "ds = filter (\<lambda>t. (the (task_node t), the (task_node t)) \<in> ?R\<^sup>+) ts"
  have deps: "task_status t = TOpen \<and> (\<exists>u\<in>set ds. task_id u \<in> set (task_depends_on t))" if t: "t \<in> set ds" for t
  proof -
    have "task_node t \<in> set (map task_node ts)" using t by (auto simp: ds_def)
    then obtain n where n: "task_node t = Some n" using spec by auto
    then have "(n, n) \<in> ?R\<^sup>+" using t by (simp add: ds_def)
    then obtain p where p: "(p, n) \<in> ?R" "(p, p) \<in> ?R\<^sup>+" by (rule cycle_predecessor)
    have "Some p \<in> set (map task_node ts)" using p(1) edges spec by auto
    then obtain u where u: "u \<in> set ts" "task_node u = Some p" by auto
    then have "node_task (cg_nodes g) ts p = Some (task_id u)" using node_task_zip nodes spec by blast
    then have "task_id u \<in> set (task_depends_on t)"
      using spec t n p(1) by (force simp: ds_def incoming_def)
    then show ?thesis using spec t u p(2) by (auto simp: ds_def)
  qed
  obtain x where x: "(x, x) \<in> ?R\<^sup>+" using cyc by (auto simp: acyclic_def)
  then obtain y where "(y, x) \<in> ?R" by (meson tranclD2)
  then have "Some x \<in> set (map task_node ts)" using edges spec by auto
  then obtain t where "t \<in> set ts" "Some x = task_node t" by auto
  then have "t \<in> set ds" using x by (simp add: ds_def flip: \<open>Some x = task_node t\<close>)
  then have "ds \<noteq> []" by auto
  then have dead: "deadlocked ds" using deps by (simp add: deadlocked_def)
  have sub: "set ds \<subseteq> set ts" by (auto simp: ds_def)
  have "distinct (map task_id (db_tasks s'))" "set ts \<subseteq> set (db_tasks s')"
    using conjunct1 [OF conjunct2 [OF conjunct2 [OF spec]]] conjunct1 [OF conjunct2 [OF spec]]
    unfolding task_keys_def by simp_all
  then have "task_get (task_id t) s' = Some t" if "t \<in> set ds" for t
    unfolding task_get_def using row_get_in_set sub that by (metis subsetD)
  then have rows: "\<forall>t\<in>set ds. task_get (task_id t) s' = Some t" ..
  with dead sub have one: "\<exists>ds. set ds \<subseteq> set ts \<and> deadlocked ds \<and> (\<forall>t\<in>set ds. task_get (task_id t) s' = Some t) \<and>
      (\<forall>s2. (\<forall>t\<in>set ds. task_get (task_id t) s2 = Some t) \<longrightarrow>
        (\<forall>t\<in>set ds. \<forall>agent cb now2. claim_task (task_id t) agent cb now2 s2 = (Inr None, s2)))"
    using deadlocked_refused [OF dead] by (intro exI [of _ ds] conjI) auto
  have two: "guarded_attach compile i code by now s =
      (Inl (GraphArtifactError 422 ''graph contains a dependency cycle (depends_on would loop)''), s)"
    using assms(1) g cyc
    by (auto simp: guarded_attach_def attach_graph_artifact_def attach_compiled_def edges_have_cycle_acyclic
        split: option.splits if_splits)
  show ?thesis using one two by (rule conjI)
qed

definition looped_graph :: compiled where
  "looped_graph = \<lparr>cg_nodes = [''n'', ''m''], cg_edges = [(''n'', ''m''), (''m'', ''n'')], cg_mermaid = ''g''\<rparr>"

lemma cyclic_graph_attached_witness:
  "\<exists>b ts s' ds. attach_graph_artifact (\<lambda>_. Inr looped_graph) ''b'' ''code'' ''orch'' 4 sample_db = (Inr (b, ts), s') \<and>
     set ds \<subseteq> set ts \<and> deadlocked ds"
proof -
  have "\<not> isl (fst (attach_graph_artifact (\<lambda>_. Inr looped_graph) ''b'' ''code'' ''orch'' 4 sample_db))"
    by (simp add: attach_graph_artifact_def attach_compiled_def looped_graph_def sample_db_def empty_db_def
        plain_bundle_def fresh_task_def draw_def task_create_def task_get_def bundle_get_def inserted_task_def
        node_task_def incoming_def task_update_plain update_simps task_rows.get_update_key rows_update_def
        apply_update_def bundle_update_def Let_def)
  then obtain b ts s' where a: "attach_graph_artifact (\<lambda>_. Inr looped_graph) ''b'' ''code'' ''orch'' 4 sample_db = (Inr (b, ts), s')"
    by (cases "attach_graph_artifact (\<lambda>_. Inr looped_graph) ''b'' ''code'' ''orch'' 4 sample_db";
        cases "fst (attach_graph_artifact (\<lambda>_. Inr looped_graph) ''b'' ''code'' ''orch'' 4 sample_db)") auto
  have d: "distinct (cg_nodes looped_graph)" "set (cg_edges looped_graph) \<subseteq> set (cg_nodes looped_graph) \<times> set (cg_nodes looped_graph)"
    by (simp_all add: looped_graph_def)
  have "edges_have_cycle (cg_nodes looped_graph) (cg_edges looped_graph)"
    by (simp add: looped_graph_def edges_have_cycle_def build_adj_def touch_def succs_def)
  then have "\<not> acyclic (set (cg_edges looped_graph))" using edges_have_cycle_acyclic by blast
  from cyclic_graph_attached [OF a HOL.refl d(1) sample_get(4) d(2) this] a show ?thesis by blast
qed

end
