(* ===== verification/Sandboxes.thy ===== *)
theory Sandboxes
  imports Bundle_Service
begin

text \<open>
  Sandboxes (\<^verbatim>\<open>repositories/sandbox_repo.py\<close>, \<^verbatim>\<open>services/sandbox_service.py\<close>,
  \<^verbatim>\<open>controllers/sandbox_sweeper.py\<close>): the rows, provisioning for a task or a bundle, recovery of a bundle
  whose sandbox died, and the sweep of idle ones.  The e2b orchestrator is outside the repository: what its
  \<open>create_sandbox\<close> answers is the argument \<open>e2b\<close>; the failure of its \<open>terminate\<close> is swallowed, so it leaves
  no trace.  A recovery is also given as steps, cut where the code awaits the orchestrator, so that two of
  them can interleave.
\<close>

section \<open>The sandboxes table\<close>

definition sandbox_get :: "string \<Rightarrow> db \<Rightarrow> sandbox option" where
  "sandbox_get i s = row_get sb_id i (db_sandboxes s)"

definition sandbox_create :: "sandbox \<Rightarrow> db \<Rightarrow> unit res \<times> db" where
  "sandbox_create sb s =
     (if sandbox_get (sb_id sb) s \<noteq> None then (Inl IntegrityError, s)
      else (Inr (), s\<lparr>db_sandboxes := db_sandboxes s @ [sb]\<rparr>))"

datatype sandbox_set = Update_status string int | Mark_event int

fun sandbox_apply :: "sandbox_set \<Rightarrow> sandbox \<Rightarrow> sandbox" where
  "sandbox_apply (Update_status st now) sb = sb\<lparr>sb_status := st, sb_updated_at := now,
     sb_terminated_at := (if st = ''terminated'' then Some now else sb_terminated_at sb)\<rparr>"
| "sandbox_apply (Mark_event now) sb = sb\<lparr>sb_last_event := Some now, sb_updated_at := now\<rparr>"

interpretation sandbox_rows: keyed_table sb_id sandbox_apply
proof
  show "sb_id (sandbox_apply u r) = sb_id r" for u r by (cases u) simp_all
qed

definition sandbox_update :: "string \<Rightarrow> sandbox_set \<Rightarrow> db \<Rightarrow> db" where
  "sandbox_update i u s =
     s\<lparr>db_sandboxes := rows_update (\<lambda>r. sb_id r = i) (sandbox_apply u) (db_sandboxes s)\<rparr>"

definition sweepable :: "int \<Rightarrow> int \<Rightarrow> int \<Rightarrow> sandbox \<Rightarrow> bool" where
  "sweepable idle max_age now sb \<longleftrightarrow> sb_status sb \<in> {''ready'', ''running'', ''provisioning''} \<and>
     ((case sb_last_event sb of None \<Rightarrow> False | Some t \<Rightarrow> t < now - idle) \<or> sb_created_at sb < now - max_age)"

definition list_idle_or_expired :: "int \<Rightarrow> int \<Rightarrow> int \<Rightarrow> db \<Rightarrow> sandbox list" where
  "list_idle_or_expired idle max_age now s = filter (sweepable idle max_age now) (db_sandboxes s)"

definition sandboxes_by_task :: "string \<Rightarrow> db \<Rightarrow> sandbox list" where
  "sandboxes_by_task t s = filter (\<lambda>r. sb_task r = Some t) (db_sandboxes s)"

section \<open>The service\<close>

definition ready_sandbox :: "string \<Rightarrow> string \<Rightarrow> string option \<Rightarrow> string \<Rightarrow> string \<Rightarrow> string \<Rightarrow> int \<Rightarrow> sandbox" where
  "ready_sandbox i t b owner template e2b_id now =
     \<lparr>sb_id = i, sb_task = Some t, sb_bundle = b, sb_owner = owner, sb_e2b = e2b_id, sb_template = template,
      sb_status = ''ready'', sb_created_at = now, sb_updated_at = now, sb_terminated_at = None,
      sb_last_event = Some now\<rparr>"

definition provision :: "string \<Rightarrow> string option \<Rightarrow> string \<Rightarrow> string \<Rightarrow> string res \<Rightarrow> int \<Rightarrow> db \<Rightarrow> sandbox res \<times> db" where
  "provision t b owner template e2b now s = (case e2b of
       Inl e \<Rightarrow> (Inl e, s)
     | Inr x \<Rightarrow>
         let (i, s1) = draw ''sbx_'' s; sb = ready_sandbox i t b owner template x now
         in bind_st (sandbox_create sb s1) (\<lambda>_ s2. (Inr sb, s2)))"

definition create_for_task :: "string \<Rightarrow> string \<Rightarrow> string \<Rightarrow> string res \<Rightarrow> int \<Rightarrow> db \<Rightarrow> sandbox res \<times> db" where
  "create_for_task t = provision t None"

text \<open>The bundle's id stands in the \<open>task_id\<close> column of a row that belongs to a whole bundle.\<close>

definition create_for_bundle :: "string \<Rightarrow> string \<Rightarrow> string \<Rightarrow> string res \<Rightarrow> int \<Rightarrow> db \<Rightarrow> sandbox res \<times> db" where
  "create_for_bundle b = provision b (Some b)"

definition terminate_sandbox :: "string \<Rightarrow> int \<Rightarrow> db \<Rightarrow> db" where
  "terminate_sandbox i now s = (case sandbox_get i s of
       None \<Rightarrow> s
     | Some sb \<Rightarrow> if sb_status sb = ''terminated'' then s else sandbox_update i (Update_status ''terminated'' now) s)"

definition template_for_bundle :: "string \<Rightarrow> db \<Rightarrow> string option" where
  "template_for_bundle b s = (case sort_key (\<lambda>r. - sb_created_at r) (filter (\<lambda>r. sb_bundle r = Some b) (db_sandboxes s)) of
       [] \<Rightarrow> None | r # _ \<Rightarrow> Some (sb_template r))"

text \<open>The fence: somebody has already put another sandbox in place of the one the caller saw die.\<close>

definition replacement :: "bundle_row \<Rightarrow> string option \<Rightarrow> db \<Rightarrow> sandbox option" where
  "replacement bd dead s = (case (dead, bundle_sandbox bd) of
       (Some d, Some c) \<Rightarrow> if c = d then None else (case sandbox_get c s of
           Some sb \<Rightarrow> if sb_status sb = ''ready'' then Some sb else None
         | None \<Rightarrow> None)
     | _ \<Rightarrow> None)"

definition doomed :: "bundle_row \<Rightarrow> string option \<Rightarrow> string option" where
  "doomed bd dead = (if opt_truthy dead then dead else bundle_sandbox bd)"

definition terminate_opt :: "string option \<Rightarrow> int \<Rightarrow> db \<Rightarrow> db" where
  "terminate_opt x now s = (case x of None \<Rightarrow> s | Some i \<Rightarrow> terminate_sandbox i now s)"

definition create_fresh :: "string \<Rightarrow> bundle_row \<Rightarrow> string res \<Rightarrow> int \<Rightarrow> db \<Rightarrow> sandbox res \<times> db" where
  "create_fresh b bd e2b now s =
     (let template = template_for_bundle b s
      in create_for_bundle b (case bundle_owner bd of None \<Rightarrow> [] | Some x \<Rightarrow> x)
           (if opt_truthy template then the template else ''base'') e2b now s)"

definition set_sandbox :: "string \<Rightarrow> string \<Rightarrow> db \<Rightarrow> db" where
  "set_sandbox b i s = snd (bundle_update b (Set_sandbox i) s)"

definition reprovision_for_bundle :: "string \<Rightarrow> string option \<Rightarrow> string res \<Rightarrow> int \<Rightarrow> db \<Rightarrow> sandbox res \<times> db" where
  "reprovision_for_bundle b dead e2b now s = (case bundle_get b s of
       None \<Rightarrow> (Inl (ValueError [Lit ''reprovision: bundle '', Lit b, Lit '' not found'']), s)
     | Some bd \<Rightarrow> (case replacement bd dead s of
           Some sb \<Rightarrow> (Inr sb, s)
         | None \<Rightarrow> bind_st (create_fresh b bd e2b now (terminate_opt (doomed bd dead) now s))
             (\<lambda>fresh s'. (Inr fresh, set_sandbox b (sb_id fresh) s'))))"

definition ensure_sandbox_for_bundle :: "string \<Rightarrow> string res \<Rightarrow> int \<Rightarrow> db \<Rightarrow> sandbox res \<times> db" where
  "ensure_sandbox_for_bundle b e2b now s = (case bundle_get b s of
       None \<Rightarrow> (Inl (ValueError [Lit ''ensure: bundle '', Lit b, Lit '' not found'']), s)
     | Some bd \<Rightarrow>
         (case if opt_truthy (bundle_sandbox bd) then sandbox_get (the (bundle_sandbox bd)) s else None of
           Some sb \<Rightarrow> if sb_status sb = ''ready'' then (Inr sb, s)
             else reprovision_for_bundle b (bundle_sandbox bd) e2b now s
         | None \<Rightarrow> reprovision_for_bundle b (bundle_sandbox bd) e2b now s))"

text \<open>One tick of the sweeper, which counts what it terminated.\<close>

definition sweep_tick :: "int \<Rightarrow> int \<Rightarrow> int \<Rightarrow> db \<Rightarrow> nat \<times> db" where
  "sweep_tick idle max_age now s =
     (let stale = list_idle_or_expired idle max_age now s
      in (length stale, fold (\<lambda>sb. terminate_sandbox (sb_id sb) now) stale s))"

section \<open>Recoveries that interleave\<close>

datatype recovery =
    Started "string option"
  | Doomed bundle_row "string option"
  | Provisioning bundle_row
  | Swapping sandbox
  | Recovered "sandbox res"

definition recovery_step :: "string \<Rightarrow> string res \<Rightarrow> int \<Rightarrow> recovery \<times> db \<Rightarrow> recovery \<times> db" where
  "recovery_step b e2b now p = (case p of
       (Started dead, s) \<Rightarrow> (case bundle_get b s of
           None \<Rightarrow> (Recovered (Inl (ValueError [Lit ''reprovision: bundle '', Lit b, Lit '' not found''])), s)
         | Some bd \<Rightarrow> (case replacement bd dead s of
               Some sb \<Rightarrow> (Recovered (Inr sb), s)
             | None \<Rightarrow> (Doomed bd (doomed bd dead), s)))
     | (Doomed bd x, s) \<Rightarrow> (Provisioning bd, terminate_opt x now s)
     | (Provisioning bd, s) \<Rightarrow> (case create_fresh b bd e2b now s of
           (Inl e, s') \<Rightarrow> (Recovered (Inl e), s') | (Inr sb, s') \<Rightarrow> (Swapping sb, s'))
     | (Swapping sb, s) \<Rightarrow> (Recovered (Inr sb), set_sandbox b (sb_id sb) s)
     | (Recovered r, s) \<Rightarrow> (Recovered r, s))"

text \<open>Two recoveries of a bundle, and a schedule that says which of them moves next.\<close>

fun race :: "string \<Rightarrow> string res \<Rightarrow> string res \<Rightarrow> int \<Rightarrow> bool list \<Rightarrow> recovery \<times> recovery \<times> db \<Rightarrow> recovery \<times> recovery \<times> db" where
  "race b e1 e2 now [] p = p"
| "race b e1 e2 now (first # sched) (r1, r2, s) =
     (if first then let (r1', s') = recovery_step b e1 now (r1, s) in race b e1 e2 now sched (r1', r2, s')
      else let (r2', s') = recovery_step b e2 now (r2, s) in race b e1 e2 now sched (r1, r2', s'))"

lemma recovery_steps:
  "(recovery_step b e2b now ^^ 4) (Started dead, s) =
     (let (r, s') = reprovision_for_bundle b dead e2b now s in (Recovered r, s'))"
  by (auto simp: numeral_eq_Suc recovery_step_def reprovision_for_bundle_def Let_def bind_st_def
      split: option.splits prod.splits sum.splits)

section \<open>One ready sandbox per bundle\<close>

lemma bundle_get_sandboxes [simp]: "bundle_get b (s\<lparr>db_sandboxes := rows\<rparr>) = bundle_get b s"
  by (simp add: bundle_get_def)

lemma sandbox_update_simps [simp]: "bundle_get b (sandbox_update i u s) = bundle_get b s"
  "db_sandboxes (set_sandbox b i s) = db_sandboxes s" "sandbox_get j (set_sandbox b i s) = sandbox_get j s"
  by (simp_all add: sandbox_update_def set_sandbox_def bundle_update_def Let_def sandbox_get_def)

lemma sandbox_get_update:
  "sandbox_get j (sandbox_update i u s) = (if j = i then map_option (sandbox_apply u) (sandbox_get j s) else sandbox_get j s)"
  by (simp add: sandbox_get_def sandbox_update_def sandbox_rows.get_update_key)

lemma set_sandbox_get:
  "bundle_get c (set_sandbox b i s) = (if c = b then map_option (bundle_apply (Set_sandbox i)) (bundle_get c s) else bundle_get c s)"
  by (simp add: set_sandbox_def bundle_get_update)

lemma terminate_simps [simp]: "bundle_get b (terminate_sandbox i now s) = bundle_get b s"
  "bundle_get b (terminate_opt x now s) = bundle_get b s"
  "db_ids (terminate_opt x now s) = db_ids s" "db_drawn (terminate_opt x now s) = db_drawn s"
  by (simp_all add: terminate_sandbox_def terminate_opt_def sandbox_update_def split: option.split)

lemma terminate_get:
  "sandbox_get j (terminate_sandbox i now s) =
     (if j = i then map_option (\<lambda>r. if sb_status r = ''terminated'' then r else sandbox_apply (Update_status ''terminated'' now) r)
        (sandbox_get j s) else sandbox_get j s)"
  by (auto simp: terminate_sandbox_def sandbox_get_update simp del: sandbox_apply.simps split: option.split)

text \<open>The rows a bundle can use: ready, and the bundle points to them.\<close>

definition placed :: "(string \<Rightarrow> bundle_row option) \<Rightarrow> sandbox \<Rightarrow> bool" where
  "placed get r = (case sb_bundle r of None \<Rightarrow> True | Some b \<Rightarrow> sb_status r = ''ready'' \<longrightarrow>
     (case get b of None \<Rightarrow> False | Some bd \<Rightarrow> bundle_sandbox bd = Some (sb_id r)))"

definition pools_ok :: "db \<Rightarrow> bool" where
  "pools_ok s \<longleftrightarrow> distinct (map sb_id (db_sandboxes s)) \<and> list_all (placed (\<lambda>b. bundle_get b s)) (db_sandboxes s)"

lemma placed_not_ready: "sb_bundle r = None \<or> sb_status r \<noteq> ''ready'' \<Longrightarrow> placed get r"
  by (auto simp: placed_def split: option.split)

lemma placed_point: "placed get r \<Longrightarrow> sb_bundle r = Some b \<Longrightarrow> sb_status r = ''ready'' \<Longrightarrow>
    \<exists>bd. get b = Some bd \<and> bundle_sandbox bd = Some (sb_id r)"
  by (auto simp: placed_def split: option.splits)

lemma placed_apply: "placed get r \<Longrightarrow> placed get (sandbox_apply (Update_status ''terminated'' now) r)"
  "placed get r \<Longrightarrow> placed get (sandbox_apply (Mark_event now) r)"
  by (auto simp: placed_def split: option.splits)

lemma terminate_rows:
  assumes "distinct (map sb_id (db_sandboxes s))"
  shows "db_sandboxes (terminate_sandbox i now s) = rows_update (\<lambda>r. sb_id r = i \<and> sb_status r \<noteq> ''terminated'')
     (sandbox_apply (Update_status ''terminated'' now)) (db_sandboxes s)"
proof (cases "sandbox_get i s")
  case None
  then have "i \<notin> sb_id ` set (db_sandboxes s)" by (simp add: sandbox_get_def row_get_None)
  then have "rows_update (\<lambda>r. sb_id r = i \<and> sb_status r \<noteq> ''terminated'')
      (sandbox_apply (Update_status ''terminated'' now)) (db_sandboxes s) = db_sandboxes s"
    by (intro rows_update_none) auto
  then show ?thesis using None by (simp add: terminate_sandbox_def)
next
  case (Some sb)
  have only: "r = sb" if "r \<in> set (db_sandboxes s)" "sb_id r = i" for r
    using row_get_in_set [OF assms that(1)] that(2) Some by (simp add: sandbox_get_def)
  show ?thesis
  proof (cases "sb_status sb = ''terminated''")
    case True
    then have "rows_update (\<lambda>r. sb_id r = i \<and> sb_status r \<noteq> ''terminated'')
        (sandbox_apply (Update_status ''terminated'' now)) (db_sandboxes s) = db_sandboxes s"
      using only by (intro rows_update_none) auto
    then show ?thesis using True Some by (simp add: terminate_sandbox_def)
  next
    case False
    then have "rows_update (\<lambda>r. sb_id r = i) f (db_sandboxes s) =
        rows_update (\<lambda>r. sb_id r = i \<and> sb_status r \<noteq> ''terminated'') f (db_sandboxes s)" for f
      using only unfolding rows_update_def by (intro map_cong) auto
    then show ?thesis using False Some by (simp add: terminate_sandbox_def sandbox_update_def)
  qed
qed

lemma pools_rows:
  assumes "pools_ok s" "\<And>b. bundle_get b s' = bundle_get b s"
    and "db_sandboxes s' = rows_update P (sandbox_apply u) (db_sandboxes s)"
    and "\<And>r. placed (\<lambda>b. bundle_get b s) r \<Longrightarrow> placed (\<lambda>b. bundle_get b s) (sandbox_apply u r)"
  shows "pools_ok s'"
  using assms(1,4) unfolding pools_ok_def assms(2,3) sandbox_rows.distinct_update list_all_iff set_rows_update by auto

lemma terminate_pools:
  assumes "pools_ok s"
  shows "pools_ok (terminate_sandbox i now s)"
proof (rule pools_rows [OF assms _ terminate_rows])
  show "distinct (map sb_id (db_sandboxes s))" using assms by (simp add: pools_ok_def)
qed (rule terminate_simps placed_apply, assumption?)+

lemma mark_pools:
  assumes "pools_ok s"
  shows "pools_ok (sandbox_update i (Mark_event now) s)"
proof (rule pools_rows [OF assms])
  show "db_sandboxes (sandbox_update i (Mark_event now) s) =
      rows_update (\<lambda>r. sb_id r = i) (sandbox_apply (Mark_event now)) (db_sandboxes s)"
    by (simp add: sandbox_update_def)
qed (simp, rule placed_apply)

text \<open>After its sandbox has been terminated, no row of the bundle is ready.\<close>

lemma doomed_pools:
  assumes "pools_ok s" "bundle_get b s = Some bd" "replacement bd dead s = None"
  shows "pools_ok (terminate_opt (doomed bd dead) now s)"
    "\<forall>r\<in>set (db_sandboxes (terminate_opt (doomed bd dead) now s)). sb_bundle r = Some b \<longrightarrow> sb_status r \<noteq> ''ready''"
proof -
  show "pools_ok (terminate_opt (doomed bd dead) now s)"
    using assms(1) terminate_pools by (simp add: terminate_opt_def split: option.split)
  have d: "distinct (map sb_id (db_sandboxes s))" using assms(1) by (simp add: pools_ok_def)
  have point: "bundle_sandbox bd = Some (sb_id r)" "sandbox_get (sb_id r) s = Some r"
    if "r \<in> set (db_sandboxes s)" "sb_bundle r = Some b" "sb_status r = ''ready''" for r
    using assms(1,2) that row_get_in_set [OF d that(1)] placed_point [of "\<lambda>b. bundle_get b s" r b]
    by (auto simp: pools_ok_def list_all_iff sandbox_get_def)
  have named: "doomed bd dead = Some (sb_id r)"
    if "r \<in> set (db_sandboxes s)" "sb_bundle r = Some b" "sb_status r = ''ready''" for r
    using point [OF that] assms(3) that(3) by (auto simp: replacement_def doomed_def opt_truthy_def split: option.splits if_splits)
  show "\<forall>r\<in>set (db_sandboxes (terminate_opt (doomed bd dead) now s)). sb_bundle r = Some b \<longrightarrow> sb_status r \<noteq> ''ready''"
  proof (cases "doomed bd dead")
    case None
    then show ?thesis using named by (auto simp: terminate_opt_def)
  next
    case (Some i)
    then show ?thesis using named by (auto simp: terminate_opt_def terminate_rows [OF d] rows_update_def)
  qed
qed

lemma provision_ok:
  assumes "create_fresh b bd e2b now s = (Inr sb, s')"
  shows "db_sandboxes s' = db_sandboxes s @ [sb]" "sb_bundle sb = Some b" "sb_status sb = ''ready''"
    "sandbox_get (sb_id sb) s = None" "bundle_get c s' = bundle_get c s" "sb_id sb = ''sbx_'' @ db_ids s (db_drawn s)"
  using assms by (auto simp: create_fresh_def create_for_bundle_def provision_def draw_def sandbox_create_def ready_sandbox_def
      Let_def sandbox_get_def bundle_get_def split: sum.splits if_splits)

lemma provision_succeeds:
  assumes "''sbx_'' @ db_ids s (db_drawn s) \<notin> sb_id ` set (db_sandboxes s)"
  shows "\<exists>sb s'. create_fresh b bd (Inr x) now s = (Inr sb, s') \<and> db_ids s' = db_ids s \<and> db_drawn s' = Suc (db_drawn s)"
  using assms by (simp add: create_fresh_def create_for_bundle_def provision_def draw_def sandbox_create_def sandbox_get_def
      ready_sandbox_def row_get_None Let_def)

lemma provision_err:
  assumes "create_fresh b bd e2b now s = (Inl e, s')"
  shows "db_sandboxes s' = db_sandboxes s" "bundle_get c s' = bundle_get c s"
  using assms by (auto simp: create_fresh_def create_for_bundle_def provision_def draw_def sandbox_create_def
      Let_def sandbox_get_def bundle_get_def split: sum.splits if_splits)

lemma set_sandbox_pools:
  assumes ok: "pools_ok s" and quiet: "\<forall>r\<in>set (db_sandboxes s). sb_bundle r = Some b \<longrightarrow> sb_status r \<noteq> ''ready''"
    and made: "create_fresh b bd e2b now s = (Inr sb, s1)" and b: "bundle_get b s = Some bd0"
  shows "pools_ok (set_sandbox b (sb_id sb) s1)"
proof -
  note new = provision_ok [OF made]
  have "placed (\<lambda>c. bundle_get c (set_sandbox b (sb_id sb) s1)) sb"
    using b by (simp add: placed_def set_sandbox_get new)
  moreover have "placed (\<lambda>c. bundle_get c (set_sandbox b (sb_id sb) s1)) r" if r: "r \<in> set (db_sandboxes s)" for r
  proof (cases "sb_bundle r = Some b")
    case True
    then show ?thesis using quiet r by (intro placed_not_ready) auto
  next
    case False
    then have "placed (\<lambda>c. bundle_get c (set_sandbox b (sb_id sb) s1)) r = placed (\<lambda>c. bundle_get c s) r"
      by (auto simp: placed_def set_sandbox_get new split: option.splits)
    then show ?thesis using ok r by (simp add: pools_ok_def list_all_iff)
  qed
  moreover have "sb_id sb \<notin> sb_id ` set (db_sandboxes s)" using new(4) by (simp add: sandbox_get_def row_get_None)
  ultimately show ?thesis using ok by (auto simp: pools_ok_def list_all_iff new)
qed

lemma pools_cong: "db_sandboxes s' = db_sandboxes s \<Longrightarrow> (\<And>b. bundle_get b s' = bundle_get b s) \<Longrightarrow> pools_ok s' = pools_ok s"
  by (simp add: pools_ok_def)

lemma reprovision_cases:
  assumes "reprovision_for_bundle b dead e2b now s = (res, s')"
  obtains "bundle_get b s = None" "\<exists>m. res = Inl (ValueError m)" "s' = s"
  | bd sb where "bundle_get b s = Some bd" "replacement bd dead s = Some sb" "res = Inr sb" "s' = s"
  | bd e where "bundle_get b s = Some bd" "replacement bd dead s = None" "res = Inl e"
      "create_fresh b bd e2b now (terminate_opt (doomed bd dead) now s) = (Inl e, s')"
  | bd sb s1 where "bundle_get b s = Some bd" "replacement bd dead s = None" "res = Inr sb"
      "create_fresh b bd e2b now (terminate_opt (doomed bd dead) now s) = (Inr sb, s1)" "s' = set_sandbox b (sb_id sb) s1"
proof (cases "bundle_get b s")
  case None
  with assms show ?thesis by (intro that(1)) (auto simp: reprovision_for_bundle_def)
next
  case (Some bd)
  note found = this
  show ?thesis
  proof (cases "replacement bd dead s")
    case None
    obtain made s1 where made: "create_fresh b bd e2b now (terminate_opt (doomed bd dead) now s) = (made, s1)" by fastforce
    have run: "bind_st (made, s1) (\<lambda>fresh s'. (Inr fresh, set_sandbox b (sb_id fresh) s')) = (res, s')"
      using assms by (simp only: reprovision_for_bundle_def found None made option.case)
    show ?thesis
    proof (cases made)
      case (Inl e)
      then show ?thesis using that(3) [OF found None, of e] run made by simp
    next
      case (Inr sb)
      then show ?thesis using that(4) [OF found None, of sb s1] run made by simp
    qed
  next
    case (Some sb)
    with assms found show ?thesis by (intro that(2) [OF found Some]) (auto simp: reprovision_for_bundle_def)
  qed
qed

lemma reprovision_pools:
  assumes ok: "pools_ok s" and run: "reprovision_for_bundle b dead e2b now s = (res, s')"
  shows "pools_ok s'"
  using run
proof (cases rule: reprovision_cases)
  case (3 bd e)
  then show ?thesis using doomed_pools(1) [OF ok 3(1,2), of now] pools_cong [OF provision_err [OF 3(4)]] by simp
next
  case (4 bd sb s1)
  have "bundle_get b (terminate_opt (doomed bd dead) now s) = Some bd" using 4(1) by simp
  from set_sandbox_pools [OF doomed_pools [OF ok 4(1,2)] 4(4) this] show ?thesis by (simp add: 4(5))
qed (use ok in simp_all)

lemma ensure_cases:
  assumes "ensure_sandbox_for_bundle b e2b now s = (res, s')"
  obtains "bundle_get b s = None" "\<exists>m. res = Inl (ValueError m)" "s' = s"
  | bd sb where "bundle_get b s = Some bd" "bundle_sandbox bd = Some (sb_id sb)" "sb_id sb \<noteq> []"
      "sandbox_get (sb_id sb) s = Some sb" "sb_status sb = ''ready''" "res = Inr sb" "s' = s"
  | bd where "bundle_get b s = Some bd" "reprovision_for_bundle b (bundle_sandbox bd) e2b now s = (res, s')"
proof (cases "bundle_get b s")
  case None
  with assms show ?thesis by (intro that(1)) (auto simp: ensure_sandbox_for_bundle_def)
next
  case (Some bd)
  let ?current = "if opt_truthy (bundle_sandbox bd) then sandbox_get (the (bundle_sandbox bd)) s else None"
  show ?thesis
  proof (cases "\<exists>sb. ?current = Some sb \<and> sb_status sb = ''ready''")
    case True
    then obtain sb where sb: "?current = Some sb" "sb_status sb = ''ready''" by blast
    then obtain i where i: "bundle_sandbox bd = Some i" "i \<noteq> []" "sandbox_get i s = Some sb"
      by (cases "bundle_sandbox bd") (simp_all add: opt_truthy_def split: if_splits)
    then have "sb_id sb = i" using row_get_Some [of sb_id i "db_sandboxes s" sb] by (simp add: sandbox_get_def)
    with i sb show ?thesis using that(2) [of bd sb] assms Some by (simp add: ensure_sandbox_for_bundle_def)
  next
    case False
    have "reprovision_for_bundle b (bundle_sandbox bd) e2b now s = (res, s')"
      using False assms Some unfolding ensure_sandbox_for_bundle_def by (cases ?current) (simp_all del: if_split)
    then show ?thesis using that(3) [of bd] Some by blast
  qed
qed

lemma ensure_pools: "pools_ok s \<Longrightarrow> ensure_sandbox_for_bundle b e2b now s = (res, s') \<Longrightarrow> pools_ok s'"
  by (erule ensure_cases) (auto intro: reprovision_pools)

lemma calls_pools: "pools_ok s \<Longrightarrow> pools_ok (snd (ensure_sandbox_for_bundle b e2b now s))"
  "pools_ok s \<Longrightarrow> pools_ok (snd (reprovision_for_bundle b dead e2b now s))"
  using ensure_pools reprovision_pools by (metis prod.collapse)+

lemma sweep_pools: "pools_ok s \<Longrightarrow> pools_ok (fold (\<lambda>sb. terminate_sandbox (sb_id sb) now) sbs s)"
  by (induction sbs arbitrary: s) (auto intro: terminate_pools)

text \<open>The calls that touch a bundle's sandbox, each run to its end before the next one starts.\<close>

datatype sandbox_call =
    Ensure string "string res"
  | Reprovision string "string option" "string res"
  | Task_sandbox string string string "string res"
  | Terminate string
  | Mark string
  | Sweep int int

fun run_call :: "sandbox_call \<Rightarrow> int \<Rightarrow> db \<Rightarrow> db" where
  "run_call (Ensure b e2b) now s = snd (ensure_sandbox_for_bundle b e2b now s)"
| "run_call (Reprovision b dead e2b) now s = snd (reprovision_for_bundle b dead e2b now s)"
| "run_call (Task_sandbox t owner template e2b) now s = snd (create_for_task t owner template e2b now s)"
| "run_call (Terminate i) now s = terminate_sandbox i now s"
| "run_call (Mark i) now s = sandbox_update i (Mark_event now) s"
| "run_call (Sweep idle max_age) now s = snd (sweep_tick idle max_age now s)"

lemma task_sandbox_pools: "pools_ok s \<Longrightarrow> pools_ok (snd (create_for_task t owner template e2b now s))"
  by (auto simp: create_for_task_def provision_def draw_def sandbox_create_def ready_sandbox_def pools_ok_def Let_def
      placed_not_ready sandbox_get_def row_get_None bundle_get_def split: sum.split)

text \<open>C21: as long as the calls that provision, recover, terminate, mark and sweep sandboxes run one after the
  other, a bundle never has two ready sandboxes: its only ready row is the one it points to, whatever ids the
  callers saw die and whatever e2b answers.\<close>

theorem one_ready_sandbox:
  assumes "pools_ok s"
  shows "pools_ok (fold (\<lambda>(c, now). run_call c now) calls s)"
  using assms
proof (induction calls arbitrary: s)
  case (Cons call calls)
  obtain c now where call: "call = (c, now)" by fastforce
  have "pools_ok (run_call c now s)"
    using Cons.prems calls_pools task_sandbox_pools terminate_pools mark_pools sweep_pools
    by (cases c) (simp_all add: sweep_tick_def Let_def)
  then show ?case using Cons.IH call by simp
qed simp

definition sandbox_db :: "sandbox list \<Rightarrow> db" where
  "sandbox_db sbs = \<lparr>db_accounts = [], db_wallets = [], db_cookbooks = [], db_shares = [], db_grants = [],
     db_bundles = [(fresh_bundle ''b'' ''c'' JNull ''p'' ''op'' 0)\<lparr>bundle_sandbox := Some ''dead''\<rparr>], db_tasks = [],
     db_events = [], db_tapes = [], db_agents = [], db_links = [], db_reviews = [], db_usage = [], db_runtimes = [],
     db_sandboxes = sbs, db_cards = [], db_mail = [], db_elicits = [],
     db_watch = watch_init, db_ids = \<lambda>n. replicate n CHR ''x'', db_drawn = 0\<rparr>"

definition dead_sandbox :: sandbox where
  "dead_sandbox = ready_sandbox ''dead'' ''b'' (Some ''b'') ''op'' ''python'' ''e0'' 0"

lemma dead_pools: "pools_ok (sandbox_db [dead_sandbox])"
  by (simp add: pools_ok_def placed_def sandbox_db_def dead_sandbox_def ready_sandbox_def bundle_get_def fresh_bundle_def)

lemma one_ready_sandbox_witness:
  "pools_ok (sandbox_db [dead_sandbox]) \<and>
   pools_ok (fold (\<lambda>(c, now). run_call c now) [(Terminate ''dead'', 1), (Ensure ''b'' (Inr ''e1''), 2)] (sandbox_db [dead_sandbox]))"
  using one_ready_sandbox [OF dead_pools] dead_pools by blast

section \<open>Asking again gives the same sandbox\<close>

lemma ensure_ready:
  assumes "bundle_get b s = Some bd" "bundle_sandbox bd = Some (sb_id sb)" "sb_id sb \<noteq> []"
    and "sandbox_get (sb_id sb) s = Some sb" "sb_status sb = ''ready''"
  shows "ensure_sandbox_for_bundle b e2b now s = (Inr sb, s)"
    "d \<noteq> sb_id sb \<Longrightarrow> reprovision_for_bundle b (Some d) e2b now s = (Inr sb, s)"
  using assms by (simp_all add: ensure_sandbox_for_bundle_def opt_truthy_def reprovision_for_bundle_def replacement_def)

lemma terminate_length [simp]: "length (db_sandboxes (terminate_opt x now s)) = length (db_sandboxes s)"
  by (simp add: terminate_opt_def terminate_sandbox_def sandbox_update_def split: option.split)

text \<open>Ensuring the sandbox of a bundle gives a ready row that the bundle points to, at the price of at
  most one new row; ensuring again, or recovering from any other sandbox that died, gives the same row and
  changes nothing; when e2b cannot provision, the call fails, no row is added and the bundle is as it was.\<close>

theorem ensure_idempotent:
  assumes "bundle_get b s = Some bd" and run: "ensure_sandbox_for_bundle b e2b now s = (res, s')"
  shows "case res of
      Inr sb \<Rightarrow> sb_status sb = ''ready'' \<and> sandbox_get (sb_id sb) s' = Some sb \<and>
        map_option bundle_sandbox (bundle_get b s') = Some (Some (sb_id sb)) \<and>
        length (db_sandboxes s') \<le> Suc (length (db_sandboxes s)) \<and>
        ensure_sandbox_for_bundle b e2b2 now2 s' = (Inr sb, s') \<and>
        (d \<noteq> sb_id sb \<longrightarrow> reprovision_for_bundle b (Some d) e2b2 now2 s' = (Inr sb, s'))
    | Inl e \<Rightarrow> bundle_get b s' = Some bd \<and> length (db_sandboxes s') = length (db_sandboxes s)"
  using run
proof (cases rule: ensure_cases)
  case 1
  then show ?thesis using assms(1) by simp
next
  case (2 bd' sb)
  then show ?thesis using ensure_ready [OF 2(1-5)] by simp
next
  case (3 bd')
  then have same: "bd' = bd" "replacement bd (bundle_sandbox bd) s = None"
    using assms(1) by (simp_all add: replacement_def split: option.split)
  from 3(2) show ?thesis
  proof (cases rule: reprovision_cases)
    case (3 bd2 e)
    then show ?thesis using assms(1) provision_err [OF 3(4)] by simp
  next
    case (4 bd2 sb s1)
    note new = provision_ok [OF 4(4)]
    have row: "sandbox_get (sb_id sb) s' = Some sb"
      using new(1,4) by (simp add: 4(5) sandbox_get_def row_get_append)
    have point: "bundle_get b s' = Some (bundle_apply (Set_sandbox (sb_id sb)) bd)"
      using assms(1) by (simp add: 4(5) set_sandbox_get new(5) del: bundle_apply.simps)
    have "sb_id sb \<noteq> []" using new(6) by simp
    with ensure_ready [OF point _ _ row new(3)] show ?thesis using row point new(1,3) 4(3,5) by simp
  qed (use assms(1) same in auto)
qed

lemma ensure_idempotent_witness:
  "\<exists>sb s'. ensure_sandbox_for_bundle ''b'' (Inr ''e1'') 2 (terminate_sandbox ''dead'' 1 (sandbox_db [dead_sandbox])) = (Inr sb, s') \<and>
     sb_template sb = ''python'' \<and> ensure_sandbox_for_bundle ''b'' (Inr ''e2'') 3 s' = (Inr sb, s')"
proof -
  let ?s = "terminate_sandbox ''dead'' 1 (sandbox_db [dead_sandbox])"
  have b: "bundle_get ''b'' ?s = Some ((fresh_bundle ''b'' ''c'' JNull ''p'' ''op'' 0)\<lparr>bundle_sandbox := Some ''dead''\<rparr>)"
    by (simp only: terminate_simps) (simp add: sandbox_db_def bundle_get_def fresh_bundle_def)
  have "\<exists>sb s'. ensure_sandbox_for_bundle ''b'' (Inr ''e1'') 2 ?s = (Inr sb, s') \<and> sb_template sb = ''python''"
    by (simp add: ensure_sandbox_for_bundle_def b terminate_get) (simp add: terminate_sandbox_def sandbox_get_def sandbox_update_def
      rows_update_def sandbox_db_def dead_sandbox_def ready_sandbox_def fresh_bundle_def opt_truthy_def
      reprovision_for_bundle_def bundle_get_def replacement_def doomed_def terminate_opt_def create_fresh_def
      template_for_bundle_def create_for_bundle_def provision_def draw_def sandbox_create_def Let_def)
  then obtain sb s' where run: "ensure_sandbox_for_bundle ''b'' (Inr ''e1'') 2 ?s = (Inr sb, s')" "sb_template sb = ''python''" by blast
  with ensure_idempotent [OF b run(1), of "Inr ''e2''" 3] show ?thesis by auto
qed

section \<open>Two recoveries at once\<close>

text \<open>C22: the fence compares only what a recovery read before it terminated and provisioned.  When two
  recoveries of the same dead sandbox both read the bundle before either has swapped its pointer, each
  provisions: two rows are ready and the bundle points to one of them; the other is an orphan.\<close>

theorem recovery_race:
  assumes b: "bundle_get b s = Some bd" "bundle_sandbox bd = Some dead" "dead \<noteq> []"
    and ids: "inj (db_ids s)" "\<And>n. ''sbx_'' @ db_ids s n \<notin> sb_id ` set (db_sandboxes s)"
  shows "\<exists>x y s'. race b (Inr e1) (Inr e2) now [True, False, True, False, True, True, False, False]
      (Started (Some dead), Started (Some dead), s) = (Recovered (Inr x), Recovered (Inr y), s') \<and>
     x \<in> set (db_sandboxes s') \<and> y \<in> set (db_sandboxes s') \<and> sb_id x \<noteq> sb_id y \<and>
     sb_bundle x = Some b \<and> sb_bundle y = Some b \<and> sb_status x = ''ready'' \<and> sb_status y = ''ready'' \<and>
     map_option bundle_sandbox (bundle_get b s') = Some (Some (sb_id y)) \<and> \<not> pools_ok s'"
proof -
  have fence: "recovery_step b e2b now (Started (Some dead), s) = (Doomed bd (Some dead), s)" for e2b
    using b by (simp add: recovery_step_def replacement_def doomed_def opt_truthy_def)
  define s1 where "s1 = terminate_sandbox dead now (terminate_sandbox dead now s)"
  have keys: "sb_id ` set (db_sandboxes (terminate_sandbox dead now t)) = sb_id ` set (db_sandboxes t)" for t
    using sandbox_rows.map_key_update [of _ "Update_status ''terminated'' now" "db_sandboxes t"]
    by (simp add: terminate_sandbox_def sandbox_update_def flip: set_map split: option.split del: sandbox_apply.simps)
  have s1: "db_ids s1 = db_ids s" "db_drawn s1 = db_drawn s" "bundle_get b s1 = Some bd"
    "sb_id ` set (db_sandboxes s1) = sb_id ` set (db_sandboxes s)"
    using b terminate_simps(3,4) [of "Some dead"] by (simp_all add: s1_def keys terminate_opt_def)
  obtain x s2 where x: "create_fresh b bd (Inr e1) now s1 = (Inr x, s2)" "db_ids s2 = db_ids s" "db_drawn s2 = Suc (db_drawn s)"
    using ids(2) [of "db_drawn s"] provision_succeeds [of s1 b bd e1 now] by (auto simp: s1)
  note new = provision_ok [OF x(1)]
  define s3 where "s3 = set_sandbox b (sb_id x) s2"
  have s3: "db_sandboxes s3 = db_sandboxes s1 @ [x]" "db_ids s3 = db_ids s" "db_drawn s3 = Suc (db_drawn s)"
    using x new(1) by (simp_all add: s3_def set_sandbox_def bundle_update_def Let_def)
  have "db_ids s (Suc (db_drawn s)) \<noteq> db_ids s (db_drawn s)" using ids(1) by (simp add: inj_eq)
  then have "''sbx_'' @ db_ids s (Suc (db_drawn s)) \<notin> sb_id ` set (db_sandboxes s3)"
    using ids(2) [of "Suc (db_drawn s)"] s1(1,2,4) s3(1) new(6) by auto
  then obtain y s4 where y: "create_fresh b bd (Inr e2) now s3 = (Inr y, s4)"
    using provision_succeeds [of s3 b bd e2 now] by (auto simp: s3(2,3))
  note new' = provision_ok [OF y]
  define s5 where "s5 = set_sandbox b (sb_id y) s4"
  have run: "race b (Inr e1) (Inr e2) now [True, False, True, False, True, True, False, False]
      (Started (Some dead), Started (Some dead), s) = (Recovered (Inr x), Recovered (Inr y), s5)"
    using fence x(1) y by (simp add: recovery_step_def terminate_opt_def s1_def s3_def s5_def)
  have rows: "x \<in> set (db_sandboxes s5)" "y \<in> set (db_sandboxes s5)" using s3(1) new'(1) by (simp_all add: s5_def)
  have differ: "sb_id x \<noteq> sb_id y" using new'(4) s3(1) by (auto simp: sandbox_get_def row_get_None)
  have point: "map_option bundle_sandbox (bundle_get b s5) = Some (Some (sb_id y))"
    using s1(3) by (simp add: s5_def s3_def set_sandbox_get new(5) new'(5))
  have "\<not> pools_ok s5"
  proof
    assume "pools_ok s5"
    then have "placed (\<lambda>b. bundle_get b s5) x" using rows(1) by (simp add: pools_ok_def list_all_iff)
    from placed_point [OF this new(2,3)] show False using point differ by auto
  qed
  with run rows differ point new(2,3) new'(2,3) show ?thesis by blast
qed

lemma recovery_race_witness:
  "\<exists>x y s'. race ''b'' (Inr ''e1'') (Inr ''e2'') 9 [True, False, True, False, True, True, False, False]
      (Started (Some ''dead''), Started (Some ''dead''), sandbox_db [dead_sandbox]) = (Recovered (Inr x), Recovered (Inr y), s') \<and>
     sb_id x \<noteq> sb_id y \<and> \<not> pools_ok s'"
proof -
  have b: "bundle_get ''b'' (sandbox_db [dead_sandbox]) = Some ((fresh_bundle ''b'' ''c'' JNull ''p'' ''op'' 0)\<lparr>bundle_sandbox := Some ''dead''\<rparr>)"
    by (simp add: sandbox_db_def bundle_get_def fresh_bundle_def)
  have "inj (db_ids (sandbox_db [dead_sandbox]))"
    by (rule injI) (simp add: sandbox_db_def replicate_eq_replicate)
  moreover have "''sbx_'' @ db_ids (sandbox_db [dead_sandbox]) n \<notin> sb_id ` set (db_sandboxes (sandbox_db [dead_sandbox]))" for n
    by (simp add: sandbox_db_def dead_sandbox_def ready_sandbox_def)
  ultimately show ?thesis using recovery_race [OF b, of "''dead''" "''e1''" "''e2''" 9] by fastforce
qed

end
