(* ===== verification/Auth.thy ===== *)
theory Auth
  imports Task_Repo
begin

text \<open>
  Who may do what: the authorization predicates of \<^verbatim>\<open>auth.py\<close>.  How a caller is established (JWT
  decoding, cookies, the API-key header) is not modelled: a \<open>caller\<close> is what those functions return.
\<close>

record caller =
  ca_account :: string
  ca_username :: "string option"
  ca_principal :: string
  ca_wallet :: "string option"
  ca_method :: string

definition LEGACY_ACCOUNT_ID :: string where
  "LEGACY_ACCOUNT_ID = ''acc_legacy_apikey''"

text \<open>The account a bundle belongs to: its owner, or its creator when no owner was stored.\<close>

definition owns :: "caller \<Rightarrow> bundle_row \<Rightarrow> bool" where
  "owns c b \<longleftrightarrow> (case bundle_owner b of None \<Rightarrow> bundle_created_by b = ca_account c | Some o' \<Rightarrow> o' = ca_account c)"

definition require_bundle_owner :: "string \<Rightarrow> caller \<Rightarrow> db \<Rightarrow> bundle_row res" where
  "require_bundle_owner i c s = (case bundle_get i s of
       None \<Rightarrow> Inl (HTTPException 404 ''Bundle not found'')
     | Some b \<Rightarrow> if ca_account c = LEGACY_ACCOUNT_ID then Inr b
         else if owns c b then Inr b else Inl (HTTPException 403 ''Not your bundle''))"

definition is_assigned_runtime :: "caller \<Rightarrow> task \<Rightarrow> db \<Rightarrow> bool" where
  "is_assigned_runtime c t s = (case task_runtime t of
       None \<Rightarrow> False
     | Some r \<Rightarrow> (case row_get rt_id r (db_runtimes s) of
           None \<Rightarrow> False | Some rt \<Rightarrow> rt_account rt = ca_account c))"

definition is_service :: "caller \<Rightarrow> bool" where
  "is_service c \<longleftrightarrow> ca_account c = LEGACY_ACCOUNT_ID \<or> ca_method c = ''api_key''"

definition authorize_task_mutation :: "caller \<Rightarrow> task \<Rightarrow> db \<Rightarrow> unit res" where
  "authorize_task_mutation c t s =
     (if is_service c then Inr ()
      else if is_assigned_runtime c t s then Inr ()
      else case (if task_bundle t = [] then None else bundle_get (task_bundle t) s) of
          None \<Rightarrow> Inl (HTTPException 403 ''Not authorized for this task'')
        | Some b \<Rightarrow> if owns c b then Inr () else Inl (HTTPException 403 ''Not authorized for this task''))"

definition agent_owner_identity :: "caller \<Rightarrow> string" where
  "agent_owner_identity c = (if opt_truthy (ca_username c) then the (ca_username c) else ca_account c)"

definition authorize_agent_mutation :: "caller \<Rightarrow> presence option \<Rightarrow> unit res" where
  "authorize_agent_mutation c p =
     (if is_service c then Inr ()
      else case p of
          None \<Rightarrow> Inr ()
        | Some a \<Rightarrow> (case agent_owner a of
              None \<Rightarrow> Inr ()
            | Some o' \<Rightarrow> if o' = agent_owner_identity c then Inr ()
                         else Inl (HTTPException 403 ''Not your agent'')))"

section \<open>Who gets through\<close>

lemma authorize_task_iff:
  "authorize_task_mutation c t s = Inr () \<longleftrightarrow> is_service c \<or> is_assigned_runtime c t s \<or>
     (task_bundle t \<noteq> [] \<and> (\<exists>b. bundle_get (task_bundle t) s = Some b \<and> owns c b))"
  by (auto simp: authorize_task_mutation_def split: option.split)

lemma require_owner_iff:
  "(\<exists>b. require_bundle_owner i c s = Inr b) \<longleftrightarrow>
     (\<exists>b. bundle_get i s = Some b \<and> (ca_account c = LEGACY_ACCOUNT_ID \<or> owns c b))"
  by (auto simp: require_bundle_owner_def split: option.split)

text \<open>Whoever may rule on a task's review may also write to the task: the review gate is the stricter one.\<close>

lemma owner_may_mutate:
  "require_bundle_owner (task_bundle t) c s = Inr b \<Longrightarrow> task_bundle t \<noteq> [] \<Longrightarrow> authorize_task_mutation c t s = Inr ()"
  by (auto simp: authorize_task_iff require_bundle_owner_def is_service_def split: option.splits if_splits)

end
