(* ===== verification/Sharing.thy ===== *)
theory Sharing
  imports Auth
begin

text \<open>
  Cookbooks and who may use them: \<^verbatim>\<open>repositories/cookbook_repo.py\<close>, \<^verbatim>\<open>cookbook_share_repo.py\<close> and
  \<^verbatim>\<open>repo_grant_repo.py\<close>, the routes of \<^verbatim>\<open>routes/cookbooks.py\<close>, and the roles, shares and repository
  grants of \<^verbatim>\<open>routes/cookbook_sharing.py\<close>.  The bare repository a cookbook is created with is on disk,
  outside the model.
\<close>

section \<open>Repositories\<close>

definition cookbook_json :: "cookbook \<Rightarrow> json" where
  "cookbook_json c = JObj [(''id'', JStr (cb_id c)), (''name'', JStr (cb_name c)), (''owner_id'', JStr (cb_owner c)),
     (''created_at'', JInt (cb_created_at c))]"

definition find_by_name_and_owner :: "string \<Rightarrow> string \<Rightarrow> db \<Rightarrow> cookbook option" where
  "find_by_name_and_owner name ow s = find (\<lambda>c. cb_name c = name \<and> cb_owner c = ow) (db_cookbooks s)"

definition share_get :: "string \<Rightarrow> db \<Rightarrow> share option" where
  "share_get i s = row_get sh_id i (db_shares s)"

definition get_active_for :: "string \<Rightarrow> string \<Rightarrow> db \<Rightarrow> share option" where
  "get_active_for c a s = find (\<lambda>h. sh_cookbook h = c \<and> sh_account h = a \<and> sh_revoked_at h = None) (db_shares s)"

definition shares_by_cookbook :: "string \<Rightarrow> db \<Rightarrow> share list" where
  "shares_by_cookbook c s = sort_key sh_at (filter (\<lambda>h. sh_cookbook h = c \<and> sh_revoked_at h = None) (db_shares s))"

definition shares_by_account :: "string \<Rightarrow> db \<Rightarrow> share list" where
  "shares_by_account a s = sort_key sh_at (filter (\<lambda>h. sh_account h = a \<and> sh_revoked_at h = None) (db_shares s))"

text \<open>INSERT checks the primary key, the three foreign keys and the unique index on active shares.\<close>

definition share_insert :: "share \<Rightarrow> db \<Rightarrow> share res \<times> db" where
  "share_insert h s =
     (if share_get (sh_id h) s \<noteq> None \<or> cookbook_get (sh_cookbook h) s = None \<or> sh_account h \<notin> set (db_accounts s) \<or>
         sh_by h \<notin> set (db_accounts s) \<or> sh_revoked_at h = None \<and> get_active_for (sh_cookbook h) (sh_account h) s \<noteq> None
      then (Inl IntegrityError, s)
      else (Inr h, s\<lparr>db_shares := db_shares s @ [h]\<rparr>))"

definition share_update :: "string \<Rightarrow> (share \<Rightarrow> share) \<Rightarrow> db \<Rightarrow> share option \<times> db" where
  "share_update i f s =
     (let s' = s\<lparr>db_shares := rows_update (\<lambda>h. sh_id h = i \<and> sh_revoked_at h = None) f (db_shares s)\<rparr>
      in (share_get i s', s'))"

definition share_revoke :: "string \<Rightarrow> int \<Rightarrow> db \<Rightarrow> share option \<times> db" where
  "share_revoke i now = share_update i (\<lambda>h. h\<lparr>sh_revoked_at := Some now\<rparr>)"

definition update_role :: "string \<Rightarrow> share_role \<Rightarrow> db \<Rightarrow> share option \<times> db" where
  "update_role i role = share_update i (\<lambda>h. h\<lparr>sh_role := role\<rparr>)"

definition grant_get :: "string \<Rightarrow> db \<Rightarrow> grant option" where
  "grant_get i s = row_get gr_id i (db_grants s)"

definition grant_insert :: "grant \<Rightarrow> db \<Rightarrow> grant res \<times> db" where
  "grant_insert g s =
     (if grant_get (gr_id g) s \<noteq> None \<or> cookbook_get (gr_cookbook g) s = None \<or> gr_by g \<notin> set (db_accounts s)
      then (Inl IntegrityError, s)
      else (Inr g, s\<lparr>db_grants := db_grants s @ [g]\<rparr>))"

definition grants_by_cookbook :: "string \<Rightarrow> bool \<Rightarrow> db \<Rightarrow> grant list" where
  "grants_by_cookbook c include_revoked s = sort_key gr_at
     (filter (\<lambda>g. gr_cookbook g = c \<and> (include_revoked \<or> gr_revoked_at g = None)) (db_grants s))"

definition grant_revoke :: "string \<Rightarrow> int \<Rightarrow> db \<Rightarrow> grant option \<times> db" where
  "grant_revoke i now s =
     (let s' = s\<lparr>db_grants := rows_update (\<lambda>g. gr_id g = i \<and> gr_revoked_at g = None)
                   (\<lambda>g. g\<lparr>gr_revoked_at := Some now\<rparr>) (db_grants s)\<rparr>
      in (grant_get i s', s'))"

text \<open>The loop of \<open>find_covering\<close>: three slots, each filled by the first row that fits it.\<close>

fun cover_scan :: "string \<Rightarrow> string \<Rightarrow> string \<Rightarrow> grant list \<Rightarrow> grant option \<times> grant option \<times> grant option \<Rightarrow>
    grant option \<times> grant option \<times> grant option" where
  "cover_scan exact wild ow [] slots = slots"
| "cover_scan exact wild ow (g # gs) (e, w, sh) = cover_scan exact wild ow gs
     (if gr_scope g = exact \<and> e = None then (Some g, w, sh)
      else if gr_scope g = wild \<and> w = None then (e, Some g, sh)
      else if gr_scope g = ow \<and> sh = None then (e, w, Some g)
      else (e, w, sh))"

definition find_covering :: "string \<Rightarrow> repo_provider \<Rightarrow> string \<Rightarrow> string \<Rightarrow> db \<Rightarrow> grant option" where
  "find_covering c p ow repo s =
     (let rows = sort_key gr_at (filter (\<lambda>g. gr_cookbook g = c \<and> gr_provider g = p \<and> gr_revoked_at g = None) (db_grants s));
          (e, w, sh) = cover_scan (ow @ ''/'' @ repo) (ow @ ''/*'') ow rows (None, None, None)
      in if e \<noteq> None then e else if w \<noteq> None then w else sh)"

section \<open>Roles\<close>

fun role_rank :: "share_role \<Rightarrow> nat" where
  "role_rank Owner = 3"
| "role_rank Member = 2"
| "role_rank Viewer = 1"

fun role_name :: "share_role \<Rightarrow> string" where
  "role_name Owner = ''owner''"
| "role_name Member = ''member''"
| "role_name Viewer = ''viewer''"

definition parse_role :: "string \<Rightarrow> share_role res" where
  "parse_role r = (case find (\<lambda>x. role_name x = r) [Owner, Member, Viewer] of
       None \<Rightarrow> Inl (HTTPException 400 (''Invalid role '' @ quoted r @ ''; expected owner|member|viewer''))
     | Some x \<Rightarrow> Inr x)"

definition wallet_account :: "string \<Rightarrow> db \<Rightarrow> string option" where
  "wallet_account w s = map_option snd (row_get fst w (db_wallets s))"

definition canonical_owner_account_id :: "cookbook \<Rightarrow> db \<Rightarrow> string option" where
  "canonical_owner_account_id cb s =
     (if starts_with ''acc_'' (cb_owner cb) then Some (cb_owner cb)
      else if starts_with ''0x'' (cb_owner cb) then wallet_account (cb_owner cb) s
      else None)"

definition is_caller_cookbook_owner :: "cookbook \<Rightarrow> caller \<Rightarrow> db \<Rightarrow> bool" where
  "is_caller_cookbook_owner cb c s \<longleftrightarrow> cb_owner cb = ca_account c \<or>
     opt_truthy (ca_wallet c) \<and> Some (cb_owner cb) = ca_wallet c \<or>
     opt_truthy (ca_username c) \<and> Some (cb_owner cb) = ca_username c \<or>
     starts_with ''0x'' (cb_owner cb) \<and> wallet_account (cb_owner cb) s = Some (ca_account c)"

definition role_for_existing_cookbook :: "cookbook \<Rightarrow> caller \<Rightarrow> db \<Rightarrow> share_role option" where
  "role_for_existing_cookbook cb c s =
     (if is_caller_cookbook_owner cb c s then Some Owner
      else map_option sh_role (get_active_for (cb_id cb) (ca_account c) s))"

definition require_role :: "string \<Rightarrow> caller \<Rightarrow> share_role \<Rightarrow> db \<Rightarrow> share_role res" where
  "require_role i c minimum s = (case cookbook_get i s of
       None \<Rightarrow> Inl (HTTPException 404 ''Cookbook not found'')
     | Some cb \<Rightarrow>
         let denied = Inl (HTTPException 403 (''Cookbook '' @ i @ '': requires at least '' @ role_name minimum))
         in (case role_for_existing_cookbook cb c s of
               None \<Rightarrow> denied
             | Some role \<Rightarrow> if role_rank role < role_rank minimum then denied else Inr role))"

text \<open>The opening of every handler: the role first, then the request.\<close>

definition with_role :: "string \<Rightarrow> caller \<Rightarrow> share_role \<Rightarrow> (db \<Rightarrow> 'a res \<times> db) \<Rightarrow> db \<Rightarrow> 'a res \<times> db" where
  "with_role i c minimum f s = (case require_role i c minimum s of Inl e \<Rightarrow> (Inl e, s) | Inr _ \<Rightarrow> f s)"

section \<open>Shares\<close>

definition create_share :: "string \<Rightarrow> string \<Rightarrow> string \<Rightarrow> caller \<Rightarrow> int \<Rightarrow> db \<Rightarrow> share res \<times> db" where
  "create_share i account role c now = with_role i c Owner (\<lambda>s.
     case parse_role role of
       Inl e \<Rightarrow> (Inl e, s)
     | Inr r \<Rightarrow>
         (case cookbook_get i s of
           None \<Rightarrow> (Inl AssertionError, s)
         | Some cb \<Rightarrow>
           let taken = HTTPException 409 (''Account '' @ account @ '' already has access'') in
           if Some account = canonical_owner_account_id cb s
           then (Inl (HTTPException 400 ''Cookbook owner already has OWNER access implicitly''), s)
           else if get_active_for i account s \<noteq> None then (Inl taken, s)
           else let (sid, s1) = draw ''shr_'' s in
             (case share_insert \<lparr>sh_id = sid, sh_cookbook = i, sh_account = account, sh_role = r, sh_by = ca_account c,
                  sh_at = now, sh_revoked_at = None\<rparr> s1 of
                (Inl e, s2) \<Rightarrow> (Inl taken, s2)
              | (Inr h, s2) \<Rightarrow> (Inr h, s2))))"

definition list_shares :: "string \<Rightarrow> caller \<Rightarrow> db \<Rightarrow> share list res" where
  "list_shares i c s = bind_res (require_role i c Viewer s) (\<lambda>_. Inr (shares_by_cookbook i s))"

definition share_of :: "string \<Rightarrow> string \<Rightarrow> db \<Rightarrow> share res" where
  "share_of sid i s = (case share_get sid s of
       None \<Rightarrow> Inl (HTTPException 404 ''Share not found'')
     | Some h \<Rightarrow> if sh_cookbook h \<noteq> i then Inl (HTTPException 404 ''Share not found'') else Inr h)"

definition update_share :: "string \<Rightarrow> string \<Rightarrow> string \<Rightarrow> caller \<Rightarrow> db \<Rightarrow> share res \<times> db" where
  "update_share i sid role c = with_role i c Owner (\<lambda>s.
     case bind_res (parse_role role) (\<lambda>r. bind_res (share_of sid i s) (\<lambda>h.
         if sh_revoked_at h \<noteq> None then Inl (HTTPException 409 ''Cannot modify a revoked share'') else Inr r)) of
       Inl e \<Rightarrow> (Inl e, s)
     | Inr r \<Rightarrow> (case update_role sid r s of
           (None, s1) \<Rightarrow> (Inl (HTTPException 404 ''Share not found''), s1)
         | (Some h, s1) \<Rightarrow> (Inr h, s1)))"

text \<open>The flag tells that the share had been revoked before.\<close>

definition revoke_share :: "string \<Rightarrow> string \<Rightarrow> caller \<Rightarrow> int \<Rightarrow> db \<Rightarrow> (share option \<times> bool) res \<times> db" where
  "revoke_share i sid c now = with_role i c Owner (\<lambda>s.
     case share_of sid i s of
       Inl e \<Rightarrow> (Inl e, s)
     | Inr h \<Rightarrow> if sh_revoked_at h \<noteq> None then (Inr (Some h, True), s)
         else (let (r, s1) = share_revoke sid now s in (Inr (r, False), s1)))"

section \<open>Grants\<close>

fun provider_name :: "repo_provider \<Rightarrow> string" where
  "provider_name Github = ''github''"
| "provider_name Gitlab = ''gitlab''"
| "provider_name Bitbucket = ''bitbucket''"

definition parse_provider :: "string \<Rightarrow> repo_provider res" where
  "parse_provider p = (case find (\<lambda>x. provider_name x = p) [Github, Gitlab, Bitbucket] of
       None \<Rightarrow> Inl (HTTPException 400 (''Invalid provider '' @ quoted p @ ''; expected github|gitlab|bitbucket''))
     | Some x \<Rightarrow> Inr x)"

definition create_grant :: "string \<Rightarrow> string \<Rightarrow> string \<Rightarrow> string \<Rightarrow> caller \<Rightarrow> int \<Rightarrow> db \<Rightarrow> grant res \<times> db" where
  "create_grant i provider scope token_ref c now = with_role i c Owner (\<lambda>s.
     case parse_provider provider of
       Inl e \<Rightarrow> (Inl e, s)
     | Inr p \<Rightarrow>
         if str_strip scope = [] then (Inl (HTTPException 400 ''scope cannot be empty''), s)
         else if str_strip token_ref = []
         then (Inl (HTTPException 400 ''token_ref cannot be empty (must reference a stored secret)''), s)
         else let (gid, s1) = draw ''grt_'' s in
           grant_insert \<lparr>gr_id = gid, gr_cookbook = i, gr_provider = p, gr_scope = str_strip scope,
             gr_token_ref = str_strip token_ref, gr_by = ca_account c, gr_at = now, gr_revoked_at = None\<rparr> s1)"

definition list_grants :: "string \<Rightarrow> bool \<Rightarrow> caller \<Rightarrow> db \<Rightarrow> grant list res" where
  "list_grants i include_revoked c s =
     bind_res (require_role i c Member s) (\<lambda>_. Inr (grants_by_cookbook i include_revoked s))"

definition revoke_grant :: "string \<Rightarrow> string \<Rightarrow> caller \<Rightarrow> int \<Rightarrow> db \<Rightarrow> (grant option \<times> bool) res \<times> db" where
  "revoke_grant i gid c now = with_role i c Owner (\<lambda>s.
     case grant_get gid s of
       None \<Rightarrow> (Inl (HTTPException 404 ''Grant not found''), s)
     | Some g \<Rightarrow> if gr_cookbook g \<noteq> i then (Inl (HTTPException 404 ''Grant not found''), s)
         else if gr_revoked_at g \<noteq> None then (Inr (Some g, True), s)
         else (let (r, s1) = grant_revoke gid now s in (Inr (r, False), s1)))"

section \<open>Cookbooks\<close>

text \<open>The second component tells that the cookbook existed; \<open>path\<close> is where the bare repository is.\<close>

definition create_cookbook :: "string \<Rightarrow> string \<Rightarrow> string \<Rightarrow> int \<Rightarrow> db \<Rightarrow> (cookbook \<times> bool) res \<times> db" where
  "create_cookbook name ow path now s = (case find_by_name_and_owner name ow s of
       Some cb \<Rightarrow> (Inr (cb, True), s)
     | None \<Rightarrow>
         let (i, s1) = draw ''cb_'' s;
             cb = \<lparr>cb_id = i, cb_name = name, cb_owner = ow, cb_created_at = now, cb_repo_path = Some path\<rparr>
         in if cookbook_get i s1 \<noteq> None then (Inl IntegrityError, s1)
            else (Inr (cb, False), publish ''cookbook'' i WAdded (cookbook_json cb) None now
                    (s1\<lparr>db_cookbooks := db_cookbooks s1 @ [cb]\<rparr>)))"

definition list_cookbooks :: "string option \<Rightarrow> db \<Rightarrow> cookbook list" where
  "list_cookbooks ow s = sort_key cb_created_at
     (if opt_truthy ow then filter (\<lambda>c. Some (cb_owner c) = ow) (db_cookbooks s) else db_cookbooks s)"

definition get_cookbook :: "string \<Rightarrow> db \<Rightarrow> (cookbook \<times> presence list) res" where
  "get_cookbook i s = (case cookbook_get i s of
       None \<Rightarrow> Inl (HTTPException 404 ''Cookbook not found'')
     | Some cb \<Rightarrow> Inr (cb, filter (\<lambda>a. agent_cookbook a = i) (db_agents s)))"

section \<open>Who may change what\<close>

text \<open>The mutating routes of one cookbook as one operation.\<close>

datatype share_op =
    CreateShare string string
  | UpdateShare string string
  | RevokeShare string
  | CreateGrant string string string
  | RevokeGrant string

definition answered :: "'a res \<times> db \<Rightarrow> unit res \<times> db" where
  "answered p = (case p of (Inl e, s) \<Rightarrow> (Inl e, s) | (Inr _, s) \<Rightarrow> (Inr (), s))"

fun share_apply :: "string \<Rightarrow> share_op \<Rightarrow> caller \<Rightarrow> int \<Rightarrow> db \<Rightarrow> unit res \<times> db" where
  "share_apply i (CreateShare a r) c now s = answered (create_share i a r c now s)"
| "share_apply i (UpdateShare h r) c now s = answered (update_share i h r c s)"
| "share_apply i (RevokeShare h) c now s = answered (revoke_share i h c now s)"
| "share_apply i (CreateGrant p sc t) c now s = answered (create_grant i p sc t c now s)"
| "share_apply i (RevokeGrant g) c now s = answered (revoke_grant i g c now s)"

definition active_key :: "share \<Rightarrow> string \<times> string" where
  "active_key h = (sh_cookbook h, sh_account h)"

text \<open>The constraints of the table: the primary key, and one active share per cookbook and account.\<close>

definition shares_ok :: "share list \<Rightarrow> bool" where
  "shares_ok hs \<longleftrightarrow> distinct (map sh_id hs) \<and> distinct (map active_key (filter (\<lambda>h. sh_revoked_at h = None) hs))"

lemma with_role_denied: "require_role i c m s = Inl e \<Longrightarrow> with_role i c m f s = (Inl e, s)"
  by (simp add: with_role_def)

lemma with_role_allowed: "require_role i c m s = Inr r \<Longrightarrow> with_role i c m f s = f s"
  by (simp add: with_role_def)

lemmas route_defs = create_share_def update_share_def revoke_share_def create_grant_def revoke_grant_def

lemma share_apply_denied: "require_role i c Owner s = Inl e \<Longrightarrow> share_apply i op c now s = (Inl e, s)"
  by (cases op) (simp_all add: route_defs with_role_denied answered_def)

lemma snd_answered [simp]: "snd (answered p) = snd p"
  by (auto simp: answered_def split: prod.split sum.split)

text \<open>The three things an operation can do to the table of shares.\<close>

definition share_edit :: "string \<Rightarrow> share list \<Rightarrow> share list \<Rightarrow> bool" where
  "share_edit i hs hs' \<longleftrightarrow> hs' = hs \<or>
     (\<exists>h. hs' = hs @ [h] \<and> sh_cookbook h = i \<and> sh_revoked_at h = None \<and> sh_id h \<notin> sh_id ` set hs \<and>
        (\<forall>x\<in>set hs. sh_revoked_at x = None \<longrightarrow> active_key x \<noteq> active_key h)) \<or>
     (\<exists>h r t. h \<in> set hs \<and> sh_cookbook h = i \<and>
        hs' = rows_update (\<lambda>x. sh_id x = sh_id h \<and> sh_revoked_at x = None) (\<lambda>x. x\<lparr>sh_role := r x, sh_revoked_at := t\<rparr>) hs)"

lemma share_edit_refl [simp]: "share_edit i hs hs"
  by (simp add: share_edit_def)

lemma share_insert_edit:
  "sh_revoked_at h = None \<Longrightarrow> share_edit (sh_cookbook h) (db_shares s) (db_shares (snd (share_insert h s)))"
  by (auto simp: share_insert_def share_edit_def share_get_def row_get_None get_active_for_def find_None_iff active_key_def)

lemma share_insert_same:
  "db_wallets (snd (share_insert h s)) = db_wallets s" "db_cookbooks (snd (share_insert h s)) = db_cookbooks s"
  by (simp_all add: share_insert_def)

lemma share_update_same:
  "db_wallets (snd (share_update h f s)) = db_wallets s" "db_cookbooks (snd (share_update h f s)) = db_cookbooks s"
  by (simp_all add: share_update_def Let_def)

lemma share_edit_update:
  "h \<in> set hs \<Longrightarrow> sh_cookbook h = i \<Longrightarrow> share_edit i hs
     (rows_update (\<lambda>x. sh_id x = sh_id h \<and> sh_revoked_at x = None) (\<lambda>x. x\<lparr>sh_role := r x, sh_revoked_at := t\<rparr>) hs)"
  unfolding share_edit_def by blast

lemma share_of_edit:
  assumes "share_of sid i s = Inr h"
  shows "share_edit i (db_shares s) (db_shares (snd (update_role sid role s)))"
    "share_edit i (db_shares s) (db_shares (snd (share_revoke sid now s)))"
proof -
  have h: "h \<in> set (db_shares s)" "sh_id h = sid" "sh_cookbook h = i"
    using assms row_get_Some [of sh_id sid "db_shares s" h]
    by (auto simp: share_of_def share_get_def split: option.splits if_splits)
  have "rows_update (\<lambda>x. sh_id x = sid \<and> sh_revoked_at x = None) (\<lambda>x. x\<lparr>sh_role := role\<rparr>) (db_shares s) =
      rows_update (\<lambda>x. sh_id x = sh_id h \<and> sh_revoked_at x = None) (\<lambda>x. x\<lparr>sh_role := role, sh_revoked_at := None\<rparr>) (db_shares s)"
    "rows_update (\<lambda>x. sh_id x = sid \<and> sh_revoked_at x = None) (\<lambda>x. x\<lparr>sh_revoked_at := Some now\<rparr>) (db_shares s) =
      rows_update (\<lambda>x. sh_id x = sh_id h \<and> sh_revoked_at x = None) (\<lambda>x. x\<lparr>sh_role := sh_role x, sh_revoked_at := Some now\<rparr>) (db_shares s)"
    by (auto simp: rows_update_def h(2))
  then show "share_edit i (db_shares s) (db_shares (snd (update_role sid role s)))"
    "share_edit i (db_shares s) (db_shares (snd (share_revoke sid now s)))"
    using share_edit_update [OF h(1,3), of None "\<lambda>_. role"] share_edit_update [OF h(1,3), of "Some now" sh_role]
    by (simp_all add: update_role_def share_revoke_def share_update_def Let_def)
qed

lemma share_apply_effect:
  "share_edit i (db_shares s) (db_shares (snd (share_apply i op c now s))) \<and>
   db_wallets (snd (share_apply i op c now s)) = db_wallets s \<and> db_cookbooks (snd (share_apply i op c now s)) = db_cookbooks s"
proof (cases "require_role i c Owner s")
  case (Inl e)
  then show ?thesis by (simp add: share_apply_denied)
next
  case (Inr r)
  note ok = with_role_allowed [OF Inr]
  show ?thesis
  proof (cases op)
    case (CreateShare a rl)
    obtain sid s1 where d: "draw ''shr_'' s = (sid, s1)" by fastforce
    then have s1: "db_shares s1 = db_shares s" "db_wallets s1 = db_wallets s" "db_cookbooks s1 = db_cookbooks s"
      by (auto simp: draw_def)
    show ?thesis
      using share_insert_edit [of "\<lparr>sh_id = sid, sh_cookbook = i, sh_account = a, sh_role = _, sh_by = ca_account c, sh_at = now, sh_revoked_at = None\<rparr>" s1]
      by (auto simp: CreateShare create_share_def ok d s1 Let_def share_insert_same case_prod_beta split: sum.split option.split)
  next
    case (UpdateShare h rl)
    then show ?thesis
      using share_of_edit(1) [of h i s]
      by (auto simp: update_share_def ok update_role_def share_update_same case_prod_beta split: sum.split option.split)
  next
    case (RevokeShare h)
    then show ?thesis
      using share_of_edit(2) [of h i s _ now]
      by (auto simp: revoke_share_def ok share_revoke_def share_update_same case_prod_beta split: sum.split)
  next
    case (CreateGrant p sc t)
    then show ?thesis by (auto simp: create_grant_def ok grant_insert_def draw_def Let_def split: sum.split)
  next
    case (RevokeGrant g)
    then show ?thesis by (auto simp: revoke_grant_def ok grant_revoke_def Let_def split: option.split)
  qed
qed

lemma share_edit_ok:
  assumes "share_edit i hs hs'" "shares_ok hs"
  shows "shares_ok hs'"
  using assms(1) unfolding share_edit_def
proof (elim disjE exE conjE)
  assume "hs' = hs"
  then show ?thesis using assms(2) by simp
next
  fix h assume "hs' = hs @ [h]" "sh_id h \<notin> sh_id ` set hs"
    "\<forall>x\<in>set hs. sh_revoked_at x = None \<longrightarrow> active_key x \<noteq> active_key h"
  then show ?thesis using assms(2) by (auto simp: shares_ok_def)
next
  fix h :: share and r and t
  let ?P = "\<lambda>x :: share. sh_id x = sh_id h \<and> sh_revoked_at x = None" and ?f = "\<lambda>x :: share. x\<lparr>sh_role := r x, sh_revoked_at := t\<rparr>"
  assume hs': "hs' = rows_update ?P ?f hs"
  have "map sh_id (rows_update ?P ?f hs) = map sh_id hs" by (simp add: rows_update_def)
  moreover have "distinct (map active_key (filter (\<lambda>x. sh_revoked_at x = None) xs)) \<Longrightarrow>
      distinct (map active_key (filter (\<lambda>x. sh_revoked_at x = None) (rows_update ?P ?f xs))) \<and>
      active_key ` set (filter (\<lambda>x. sh_revoked_at x = None) (rows_update ?P ?f xs)) \<subseteq>
      active_key ` set (filter (\<lambda>x. sh_revoked_at x = None) xs)" for xs
    by (induction xs) (auto simp: rows_update_def active_key_def)
  ultimately show ?thesis using assms(2) by (simp add: shares_ok_def hs')
qed

lemma find_map_same:
  "(\<And>x. x \<in> set xs \<Longrightarrow> Q (g x) = Q x) \<Longrightarrow> (\<And>x. x \<in> set xs \<Longrightarrow> Q x \<Longrightarrow> g x = x) \<Longrightarrow> find Q (map g xs) = find Q xs"
  by (induction xs) auto

lemma share_edit_other:
  assumes "share_edit i hs hs'" "distinct (map sh_id hs)" "j \<noteq> i"
  shows "find (\<lambda>h. sh_cookbook h = j \<and> sh_account h = a \<and> sh_revoked_at h = None) hs' =
     find (\<lambda>h. sh_cookbook h = j \<and> sh_account h = a \<and> sh_revoked_at h = None) hs"
  using assms(1) unfolding share_edit_def
proof (elim disjE exE conjE)
  fix h assume "hs' = hs @ [h]" "sh_cookbook h = i"
  then show ?thesis using assms(3) by (simp add: find_append split: option.split)
next
  fix h :: share and r and t
  let ?P = "\<lambda>x :: share. sh_id x = sh_id h \<and> sh_revoked_at x = None" and ?f = "\<lambda>x :: share. x\<lparr>sh_role := r x, sh_revoked_at := t\<rparr>"
  assume h: "h \<in> set hs" "sh_cookbook h = i" and hs': "hs' = rows_update ?P ?f hs"
  have "sh_cookbook x = i" if "x \<in> set hs" "?P x" for x
    using inj_onD [of sh_id "set hs" x h] that h assms(2) by (auto simp: distinct_map)
  then show ?thesis unfolding hs' rows_update_def using assms(3) by (intro find_map_same) auto
qed simp

text \<open>C17: changes to the shares and grants of a cookbook are for its owners: whoever has a lesser role is
  refused with no effect.  Whatever is asked, the table keeps one active share per cookbook and account;
  nobody's role in another cookbook moves; and the owner named in the cookbook's row stays an owner.\<close>

theorem sharing_authority:
  assumes "shares_ok (db_shares s)"
  shows "(\<forall>e. require_role i c Owner s = Inl e \<longrightarrow> share_apply i op c now s = (Inl e, s)) \<and>
     shares_ok (db_shares (snd (share_apply i op c now s))) \<and>
     (\<forall>cb d. cb_id cb \<noteq> i \<longrightarrow>
        role_for_existing_cookbook cb d (snd (share_apply i op c now s)) = role_for_existing_cookbook cb d s) \<and>
     (\<forall>cb d. is_caller_cookbook_owner cb d s \<longrightarrow>
        role_for_existing_cookbook cb d (snd (share_apply i op c now s)) = Some Owner)"
proof -
  let ?s' = "snd (share_apply i op c now s)"
  note eff = share_apply_effect [of i s op c now]
  have ow: "is_caller_cookbook_owner cb d ?s' = is_caller_cookbook_owner cb d s" for cb d
    using eff by (simp add: is_caller_cookbook_owner_def wallet_account_def)
  have other: "get_active_for j a ?s' = get_active_for j a s" if "j \<noteq> i" for j a
    using share_edit_other [of i "db_shares s" "db_shares ?s'" j a] eff assms that by (simp add: get_active_for_def shares_ok_def)
  show ?thesis
    using share_edit_ok eff assms share_apply_denied by (auto simp: role_for_existing_cookbook_def ow other)
qed

definition owner_caller :: caller where
  "owner_caller = \<lparr>ca_account = ''acc_1'', ca_username = None, ca_principal = ''human'', ca_wallet = None, ca_method = ''cookie''\<rparr>"

definition shared_db :: "cookbook \<Rightarrow> share list \<Rightarrow> grant list \<Rightarrow> db" where
  "shared_db cb hs gs = \<lparr>db_accounts = [''acc_1'', ''acc_2''], db_wallets = [], db_cookbooks = [cb], db_shares = hs, db_grants = gs,
     db_bundles = [], db_tasks = [], db_events = [], db_tapes = [], db_agents = [], db_links = [], db_reviews = [],
     db_usage = [], db_runtimes = [], db_sandboxes = [], db_cards = [], db_mail = [], db_elicits = [],
     db_watch = watch_init, db_ids = \<lambda>n. replicate n CHR ''x'', db_drawn = 0\<rparr>"

definition own_cookbook :: cookbook where
  "own_cookbook = \<lparr>cb_id = ''cb'', cb_name = ''c'', cb_owner = ''acc_1'', cb_created_at = 0, cb_repo_path = None\<rparr>"

definition second_owner :: share where
  "second_owner = \<lparr>sh_id = ''h1'', sh_cookbook = ''cb'', sh_account = ''acc_2'', sh_role = Owner, sh_by = ''acc_1'', sh_at = 1,
     sh_revoked_at = None\<rparr>"

lemma sharing_authority_witness:
  "role_for_existing_cookbook own_cookbook owner_caller
     (snd (share_apply ''cb'' (RevokeShare ''h1'') (owner_caller\<lparr>ca_account := ''acc_2''\<rparr>) 5
        (shared_db own_cookbook [second_owner] []))) = Some Owner"
proof -
  have "shares_ok (db_shares (shared_db own_cookbook [second_owner] []))" by (simp add: shares_ok_def shared_db_def)
  moreover have "is_caller_cookbook_owner own_cookbook owner_caller (shared_db own_cookbook [second_owner] [])"
    by (simp add: is_caller_cookbook_owner_def own_cookbook_def owner_caller_def)
  ultimately show ?thesis using sharing_authority by blast
qed

section \<open>Which grant covers a repository\<close>

lemma cover_scan_slots:
  "cover_scan x w ow gs (a, b, c) = (a', b', c') \<Longrightarrow>
     a' = (if a \<noteq> None then a else find (\<lambda>g. gr_scope g = x) gs) \<and>
     (a' = None \<longrightarrow> b' = (if b \<noteq> None then b else find (\<lambda>g. gr_scope g = w) gs)) \<and>
     (a' = None \<and> b' = None \<longrightarrow> c' = (if c \<noteq> None then c else find (\<lambda>g. gr_scope g = ow) gs))"
proof (induction gs arbitrary: a b c)
  case (Cons g gs)
  note IH = Cons.IH
  show ?case
  proof (cases "gr_scope g = x \<and> a = None")
    case True
    then show ?thesis using IH [of "Some g" b c] Cons.prems by simp
  next
    case x: False
    show ?thesis
    proof (cases "gr_scope g = w \<and> b = None")
      case True
      then show ?thesis using IH [of a "Some g" c] Cons.prems x by (auto split: if_splits)
    next
      case w: False
      show ?thesis
      proof (cases "gr_scope g = ow \<and> c = None")
        case True
        then show ?thesis using IH [of a b "Some g"] Cons.prems x w by (auto split: if_splits)
      next
        case False
        then show ?thesis using IH [of a b c] Cons.prems x w by (auto split: if_splits)
      qed
    qed
  qed
qed simp

lemma find_sort_key:
  assumes "find Q (sort_key f xs) = Some g"
  shows "g \<in> set xs \<and> Q g \<and> (\<forall>h\<in>set xs. Q h \<longrightarrow> f g \<le> f h)"
proof -
  have "find Q ys = Some g \<Longrightarrow> sorted (map f ys) \<Longrightarrow> g \<in> set ys \<and> Q g \<and> (\<forall>h\<in>set ys. Q h \<longrightarrow> f g \<le> f h)" for ys
    by (induction ys) (auto split: if_splits)
  from this [OF assms] show ?thesis by simp
qed

text \<open>How specific a scope is for a repository: the repository, its owner with a star, the owner alone.\<close>

definition scope_tier :: "string \<Rightarrow> string \<Rightarrow> string \<Rightarrow> nat option" where
  "scope_tier ow repo sc = (if sc = ow @ ''/'' @ repo then Some 1 else if sc = ow @ ''/*'' then Some 2
     else if sc = ow then Some 3 else None)"

definition covers :: "string \<Rightarrow> repo_provider \<Rightarrow> string \<Rightarrow> string \<Rightarrow> grant \<Rightarrow> bool" where
  "covers c p ow repo g \<longleftrightarrow> gr_cookbook g = c \<and> gr_provider g = p \<and> gr_revoked_at g = None \<and> scope_tier ow repo (gr_scope g) \<noteq> None"

text \<open>A repository can be cloned exactly when some grant of the cookbook that was not revoked covers it,
  and the grant used is the most specific one, the earliest among equals.\<close>

theorem find_covering_best:
  "(case find_covering c p ow repo s of
      None \<Rightarrow> \<forall>g\<in>set (db_grants s). \<not> covers c p ow repo g
    | Some g \<Rightarrow> g \<in> set (db_grants s) \<and> covers c p ow repo g \<and>
        (\<forall>h\<in>set (db_grants s). covers c p ow repo h \<longrightarrow>
           the (scope_tier ow repo (gr_scope g)) < the (scope_tier ow repo (gr_scope h)) \<or>
           scope_tier ow repo (gr_scope g) = scope_tier ow repo (gr_scope h) \<and> gr_at g \<le> gr_at h))"
proof -
  let ?act = "\<lambda>g. gr_cookbook g = c \<and> gr_provider g = p \<and> gr_revoked_at g = None"
  define X where "X = ow @ ''/'' @ repo"
  define W where "W = ow @ ''/*''"
  define rows where "rows = filter ?act (db_grants s)"
  define first where "first = (\<lambda>t. find (\<lambda>g. gr_scope g = t) (sort_key gr_at rows))"
  obtain e w h where scan: "cover_scan X W ow (sort_key gr_at rows) (None, None, None) = (e, w, h)" by (metis prod_cases3)
  have slots: "e = first X" "e = None \<Longrightarrow> w = first W" "e = None \<Longrightarrow> w = None \<Longrightarrow> h = first ow"
    using cover_scan_slots [OF scan] by (simp_all add: first_def)
  have res: "find_covering c p ow repo s = (if e \<noteq> None then e else if w \<noteq> None then w else h)"
    using scan unfolding find_covering_def X_def W_def rows_def Let_def by simp
  have tier: "scope_tier ow repo t = (if t = X then Some 1 else if t = W then Some 2 else if t = ow then Some 3 else None)" for t
    by (simp add: scope_tier_def X_def W_def)
  have ne: "X \<noteq> ow" "W \<noteq> ow" by (simp_all add: X_def W_def)
  have none: "gr_scope g \<noteq> t" if "first t = None" "g \<in> set rows" for t g
    using that by (auto simp: first_def find_None_iff)
  have some: "g \<in> set rows \<and> gr_scope g = t \<and> (\<forall>k\<in>set rows. gr_scope k = t \<longrightarrow> gr_at g \<le> gr_at k)" if "first t = Some g" for t g
    using find_sort_key [OF that [unfolded first_def]] by simp
  have cov: "covers c p ow repo g \<and> g \<in> set (db_grants s) \<longleftrightarrow> g \<in> set rows \<and> scope_tier ow repo (gr_scope g) \<noteq> None" for g
    by (auto simp: rows_def covers_def)
  have best: ?thesis if "find_covering c p ow repo s = Some g" "first t = Some g" "scope_tier ow repo t = Some n"
      "\<And>k. k \<in> set rows \<Longrightarrow> scope_tier ow repo (gr_scope k) \<noteq> None \<Longrightarrow> gr_scope k = t \<or> n < the (scope_tier ow repo (gr_scope k))"
    for g t n
  proof -
    have g: "g \<in> set rows" "gr_scope g = t" "\<And>k. k \<in> set rows \<Longrightarrow> gr_scope k = t \<Longrightarrow> gr_at g \<le> gr_at k"
      using some [OF that(2)] by auto
    then show ?thesis using cov [of g] that(1,3,4) cov by (simp, metis option.sel)
  qed
  show ?thesis
  proof (cases e)
    case (Some g)
    then show ?thesis by (intro best [of g X 1]) (auto simp: res slots(1) [symmetric] tier split: if_splits)
  next
    case e: None
    note x = none [OF slots(1) [symmetric, unfolded e]]
    show ?thesis
    proof (cases w)
      case (Some g)
      then have "first W = Some g" using slots(2) [OF e] by simp
      moreover from this have "X \<noteq> W" using slots(1) e by auto
      ultimately show ?thesis using x Some by (intro best [of g W 2]) (auto simp: res e tier split: if_splits)
    next
      case w: None
      note wild = none [OF slots(2) [OF e, symmetric, unfolded w]]
      show ?thesis
      proof (cases h)
        case (Some g)
        then show ?thesis using x wild ne slots(3) [OF e w] by (intro best [of g ow 3]) (auto simp: res e w tier split: if_splits)
      next
        case None
        then have "gr_scope g \<noteq> ow" if "g \<in> set rows" for g using none [of ow] slots(3) [OF e w] that by simp
        then have "scope_tier ow repo (gr_scope g) = None" if "g \<in> set rows" for g using x wild that by (simp add: tier)
        then have "\<not> (covers c p ow repo g \<and> g \<in> set (db_grants s))" for g using cov [of g] by auto
        then show ?thesis using None by (auto simp: res e w)
      qed
    qed
  qed
qed

definition repo_grant :: "string \<Rightarrow> string \<Rightarrow> int \<Rightarrow> grant" where
  "repo_grant i scope w = \<lparr>gr_id = i, gr_cookbook = ''cb'', gr_provider = Github, gr_scope = scope, gr_token_ref = ''vault'',
     gr_by = ''acc_1'', gr_at = w, gr_revoked_at = None\<rparr>"

lemma find_covering_best_witness:
  "find_covering ''cb'' Github ''o'' ''r'' (shared_db own_cookbook [] [repo_grant ''g1'' ''o/*'' 1, repo_grant ''g2'' ''o/r'' 2]) =
     Some (repo_grant ''g2'' ''o/r'' 2)"
proof -
  let ?s = "shared_db own_cookbook [] [repo_grant ''g1'' ''o/*'' 1, repo_grant ''g2'' ''o/r'' 2]"
  have gs: "db_grants ?s = [repo_grant ''g1'' ''o/*'' 1, repo_grant ''g2'' ''o/r'' 2]" by (simp add: shared_db_def)
  have t: "scope_tier ''o'' ''r'' ''o/*'' = Some 2" "scope_tier ''o'' ''r'' ''o/r'' = Some 1" by (simp_all add: scope_tier_def)
  have cov: "covers ''cb'' Github ''o'' ''r'' (repo_grant ''g2'' ''o/r'' 2)" by (simp add: covers_def repo_grant_def t)
  have sc: "gr_scope (repo_grant i sc w) = sc" for i sc w by (simp add: repo_grant_def)
  note best = find_covering_best [where c = "''cb''" and p = Github and ow = "''o''" and repo = "''r''" and s = ?s]
  show ?thesis
  proof (cases "find_covering ''cb'' Github ''o'' ''r'' ?s")
    case None
    then show ?thesis using best cov by (simp add: gs)
  next
    case (Some g)
    then have "g \<in> set (db_grants ?s)" "the (scope_tier ''o'' ''r'' (gr_scope g)) \<le> 1"
      using best cov by (auto simp: gs sc t)
    then have "g = repo_grant ''g2'' ''o/r'' 2" by (auto simp: gs sc t)
    then show ?thesis using Some by simp
  qed
qed

end
