(* ===== verification/Links.thy ===== *)
theory Links
  imports Reachability Auth Task_Service
begin

text \<open>
  Task links (\<^verbatim>\<open>routes/links.py\<close>): creation behind two cycle guards, revocation, and the cascade
  that runs when a task is cancelled or removed.  The cascade is a recursion that shares its set of
  visited tasks; here its calls and the rows of its loops wait on one stack, in the order the code
  reaches them.
\<close>

section \<open>Cycle guards\<close>

definition link_active :: "link \<Rightarrow> bool" where
  "link_active l \<longleftrightarrow> link_revoked_at l = None"

definition bundle_deps :: "string \<Rightarrow> db \<Rightarrow> (string \<times> string list) list" where
  "bundle_deps b s = map (\<lambda>t. (task_id t, task_depends_on t)) (list_by_bundle b s)"

definition would_cycle :: "string \<Rightarrow> string \<Rightarrow> string \<Rightarrow> db \<Rightarrow> bool" where
  "would_cycle b from_id to_id s = search (bundle_deps b s) to_id [from_id] []"

definition active_edges :: "string \<Rightarrow> db \<Rightarrow> (string \<times> string) list" where
  "active_edges b s = map (\<lambda>l. (link_from l, link_to l))
     (filter (\<lambda>l. link_bundle l = b \<and> link_active l) (db_links s))"

definition would_cycle_links :: "string \<Rightarrow> string \<Rightarrow> string \<Rightarrow> db \<Rightarrow> bool" where
  "would_cycle_links b from_id to_id s = search (fold add_edge (active_edges b s) []) from_id [to_id] []"

section \<open>Creating a link\<close>

record new_linked_task =
  nt_title :: string
  nt_description :: "string option"
  nt_brief :: "json option"

record link_request =
  lr_to :: "string option"
  lr_new :: "new_linked_task option"
  lr_kind :: string
  lr_map :: "(string \<times> json) list"

definition VALID_KINDS :: "string list" where
  "VALID_KINDS = [''drives'', ''pipe'', ''subagent'']"

definition requested_kind :: "link_request \<Rightarrow> string" where
  "requested_kind r = str_lower (str_strip (if lr_kind r = [] then ''drives'' else lr_kind r))"

definition check_link_request :: "link_request \<Rightarrow> unit res" where
  "check_link_request r =
     (if requested_kind r \<notin> set VALID_KINDS
      then Inl (HTTPException 400 (''kind must be '' @ quoted ''drives'' @ '' (or legacy '' @ quoted ''pipe'' @ ''|'' @ quoted ''subagent'' @ '')''))
      else if (lr_to r = None) = (lr_new r = None)
      then Inl (HTTPException 400 ''exactly one of to_task_id or new_task is required'')
      else if dict_get (lr_map r) ''source'' \<notin> {JNull, JStr ''report'', JStr ''last_reply''}
      then Inl (HTTPException 400 ''payload_map.source must be report|last_reply'')
      else if dict_get (lr_map r) ''target'' \<notin> {JNull, JStr ''followup'', JStr ''brief_context''}
      then Inl (HTTPException 400 ''payload_map.target must be followup|brief_context'')
      else Inr ())"

text \<open>A plain UPDATE of one column of a task, without a new version.\<close>

definition set_column :: "string \<Rightarrow> (task \<Rightarrow> task) \<Rightarrow> db \<Rightarrow> db" where
  "set_column i f s = s\<lparr>db_tasks := rows_update (\<lambda>t. task_id t = i) f (db_tasks s)\<rparr>"

text \<open>The task the link points to: made here with its brief, or looked up.\<close>

definition link_target :: "task \<Rightarrow> link_request \<Rightarrow> int \<Rightarrow> db \<Rightarrow> string res \<times> db" where
  "link_target from_task r now s = (case lr_new r of
       Some nt \<Rightarrow>
         bind_st (add_task (task_bundle from_task) (nt_title nt) (nt_description nt) (Some []) now s)
           (\<lambda>created s1. (Inr (task_id created), case nt_brief nt of
               None \<Rightarrow> s1
             | Some b \<Rightarrow> set_column (task_id created) (\<lambda>t. t\<lparr>task_brief := b\<rparr>) s1))
     | None \<Rightarrow> (case lr_to r of
         None \<Rightarrow> (Inl (HTTPException 404 ''to task not found''), s)
       | Some i \<Rightarrow>
           if i = task_id from_task then (Inl (HTTPException 400 ''cannot link a task to itself''), s)
           else (case task_get i s of
               None \<Rightarrow> (Inl (HTTPException 404 ''to task not found''), s)
             | Some t \<Rightarrow> if task_bundle t \<noteq> task_bundle from_task
                 then (Inl (HTTPException 400 ''links cannot cross bundles (v1)''), s)
                 else (Inr i, s))))"

definition duplicate_link :: "string \<Rightarrow> string \<Rightarrow> string \<Rightarrow> db \<Rightarrow> bool" where
  "duplicate_link from_id to_id kind s \<longleftrightarrow>
     list_ex (\<lambda>l. link_from l = from_id \<and> link_to l = to_id \<and> link_kind l = kind \<and> link_active l) (db_links s)"

text \<open>The dependencies of a task are rewritten and the change published without a cookbook.\<close>

definition rewrite_deps :: "string \<Rightarrow> string list \<Rightarrow> int \<Rightarrow> db \<Rightarrow> task option res \<times> db" where
  "rewrite_deps i deps now s = bind_st (task_update i (no_update\<lparr>up_depends_on := Some deps\<rparr>) now s)
     (\<lambda>updated s1. (Inr updated, publish_opt updated None now s1))"

definition add_pipe_dep :: "string \<Rightarrow> string \<Rightarrow> int \<Rightarrow> db \<Rightarrow> unit res \<times> db" where
  "add_pipe_dep from_id to_id now s = (case task_get to_id s of
       None \<Rightarrow> (Inl (HTTPException 404 ''to task not found''), s)
     | Some t \<Rightarrow>
         if from_id \<in> set (task_depends_on t) then (Inr (), s)
         else bind_st (rewrite_deps to_id (task_depends_on t @ [from_id]) now s) (\<lambda>_ s1. (Inr (), s1)))"

definition insert_link :: "link \<Rightarrow> db \<Rightarrow> unit res \<times> db" where
  "insert_link l s = (if row_get link_id (link_id l) (db_links s) \<noteq> None then (Inl IntegrityError, s)
     else (Inr (), s\<lparr>db_links := db_links s @ [l]\<rparr>))"

definition new_link :: "string \<Rightarrow> task \<Rightarrow> string \<Rightarrow> link_request \<Rightarrow> caller \<Rightarrow> int \<Rightarrow> link" where
  "new_link i from_task to_id r c now =
     \<lparr>link_id = i, link_bundle = task_bundle from_task, link_from = task_id from_task, link_to = to_id,
      link_kind = requested_kind r, link_payload_map = lr_map r, link_account = ca_account c,
      link_created_by_task = (if lr_new r \<noteq> None then Some (task_id from_task) else None),
      link_created_at = now, link_fired_at = None, link_revoked_at = None\<rparr>"

definition store_link :: "task \<Rightarrow> string \<Rightarrow> link_request \<Rightarrow> caller \<Rightarrow> int \<Rightarrow> db \<Rightarrow> link res \<times> db" where
  "store_link from_task to_id r c now s =
     (let (i, s1) = draw ''lnk_'' s; l = new_link i from_task to_id r c now in
      bind_st (insert_link l s1) (\<lambda>_ s2. (Inr l,
        if lr_new r \<noteq> None
        then set_column to_id (\<lambda>t. t\<lparr>task_created_by := Some (task_id from_task)\<rparr>) s2 else s2)))"

text \<open>The link returned comes with the kind of principal that drew it and the target's row.\<close>

definition create_link :: "string \<Rightarrow> link_request \<Rightarrow> caller \<Rightarrow> int \<Rightarrow> db \<Rightarrow> (link \<times> string \<times> task option) res \<times> db" where
  "create_link from_id r c now s = (case check_link_request r of
       Inl e \<Rightarrow> (Inl e, s)
     | Inr _ \<Rightarrow> (case task_get from_id s of
         None \<Rightarrow> (Inl (HTTPException 404 ''from task not found''), s)
       | Some from_task \<Rightarrow> (case require_bundle_owner (task_bundle from_task) c s of
           Inl e \<Rightarrow> (Inl e, s)
         | Inr _ \<Rightarrow> bind_st (link_target from_task r now s) (\<lambda>to_id s1.
             if duplicate_link from_id to_id (requested_kind r) s1
             then (Inl (HTTPException 409 ''link already exists''), s1)
             else if lr_new r = None \<and> (would_cycle (task_bundle from_task) from_id to_id s1 \<or>
                 would_cycle_links (task_bundle from_task) from_id to_id s1)
             then (Inl (HTTPException 400 ''link would create a dependency cycle''), s1)
             else bind_st (if requested_kind r = ''pipe'' then add_pipe_dep from_id to_id now s1 else (Inr (), s1))
               (\<lambda>_ s2. bind_st (store_link from_task to_id r c now s2)
                 (\<lambda>l s3. (Inr (l, ca_principal c, task_get to_id s3), s3)))))))"

definition list_links :: "string \<Rightarrow> bool \<Rightarrow> db \<Rightarrow> link list" where
  "list_links b include_revoked s = sort_key link_created_at
     (filter (\<lambda>l. link_bundle l = b \<and> (include_revoked \<or> link_active l)) (db_links s))"

section \<open>Revoking a link\<close>

definition revoke_row :: "string \<Rightarrow> int \<Rightarrow> db \<Rightarrow> db" where
  "revoke_row i now s = s\<lparr>db_links := rows_update (\<lambda>l. link_id l = i)
     (\<lambda>l. l\<lparr>link_revoked_at := Some now\<rparr>) (db_links s)\<rparr>"

definition other_pipes :: "link \<Rightarrow> db \<Rightarrow> link list" where
  "other_pipes l s = filter (\<lambda>m. link_from m = link_from l \<and> link_to m = link_to l \<and>
     link_kind m = ''pipe'' \<and> link_active m \<and> link_id m \<noteq> link_id l) (db_links s)"

definition drop_dep :: "string \<Rightarrow> task \<Rightarrow> int \<Rightarrow> db \<Rightarrow> task option res \<times> db" where
  "drop_dep from_id t now s = rewrite_deps (task_id t) (filter (\<lambda>d. d \<noteq> from_id) (task_depends_on t)) now s"

definition unwind_pipe :: "link \<Rightarrow> int \<Rightarrow> db \<Rightarrow> unit res \<times> db" where
  "unwind_pipe l now s =
     (if link_kind l \<noteq> ''pipe'' \<or> other_pipes l s \<noteq> [] then (Inr (), s)
      else case task_get (link_to l) s of
          None \<Rightarrow> (Inr (), s)
        | Some t \<Rightarrow> if link_from l \<notin> set (task_depends_on t) then (Inr (), s)
            else bind_st (drop_dep (link_from l) t now s) (\<lambda>_ s1. (Inr (), s1)))"

text \<open>The boolean tells a link that was revoked already.\<close>

definition revoke_link :: "string \<Rightarrow> caller \<Rightarrow> int \<Rightarrow> db \<Rightarrow> (link \<times> bool) res \<times> db" where
  "revoke_link i c now s = (case row_get link_id i (db_links s) of
       None \<Rightarrow> (Inl (HTTPException 404 ''link not found''), s)
     | Some l \<Rightarrow> (case require_bundle_owner (link_bundle l) c s of
         Inl e \<Rightarrow> (Inl e, s)
       | Inr _ \<Rightarrow>
           if \<not> link_active l then (Inr (l, True), s)
           else bind_st (unwind_pipe l now (revoke_row i now s)) (\<lambda>_ s1.
             (case row_get link_id i (db_links s1) of
                None \<Rightarrow> Inl (TypeError [Lit ''NoneType object is not subscriptable''])
              | Some l' \<Rightarrow> Inr (l', False), s1))))"

section \<open>The cascade\<close>

text \<open>\<open>Enter t\<close> is a call on \<open>t\<close>, \<open>Row t l\<close> a turn of its loop.\<close>

datatype cascade_item = Enter string | Row string link

record cascade_summary =
  cs_revoked :: nat
  cs_cancelled :: "string list"
  cs_unblocked :: "string list"

datatype row_outcome = Nothing | Cancelled string | Unblocked string

definition touches :: "string \<Rightarrow> link \<Rightarrow> bool" where
  "touches i l \<longleftrightarrow> link_from l = i \<or> link_to l = i"

definition links_of :: "string \<Rightarrow> db \<Rightarrow> link list" where
  "links_of i s = filter (\<lambda>l. touches i l \<and> link_active l) (db_links s)"

definition drives_child :: "string \<Rightarrow> link \<Rightarrow> bool" where
  "drives_child i l \<longleftrightarrow> link_kind l = ''drives'' \<or>
     (link_kind l = ''subagent'' \<and> link_created_by_task l = Some i)"

definition cascade_row :: "string \<Rightarrow> link \<Rightarrow> int \<Rightarrow> db \<Rightarrow> row_outcome res \<times> db" where
  "cascade_row i l now s =
     (let s1 = revoke_row (link_id l) now s in
      if link_from l \<noteq> i then (Inr Nothing, s1)
      else case task_get (link_to l) s1 of
        None \<Rightarrow> (Inr Nothing, s1)
      | Some child \<Rightarrow>
          if drives_child i l then
            if task_status child \<in> {TDone, TCancelled} then (Inr Nothing, s1)
            else bind_st (cancel_task (task_id child) now s1) (\<lambda>r s2.
              (Inr (if r \<noteq> None then Cancelled (task_id child) else Nothing), s2))
          else if link_kind l = ''pipe'' \<and> i \<in> set (task_depends_on child) then
            bind_st (drop_dep i child now s1) (\<lambda>r s2.
              (Inr (if r \<noteq> None then Unblocked (task_id child) else Nothing), s2))
          else (Inr Nothing, s1))"

definition tally :: "row_outcome \<Rightarrow> cascade_summary \<Rightarrow> cascade_summary" where
  "tally out c = (case out of
       Nothing \<Rightarrow> c\<lparr>cs_revoked := cs_revoked c + 1\<rparr>
     | Cancelled i \<Rightarrow> c\<lparr>cs_revoked := cs_revoked c + 1, cs_cancelled := cs_cancelled c @ [i]\<rparr>
     | Unblocked i \<Rightarrow> c\<lparr>cs_revoked := cs_revoked c + 1, cs_unblocked := cs_unblocked c @ [i]\<rparr>)"

definition calls_of :: "row_outcome \<Rightarrow> cascade_item list" where
  "calls_of out = (case out of Cancelled i \<Rightarrow> [Enter i] | _ \<Rightarrow> [])"

function cascade_loop :: "int \<Rightarrow> cascade_item list \<Rightarrow> string list \<Rightarrow> cascade_summary \<Rightarrow> db \<Rightarrow> cascade_summary res \<times> db" where
  "cascade_loop now [] seen c s = (Inr c, s)"
| "cascade_loop now (Enter i # todo) seen c s =
     (if i \<in> set seen then cascade_loop now todo seen c s
      else cascade_loop now (map (Row i) (links_of i s) @ todo) (i # seen) c s)"
| "cascade_loop now (Row i l # todo) seen c s = (case cascade_row i l now s of
       (Inl e, s1) \<Rightarrow> (Inl e, s1)
     | (Inr out, s1) \<Rightarrow> cascade_loop now (calls_of out @ todo) seen (tally out c) s1)"
  by pat_completeness auto

definition cascade_on_task_termination :: "string \<Rightarrow> int \<Rightarrow> db \<Rightarrow> cascade_summary res \<times> db" where
  "cascade_on_task_termination i now s =
     cascade_loop now [Enter i] [] \<lparr>cs_revoked = 0, cs_cancelled = [], cs_unblocked = []\<rparr> s"

subsection \<open>It ends\<close>

text \<open>Every call on a task that some link touches uses one such task up; a row leaves at most a call.\<close>

definition link_ends :: "db \<Rightarrow> string set" where
  "link_ends s = link_from ` set (db_links s) \<union> link_to ` set (db_links s)"

fun item_weight :: "cascade_item \<Rightarrow> nat" where
  "item_weight (Enter i) = 1"
| "item_weight (Row i l) = 2"

lemma revoke_row_simps [simp]:
  "db_tasks (revoke_row i now s) = db_tasks s" "db_bundles (revoke_row i now s) = db_bundles s"
  "task_get j (revoke_row i now s) = task_get j s" "bundle_get j (revoke_row i now s) = bundle_get j s"
  by (simp_all add: revoke_row_def task_get_def bundle_get_def)

lemma publish_opt_simps [simp]:
  "db_tasks (publish_opt r cb now s) = db_tasks s" "db_links (publish_opt r cb now s) = db_links s"
  "db_bundles (publish_opt r cb now s) = db_bundles s"
  by (simp_all add: publish_opt_def publish_task_def split: option.split)

definition deps_update :: "string list \<Rightarrow> task_changes" where
  "deps_update deps = no_update\<lparr>up_depends_on := Some deps\<rparr>"

lemma rewrite_deps_eq:
  "rewrite_deps i deps now s =
     (Inr (map_option (apply_update (deps_update deps, now)) (task_get i s)),
      publish_opt (map_option (apply_update (deps_update deps, now)) (task_get i s)) None now
        (s\<lparr>db_tasks := rows_update (\<lambda>t. task_id t = i) (apply_update (deps_update deps, now)) (db_tasks s)\<rparr>))"
  by (simp add: rewrite_deps_def deps_update_def task_update_plain nothing_set_def spec_changed_def no_update_def)

definition cancel_update :: task_changes where
  "cancel_update = no_update\<lparr>up_status := Some TCancelled, up_clear_blocked_reason := True\<rparr>"

definition cancellable :: "task \<Rightarrow> bool" where
  "cancellable t \<longleftrightarrow> task_status t \<in> {TOpen, TClaimed, TWorking}"

lemma cancel_task_eq:
  "task_get i s = Some t \<Longrightarrow> cancel_task i now s =
     (if cancellable t then
        (Inr (Some (apply_update (cancel_update, now) t)),
         publish_task_update (apply_update (cancel_update, now) t) now
           (s\<lparr>db_tasks := rows_update (\<lambda>t. task_id t = i) (apply_update (cancel_update, now)) (db_tasks s)\<rparr>))
      else (Inr None, s))"
  by (simp add: cancel_task_def update_and_publish_def task_update_plain nothing_set_def no_update_def
      cancel_update_def cancellable_def)

lemma publish_task_update_simps [simp]:
  "db_tasks (publish_task_update t now s) = db_tasks s" "db_links (publish_task_update t now s) = db_links s"
  "db_bundles (publish_task_update t now s) = db_bundles s"
  by (simp_all add: publish_task_update_def publish_task_def split: option.split)

text \<open>What a turn does, case by case: it never raises, revokes the row, and rewrites at most the
  child.\<close>

lemma cascade_row_cases:
  obtains
    (none) "cascade_row i l now s = (Inr Nothing, revoke_row (link_id l) now s)"
      "link_from l = i \<and> drives_child i l \<longrightarrow> (\<forall>t. task_get (link_to l) s = Some t \<longrightarrow> \<not> cancellable t)"
  | (cancelled) s' t where "cascade_row i l now s = (Inr (Cancelled (link_to l)), s')" "link_from l = i"
      "drives_child i l" "task_get (link_to l) s = Some t" "cancellable t"
      "db_links s' = db_links (revoke_row (link_id l) now s)" "db_bundles s' = db_bundles s"
      "db_tasks s' = rows_update (\<lambda>t. task_id t = link_to l) (apply_update (cancel_update, now)) (db_tasks s)"
  | (unblocked) s' t where "cascade_row i l now s = (Inr (Unblocked (link_to l)), s')" "link_from l = i"
      "\<not> drives_child i l" "i \<in> set (task_depends_on t)" "task_get (link_to l) s = Some t"
      "db_links s' = db_links (revoke_row (link_id l) now s)" "db_bundles s' = db_bundles s"
      "db_tasks s' = rows_update (\<lambda>t. task_id t = link_to l)
         (apply_update (deps_update (filter (\<lambda>d. d \<noteq> i) (task_depends_on t)), now)) (db_tasks s)"
proof (cases "task_get (link_to l) s")
  case None
  then show ?thesis by (intro that(1)) (auto simp: cascade_row_def Let_def)
next
  case (Some t)
  note key = task_get_key [OF this]
  note eqs = cascade_row_def Let_def Some key
  consider "link_from l \<noteq> i" | "link_from l = i" "drives_child i l" "\<not> cancellable t"
    | "link_from l = i" "drives_child i l" "cancellable t"
    | "link_from l = i" "\<not> drives_child i l" "link_kind l = ''pipe'' \<and> i \<in> set (task_depends_on t)"
    | "link_from l = i" "\<not> drives_child i l" "\<not> (link_kind l = ''pipe'' \<and> i \<in> set (task_depends_on t))"
    by blast
  then show ?thesis
  proof cases
    case 1
    then show ?thesis by (intro that(1)) (simp_all add: eqs)
  next
    case 2
    then show ?thesis
      by (intro that(1)) (simp_all add: eqs cancel_task_eq)
  next
    case 3
    then have "task_status t \<notin> {TDone, TCancelled}" by (auto simp: cancellable_def)
    with 3 show ?thesis
      by (intro that(2) [of "snd (cascade_row i l now s)", OF _ 3(1,2) Some 3(3)]) (simp_all add: eqs cancel_task_eq)
  next
    case 4
    then show ?thesis
      by (intro that(3) [of "snd (cascade_row i l now s)", OF _ 4(1,2) _ Some]) (simp_all add: eqs drop_dep_def rewrite_deps_eq)
  next
    case 5
    then show ?thesis by (intro that(1)) (auto simp: eqs)
  qed
qed

lemma revoke_row_maps:
  "map link_from (db_links (revoke_row i now s)) = map link_from (db_links s)"
  "map link_to (db_links (revoke_row i now s)) = map link_to (db_links s)"
  "map link_id (db_links (revoke_row i now s)) = map link_id (db_links s)"
  by (simp_all add: revoke_row_def rows_update_def o_def if_distrib cong: if_cong)

lemma cascade_row_links:
  assumes "cascade_row i l now s = (r, s')"
  shows "db_links s' = db_links (revoke_row (link_id l) now s)"
  by (rule cascade_row_cases [of i l now s]) (use assms in simp_all)

lemma link_ends_maps: "link_ends s = set (map link_from (db_links s)) \<union> set (map link_to (db_links s))"
  by (simp add: link_ends_def)

lemma link_ends_row: "cascade_row i l now s = (r, s') \<Longrightarrow> link_ends s' = link_ends s"
  unfolding link_ends_maps by (drule cascade_row_links) (simp only: revoke_row_maps)

lemma links_of_outside: "i \<notin> link_ends s \<Longrightarrow> links_of i s = []"
  by (auto simp: links_of_def link_ends_def touches_def filter_empty_conv)

lemma finite_link_ends [simp]: "finite (link_ends s)"
  by (simp add: link_ends_def)

termination cascade_loop
proof (relation "measures [\<lambda>(_, _, seen, _, s). card (link_ends s - set seen),
     \<lambda>(_, todo, _, _, _). sum_list (map item_weight todo)]", goal_cases)
  case (3 now i todo seen c s)
  show ?case
  proof (cases "i \<in> link_ends s")
    case True
    then have "card (link_ends s - set (i # seen)) < card (link_ends s - set seen)"
      using 3 by (intro psubset_card_mono) auto
    then show ?thesis by simp
  next
    case False
    then have "link_ends s - set (i # seen) = link_ends s - set seen" by auto
    with links_of_outside [OF False] show ?thesis by simp
  qed
next
  case (4 now i l todo seen c s r s1 out)
  then have "link_ends s1 = link_ends s" using link_ends_row by metis
  moreover have "sum_list (map item_weight (calls_of out)) \<le> 1" by (simp add: calls_of_def split: row_outcome.split)
  ultimately show ?case by simp
qed auto

subsection \<open>What it leaves behind\<close>

definition status_of :: "string \<Rightarrow> db \<Rightarrow> task_status option" where
  "status_of i s = map_option task_status (task_get i s)"

text \<open>A task that \<open>cancel_task\<close> does not stop, or no task at all.\<close>

definition settled :: "string \<Rightarrow> db \<Rightarrow> bool" where
  "settled i s \<longleftrightarrow> status_of i s \<notin> {Some TOpen, Some TClaimed, Some TWorking}"

lemma settled_iff: "settled i s \<longleftrightarrow> (\<forall>t. task_get i s = Some t \<longrightarrow> \<not> cancellable t)"
  by (cases "task_get i s") (simp_all add: settled_def status_of_def cancellable_def)

lemma cascade_row_spec:
  assumes "cascade_row i l now s = (r, s')"
  obtains out where "r = Inr out"
    "\<And>j. status_of j s' = (if out = Cancelled j then Some TCancelled else status_of j s)"
    "\<And>j. out = Cancelled j \<Longrightarrow> \<not> settled j s"
    "link_from l = i \<Longrightarrow> drives_child i l \<Longrightarrow> settled (link_to l) s'"
proof (cases rule: cascade_row_cases [of i l now s])
  case none
  show ?thesis
    by (rule that [of Nothing]) (use assms none in \<open>auto simp: status_of_def settled_iff\<close>)
next
  case (cancelled s'' t)
  have st: "status_of j s'' = (if link_to l = j then Some TCancelled else status_of j s)" for j
    using cancelled(4) unfolding status_of_def task_get_def cancelled(8) task_rows.get_update_key
    by (cases "link_to l = j") (auto simp: apply_update_def cancel_update_def update_simps)
  have "r = Inr (Cancelled (link_to l))" "s' = s''" "\<not> settled (link_to l) s"
    using assms cancelled(1,4,5) by (simp_all add: settled_iff)
  moreover have "settled (link_to l) s''" by (simp add: settled_def st)
  ultimately show ?thesis by (intro that [of "Cancelled (link_to l)"]) (simp_all add: st)
next
  case (unblocked s'' t)
  have st: "status_of j s'' = status_of j s" for j
    unfolding status_of_def task_get_def unblocked(8) task_rows.get_update_key
    by (simp add: apply_update_def deps_update_def update_simps option.map_comp o_def)
  have "r = Inr (Unblocked (link_to l))" "s' = s''" using assms unblocked(1) by simp_all
  then show ?thesis by (intro that [of "Unblocked (link_to l)"]) (use unblocked(3) in \<open>simp_all add: st\<close>)
qed

lemma active_after_revoke:
  "m \<in> set (db_links (revoke_row i now s)) \<and> link_active m \<longleftrightarrow>
     m \<in> set (db_links s) \<and> link_active m \<and> link_id m \<noteq> i"
  by (auto simp: revoke_row_def link_active_def rows_update_def split: if_splits)

text \<open>The loop's invariant: \<open>s0\<close> is the database the cascade on \<open>i0\<close> started from.\<close>

definition cascade_inv :: "db \<Rightarrow> string \<Rightarrow> cascade_item list \<Rightarrow> string list \<Rightarrow> cascade_summary \<Rightarrow> db \<Rightarrow> bool" where
  "cascade_inv s0 i0 todo seen c s \<longleftrightarrow>
     (\<forall>l\<in>set (db_links s). link_active l \<longrightarrow> l \<in> set (db_links s0)) \<and>
     (\<forall>i l. Row i l \<in> set todo \<longrightarrow> i \<in> set seen \<and> touches i l \<and> l \<in> set (db_links s0)) \<and>
     (\<forall>i\<in>set seen. \<forall>l\<in>set (db_links s). link_active l \<and> touches i l \<longrightarrow> Row i l \<in> set todo) \<and>
     (\<forall>i. i \<in> set seen \<or> Enter i \<in> set todo \<longrightarrow> settled i s) \<and>
     (\<forall>l\<in>set (db_links s0). link_active l \<and> drives_child (link_from l) l \<longrightarrow>
        settled (link_to l) s \<or> (l \<in> set (db_links s) \<and> link_from l \<notin> set seen) \<or> Row (link_from l) l \<in> set todo) \<and>
     (\<forall>i\<in>insert i0 (set (cs_cancelled c)). i \<in> set seen \<or> Enter i \<in> set todo) \<and>
     (\<forall>i. if i \<in> set (cs_cancelled c) then \<not> settled i s0 \<and> status_of i s = Some TCancelled
          else status_of i s = status_of i s0)"

lemma cascade_invI:
  assumes "\<And>l. l \<in> set (db_links s) \<Longrightarrow> link_active l \<Longrightarrow> l \<in> set (db_links s0)"
    and "\<And>i l. Row i l \<in> set todo \<Longrightarrow> i \<in> set seen \<and> touches i l \<and> l \<in> set (db_links s0)"
    and "\<And>i l. i \<in> set seen \<Longrightarrow> l \<in> set (db_links s) \<Longrightarrow> link_active l \<Longrightarrow> touches i l \<Longrightarrow> Row i l \<in> set todo"
    and "\<And>i. i \<in> set seen \<or> Enter i \<in> set todo \<Longrightarrow> settled i s"
    and "\<And>l. l \<in> set (db_links s0) \<Longrightarrow> link_active l \<Longrightarrow> drives_child (link_from l) l \<Longrightarrow>
        settled (link_to l) s \<or> (l \<in> set (db_links s) \<and> link_from l \<notin> set seen) \<or> Row (link_from l) l \<in> set todo"
    and "\<And>i. i \<in> insert i0 (set (cs_cancelled c)) \<Longrightarrow> i \<in> set seen \<or> Enter i \<in> set todo"
    and "\<And>i. if i \<in> set (cs_cancelled c) then \<not> settled i s0 \<and> status_of i s = Some TCancelled
          else status_of i s = status_of i s0"
  shows "cascade_inv s0 i0 todo seen c s"
  unfolding cascade_inv_def using assms by blast

lemma cascade_invD:
  assumes "cascade_inv s0 i0 todo seen c s"
  shows "l \<in> set (db_links s) \<Longrightarrow> link_active l \<Longrightarrow> l \<in> set (db_links s0)"
    and "Row i l \<in> set todo \<Longrightarrow> i \<in> set seen \<and> touches i l \<and> l \<in> set (db_links s0)"
    and "i \<in> set seen \<Longrightarrow> l \<in> set (db_links s) \<Longrightarrow> link_active l \<Longrightarrow> touches i l \<Longrightarrow> Row i l \<in> set todo"
    and "i \<in> set seen \<or> Enter i \<in> set todo \<Longrightarrow> settled i s"
    and "l \<in> set (db_links s0) \<Longrightarrow> link_active l \<Longrightarrow> drives_child (link_from l) l \<Longrightarrow>
        settled (link_to l) s \<or> (l \<in> set (db_links s) \<and> link_from l \<notin> set seen) \<or> Row (link_from l) l \<in> set todo"
    and "i \<in> insert i0 (set (cs_cancelled c)) \<Longrightarrow> i \<in> set seen \<or> Enter i \<in> set todo"
    and "if i \<in> set (cs_cancelled c) then \<not> settled i s0 \<and> status_of i s = Some TCancelled
          else status_of i s = status_of i s0"
  using assms unfolding cascade_inv_def by blast+

lemma cascade_inv_again:
  assumes "cascade_inv s0 i0 (Enter i # todo) seen c s" "i \<in> set seen"
  shows "cascade_inv s0 i0 todo seen c s"
proof (rule cascade_invI)
  note d = cascade_invD [OF assms(1)]
  show "m \<in> set (db_links s0)" if "m \<in> set (db_links s)" "link_active m" for m using d(1) that .
  show "j \<in> set seen \<and> touches j m \<and> m \<in> set (db_links s0)" if "Row j m \<in> set todo" for j m
    using d(2) [of j m] that by simp
  show "Row j m \<in> set todo" if "j \<in> set seen" "m \<in> set (db_links s)" "link_active m" "touches j m" for j m
    using d(3) [OF that] by simp
  show "settled j s" if "j \<in> set seen \<or> Enter j \<in> set todo" for j using d(4) [of j] that by auto
  show "settled (link_to m) s \<or> (m \<in> set (db_links s) \<and> link_from m \<notin> set seen) \<or> Row (link_from m) m \<in> set todo"
    if "m \<in> set (db_links s0)" "link_active m" "drives_child (link_from m) m" for m
    using d(5) [OF that] by simp
  show "j \<in> set seen \<or> Enter j \<in> set todo" if "j \<in> insert i0 (set (cs_cancelled c))" for j
    using d(6) [OF that] assms(2) by auto
qed (rule cascade_invD(7) [OF assms(1)])

lemma cascade_inv_enter:
  assumes "cascade_inv s0 i0 (Enter i # todo) seen c s"
  shows "cascade_inv s0 i0 (map (Row i) (links_of i s) @ todo) (i # seen) c s"
proof (rule cascade_invI)
  note d = cascade_invD [OF assms]
  let ?todo = "map (Row i) (links_of i s) @ todo"
  show "m \<in> set (db_links s0)" if "m \<in> set (db_links s)" "link_active m" for m using d(1) that .
  show "j \<in> set (i # seen) \<and> touches j m \<and> m \<in> set (db_links s0)" if "Row j m \<in> set ?todo" for j m
    using d(2) [of j m] d(1) [of m] that by (auto simp: links_of_def)
  show "Row j m \<in> set ?todo" if "j \<in> set (i # seen)" "m \<in> set (db_links s)" "link_active m" "touches j m" for j m
    using that d(3) [OF _ that(2-4)] by (cases "j = i") (auto simp: links_of_def)
  show "settled j s" if "j \<in> set (i # seen) \<or> Enter j \<in> set ?todo" for j using d(4) [of j] that by auto
  show "settled (link_to m) s \<or> (m \<in> set (db_links s) \<and> link_from m \<notin> set (i # seen)) \<or> Row (link_from m) m \<in> set ?todo"
    if "m \<in> set (db_links s0)" "link_active m" "drives_child (link_from m) m" for m
    using d(5) [OF that] that(2) by (auto simp: links_of_def touches_def)
  show "j \<in> set (i # seen) \<or> Enter j \<in> set ?todo" if "j \<in> insert i0 (set (cs_cancelled c))" for j
    using d(6) [OF that] by auto
qed (rule cascade_invD(7) [OF assms])

lemma cascade_inv_row:
  assumes inv: "cascade_inv s0 i0 (Row i l # todo) seen c s" and ids: "distinct (map link_id (db_links s0))"
    and row: "cascade_row i l now s = (Inr out, s')"
  shows "cascade_inv s0 i0 (calls_of out @ todo) seen (tally out c) s'"
proof -
  note d = cascade_invD [OF inv]
  obtain sp: "\<And>j. status_of j s' = (if out = Cancelled j then Some TCancelled else status_of j s)"
    "\<And>j. out = Cancelled j \<Longrightarrow> \<not> settled j s"
    "link_from l = i \<Longrightarrow> drives_child i l \<Longrightarrow> settled (link_to l) s'"
    by (rule cascade_row_spec [OF row]) auto
  have keep: "settled j s \<Longrightarrow> settled j s'" for j using sp(1) [of j] by (auto simp: settled_def)
  have links: "m \<in> set (db_links s') \<and> link_active m \<longleftrightarrow> m \<in> set (db_links s) \<and> link_active m \<and> link_id m \<noteq> link_id l" for m
    unfolding cascade_row_links [OF row] by (rule active_after_revoke)
  have l: "i \<in> set seen" "touches i l" "l \<in> set (db_links s0)" using d(2) [of i l] by simp_all
  have same: "m = l" if "m \<in> set (db_links s0)" "link_id m = link_id l" for m
    using that l(3) ids by (auto simp: distinct_map inj_on_def)
  have canc: "set (cs_cancelled (tally out c)) = set (cs_cancelled c) \<union> {j. out = Cancelled j}"
    by (cases out) (auto simp: tally_def)
  have calls: "set (calls_of out) = {Enter j |j. out = Cancelled j}"
    by (cases out) (auto simp: calls_of_def)
  show ?thesis
  proof (rule cascade_invI)
    show "m \<in> set (db_links s0)" if "m \<in> set (db_links s')" "link_active m" for m
      using that links d(1) by blast
    show "j \<in> set seen \<and> touches j m \<and> m \<in> set (db_links s0)" if "Row j m \<in> set (calls_of out @ todo)" for j m
      using that d(2) [of j m] by (auto simp: calls)
    show "Row j m \<in> set (calls_of out @ todo)"
      if "j \<in> set seen" "m \<in> set (db_links s')" "link_active m" "touches j m" for j m
      using that links [of m] d(3) [of j m] by auto
    show "settled j s'" if "j \<in> set seen \<or> Enter j \<in> set (calls_of out @ todo)" for j
      using that d(4) [of j] keep [of j] sp(1) [of j] by (auto simp: calls settled_def)
    show "settled (link_to m) s' \<or> (m \<in> set (db_links s') \<and> link_from m \<notin> set seen) \<or>
        Row (link_from m) m \<in> set (calls_of out @ todo)"
      if m: "m \<in> set (db_links s0)" "link_active m" "drives_child (link_from m) m" for m
    proof (cases "link_id m = link_id l")
      case True
      then have "m = l" using same m(1) by blast
      moreover have "settled (link_to l) s'" if "link_from l \<noteq> i"
        using that l d(4) [of i] keep by (auto simp: touches_def)
      ultimately show ?thesis using sp(3) m(3) by blast
    next
      case False
      then show ?thesis using d(5) [OF m] links [of m] m(2) keep [of "link_to m"] by auto
    qed
    show "j \<in> set seen \<or> Enter j \<in> set (calls_of out @ todo)"
      if "j \<in> insert i0 (set (cs_cancelled (tally out c)))" for j
      using that d(6) [of j] by (auto simp: canc calls)
    show "if j \<in> set (cs_cancelled (tally out c)) then \<not> settled j s0 \<and> status_of j s' = Some TCancelled
        else status_of j s' = status_of j s0" for j
      using d(7) [of j] sp(1) [of j] sp(2) [of j] by (auto simp: canc settled_def split: if_splits)
  qed
qed

lemma cascade_loop_inv:
  assumes "cascade_inv s0 i0 todo seen c s" "distinct (map link_id (db_links s0))"
  shows "\<exists>c' s' seen'. cascade_loop now todo seen c s = (Inr c', s') \<and> cascade_inv s0 i0 [] seen' c' s'"
  using assms(1)
proof (induction now todo seen c s rule: cascade_loop.induct)
  case (2 now i todo seen c s)
  then show ?case using cascade_inv_again [of s0 i0 i todo] cascade_inv_enter [of s0 i0 i todo] by simp
next
  case (3 now i l todo seen c s)
  obtain r s1 where row: "cascade_row i l now s = (r, s1)" by fastforce
  then obtain out where r: "r = Inr out" by (rule cascade_row_spec)
  from 3(1) [OF row [symmetric] r cascade_inv_row [OF 3(2) assms(2) row [unfolded r]]] row r show ?case by simp
qed auto

text \<open>C13: the cascade on a task that is itself over (cancelled, done or gone) always returns, and then
  no active link touches the task or any task the cascade reports as cancelled; whatever any of them
  drove by a link that was active before (a \<open>drives\<close> link, or a \<open>subagent\<close> link it created) is no longer
  open, claimed or working; and the reported tasks are exactly those whose status changed, each from a
  cancellable one to cancelled.\<close>

theorem cascade_reclaims_subtree:
  assumes ids: "distinct (map link_id (db_links s))" and over: "settled i s"
  shows "\<exists>c s'. cascade_on_task_termination i now s = (Inr c, s') \<and>
     (\<forall>x\<in>insert i (set (cs_cancelled c)). links_of x s' = [] \<and>
        (\<forall>l\<in>set (db_links s). link_active l \<and> link_from l = x \<and> drives_child x l \<longrightarrow> settled (link_to l) s')) \<and>
     (\<forall>x. if x \<in> set (cs_cancelled c) then \<not> settled x s \<and> status_of x s' = Some TCancelled
          else status_of x s' = status_of x s)"
proof -
  let ?c = "\<lparr>cs_revoked = 0, cs_cancelled = [], cs_unblocked = []\<rparr>"
  have "cascade_inv s i [Enter i] [] ?c s" using over by (simp add: cascade_inv_def)
  from cascade_loop_inv [OF this ids] obtain c s' seen where
    run: "cascade_on_task_termination i now s = (Inr c, s')" and inv: "cascade_inv s i [] seen c s'"
    unfolding cascade_on_task_termination_def by blast
  note d = cascade_invD [OF inv]
  have "links_of x s' = []" "\<forall>l\<in>set (db_links s). link_active l \<and> link_from l = x \<and> drives_child x l \<longrightarrow> settled (link_to l) s'"
    if "x \<in> insert i (set (cs_cancelled c))" for x
  proof -
    have seen: "x \<in> set seen" using d(6) [OF that] by simp
    show "links_of x s' = []" using d(3) [OF seen] by (auto simp: links_of_def filter_empty_conv)
    show "\<forall>l\<in>set (db_links s). link_active l \<and> link_from l = x \<and> drives_child x l \<longrightarrow> settled (link_to l) s'"
      using d(5) seen by auto
  qed
  with run d(7) show ?thesis by blast
qed

definition sample_link :: "string \<Rightarrow> string \<Rightarrow> string \<Rightarrow> string \<Rightarrow> link" where
  "sample_link i from_id to_id kind =
     \<lparr>link_id = i, link_bundle = ''b'', link_from = from_id, link_to = to_id, link_kind = kind,
      link_payload_map = [], link_account = ''op'', link_created_by_task = None, link_created_at = 1,
      link_fired_at = None, link_revoked_at = None\<rparr>"

text \<open>A cancelled task drives \<open>t1\<close>, which drives \<open>t2\<close>.\<close>

definition sample_links :: db where
  "sample_links = sample_db\<lparr>db_tasks := (fresh_task ''t0'' ''b'' ''over'' None [])\<lparr>task_status := TCancelled\<rparr> # db_tasks sample_db,
     db_links := [sample_link ''l1'' ''t0'' ''t1'' ''drives'', sample_link ''l2'' ''t1'' ''t2'' ''drives'']\<rparr>"

lemma cascade_reclaims_subtree_witness:
  "\<exists>c s'. cascade_on_task_termination ''t0'' 5 sample_links = (Inr c, s') \<and> links_of ''t0'' s' = [] \<and> settled ''t1'' s'"
proof -
  have "distinct (map link_id (db_links sample_links))" by (simp add: sample_links_def sample_link_def)
  moreover have "settled ''t0'' sample_links"
    by (simp add: settled_def status_of_def task_get_def sample_links_def fresh_task_def)
  moreover have "sample_link ''l1'' ''t0'' ''t1'' ''drives'' \<in> set (db_links sample_links)"
    "link_active (sample_link ''l1'' ''t0'' ''t1'' ''drives'')"
    "link_from (sample_link ''l1'' ''t0'' ''t1'' ''drives'') = ''t0''"
    "drives_child ''t0'' (sample_link ''l1'' ''t0'' ''t1'' ''drives'')"
    "link_to (sample_link ''l1'' ''t0'' ''t1'' ''drives'') = ''t1''"
    by (simp_all add: sample_links_def sample_link_def link_active_def drives_child_def)
  ultimately show ?thesis using cascade_reclaims_subtree [of sample_links "''t0''" 5] by fastforce
qed

end
