(* ===== verification/Link_Graph.thy ===== *)
theory Link_Graph
  imports Links
begin

text \<open>
  What the cycle guards of \<^verbatim>\<open>routes/links.py\<close> are for: the graph of a bundle's active links and the
  graph of its tasks' dependencies stay free of cycles, whatever \<open>create_link\<close> and \<open>revoke_link\<close> do.
\<close>

section \<open>Which bundle a task is in\<close>

definition bundle_of :: "string \<Rightarrow> db \<Rightarrow> string option" where
  "bundle_of i s = map_option task_bundle (task_get i s)"

definition keeps_place :: "(task \<Rightarrow> task) \<Rightarrow> bool" where
  "keeps_place f \<longleftrightarrow> (\<forall>t. task_id (f t) = task_id t \<and> task_bundle (f t) = task_bundle t \<and>
     task_depends_on (f t) = task_depends_on t)"

lemma bundle_of_map:
  assumes "\<And>t. task_id (f t) = task_id t" "\<And>t. task_bundle (f t) = task_bundle t"
    "db_tasks s' = rows_update P f (db_tasks s)"
  shows "bundle_of i s' = bundle_of i s"
proof -
  have "map_option task_bundle (row_get task_id i (rows_update P f rows)) = map_option task_bundle (row_get task_id i rows)"
    for rows by (induction rows) (auto simp: rows_update_def assms)
  then show ?thesis by (simp add: bundle_of_def task_get_def assms(3))
qed

lemma bundle_of_same: "db_tasks s' = db_tasks s \<Longrightarrow> bundle_of i s' = bundle_of i s"
  by (simp add: bundle_of_def task_get_def)

lemma set_column_simps [simp]:
  "db_links (set_column i f s) = db_links s" "db_bundles (set_column i f s) = db_bundles s"
  by (simp_all add: set_column_def)

text \<open>The graph of dependencies of a bundle.\<close>

definition dep_rel :: "string \<Rightarrow> db \<Rightarrow> (string \<times> string) set" where
  "dep_rel b s = {(task_id t, d) |t d. t \<in> set (db_tasks s) \<and> task_bundle t = b \<and> d \<in> set (task_depends_on t)}"

lemma succs_unique:
  "distinct (map key rows) \<Longrightarrow> r \<in> set rows \<Longrightarrow> succs (map (\<lambda>r. (key r, f r)) rows) (key r) = f r"
  by (induction rows) (auto simp: succs_def image_iff)

lemma edge_rel_deps:
  assumes "distinct (task_keys s)"
  shows "edge_rel (bundle_deps b s) = dep_rel b s"
proof -
  let ?rows = "list_by_bundle b s"
  have d: "distinct (map task_id ?rows)"
    using assms by (simp add: task_keys_def list_by_bundle_def distinct_map_filter)
  have "y \<in> set (succs (bundle_deps b s) x) \<longleftrightarrow> (\<exists>t\<in>set ?rows. task_id t = x \<and> y \<in> set (task_depends_on t))" for x y
  proof (cases "x \<in> task_id ` set ?rows")
    case True
    then obtain t where "t \<in> set ?rows" "x = task_id t" by blast
    then show ?thesis
      using succs_unique [OF d, of t task_depends_on] d unfolding bundle_deps_def
      by (auto simp: distinct_map inj_on_def)
  next
    case False
    then show ?thesis using succs_outside [of x "bundle_deps b s"] by (auto simp: bundle_deps_def image_iff)
  qed
  then show ?thesis by (auto simp: edge_rel_def dep_rel_def list_by_bundle_def)
qed

lemma would_cycle_iff:
  "distinct (task_keys s) \<Longrightarrow> would_cycle b x y s \<longleftrightarrow> (x, y) \<in> (dep_rel b s)\<^sup>*"
  unfolding would_cycle_def search_iff by (simp add: edge_rel_deps)

lemma would_cycle_links_iff: "would_cycle_links b x y s \<longleftrightarrow> (y, x) \<in> (set (active_edges b s))\<^sup>*"
  unfolding would_cycle_links_def search_iff edge_rel_build ..

section \<open>The two invariants\<close>

definition links_ok :: "db \<Rightarrow> bool" where
  "links_ok s \<longleftrightarrow> (\<forall>l\<in>set (db_links s). link_active l \<longrightarrow>
        bundle_of (link_from l) s = Some (link_bundle l) \<and> bundle_of (link_to l) s = Some (link_bundle l)) \<and>
     (\<forall>b. acyclic (set (active_edges b s)))"

definition deps_ok :: "db \<Rightarrow> bool" where
  "deps_ok s \<longleftrightarrow> distinct (task_keys s) \<and> (\<forall>b. acyclic (dep_rel b s))"

lemma active_edges_same: "db_links s' = db_links s \<Longrightarrow> active_edges b s' = active_edges b s"
  by (simp add: active_edges_def)

lemma links_ok_mono:
  assumes "links_ok s" "db_links s' = db_links s" "\<And>i b. bundle_of i s = Some b \<Longrightarrow> bundle_of i s' = Some b"
  shows "links_ok s'"
  using assms by (simp add: links_ok_def active_edges_def)

lemma dep_rel_map:
  assumes "keeps_place f" "db_tasks s' = rows_update P f (db_tasks s)"
  shows "dep_rel b s' = dep_rel b s"
proof
  show "dep_rel b s' \<subseteq> dep_rel b s"
    using assms(1) unfolding dep_rel_def assms(2) by (auto simp: keeps_place_def elim!: rows_update_cases)
  show "dep_rel b s \<subseteq> dep_rel b s'"
  proof (clarsimp simp: dep_rel_def assms(2))
    fix t d assume "t \<in> set (db_tasks s)" "d \<in> set (task_depends_on t)"
    then show "\<exists>t'. task_id t = task_id t' \<and> t' \<in> set (rows_update P f (db_tasks s)) \<and> task_bundle t' = task_bundle t \<and>
        d \<in> set (task_depends_on t')"
      using assms(1) rows_update_image [of t "db_tasks s" P f]
      by (intro exI [of _ "if P t then f t else t"]) (auto simp: keeps_place_def)
  qed
qed

lemma deps_ok_map:
  assumes "deps_ok s" "keeps_place f" "db_tasks s' = rows_update P f (db_tasks s)"
  shows "deps_ok s'"
proof -
  have "map task_id (rows_update P f (db_tasks s)) = map task_id (db_tasks s)"
    using assms(2) by (auto simp: rows_update_def keeps_place_def)
  then show ?thesis using assms(1) dep_rel_map [OF assms(2,3)] by (simp add: deps_ok_def task_keys_def assms(3))
qed

section \<open>The steps of \<open>create_link\<close>\<close>

lemma publish_task_links [simp]: "db_links (publish_task k t cb now s) = db_links s"
  by (simp add: publish_task_def)

lemma add_task_cases:
  assumes "add_task b title desc (Some []) now s = (r, s')"
  obtains e where "r = Inl e" "db_tasks s' = db_tasks s" "db_links s' = db_links s"
  | t where "r = Inr t" "task_id t = fst (draw ''task_'' s)" "task_get (task_id t) s = None" "db_links s' = db_links s"
      "db_tasks s' = db_tasks s @ [inserted_task (fresh_task (task_id t) b title desc []) now]"
proof -
  obtain i s1 where d: "draw ''task_'' s = (i, s1)" by fastforce
  have s1: "task_get j s1 = task_get j s" "bundle_get b s1 = bundle_get b s" "db_tasks s1 = db_tasks s"
    "db_links s1 = db_links s" for j
    using task_get_cong(3,6) [of _ "''task_''" s] draw_simps [of "''task_''" s] d by simp_all
  have i: "task_id (fresh_task i b title desc []) = i" "task_bundle (fresh_task i b title desc []) = b"
    by (simp_all add: fresh_task_def)
  show ?thesis
  proof (cases "task_get i s \<noteq> None \<or> bundle_get b s = None")
    case True
    then have "r = Inl IntegrityError" "s' = s1"
      using assms by (auto simp: add_task_def task_create_def d s1 i)
    then show ?thesis using s1 by (intro that(1)) simp_all
  next
    case False
    then show ?thesis
      using assms
      by (intro that(2) [of "(fresh_task i b title desc [])\<lparr>task_updated_at := Some now\<rparr>"])
        (auto simp: add_task_def task_create_def d s1 i split: option.splits)
  qed
qed

text \<open>The database after \<open>to\<close> was added to bundle \<open>b\<close> without dependencies.\<close>

definition grown_by :: "string \<Rightarrow> string \<Rightarrow> db \<Rightarrow> db \<Rightarrow> bool" where
  "grown_by i b s s' \<longleftrightarrow> bundle_of i s = None \<and> (\<forall>j. bundle_of j s' = (if j = i then Some b else bundle_of j s)) \<and>
     (\<forall>c. dep_rel c s' = dep_rel c s) \<and> (distinct (task_keys s) \<longrightarrow> distinct (task_keys s'))"

lemma grown_by_insert:
  assumes "task_get i s = None" "db_tasks s' = db_tasks s @ [t]" "task_id t = i" "task_bundle t = b" "task_depends_on t = []"
  shows "grown_by i b s s'"
proof -
  have "bundle_of j s' = (if j = i then Some b else bundle_of j s)" for j
    using assms by (auto simp: bundle_of_def task_get_def row_get_append split: option.split)
  moreover have "dep_rel c s' = dep_rel c s" for c
    using assms by (auto simp: dep_rel_def)
  moreover have "i \<notin> set (task_keys s)"
    using assms(1) by (auto simp: task_get_def row_get_None task_keys_def)
  ultimately show ?thesis using assms by (simp add: grown_by_def bundle_of_def task_keys_def)
qed

lemma grown_by_map:
  assumes "grown_by i b s s1" "keeps_place f" "db_tasks s' = rows_update P f (db_tasks s1)"
  shows "grown_by i b s s'"
proof -
  have "bundle_of j s' = bundle_of j s1" for j
    by (rule bundle_of_map [OF _ _ assms(3)]) (use assms(2) in \<open>simp_all add: keeps_place_def\<close>)
  moreover have "task_keys s' = task_keys s1"
    using assms(2,3) by (auto simp: task_keys_def rows_update_def keeps_place_def)
  ultimately show ?thesis using assms(1) dep_rel_map [OF assms(2,3)] by (simp add: grown_by_def)
qed

lemma link_target_cases:
  assumes "link_target ft r now s = (res, s')"
  obtains (failed) e where "res = Inl e" "db_tasks s' = db_tasks s" "db_links s' = db_links s"
  | (found) i where "res = Inr i" "s' = s" "lr_new r = None" "bundle_of i s = Some (task_bundle ft)"
  | (made) i where "res = Inr i" "lr_new r \<noteq> None" "i = fst (draw ''task_'' s)" "db_links s' = db_links s"
      "grown_by i (task_bundle ft) s s'"
proof (cases "lr_new r")
  case None
  then show ?thesis
    using assms that(1,2)
    by (auto simp: link_target_def bundle_of_def split: option.splits if_splits)
next
  case (Some nt)
  obtain r1 s1 where add: "add_task (task_bundle ft) (nt_title nt) (nt_description nt) (Some []) now s = (r1, s1)"
    by fastforce
  from add show ?thesis
  proof (cases rule: add_task_cases)
    case (1 e)
    then show ?thesis using assms add Some by (intro that(1)) (auto simp: link_target_def)
  next
    case (2 t)
    have s': "res = Inr (task_id t)" "s' = (case nt_brief nt of None \<Rightarrow> s1
        | Some b \<Rightarrow> set_column (task_id t) (\<lambda>t. t\<lparr>task_brief := b\<rparr>) s1)"
      using assms add Some 2(1) by (simp_all add: link_target_def)
    have g: "grown_by (task_id t) (task_bundle ft) s s1"
      by (rule grown_by_insert [OF 2(3,5)]) (simp_all add: inserted_task_def fresh_task_def)
    have "grown_by (task_id t) (task_bundle ft) s s'"
    proof (cases "nt_brief nt")
      case None then show ?thesis using g s' by simp
    next
      case (Some b)
      show ?thesis
        by (rule grown_by_map [OF g, of "\<lambda>t. t\<lparr>task_brief := b\<rparr>"])
          (simp_all add: s' Some set_column_def keeps_place_def)
    qed
    then show ?thesis
      using 2(2,4) Some s' by (intro that(3) [of "task_id t"]) (auto split: option.splits)
  qed
qed

text \<open>A pipe adds at most the edge from its target to its source.\<close>

definition pipe_grown :: "string \<Rightarrow> string \<Rightarrow> db \<Rightarrow> db \<Rightarrow> bool" where
  "pipe_grown x y s s' \<longleftrightarrow> db_links s' = db_links s \<and> (\<forall>j. bundle_of j s' = bundle_of j s) \<and> task_keys s' = task_keys s \<and>
     (\<forall>b. dep_rel b s' \<subseteq> (if bundle_of y s = Some b then insert (y, x) (dep_rel b s) else dep_rel b s))"

lemma rewrite_deps_grown:
  assumes "rewrite_deps y deps now s = (res, s')" "task_get y s = Some t" "set deps \<subseteq> insert x (set (task_depends_on t))"
    "distinct (task_keys s)"
  shows "pipe_grown x y s s'"
proof -
  let ?f = "apply_update (deps_update deps, now)"
  have s': "db_tasks s' = rows_update (\<lambda>t. task_id t = y) ?f (db_tasks s)" "db_links s' = db_links s"
    using assms(1) by (auto simp: rewrite_deps_eq)
  have deps: "task_depends_on (?f u) = deps" for u by (simp add: apply_update_def deps_update_def update_simps)
  have uniq: "u = t" if "u \<in> set (db_tasks s)" "task_id u = y" for u
    using that task_get_key [OF assms(2)] assms(4) by (auto simp: task_keys_def distinct_map inj_on_def)
  have "dep_rel b s' \<subseteq> (if bundle_of y s = Some b then insert (y, x) (dep_rel b s) else dep_rel b s)" for b
  proof (clarify)
    fix i d assume "(i, d) \<in> dep_rel b s'"
    then obtain u where u: "u \<in> set (db_tasks s')" "task_id u = i" "task_bundle u = b" "d \<in> set (task_depends_on u)"
      by (auto simp: dep_rel_def)
    from u(1) show "(i, d) \<in> (if bundle_of y s = Some b then insert (y, x) (dep_rel b s) else dep_rel b s)"
      unfolding s'
    proof (cases rule: rows_update_cases)
      case 1
      then show ?thesis using u by (auto simp: dep_rel_def)
    next
      case (2 v)
      then have v: "v = t" "i = y" using uniq u(2) by auto
      have "bundle_of y s = Some b" using assms(2) u(3) 2 v by (simp add: bundle_of_def)
      moreover have "d = x \<or> d \<in> set (task_depends_on t)" using assms(3) u(4) 2 deps by auto
      ultimately show ?thesis using v 2 u(3) by (auto simp: dep_rel_def)
    qed
  qed
  moreover have "bundle_of j s' = bundle_of j s" for j by (rule bundle_of_map [OF _ _ s'(1)]) simp_all
  moreover have "task_keys s' = task_keys s" by (simp add: task_keys_def s'(1) task_rows.map_key_update)
  ultimately show ?thesis using s'(2) by (simp add: pipe_grown_def)
qed

lemma pipe_grown_refl [simp]: "pipe_grown x y s s"
  by (auto simp: pipe_grown_def)

lemma add_pipe_dep_grown:
  assumes "add_pipe_dep x y now s = (res, s')" "distinct (task_keys s)"
  shows "pipe_grown x y s s'"
proof (cases "task_get y s")
  case None
  then show ?thesis using assms by (simp add: add_pipe_dep_def)
next
  case (Some t)
  show ?thesis
  proof (cases "x \<in> set (task_depends_on t)")
    case True
    then show ?thesis using assms Some by (simp add: add_pipe_dep_def)
  next
    case False
    then obtain res1 where "rewrite_deps y (task_depends_on t @ [x]) now s = (res1, s')"
      using assms(1) Some by (auto simp: add_pipe_dep_def rewrite_deps_eq)
    then show ?thesis using rewrite_deps_grown [OF _ Some _ assms(2)] by fastforce
  qed
qed

lemma store_link_cases:
  assumes "store_link ft y r c now s = (res, s')"
  obtains (failed) e where "res = Inl e" "db_tasks s' = db_tasks s" "db_links s' = db_links s"
  | (stored) i f P where "res = Inr (new_link i ft y r c now)" "db_links s' = db_links s @ [new_link i ft y r c now]"
      "keeps_place f" "db_tasks s' = rows_update P f (db_tasks s)"
proof -
  obtain i s1 where d: "draw ''lnk_'' s = (i, s1)" by fastforce
  have s1: "db_tasks s1 = db_tasks s" "db_links s1 = db_links s" using draw_simps [of "''lnk_''" s] d by simp_all
  let ?l = "new_link i ft y r c now"
  show ?thesis
  proof (cases "row_get link_id (link_id ?l) (db_links s) = None")
    case False
    then show ?thesis using assms s1 by (intro that(1)) (auto simp: store_link_def d insert_link_def Let_def)
  next
    case True
    let ?f = "\<lambda>t. t\<lparr>task_created_by := Some (task_id ft)\<rparr>" and ?P = "\<lambda>t. lr_new r \<noteq> None \<and> task_id t = y"
    have "db_tasks s' = rows_update ?P ?f (db_tasks s)"
      using assms s1 True
      by (auto simp: store_link_def d insert_link_def Let_def set_column_def rows_update_def)
    then show ?thesis
      using assms s1 True
      by (intro that(2) [of i ?f ?P]) (auto simp: store_link_def d insert_link_def Let_def keeps_place_def)
  qed
qed

section \<open>Both graphs stay acyclic\<close>

definition graphs_ok :: "db \<Rightarrow> bool" where
  "graphs_ok s \<longleftrightarrow> links_ok s \<and> deps_ok s"

lemma graphs_ok_same:
  "graphs_ok s \<Longrightarrow> db_tasks s' = db_tasks s \<Longrightarrow> db_links s' = db_links s \<Longrightarrow> graphs_ok s'"
  by (auto simp: graphs_ok_def links_ok_def deps_ok_def active_edges_def bundle_of_def task_get_def dep_rel_def task_keys_def)

lemma links_ok_insert:
  assumes ok: "links_ok s" and new: "db_links s' = db_links s @ [l]" "link_active l"
    and ends: "bundle_of (link_from l) s = Some (link_bundle l)" "bundle_of (link_to l) s = Some (link_bundle l)"
    and free: "(link_to l, link_from l) \<notin> (set (active_edges (link_bundle l) s))\<^sup>*"
    and same: "\<And>i. bundle_of i s' = bundle_of i s"
  shows "links_ok s'"
proof -
  have "set (active_edges b s') =
      (if b = link_bundle l then insert (link_from l, link_to l) (set (active_edges b s)) else set (active_edges b s))" for b
    using new by (auto simp: active_edges_def)
  then have "acyclic (set (active_edges b s'))" for b
    using ok free by (simp add: links_ok_def)
  then show ?thesis using ok new ends same by (auto simp: links_ok_def)
qed

text \<open>A task outside the table is on no active link.\<close>

lemma no_edge_unknown:
  assumes "links_ok s" "bundle_of y s = None" "(y, x) \<in> (set (active_edges b s))\<^sup>*"
  shows "x = y"
  using assms(3)
proof (cases rule: converse_rtranclE)
  case (step z)
  then obtain l where "l \<in> set (db_links s)" "link_active l" "link_from l = y"
    by (auto simp: active_edges_def)
  with assms(1,2) show ?thesis by (fastforce simp: links_ok_def)
qed simp

lemma no_dep_unknown:
  assumes "\<And>i. (i, y) \<notin> dep_rel b s" "(x, y) \<in> (dep_rel b s)\<^sup>*"
  shows "x = y"
  using assms(2) by (cases rule: rtranclE) (use assms(1) in auto)

lemma deps_ok_pipe:
  assumes "deps_ok s" "pipe_grown x y s s'" "bundle_of y s = Some b" "(x, y) \<notin> (dep_rel b s)\<^sup>*"
  shows "deps_ok s'"
proof -
  have "acyclic (dep_rel c s')" for c
  proof (rule acyclic_subset)
    show "dep_rel c s' \<subseteq> (if bundle_of y s = Some c then insert (y, x) (dep_rel c s) else dep_rel c s)"
      using assms(2) by (simp add: pipe_grown_def)
    show "acyclic (if bundle_of y s = Some c then insert (y, x) (dep_rel c s) else dep_rel c s)"
      using assms(1,3,4) by (auto simp: deps_ok_def)
  qed
  then show ?thesis using assms(1,2) by (simp add: deps_ok_def pipe_grown_def)
qed

text \<open>From the target on: when neither graph leads back, storing the link keeps both acyclic.\<close>

definition finish_link :: "task \<Rightarrow> string \<Rightarrow> link_request \<Rightarrow> caller \<Rightarrow> int \<Rightarrow> db \<Rightarrow> (link \<times> string \<times> task option) res \<times> db" where
  "finish_link ft y r c now s =
     bind_st (if requested_kind r = ''pipe'' then add_pipe_dep (task_id ft) y now s else (Inr (), s))
       (\<lambda>_ s2. bind_st (store_link ft y r c now s2) (\<lambda>l s3. (Inr (l, ca_principal c, task_get y s3), s3)))"

lemma finish_link_ok:
  assumes ok: "graphs_ok s" and ends: "bundle_of (task_id ft) s = Some (task_bundle ft)" "bundle_of y s = Some (task_bundle ft)"
    and free: "(task_id ft, y) \<notin> (dep_rel (task_bundle ft) s)\<^sup>*" "(y, task_id ft) \<notin> (set (active_edges (task_bundle ft) s))\<^sup>*"
  shows "graphs_ok (snd (finish_link ft y r c now s))"
proof -
  obtain p s2 where pipe: "(if requested_kind r = ''pipe'' then add_pipe_dep (task_id ft) y now s else (Inr (), s)) = (p, s2)"
    by fastforce
  have g: "pipe_grown (task_id ft) y s s2"
    using pipe add_pipe_dep_grown [of "task_id ft" y now s p s2] ok by (auto simp: graphs_ok_def deps_ok_def split: if_splits)
  have deps2: "deps_ok s2" using deps_ok_pipe [OF _ g ends(2) free(1)] ok by (simp add: graphs_ok_def)
  have same2: "bundle_of i s2 = bundle_of i s" "db_links s2 = db_links s" for i using g by (simp_all add: pipe_grown_def)
  have links2: "links_ok s2" using ok links_ok_mono [OF _ same2(2)] same2 by (simp add: graphs_ok_def)
  obtain q s3 where store: "store_link ft y r c now s2 = (q, s3)" by fastforce
  have "graphs_ok s3" using store
  proof (cases rule: store_link_cases)
    case (failed e)
    then show ?thesis using graphs_ok_same [of s2 s3] links2 deps2 by (simp add: graphs_ok_def)
  next
    case (stored i f P)
    have same3: "bundle_of j s3 = bundle_of j s2" for j
      by (rule bundle_of_map [OF _ _ stored(4)]) (use stored(3) in \<open>simp_all add: keeps_place_def\<close>)
    have "links_ok s3"
      by (rule links_ok_insert [OF links2 stored(2)])
        (use ends free(2) same2 in \<open>simp_all add: new_link_def link_active_def same3 active_edges_def\<close>)
    then show ?thesis using deps_ok_map [OF deps2 stored(3,4)] by (simp add: graphs_ok_def)
  qed
  with store links2 deps2 show ?thesis
    by (cases p; cases q) (simp_all add: finish_link_def pipe graphs_ok_def)
qed

lemma create_link_cases:
  assumes "create_link x r c now s = (res, s')"
  obtains (refused) e where "res = Inl e" "s' = s"
  | (target) ft q s1 where "task_get x s = Some ft" "link_target ft r now s = (q, s1)"
      "(res, s') = (case q of Inl e \<Rightarrow> (Inl e, s1) | Inr y \<Rightarrow>
         if duplicate_link x y (requested_kind r) s1 then (Inl (HTTPException 409 ''link already exists''), s1)
         else if lr_new r = None \<and> (would_cycle (task_bundle ft) x y s1 \<or> would_cycle_links (task_bundle ft) x y s1)
         then (Inl (HTTPException 400 ''link would create a dependency cycle''), s1)
         else finish_link ft y r c now s1)"
proof -
  consider e where "check_link_request r = Inl e" | u where "check_link_request r = Inr u" "task_get x s = None"
    | u ft e where "check_link_request r = Inr u" "task_get x s = Some ft" "require_bundle_owner (task_bundle ft) c s = Inl e"
    | u ft b where "check_link_request r = Inr u" "task_get x s = Some ft" "require_bundle_owner (task_bundle ft) c s = Inr b"
    by (cases "check_link_request r"; cases "task_get x s";
        cases "require_bundle_owner (task_bundle (the (task_get x s))) c s") auto
  then show ?thesis
  proof cases
    case (4 u ft b)
    obtain q s1 where t: "link_target ft r now s = (q, s1)" by fastforce
    show ?thesis
      using assms task_get_key [OF 4(2)]
      by (intro that(2) [OF 4(2) t]) (auto simp: create_link_def 4 t finish_link_def split: sum.split)
  qed (use assms in \<open>auto simp: create_link_def intro: that(1)\<close>)
qed

text \<open>C12: whatever \<open>create_link\<close> is asked and whatever it answers, the active links of every bundle and
  the dependencies of every bundle's tasks stay acyclic, and active links join tasks of their own
  bundle.  For a target created on the spot, which the guards skip, this rests on its id being new: no
  task may depend on it yet.\<close>

theorem create_link_acyclic:
  assumes ok: "graphs_ok s" and fresh: "\<And>b i. (i, fst (draw ''task_'' s)) \<notin> dep_rel b s"
  shows "graphs_ok (snd (create_link x r c now s))"
proof -
  obtain res s' where run: "create_link x r c now s = (res, s')" by fastforce
  from run have "graphs_ok s'"
  proof (cases rule: create_link_cases)
    case refused
    then show ?thesis using ok by simp
  next
    case (target ft q s1)
    have ft: "task_id ft = x" "bundle_of x s = Some (task_bundle ft)"
      using task_get_key [OF target(1)] target(1) by (simp_all add: bundle_of_def)
    from target(2) show ?thesis
    proof (cases rule: link_target_cases)
      case failed
      then show ?thesis using target(3) graphs_ok_same [OF ok] by simp
    next
      case (found y)
      have "graphs_ok (snd (finish_link ft y r c now s))" if
        "\<not> would_cycle (task_bundle ft) x y s" "\<not> would_cycle_links (task_bundle ft) x y s"
        using that ok ft found(4)
        by (intro finish_link_ok) (simp_all add: would_cycle_iff would_cycle_links_iff graphs_ok_def deps_ok_def)
      then show ?thesis using target(3) found ok by (auto split: if_splits) (metis snd_conv)+
    next
      case (made y)
      have ne: "y \<noteq> x" using made(5) ft(2) by (auto simp: grown_by_def)
      have g: "bundle_of j s1 = (if j = y then Some (task_bundle ft) else bundle_of j s)"
        "dep_rel b s1 = dep_rel b s" "bundle_of y s = None" for j b
        using made(5) by (simp_all add: grown_by_def)
      have "bundle_of i s1 = Some b" if "bundle_of i s = Some b" for i b using that g by auto
      then have "links_ok s1" using links_ok_mono [OF _ made(4)] ok by (simp add: graphs_ok_def)
      then have ok1: "graphs_ok s1" using ok made(5) by (auto simp: graphs_ok_def deps_ok_def grown_by_def)
      have "(x, y) \<notin> (dep_rel (task_bundle ft) s1)\<^sup>*"
        using no_dep_unknown [of y "task_bundle ft" s x] fresh made(3) ne by (auto simp: g)
      moreover have "(y, x) \<notin> (set (active_edges (task_bundle ft) s1))\<^sup>*"
        using no_edge_unknown [of s y x] ok g(3) ne by (auto simp: graphs_ok_def active_edges_same [OF made(4)])
      ultimately have "graphs_ok (snd (finish_link ft y r c now s1))"
        using ok1 ft ne by (intro finish_link_ok) (simp_all add: g)
      then show ?thesis using target(3) made(1,2) ok1 by (auto split: if_splits) (metis snd_conv)
    qed
  qed
  then show ?thesis by (simp add: run)
qed

lemma sample_graphs: "graphs_ok sample_links"
proof -
  let ?f = "\<lambda>i. if i = ''t0'' then 2 else if i = ''t1'' then 1 else (0::nat)"
  have "acyclic (set (active_edges b sample_links))" for b
    by (rule acyclic_subset [OF wf_acyclic [OF wf_measure [of ?f], THEN acyclic_converse [THEN iffD2]]])
      (auto simp: active_edges_def sample_links_def sample_link_def link_active_def)
  moreover have "acyclic (dep_rel b sample_links)" for b
    by (rule acyclic_subset [OF wf_acyclic [OF wf_measure [of "\<lambda>i. if i = ''t2'' then 0 else (1::nat)"]]])
      (auto simp: dep_rel_def sample_links_def sample_db_def fresh_task_def)
  ultimately show ?thesis
    by (simp add: graphs_ok_def links_ok_def deps_ok_def bundle_of_def task_get_def task_keys_def sample_links_def
        sample_db_def sample_link_def fresh_task_def)
qed

definition sample_caller :: caller where
  "sample_caller = \<lparr>ca_account = ''op'', ca_username = None, ca_principal = ''human'', ca_wallet = None, ca_method = ''cookie''\<rparr>"

lemma create_link_acyclic_witness:
  "graphs_ok (snd (create_link ''t1'' \<lparr>lr_to = None, lr_new = Some \<lparr>nt_title = ''n'', nt_description = None, nt_brief = None\<rparr>,
     lr_kind = ''pipe'', lr_map = []\<rparr> sample_caller 6 sample_links))"
  by (rule create_link_acyclic [OF sample_graphs])
    (auto simp: dep_rel_def sample_links_def sample_db_def empty_db_def fresh_task_def draw_def)

section \<open>Revoking and cascading only remove edges\<close>

definition shrunk :: "db \<Rightarrow> db \<Rightarrow> bool" where
  "shrunk s s' \<longleftrightarrow> (\<forall>j. bundle_of j s' = bundle_of j s) \<and> task_keys s' = task_keys s \<and>
     (\<forall>l\<in>set (db_links s'). link_active l \<longrightarrow> l \<in> set (db_links s)) \<and> (\<forall>b. dep_rel b s' \<subseteq> dep_rel b s)"

lemma shrunk_refl [simp]: "shrunk s s"
  by (simp add: shrunk_def)

lemma shrunk_trans [trans]: "shrunk s s1 \<Longrightarrow> shrunk s1 s2 \<Longrightarrow> shrunk s s2"
  unfolding shrunk_def by (metis subset_trans)

lemma shrunk_ok:
  assumes "shrunk s s'" "graphs_ok s"
  shows "graphs_ok s'"
proof -
  have sub: "set (active_edges b s') \<subseteq> set (active_edges b s)" for b
    using assms(1) by (auto simp: shrunk_def active_edges_def)
  have "acyclic (set (active_edges b s'))" for b
    using assms(2) by (intro acyclic_subset [OF _ sub]) (simp add: graphs_ok_def links_ok_def)
  moreover have "acyclic (dep_rel b s')" for b
    using assms acyclic_subset [of "dep_rel b s" "dep_rel b s'"] unfolding graphs_ok_def deps_ok_def shrunk_def by blast
  ultimately show ?thesis using assms by (simp add: graphs_ok_def links_ok_def deps_ok_def shrunk_def)
qed

lemma shrunk_revoke: "shrunk s (revoke_row i now s)"
  using active_after_revoke [of _ i now s]
  by (auto simp: shrunk_def bundle_of_def task_keys_def dep_rel_def)

lemma shrunk_rewrite:
  assumes "rewrite_deps y deps now s = (res, s')" "task_get y s = Some t" "set deps \<subseteq> set (task_depends_on t)"
    "x \<in> set (task_depends_on t)" "distinct (task_keys s)"
  shows "shrunk s s'"
proof -
  have "pipe_grown x y s s'" by (rule rewrite_deps_grown [OF assms(1,2) _ assms(5)]) (use assms(3) in blast)
  moreover have "(y, x) \<in> dep_rel (task_bundle t) s"
    using task_get_key [OF assms(2)] assms(4) by (auto simp: dep_rel_def)
  ultimately show ?thesis using assms(2) by (auto simp: shrunk_def pipe_grown_def bundle_of_def split: if_splits)
qed

lemma shrunk_unwind:
  assumes "distinct (task_keys s)"
  shows "shrunk s (snd (unwind_pipe l now s))"
proof (cases "link_kind l \<noteq> ''pipe'' \<or> other_pipes l s \<noteq> []")
  case True
  then show ?thesis by (simp add: unwind_pipe_def)
next
  case False
  show ?thesis
  proof (cases "task_get (link_to l) s")
    case None then show ?thesis by (simp add: unwind_pipe_def)
  next
    case (Some t)
    obtain r1 s1 where d: "drop_dep (link_from l) t now s = (r1, s1)" by fastforce
    have "shrunk s s1" if "link_from l \<in> set (task_depends_on t)"
      using d task_get_key [OF Some] Some that unfolding drop_dep_def
      by (intro shrunk_rewrite [OF _ _ _ that assms]) auto
    then show ?thesis using Some False d by (cases r1) (auto simp: unwind_pipe_def)
  qed
qed

lemma shrunk_row:
  assumes "cascade_row i l now s = (res, s')" "distinct (task_keys s)"
  shows "shrunk s s'"
proof (cases rule: cascade_row_cases [of i l now s])
  case none
  then show ?thesis using assms shrunk_revoke by simp
next
  case (cancelled s1 t)
  then have s1: "s1 = s'" using assms by simp
  have "shrunk (revoke_row (link_id l) now s) s'"
  proof -
    have k: "keeps_place (apply_update (cancel_update, now))"
      by (simp add: keeps_place_def apply_update_def cancel_update_def update_simps)
    have m: "db_tasks s' = rows_update (\<lambda>t. task_id t = link_to l) (apply_update (cancel_update, now))
        (db_tasks (revoke_row (link_id l) now s))" using cancelled(8) s1 by simp
    show ?thesis
      using dep_rel_map [OF k m] bundle_of_map [OF _ _ m] cancelled(6) s1
      by (simp add: shrunk_def task_keys_def m task_rows.map_key_update)
  qed
  with shrunk_revoke show ?thesis by (rule shrunk_trans)
next
  case (unblocked s1 t)
  let ?s = "revoke_row (link_id l) now s" and ?deps = "filter (\<lambda>d. d \<noteq> i) (task_depends_on t)"
  obtain r2 s2 where r: "rewrite_deps (link_to l) ?deps now ?s = (r2, s2)" by fastforce
  have "shrunk ?s s2"
    using unblocked(4,5) assms(2) by (intro shrunk_rewrite [OF r, of t i]) (auto simp: task_keys_def)
  moreover have "db_tasks s2 = db_tasks s'" "db_links s2 = db_links s'"
    using r unblocked assms(1) by (auto simp: rewrite_deps_eq)
  ultimately have "shrunk ?s s'" by (simp add: shrunk_def bundle_of_def task_get_def dep_rel_def task_keys_def)
  with shrunk_revoke show ?thesis by (rule shrunk_trans)
qed

lemma shrunk_loop:
  "distinct (task_keys s) \<Longrightarrow> shrunk s (snd (cascade_loop now todo seen c s))"
proof (induction now todo seen c s rule: cascade_loop.induct)
  case (3 now i l todo seen c s)
  obtain r s1 where row: "cascade_row i l now s = (r, s1)" by fastforce
  then obtain out where r: "r = Inr out" by (rule cascade_row_spec)
  have s1: "shrunk s s1" by (rule shrunk_row [OF row 3(2)])
  then have "distinct (task_keys s1)" using 3(2) by (simp add: shrunk_def)
  from 3(1) [OF row [symmetric] r this] s1 row r show ?case by (auto intro: shrunk_trans)
qed auto

lemma shrunk_cascade: "distinct (task_keys s) \<Longrightarrow> shrunk s (snd (cascade_on_task_termination i now s))"
  unfolding cascade_on_task_termination_def by (rule shrunk_loop)

lemma shrunk_revoke_link:
  assumes "distinct (task_keys s)"
  shows "shrunk s (snd (revoke_link i c now s))"
proof (cases "row_get link_id i (db_links s)")
  case None
  then show ?thesis by (simp add: revoke_link_def)
next
  case (Some l)
  let ?s = "revoke_row i now s"
  have u: "shrunk s (snd (unwind_pipe l now ?s))"
    by (rule shrunk_trans [OF shrunk_revoke shrunk_unwind]) (use assms in \<open>simp add: task_keys_def\<close>)
  obtain r1 s1 where run: "unwind_pipe l now ?s = (r1, s1)" by fastforce
  with u have "shrunk s s1" by simp
  then show ?thesis
    using run Some by (cases r1) (auto simp: revoke_link_def split: sum.splits)
qed

text \<open>What revoking a pipe does to its target: it no longer depends on the source, unless another active
  pipe still joins them.\<close>

lemma row_get_revoked:
  "row_get link_id i (db_links (revoke_row i now s)) =
     map_option (\<lambda>l. l\<lparr>link_revoked_at := Some now\<rparr>) (row_get link_id i (db_links s))"
proof -
  have "row_get link_id i (rows_update (\<lambda>l. link_id l = i) (\<lambda>l. l\<lparr>link_revoked_at := Some now\<rparr>) rows) =
      map_option (\<lambda>l. l\<lparr>link_revoked_at := Some now\<rparr>) (row_get link_id i rows)" for rows
    by (induction rows) (auto simp: rows_update_def)
  then show ?thesis by (simp add: revoke_row_def)
qed

lemma unwind_pipe_eq:
  assumes "task_get (link_to l) s = Some t"
  shows "fst (unwind_pipe l now s) = Inr ()" "db_links (snd (unwind_pipe l now s)) = db_links s"
    "map_option task_depends_on (task_get (link_to l) (snd (unwind_pipe l now s))) =
       Some (if link_kind l = ''pipe'' \<and> other_pipes l s = [] then filter (\<lambda>d. d \<noteq> link_from l) (task_depends_on t)
             else task_depends_on t)"
proof -
  note key = task_get_key [OF assms]
  have id: "filter (\<lambda>d. d \<noteq> link_from l) (task_depends_on t) = task_depends_on t" if "link_from l \<notin> set (task_depends_on t)"
    using that by (auto simp: filter_id_conv)
  show "fst (unwind_pipe l now s) = Inr ()" "db_links (snd (unwind_pipe l now s)) = db_links s"
    using assms by (simp_all add: unwind_pipe_def drop_dep_def rewrite_deps_eq)
  show "map_option task_depends_on (task_get (link_to l) (snd (unwind_pipe l now s))) =
       Some (if link_kind l = ''pipe'' \<and> other_pipes l s = [] then filter (\<lambda>d. d \<noteq> link_from l) (task_depends_on t)
             else task_depends_on t)"
    using assms key id
    by (simp add: unwind_pipe_def drop_dep_def rewrite_deps_eq)
      (simp add: task_get_def task_rows.get_update_key apply_update_def deps_update_def update_simps)
qed

text \<open>C14: the bundle's owner revoking an active link marks exactly that link revoked and leaves both
  graphs acyclic; a pipe's target loses its dependency on the source, every occurrence of it and
  whether or not the pipe had put it there, exactly when no other active pipe joins the two; no other
  kind of link touches dependencies.  A second call changes nothing.\<close>

theorem revoke_link_spec:
  assumes ok: "graphs_ok s" and l: "row_get link_id i (db_links s) = Some l" "link_active l"
    and own: "require_bundle_owner (link_bundle l) c s = Inr b" and t: "task_get (link_to l) s = Some t"
  shows "\<exists>s'. revoke_link i c now s = (Inr (l\<lparr>link_revoked_at := Some now\<rparr>, False), s') \<and> graphs_ok s' \<and>
     db_links s' = rows_update (\<lambda>m. link_id m = i) (\<lambda>m. m\<lparr>link_revoked_at := Some now\<rparr>) (db_links s) \<and>
     map_option task_depends_on (task_get (link_to l) s') =
       Some (if link_kind l = ''pipe'' \<and> other_pipes l s = [] then filter (\<lambda>d. d \<noteq> link_from l) (task_depends_on t)
             else task_depends_on t) \<and>
     (require_bundle_owner (link_bundle l) c s' = Inr b \<longrightarrow>
        revoke_link i c later s' = (Inr (l\<lparr>link_revoked_at := Some now\<rparr>, True), s'))"
proof -
  let ?s = "revoke_row i now s"
  define s' where "s' = snd (unwind_pipe l now ?s)"
  have t': "task_get (link_to l) ?s = Some t" using t by simp
  have "filter (\<lambda>m. link_from m = link_from l \<and> link_to m = link_to l \<and> link_kind m = ''pipe'' \<and> link_active m \<and> link_id m \<noteq> i)
      (rows_update (\<lambda>m. link_id m = i) (\<lambda>m. m\<lparr>link_revoked_at := Some now\<rparr>) rows) =
    filter (\<lambda>m. link_from m = link_from l \<and> link_to m = link_to l \<and> link_kind m = ''pipe'' \<and> link_active m \<and> link_id m \<noteq> i) rows"
    for rows by (induction rows) (auto simp: rows_update_def)
  then have other: "other_pipes l ?s = other_pipes l s"
    using row_get_Some [OF l(1)] by (simp add: other_pipes_def revoke_row_def)
  note u = unwind_pipe_eq [OF t', of now, folded s'_def, unfolded other]
  have links: "row_get link_id i (db_links s') = Some (l\<lparr>link_revoked_at := Some now\<rparr>)"
    using l(1) by (simp add: u(2) row_get_revoked)
  have run: "revoke_link i c now s = (Inr (l\<lparr>link_revoked_at := Some now\<rparr>, False), s')"
    using l own u(1) links
    by (cases "unwind_pipe l now ?s") (simp add: revoke_link_def s'_def)
  moreover have "graphs_ok s'"
    using shrunk_ok [OF shrunk_revoke_link ok, of i c now] ok run by (simp add: graphs_ok_def deps_ok_def)
  moreover have "revoke_link i c later s' = (Inr (l\<lparr>link_revoked_at := Some now\<rparr>, True), s')"
    if "require_bundle_owner (link_bundle l) c s' = Inr b"
    using that links by (simp add: revoke_link_def link_active_def)
  ultimately show ?thesis using u(2,3) by (auto simp: revoke_row_def)
qed

text \<open>The dependency of \<open>t2\<close> on \<open>t1\<close> was there before the pipe.\<close>

definition sample_pipe :: db where
  "sample_pipe = sample_db\<lparr>db_links := [sample_link ''l1'' ''t1'' ''t2'' ''pipe'']\<rparr>"

lemma revoke_link_spec_witness:
  "\<exists>s'. revoke_link ''l1'' sample_caller 8 sample_pipe = (Inr ((sample_link ''l1'' ''t1'' ''t2'' ''pipe'')\<lparr>link_revoked_at := Some 8\<rparr>, False), s') \<and>
     map_option task_depends_on (task_get ''t2'' s') = Some []"
proof -
  let ?l = "sample_link ''l1'' ''t1'' ''t2'' ''pipe''"
  let ?f = "\<lambda>i. if i = ''t1'' then 1 else (0::nat)"
  have ac: "acyclic (set (active_edges b sample_pipe))" for b
    by (rule acyclic_subset [OF wf_acyclic [OF wf_measure [of ?f], THEN acyclic_converse [THEN iffD2]]])
      (auto simp: active_edges_def sample_pipe_def sample_link_def link_active_def)
  have dc: "acyclic (dep_rel b sample_pipe)" for b
    by (rule acyclic_subset [OF wf_acyclic [OF wf_measure [of "\<lambda>i. if i = ''t2'' then 0 else (1::nat)"]]])
      (auto simp: dep_rel_def sample_pipe_def sample_db_def fresh_task_def)
  have get: "task_get i sample_pipe = task_get i sample_db" "bundle_get i sample_pipe = bundle_get i sample_db" for i
    by (simp_all add: sample_pipe_def task_get_def bundle_get_def)
  have "graphs_ok sample_pipe"
    using ac dc sample_get(4)
    by (simp add: graphs_ok_def links_ok_def deps_ok_def bundle_of_def get task_keys_def)
      (simp add: sample_pipe_def sample_link_def fresh_task_def)
  moreover have "row_get link_id ''l1'' (db_links sample_pipe) = Some ?l" "link_active ?l" "link_kind ?l = ''pipe''"
    "link_bundle ?l = ''b''" "link_to ?l = ''t2''" "link_from ?l = ''t1''" "other_pipes ?l sample_pipe = []"
    by (simp_all add: sample_pipe_def sample_link_def link_active_def other_pipes_def)
  moreover have "require_bundle_owner ''b'' sample_caller sample_pipe = Inr (plain_bundle ''b'' ''cb'')"
    by (simp add: require_bundle_owner_def get sample_caller_def owns_def plain_bundle_def LEGACY_ACCOUNT_ID_def)
  moreover have "task_depends_on (fresh_task ''t2'' ''b'' ''second'' None [''t1'']) = [''t1'']" by (simp add: fresh_task_def)
  moreover have "task_get ''t2'' sample_pipe = Some (fresh_task ''t2'' ''b'' ''second'' None [''t1''])" by (simp add: get)
  ultimately show ?thesis
    using revoke_link_spec [of sample_pipe "''l1''" ?l sample_caller _ _ 8] by fastforce
qed

end
