(* ===== verification/Task_Routes.thy ===== *)
theory Task_Routes
  imports Link_Graph
begin

text \<open>
  The handlers of \<^verbatim>\<open>routes/tasks.py\<close>.  A handler returns what it answers (a dumped row is given
  as the row) or raises, with the database it leaves.  The texts of a request have been through the
  redaction filter and pydantic's validation before they reach the model.
\<close>

section \<open>Guards\<close>

definition require_task :: "string \<Rightarrow> db \<Rightarrow> task res" where
  "require_task i s = (case task_get i s of None \<Rightarrow> Inl (HTTPException 404 ''Task not found'') | Some t \<Rightarrow> Inr t)"

definition require_task_bundle :: "task \<Rightarrow> db \<Rightarrow> bundle_row res" where
  "require_task_bundle t s = (case bundle_get (task_bundle t) s of
       None \<Rightarrow> Inl (HTTPException 404 ''Bundle not found'') | Some b \<Rightarrow> Inr b)"

text \<open>The opening of every mutating handler: fetch the task, then check the caller.\<close>

definition with_task :: "caller \<Rightarrow> string \<Rightarrow> (task \<Rightarrow> db \<Rightarrow> 'a res \<times> db) \<Rightarrow> db \<Rightarrow> 'a res \<times> db" where
  "with_task c i f s = (case bind_res (require_task i s) (\<lambda>t. bind_res (authorize_task_mutation c t s) (\<lambda>_. Inr t)) of
       Inl e \<Rightarrow> (Inl e, s) | Inr t \<Rightarrow> f t s)"

definition with_task_bundle :: "caller \<Rightarrow> string \<Rightarrow> (task \<Rightarrow> bundle_row \<Rightarrow> db \<Rightarrow> 'a res \<times> db) \<Rightarrow> db \<Rightarrow> 'a res \<times> db" where
  "with_task_bundle c i f s = with_task c i (\<lambda>t s. case require_task_bundle t s of
       Inl e \<Rightarrow> (Inl e, s) | Inr b \<Rightarrow> f t b s) s"

section \<open>Events and the review gate\<close>

text \<open>The status tested is that of the row fetched when the request came in.\<close>

definition park_for_review_if_needed :: "task \<Rightarrow> string list \<Rightarrow> int \<Rightarrow> db \<Rightarrow> unit res \<times> db" where
  "park_for_review_if_needed t types now s =
     (if ''needs_review'' \<notin> set types then (Inr (), s)
      else if task_status t \<in> {TDone, TCancelled, TBlockedOnReview} then (Inr (), s)
      else bind_st (task_update (task_id t) (no_update\<lparr>up_status := Some TBlockedOnReview\<rparr>) now s)
        (\<lambda>updated s1. (Inr (), publish_opt updated None now s1)))"

text \<open>\<open>except SessionTokenMismatch\<close> of the two event handlers.\<close>

definition as_conflict :: "'a res \<times> db \<Rightarrow> 'a res \<times> db" where
  "as_conflict p = (case p of
       (Inl (SessionTokenMismatch _), s) \<Rightarrow> (Inl (HTTPException 409 ''Session token mismatch''), s)
     | _ \<Rightarrow> p)"

definition claim_route :: "caller \<Rightarrow> string \<Rightarrow> string \<Rightarrow> int \<Rightarrow> db \<Rightarrow> task res \<times> db" where
  "claim_route c i agent now = with_task_bundle c i (\<lambda>t b s.
     bind_st (claim_task i agent (bundle_cookbook b) now s) (\<lambda>updated s1. case updated of
         None \<Rightarrow> (Inl (HTTPException 400 ''Cannot claim task. Check status and dependencies.''), s1)
       | Some t' \<Rightarrow> (Inr (if \<not> opt_truthy (task_sandbox t') \<and> opt_truthy (bundle_sandbox b)
            then t'\<lparr>task_sandbox := bundle_sandbox b\<rparr> else t'), s1)))"

definition post_task_event :: "caller \<Rightarrow> string \<Rightarrow> event_input \<Rightarrow> string option \<Rightarrow> int \<Rightarrow> db \<Rightarrow> event res \<times> db" where
  "post_task_event c i x token now = with_task_bundle c i (\<lambda>t b s.
     case bind_res (parse_event_type (in_type x)) (\<lambda>ty. bind_res (parse_actor_kind (in_actor_kind x)) (\<lambda>k. Inr (ty, k))) of
         Inl e \<Rightarrow> (Inl e, s)
       | Inr (ty, k) \<Rightarrow> bind_st (as_conflict (post_event i ty k x token now s)) (\<lambda>e s1.
           bind_st (park_for_review_if_needed t [in_type x] now s1) (\<lambda>_ s2. (Inr e, s2))))"

definition post_task_events_batch :: "caller \<Rightarrow> string \<Rightarrow> event_input list \<Rightarrow> string option \<Rightarrow> int \<Rightarrow> db \<Rightarrow> event list res \<times> db" where
  "post_task_events_batch c i xs token now = with_task_bundle c i (\<lambda>t b s.
     bind_st (as_conflict (post_events_batch i xs token now s)) (\<lambda>es s1.
       bind_st (park_for_review_if_needed t (map in_type xs) now s1) (\<lambda>_ s2. (Inr es, s2))))"

record review_request =
  rr_action :: string
  rr_reason :: "string option"
  rr_diff :: "string option"

definition rejection_note :: "caller \<Rightarrow> task \<Rightarrow> string \<Rightarrow> string" where
  "rejection_note c t reason = str_strip (str_rstrip (case task_description t of None \<Rightarrow> [] | Some d \<Rightarrow> d) @
     nl @ nl @ ''[REVIEW REJECTED by '' @ ca_account c @ '']'' @ nl @ reason)"

definition review_task :: "caller \<Rightarrow> string \<Rightarrow> review_request \<Rightarrow> int \<Rightarrow> db \<Rightarrow> (task option \<times> review) res \<times> db" where
  "review_task c i q now s =
     (let action = str_lower (str_strip (rr_action q)) in
      if action \<notin> {''approve'', ''reject''} then (Inl (HTTPException 400 (''action must be '' @ quoted ''approve'' @ '' or '' @ quoted ''reject'')), s)
      else case require_task i s of
        Inl e \<Rightarrow> (Inl e, s)
      | Inr t \<Rightarrow> (case require_bundle_owner (task_bundle t) c s of
          Inl e \<Rightarrow> (Inl e, s)
        | Inr _ \<Rightarrow>
            if task_status t \<noteq> TBlockedOnReview
            then (Inl (HTTPException 400 (''task is '' @ task_status_name (task_status t) @ '', not blocked_on_review'')), s)
            else let (rid, s1) = draw ''rev_'' s;
                     rv = \<lparr>review_id = rid, review_of = i, review_action = action, review_reason = rr_reason q,
                            review_diff = rr_diff q, review_by = ca_account c, review_at = now\<rparr>;
                     s2 = s1\<lparr>db_reviews := db_reviews s1 @ [rv]\<rparr>;
                     desc = (if action = ''reject'' \<and> opt_truthy (rr_reason q)
                             then Some (rejection_note c t (the (rr_reason q))) else None)
                 in bind_st (task_update i (no_update\<lparr>up_status := Some TWorking, up_description := desc\<rparr>) now s2)
                      (\<lambda>updated s3. (Inr (updated, rv), publish_opt updated None now s3))))"

section \<open>Status, completion, usage\<close>

definition all_task_statuses :: "task_status list" where
  "all_task_statuses = [TOpen, TClaimed, TWorking, TDone, TBlocked, TCancelled, TBlockedOnReview]"

definition parse_task_status :: "string \<Rightarrow> task_status res" where
  "parse_task_status v = (case find (\<lambda>x. task_status_name x = v) all_task_statuses of
       None \<Rightarrow> Inl (ValueError [Repr (JStr v), Lit '' is not a valid TaskStatus'']) | Some x \<Rightarrow> Inr x)"

definition or_not_found :: "task option res \<times> db \<Rightarrow> task res \<times> db" where
  "or_not_found p = bind_st p (\<lambda>u s. case u of
       None \<Rightarrow> (Inl (HTTPException 404 ''Task not found''), s) | Some t \<Rightarrow> (Inr t, s))"

definition update_task_status :: "caller \<Rightarrow> string \<Rightarrow> string \<Rightarrow> string option \<Rightarrow> int \<Rightarrow> db \<Rightarrow> task res \<times> db" where
  "update_task_status c i status reason now = with_task c i (\<lambda>t s. case parse_task_status status of
       Inl e \<Rightarrow> (Inl e, s)
     | Inr x \<Rightarrow>
         if x = TDone then or_not_found (mark_done i now s)
         else if x = TBlocked
         then or_not_found (mark_blocked i (if opt_truthy reason then the reason else ''Blocked'') now s)
         else (Inl (HTTPException 400 (''Cannot set status to '' @ task_status_name x)), s))"

record completion_request =
  co_session :: "string option"
  co_work_dir :: "string option"
  co_artifacts :: json
  co_report :: "json option"

definition completed_row :: "completion_request \<Rightarrow> task \<Rightarrow> task" where
  "completed_row q t = t\<lparr>task_session_id := co_session q, task_work_dir := co_work_dir q, task_artifacts := co_artifacts q,
     task_report := (case co_report q of None \<Rightarrow> task_report t | Some r \<Rightarrow> r)\<rparr>"

definition post_task_completion :: "caller \<Rightarrow> string \<Rightarrow> completion_request \<Rightarrow> db \<Rightarrow> task res \<times> db" where
  "post_task_completion c i q = with_task c i (\<lambda>t s.
     let s1 = set_column i (completed_row q) s in case task_get i s1 of
         None \<Rightarrow> (Inl (HTTPException 500 ''Task disappeared after update''), s1)
       | Some t' \<Rightarrow> (Inr t', s1))"

record usage_request =
  ur_input :: int
  ur_output :: int
  ur_model :: "string option"
  ur_cost :: "rat option"
  ur_duration :: "int option"

definition post_task_usage :: "caller \<Rightarrow> string \<Rightarrow> usage_request \<Rightarrow> int \<Rightarrow> db \<Rightarrow> usage res \<times> db" where
  "post_task_usage c i q now = with_task c i (\<lambda>t s.
     let (uid, s1) = draw ''usg_'' s;
         u = \<lparr>usage_id = uid, usage_task = i, usage_input = ur_input q, usage_output = ur_output q,
              usage_model = ur_model q, usage_cost = ur_cost q, usage_duration = ur_duration q, usage_at = now\<rparr>
     in (Inr u, s1\<lparr>db_usage := db_usage s1 @ [u]\<rparr>))"

text \<open>A total over an optional column is NULL unless some value of the column is true.\<close>

definition opt_total :: "'a::{zero,plus} option list \<Rightarrow> 'a option" where
  "opt_total xs = (if list_ex (\<lambda>x. x \<noteq> None \<and> x \<noteq> Some 0) xs
     then Some (foldl (\<lambda>n x. n + (case x of None \<Rightarrow> 0 | Some v \<Rightarrow> v)) 0 xs) else None)"

definition get_task_usage :: "string \<Rightarrow> db \<Rightarrow> (usage list \<times> int \<times> int \<times> rat option \<times> int option) res" where
  "get_task_usage i s = bind_res (require_task i s) (\<lambda>_.
     let us = sort_key usage_at (filter (\<lambda>u. usage_task u = i) (db_usage s)) in
     Inr (us, sum_list (map usage_input us), sum_list (map usage_output us),
          opt_total (map usage_cost us), opt_total (map usage_duration us)))"

section \<open>Cancelling, removing, editing\<close>

definition cancel_route :: "caller \<Rightarrow> string \<Rightarrow> int \<Rightarrow> db \<Rightarrow> (task \<times> cascade_summary) res \<times> db" where
  "cancel_route c i now = with_task c i (\<lambda>t s. bind_st (cancel_task i now s) (\<lambda>updated s1. case updated of
       None \<Rightarrow> (Inl (HTTPException 400 (''Cannot cancel task in status '' @
           quoted (task_status_name (task_status t)))), s1)
     | Some t' \<Rightarrow> bind_st (cascade_on_task_termination i now s1) (\<lambda>k s2. (Inr (t', k), s2))))"

definition get_task_cancel_status :: "string \<Rightarrow> db \<Rightarrow> (string \<times> bool \<times> task_status) res" where
  "get_task_cancel_status i s = bind_res (require_task i s) (\<lambda>t. Inr (i, task_status t = TCancelled, task_status t))"

definition remove_route :: "caller \<Rightarrow> string \<Rightarrow> int \<Rightarrow> db \<Rightarrow> cascade_summary res \<times> db" where
  "remove_route c i now = with_task c i (\<lambda>t s. bind_st (remove_task i now s) (\<lambda>removed s1.
     if \<not> removed then (Inl (HTTPException 400 ''Cannot remove task (not found or not open)''), s1)
     else cascade_on_task_termination i now s1))"

definition edit_route :: "caller \<Rightarrow> string \<Rightarrow> string option \<Rightarrow> string option \<Rightarrow> string list option \<Rightarrow> int \<Rightarrow> db \<Rightarrow> task res \<times> db" where
  "edit_route c i title desc deps now = with_task c i (\<lambda>t s. or_not_found (edit_task i title desc deps now s))"

section \<open>The human in the loop\<close>

definition answered_description :: "caller \<Rightarrow> task \<Rightarrow> string \<Rightarrow> string" where
  "answered_description c t answer = str_join nl
     ((if opt_truthy (task_description t) then [str_rstrip (the (task_description t))] else []) @
      [nl @ ''[OPERATOR ('' @ ca_account c @ '') ANSWER]'' @ nl @ answer])"

definition post_task_hitl_answer :: "caller \<Rightarrow> string \<Rightarrow> string \<Rightarrow> int \<Rightarrow> db \<Rightarrow> task option res \<times> db" where
  "post_task_hitl_answer c i text now s =
     (let answer = str_strip text in
      if answer = [] then (Inl (HTTPException 400 ''empty_answer''), s)
      else with_task c i (\<lambda>t s.
        if task_status t \<noteq> TBlocked
        then (Inl (HTTPException 400 (''task is '' @ task_status_name (task_status t) @ '', not blocked'')), s)
        else let cb = cookbook_id_for_bundle (task_bundle t) s;
                 x = \<lparr>in_type = ''prompt'', in_actor = ca_account c, in_actor_kind = ''human'', in_body = answer,
                      in_payload = JObj [(''hitl'', JBool True), (''kind'', JStr ''answer'')], in_facts = [],
                      in_code_refs = [], in_visibility = None\<rparr>
             in bind_st (if opt_truthy cb then bind_st (post_event i EPrompt ByHuman x None now s) (\<lambda>_ s1. (Inr (), s1))
                         else (Inr (), s)) (\<lambda>_ s1.
                bind_st (task_update i (no_update\<lparr>up_status := Some TOpen,
                    up_description := Some (answered_description c t answer), up_clear_claim := True,
                    up_clear_blocked_reason := True\<rparr>) now s1) (\<lambda>updated s2.
                  (Inr updated, if opt_truthy cb then publish_opt updated None now s2 else s2)))) s)"

text \<open>The event goes straight into the table: no entry on the tape, none on the watch log.\<close>

definition reopened_by_followup :: "task \<Rightarrow> task" where
  "reopened_by_followup t = t\<lparr>task_status := TOpen, task_claimed_by := None, task_completed_at := None,
     task_version := task_version t + 1, task_generation := task_generation t + 1\<rparr>"

definition append_task_followup :: "caller \<Rightarrow> string \<Rightarrow> string \<Rightarrow> int \<Rightarrow> db \<Rightarrow> (task option \<times> string \<times> bool) res \<times> db" where
  "append_task_followup c i text now s =
     (let prompt = str_strip text in
      if prompt = [] then (Inl (HTTPException 400 ''empty_prompt''), s)
      else case task_get i s of
        None \<Rightarrow> (Inl (HTTPException 404 ''task_not_found''), s)
      | Some t \<Rightarrow> (case authorize_task_mutation c t s of
          Inl e \<Rightarrow> (Inl e, s)
        | Inr _ \<Rightarrow> (case bundle_get (task_bundle t) s of
            None \<Rightarrow> (Inl (HTTPException 404 ''bundle_not_found''), s)
          | Some b \<Rightarrow>
              let (eid, s1) = draw ''evt_'' s;
                  e = (new_event eid (bundle_cookbook b) (Some (task_bundle t)) (Some i) EAgentReply (ca_account c) ByHuman prompt now)
                      \<lparr>event_payload := JObj [(''text'', JStr prompt), (''kind'', JStr ''human_followup'')],
                       event_sequence := next_sequence (Some i) (db_events s1), event_visibility := ''user''\<rparr>;
                  s2 = s1\<lparr>db_events := db_events s1 @ [e]\<rparr>;
                  flip = (task_status t = TDone);
                  s3 = (if flip then set_column i reopened_by_followup s2 else s2)
              in (Inr (task_get i s3, eid, flip), s3))))"

section \<open>Progress\<close>

record progress_request =
  pg_summary :: string
  pg_step :: "int option"
  pg_total :: "int option"
  pg_percent :: "rat option"

text \<open>The quotient is exact here; the code rounds it to a float.\<close>

definition derived_percent :: "progress_request \<Rightarrow> rat option" where
  "derived_percent q = (case pg_percent q of
       Some p \<Rightarrow> Some p
     | None \<Rightarrow> (case (pg_step q, pg_total q) of
         (Some a, Some b) \<Rightarrow> if b = 0 then None else Some (min 1 (max 0 (of_int a / of_int b)))
       | _ \<Rightarrow> None))"

definition progress_json :: "progress_request \<Rightarrow> int \<Rightarrow> json" where
  "progress_json q now = JObj [(''summary'', JStr (pg_summary q)), (''step'', opt_json_int (pg_step q)),
     (''total'', opt_json_int (pg_total q)),
     (''percent'', case derived_percent q of None \<Rightarrow> JNull | Some p \<Rightarrow> JFloat p), (''updated_at'', JInt now)]"

definition post_task_progress :: "caller \<Rightarrow> string \<Rightarrow> progress_request \<Rightarrow> int \<Rightarrow> db \<Rightarrow> json res \<times> db" where
  "post_task_progress c i q now = with_task c i (\<lambda>t s.
     let p = progress_json q now; s1 = set_column i (\<lambda>t. t\<lparr>task_progress := p\<rparr>) s in
     (Inr p, case task_get i s1 of
        None \<Rightarrow> s1
      | Some t' \<Rightarrow> s1\<lparr>db_watch := record_mutation \<lparr>mu_type = ''task'', mu_id = i, mu_kind = WModified,
          mu_version = JInt (task_version t'),
          mu_payload = JObj (dict_set (dict_set (json_dict (task_json t')) ''progress'' p)
            ''_channel_hint'' (JStr ''task:progress'')),
          mu_cookbook = None, mu_now = now\<rparr> (db_watch s1)\<rparr>))"

section \<open>Reading a task's tape\<close>

definition get_task_events :: "string \<Rightarrow> int \<Rightarrow> int option \<Rightarrow> db \<Rightarrow> event list res" where
  "get_task_events i limit since s = bind_res (require_task i s) (\<lambda>_.
     let capped = max 1 (min limit 1000) in
     Inr (take (nat capped) (sort_key event_sequence
       (filter (\<lambda>e. event_task e = Some i \<and> (case since of None \<Rightarrow> True | Some n \<Rightarrow> n < event_sequence e)) (db_events s)))))"

text \<open>The untruncated text of an event: \<open>payload.text\<close> when it is a string that is not blank, else the body.\<close>

definition event_text :: "event \<Rightarrow> string" where
  "event_text e = (case event_payload e of
       JObj d \<Rightarrow> (case dict_get d ''text'' of
           JStr x \<Rightarrow> if str_strip x \<noteq> [] then x else event_body e
         | _ \<Rightarrow> event_body e)
     | _ \<Rightarrow> event_body e)"

text \<open>The walk: newest first, a reply wins and stops it, the first milestone is kept meanwhile.\<close>

fun pick_reply :: "event option \<Rightarrow> event list \<Rightarrow> event option" where
  "pick_reply chosen [] = chosen"
| "pick_reply chosen (e # es) =
     (if event_type e = EAgentReply \<and> event_text e \<noteq> [] then Some e
      else if event_type e = EMilestone \<and> chosen = None \<and> event_text e \<noteq> [] then pick_reply (Some e) es
      else pick_reply chosen es)"

definition get_task_last_reply :: "string \<Rightarrow> db \<Rightarrow> (string \<times> string \<times> int option) res" where
  "get_task_last_reply i s = bind_res (require_task i s) (\<lambda>_.
     let rows = sort_key (\<lambda>e. - event_created_at e)
       (filter (\<lambda>e. event_task e = Some i \<and> event_type e \<in> {EAgentReply, EMilestone}) (db_events s))
     in Inr (case pick_reply None rows of
          None \<Rightarrow> (''none'', [], None)
        | Some e \<Rightarrow> (event_type_name (event_type e), event_text e, Some (event_created_at e))))"

definition get_task_last_human_input :: "string \<Rightarrow> db \<Rightarrow> (string \<times> string \<times> int option) res" where
  "get_task_last_human_input i s = bind_res (require_task i s) (\<lambda>t.
     case sort_key (\<lambda>e. - event_sequence e)
         (filter (\<lambda>e. event_task e = Some i \<and> event_actor_kind e = ByHuman) (db_events s)) of
       e # _ \<Rightarrow> Inr (''human_followup'', event_text e, Some (event_created_at e))
     | [] \<Rightarrow> (case bundle_get (task_bundle t) s of
         Some b \<Rightarrow> Inr (''bundle_prompt'', bundle_prompt b, Some (bundle_created_at b))
       | None \<Rightarrow> Inr (''none'', [], None)))"

section \<open>The review gate\<close>

lemma with_task_refused:
  "\<nexists>t. task_get i s = Some t \<and> authorize_task_mutation c t s = Inr () \<Longrightarrow> \<exists>e. with_task c i f s = (Inl e, s)"
  by (cases "task_get i s"; cases "authorize_task_mutation c (the (task_get i s)) s")
    (auto simp: with_task_def require_task_def)

lemma with_task_ok:
  "task_get i s = Some t \<Longrightarrow> authorize_task_mutation c t s = Inr () \<Longrightarrow> with_task c i f s = f t s"
  by (simp add: with_task_def require_task_def)

text \<open>The row a verdict leaves.\<close>

definition verdict_update :: "string option \<Rightarrow> task_changes" where
  "verdict_update desc = no_update\<lparr>up_status := Some TWorking, up_description := desc\<rparr>"

lemma verdict_row:
  "task_status (apply_update (verdict_update desc, now) t) = TWorking"
  "task_description (apply_update (verdict_update desc, now) t) = (case desc of None \<Rightarrow> task_description t | Some d \<Rightarrow> Some d)"
  by (simp_all add: apply_update_def verdict_update_def update_simps)

lemma review_task_cases:
  assumes "task_get i s = Some t"
  obtains (refused) e where "review_task c i q now s = (Inl e, s)"
      "str_lower (str_strip (rr_action q)) \<notin> {''approve'', ''reject''} \<or> \<not> (\<exists>b. require_bundle_owner (task_bundle t) c s = Inr b) \<or>
       task_status t \<noteq> TBlockedOnReview"
  | (ruled) rv desc s' where "review_task c i q now s = (Inr (Some (apply_update (verdict_update desc, now) t), rv), s')"
      "str_lower (str_strip (rr_action q)) \<in> {''approve'', ''reject''}" "\<exists>b. require_bundle_owner (task_bundle t) c s = Inr b"
      "task_status t = TBlockedOnReview" "review_of rv = i" "review_by rv = ca_account c" "review_at rv = now"
      "review_action rv = str_lower (str_strip (rr_action q))" "review_reason rv = rr_reason q"
      "desc = (if review_action rv = ''reject'' \<and> opt_truthy (rr_reason q)
         then Some (rejection_note c t (the (rr_reason q))) else None)"
      "db_reviews s' = db_reviews s @ [rv]"
      "db_tasks s' = rows_update (\<lambda>t. task_id t = i) (apply_update (verdict_update desc, now)) (db_tasks s)"
proof -
  let ?a = "str_lower (str_strip (rr_action q))"
  consider "?a \<notin> {''approve'', ''reject''}" | e where "?a \<in> {''approve'', ''reject''}" "require_bundle_owner (task_bundle t) c s = Inl e"
    | b where "?a \<in> {''approve'', ''reject''}" "require_bundle_owner (task_bundle t) c s = Inr b" "task_status t \<noteq> TBlockedOnReview"
    | b where "?a \<in> {''approve'', ''reject''}" "require_bundle_owner (task_bundle t) c s = Inr b" "task_status t = TBlockedOnReview"
    by (cases "require_bundle_owner (task_bundle t) c s") auto
  then show ?thesis
  proof cases
    case 1
    then show ?thesis by (intro that(1)) (simp_all add: review_task_def Let_def)
  next
    case (2 e)
    then show ?thesis using assms by (intro that(1) [of e]) (auto simp: review_task_def Let_def require_task_def)
  next
    case (3 b)
    then show ?thesis using assms by (intro that(1)) (auto simp: review_task_def Let_def require_task_def)
  next
    case (4 b)
    define desc where "desc = (if ?a = ''reject'' \<and> opt_truthy (rr_reason q)
      then Some (rejection_note c t (the (rr_reason q))) else None)"
    define rv where "rv = \<lparr>review_id = fst (draw ''rev_'' s), review_of = i, review_action = ?a, review_reason = rr_reason q,
      review_diff = rr_diff q, review_by = ca_account c, review_at = now\<rparr>"
    obtain rid s1 where d: "draw ''rev_'' s = (rid, s1)" by fastforce
    have s1: "db_tasks s1 = db_tasks s" "db_reviews s1 = db_reviews s" using draw_simps [of "''rev_''" s] d by simp_all
    let ?s2 = "s1\<lparr>db_reviews := db_reviews s @ [rv]\<rparr>"
    have t2: "task_get i ?s2 = Some t" using assms s1 by (simp add: task_get_def)
    have ok: "(?a \<notin> {''approve'', ''reject''}) = False" using 4(1) by blast
    have "review_task c i q now s = bind_st (task_update i (verdict_update desc) now ?s2)
        (\<lambda>updated s3. (Inr (updated, rv), publish_opt updated None now s3))"
      unfolding review_task_def Let_def ok if_False using 4(2,3) assms
      by (simp add: require_task_def d s1 rv_def desc_def verdict_update_def)
    moreover have "\<not> nothing_set (verdict_update desc)" "up_expected_version (verdict_update desc) = None"
      by (simp_all add: verdict_update_def nothing_set_def no_update_def)
    ultimately have run: "review_task c i q now s = (Inr (Some (apply_update (verdict_update desc, now) t), rv),
        publish_opt (Some (apply_update (verdict_update desc, now) t)) None now
          (?s2\<lparr>db_tasks := rows_update (\<lambda>t. task_id t = i) (apply_update (verdict_update desc, now)) (db_tasks s)\<rparr>))"
      by (simp add: task_update_plain t2 s1)
    show ?thesis
      by (rule that(2) [OF run]) (use 4 in \<open>simp_all add: rv_def desc_def publish_opt_def publish_task_def\<close>)
  qed
qed

text \<open>C15: a verdict is accepted exactly when it is \<open>approve\<close> or \<open>reject\<close>, the task is parked for review and
  the caller owns the bundle (or is the legacy service account): being the task's runtime is not enough.
  An accepted verdict adds one audit row naming the caller and returns the task to \<open>working\<close>, a rejection
  with its reason in the description, and no other task changes; anything else changes nothing.\<close>

theorem review_gate:
  assumes t: "task_get i s = Some t"
  shows "(case review_task c i q now s of
       (Inl e, s') \<Rightarrow> s' = s
     | (Inr (u, rv), s') \<Rightarrow> u = task_get i s' \<and> db_reviews s' = db_reviews s @ [rv] \<and>
         review_of rv = i \<and> review_by rv = ca_account c \<and> review_action rv = str_lower (str_strip (rr_action q)) \<and>
         status_of i s' = Some TWorking \<and>
         map_option task_description u = Some (if review_action rv = ''reject'' \<and> opt_truthy (rr_reason q)
            then Some (rejection_note c t (the (rr_reason q))) else task_description t) \<and>
         (\<forall>j. j \<noteq> i \<longrightarrow> task_get j s' = task_get j s)) \<and>
     ((\<exists>x s'. review_task c i q now s = (Inr x, s')) \<longleftrightarrow>
        str_lower (str_strip (rr_action q)) \<in> {''approve'', ''reject''} \<and> task_status t = TBlockedOnReview \<and>
        (\<exists>b. bundle_get (task_bundle t) s = Some b \<and> (ca_account c = LEGACY_ACCOUNT_ID \<or> owns c b)))"
  using t
proof (cases rule: review_task_cases [of i s t c q now])
  case (refused e)
  then show ?thesis by (auto simp: require_owner_iff)
next
  case (ruled rv desc s')
  have get: "task_get j s' = (if j = i then Some (apply_update (verdict_update desc, now) t) else task_get j s)" for j
    using t by (simp add: task_get_def ruled(12) task_rows.get_update_key)
  show ?thesis
    unfolding ruled(1) using ruled(2-11) get
    by (auto simp: require_owner_iff status_of_def verdict_row)
qed

definition sample_runtime :: "string \<Rightarrow> string \<Rightarrow> runtime" where
  "sample_runtime i account = \<lparr>rt_id = i, rt_agent = ''a'', rt_account = account, rt_daemon = None, rt_provider = None,
     rt_host_info = [], rt_status = ''online'', rt_last_seen = 0, rt_started = 0\<rparr>"

definition parked_db :: db where
  "parked_db = sample_db\<lparr>db_tasks := [(fresh_task ''t1'' ''b'' ''first'' None [])\<lparr>task_status := TBlockedOnReview, task_runtime := Some ''rt''\<rparr>],
     db_runtimes := [sample_runtime ''rt'' ''worker'']\<rparr>"

definition worker :: caller where
  "worker = \<lparr>ca_account = ''worker'', ca_username = None, ca_principal = ''agent'', ca_wallet = None, ca_method = ''siwe''\<rparr>"

lemma parked_get:
  "task_get ''t1'' parked_db = Some ((fresh_task ''t1'' ''b'' ''first'' None [])\<lparr>task_status := TBlockedOnReview, task_runtime := Some ''rt''\<rparr>)"
  "bundle_get ''b'' parked_db = Some (plain_bundle ''b'' ''cb'')"
  by (simp_all add: parked_db_def sample_db_def task_get_def bundle_get_def fresh_task_def plain_bundle_def)

lemma review_gate_witness:
  "\<exists>x s'. review_task sample_caller ''t1'' \<lparr>rr_action = ''approve'', rr_reason = None, rr_diff = None\<rparr> 4 parked_db = (Inr x, s')"
proof -
  have "owns sample_caller (plain_bundle ''b'' ''cb'')" by (simp add: owns_def sample_caller_def plain_bundle_def)
  moreover have "str_lower (str_strip ''approve'') = ''approve''"
    by (simp add: str_lower_def str_strip_def str_rstrip_def is_space_def char_lower_def)
  ultimately show ?thesis
    using review_gate [OF parked_get(1), of sample_caller "\<lparr>rr_action = ''approve'', rr_reason = None, rr_diff = None\<rparr>" 4]
    by (simp add: parked_get fresh_task_def)
qed

text \<open>The gate does not bind the worker: whoever may write to the task at all, its runtime included,
  can set a parked task to done through PATCH \<open>/tasks/{id}/status\<close>, and no verdict is recorded.\<close>

theorem parked_task_marked_done:
  assumes t: "task_get i s = Some t" "task_status t = TBlockedOnReview" and may: "authorize_task_mutation c t s = Inr ()"
  shows "\<exists>t' s'. update_task_status c i ''done'' None now s = (Inr t', s') \<and> task_status t' = TDone \<and>
     task_get i s' = Some t' \<and> db_reviews s' = db_reviews s"
proof -
  have "parse_task_status ''done'' = Inr TDone" by (simp add: parse_task_status_def all_task_statuses_def)
  then have "update_task_status c i ''done'' None now s = or_not_found (mark_done i now s)"
    using t may by (simp add: update_task_status_def with_task_ok)
  then show ?thesis
    using t
    by (auto simp: mark_done_def or_not_found_def update_and_publish_def task_update_plain nothing_set_def no_update_def
        apply_update_def set_opt_def task_get_def task_rows.get_update_key publish_task_update_def publish_task_def
        split: option.split)
qed

lemma parked_task_marked_done_witness:
  "\<not> (\<exists>b. require_bundle_owner ''b'' worker parked_db = Inr b) \<and>
   (\<exists>t' s'. update_task_status worker ''t1'' ''done'' None 5 parked_db = (Inr t', s') \<and> task_status t' = TDone \<and> db_reviews s' = [])"
proof -
  have "\<not> owns worker (plain_bundle ''b'' ''cb'')" by (simp add: owns_def worker_def plain_bundle_def)
  then have "\<not> (\<exists>b. require_bundle_owner ''b'' worker parked_db = Inr b)"
    by (simp add: require_owner_iff parked_get) (simp add: worker_def LEGACY_ACCOUNT_ID_def)
  moreover have "is_assigned_runtime worker (the (task_get ''t1'' parked_db)) parked_db"
    by (simp add: is_assigned_runtime_def parked_get) (simp add: parked_db_def worker_def sample_runtime_def)
  then have "authorize_task_mutation worker (the (task_get ''t1'' parked_db)) parked_db = Inr ()"
    by (simp add: authorize_task_iff)
  moreover have "db_reviews parked_db = []" by (simp add: parked_db_def sample_db_def empty_db_def)
  ultimately show ?thesis
    using parked_task_marked_done [of "''t1''" parked_db "the (task_get ''t1'' parked_db)" worker 5] by (auto simp: parked_get)
qed

section \<open>Paging through a tape\<close>

definition tape_after :: "string \<Rightarrow> int option \<Rightarrow> db \<Rightarrow> event list" where
  "tape_after i since s = sort_key event_sequence
     (filter (\<lambda>e. event_task e = Some i \<and> (case since of None \<Rightarrow> True | Some n \<Rightarrow> n < event_sequence e)) (db_events s))"

lemma last_greatest: "sorted_wrt (\<lambda>x y. f x < (f y :: int)) xs \<Longrightarrow> x \<in> set xs \<Longrightarrow> f x \<le> f (last xs)"
  by (cases xs rule: rev_cases) (auto simp: sorted_wrt_append intro: less_imp_le)

lemma filter_after_take:
  assumes "sorted_wrt (\<lambda>x y. f x < (f y :: int)) xs" "0 < n" "xs \<noteq> []"
  shows "filter (\<lambda>x. f (last (take n xs)) < f x) xs = drop n xs"
proof -
  have ne: "take n xs \<noteq> []" using assms(2,3) by simp
  have s: "sorted_wrt (\<lambda>x y. f x < f y) (take n xs)"
    "\<And>x y. x \<in> set (take n xs) \<Longrightarrow> y \<in> set (drop n xs) \<Longrightarrow> f x < f y"
    using assms(1) sorted_wrt_append [of "\<lambda>x y. f x < f y" "take n xs" "drop n xs"] by simp_all
  have "filter (\<lambda>x. f (last (take n xs)) < f x) (take n xs) = []"
    using last_greatest [OF s(1)] by (auto simp: filter_empty_conv not_less)
  moreover have "filter (\<lambda>x. f (last (take n xs)) < f x) (drop n xs) = drop n xs"
    using s(2) last_in_set [OF ne] by (simp add: filter_id_conv)
  ultimately have "filter (\<lambda>x. f (last (take n xs)) < f x) (take n xs @ drop n xs) = drop n xs"
    by (simp only: filter_append append_Nil)
  then show ?thesis by simp
qed

lemma tape_after_later:
  assumes "case since of None \<Rightarrow> True | Some m \<Rightarrow> m \<le> n"
  shows "tape_after i (Some n) s = filter (\<lambda>e. n < event_sequence e) (tape_after i since s)"
  unfolding tape_after_def filter_sort filter_filter
  by (rule arg_cong [where f = "sort_key event_sequence"], rule filter_cong)
    (use assms in \<open>auto split: option.splits\<close>)

text \<open>GET \<open>/tasks/{id}/events\<close> returns between one and 1000 of the remaining events whatever limit is
  asked for (none only when none remain), in order, and a client that asks again after the last sequence
  number it saw gets exactly the rest, provided the numbers beyond its cursor are distinct.\<close>

theorem events_paging:
  assumes t: "task_get i s = Some t" and num: "distinct (map event_sequence (tape_after i since s))"
  shows "\<exists>page. get_task_events i limit since s = Inr page \<and> length page \<le> 1000 \<and>
     (page = [] \<longleftrightarrow> tape_after i since s = []) \<and> sorted (map event_sequence page) \<and>
     (page \<noteq> [] \<longrightarrow> tape_after i since s = page @ tape_after i (Some (event_sequence (last page))) s)"
proof -
  define xs where "xs = tape_after i since s"
  define n where "n = nat (max 1 (min limit 1000))"
  have run: "get_task_events i limit since s = Inr (take n xs)"
    using t by (simp add: get_task_events_def require_task_def Let_def xs_def n_def tape_after_def)
  have n: "0 < n" "n \<le> 1000" by (simp_all add: n_def)
  have sorted: "sorted (map event_sequence xs)" by (simp add: xs_def tape_after_def)
  have strict: "sorted_wrt (\<lambda>x y. event_sequence x < event_sequence y) xs"
    using sorted num strict_sorted_iff [of "map event_sequence xs"] by (simp add: xs_def sorted_wrt_map)
  have "xs = take n xs @ tape_after i (Some (event_sequence (last (take n xs)))) s" if "take n xs \<noteq> []"
  proof -
    have "last (take n xs) \<in> set xs" by (rule in_set_takeD [OF last_in_set [OF that]])
    then have "case since of None \<Rightarrow> True | Some m \<Rightarrow> m \<le> event_sequence (last (take n xs))"
      by (auto simp: xs_def tape_after_def split: option.splits)
    from tape_after_later [OF this, of i s] filter_after_take [OF strict n(1)] that
    show ?thesis by (simp add: xs_def [symmetric])
  qed
  moreover have "sorted (map event_sequence (take n xs))"
    using sorted by (metis sorted_wrt_take take_map)
  moreover have "length (take n xs) \<le> 1000" using n(2) by simp
  moreover have "take n xs = [] \<longleftrightarrow> xs = []" using n(1) by simp
  ultimately show ?thesis using run unfolding xs_def by blast
qed

definition sample_tape :: db where
  "sample_tape = sample_db\<lparr>db_events := map (\<lambda>n. (new_event ''e'' None (Some ''b'') (Some ''t1'') EMilestone ''a'' ByAgent [] 1)
     \<lparr>event_sequence := n\<rparr>) [2, 1, 3]\<rparr>"

lemma events_paging_witness:
  "\<exists>page. get_task_events ''t1'' 2 (Some 0) sample_tape = Inr page \<and> length page \<le> 1000 \<and> page \<noteq> []"
proof -
  have "task_get ''t1'' sample_tape = task_get ''t1'' sample_db" by (simp add: sample_tape_def task_get_def)
  then have "task_get ''t1'' sample_tape = Some (fresh_task ''t1'' ''b'' ''first'' None [])" by simp
  moreover have "distinct (map event_sequence (tape_after ''t1'' (Some 0) sample_tape))" "tape_after ''t1'' (Some 0) sample_tape \<noteq> []"
    by (simp_all add: sample_tape_def tape_after_def new_event_def sort_key_def)
  ultimately show ?thesis using events_paging [of "''t1''" sample_tape _ "Some 0" 2] by blast
qed

section \<open>An operator's answer\<close>

lemma post_event_plain:
  assumes "task_get i s = Some t" "task_status t \<noteq> TClaimed" "is_dict (in_payload x)"
  obtains e s' where "post_event i ty k x None now s = (Inr e, s')" "db_tasks s' = db_tasks s" "db_bundles s' = db_bundles s"
    "db_events s' = db_events s @ [e]" "event_body e = in_body x"
proof -
  obtain eid s0 where "draw ''evt_'' s = (eid, s0)" by fastforce
  then obtain e s' where run: "append_event i t (cookbook_id_for_bundle (task_bundle t) s) ty k x now s = (Inr e, s')"
    using assms(3) by (simp add: append_event_def Let_def)
  moreover have "event_body e = in_body x"
    using run assms(3) by (auto simp: append_event_def Let_def new_event_def split: prod.splits)
  ultimately show ?thesis
    using assms(1,2) append_event_ok [OF run]
    by (intro that [of e s']) (simp_all add: post_event_def check_and_stamp_session_token_def opt_truthy_def start_working_def Let_def)
qed

definition answer_update :: "string \<Rightarrow> task_changes" where
  "answer_update desc = no_update\<lparr>up_status := Some TOpen, up_description := Some desc, up_clear_claim := True,
     up_clear_blocked_reason := True\<rparr>"

text \<open>An operator's answer that is not blank, to a blocked task the caller may write to, reopens it: the row
  is open with no agent assigned or claiming and no blocked reason, its description ends in the answer,
  and any agent without active work can claim it as soon as its dependencies are done.\<close>

theorem hitl_answer_requeues:
  assumes t: "task_get i s = Some t" "task_status t = TBlocked" and may: "authorize_task_mutation c t s = Inr ()"
    and ans: "str_strip text \<noteq> []"
  shows "\<exists>t' s'. post_task_hitl_answer c i text now s = (Inr (Some t'), s') \<and> task_get i s' = Some t' \<and>
     task_status t' = TOpen \<and> task_assigned t' = None \<and> task_claimed_by t' = None \<and> task_blocked_reason t' = None \<and>
     task_description t' = Some (answered_description c t (str_strip text)) \<and> task_version t' = task_version t + 1 \<and>
     (deps_done (task_depends_on t) s' \<and> list_active_by_agent cb agent s' = [] \<longrightarrow>
        (\<exists>t''. fst (claim_task i agent cb later s') = Inr (Some t'') \<and> task_claimed_by t'' = Some agent))"
proof -
  let ?u = "answer_update (answered_description c t (str_strip text))"
  let ?x = "\<lparr>in_type = ''prompt'', in_actor = ca_account c, in_actor_kind = ''human'', in_body = str_strip text,
    in_payload = JObj [(''hitl'', JBool True), (''kind'', JStr ''answer'')], in_facts = [], in_code_refs = [], in_visibility = None\<rparr>"
  define cbk where "cbk = cookbook_id_for_bundle (task_bundle t) s"
  obtain e s1 where ev: "post_event i EPrompt ByHuman ?x None now s = (Inr e, s1)" "db_tasks s1 = db_tasks s"
    by (rule post_event_plain [OF t(1), of ?x EPrompt ByHuman now]) (simp_all add: t(2))
  define s2 where "s2 = (if opt_truthy cbk then s1 else s)"
  have s2: "db_tasks s2 = db_tasks s" "task_get i s2 = Some t" using ev(2) t(1) by (simp_all add: s2_def task_get_def)
  have u: "\<not> nothing_set ?u" "up_expected_version ?u = None"
    by (simp_all add: answer_update_def nothing_set_def no_update_def)
  define t' where "t' = apply_update (?u, now) t"
  define s' where "s' = (let s3 = s2\<lparr>db_tasks := rows_update (\<lambda>t. task_id t = i) (apply_update (?u, now)) (db_tasks s)\<rparr>
    in if opt_truthy cbk then publish_opt (Some t') None now s3 else s3)"
  have "post_task_hitl_answer c i text now s =
      bind_st (task_update i ?u now s2) (\<lambda>updated s3. (Inr updated, if opt_truthy cbk then publish_opt updated None now s3 else s3))"
    using t may ans ev(1)
    by (simp add: post_task_hitl_answer_def with_task_ok Let_def answer_update_def cbk_def s2_def)
  then have run: "post_task_hitl_answer c i text now s = (Inr (Some t'), s')"
    by (simp add: task_update_plain [OF u(2,1)] s2 t'_def s'_def)
  have "db_tasks s' = rows_update (\<lambda>t. task_id t = i) (apply_update (?u, now)) (db_tasks s)"
    by (simp add: s'_def Let_def)
  then have get: "task_get i s' = Some t'" using t(1) by (simp add: task_get_def task_rows.get_update_key t'_def)
  have row: "task_status t' = TOpen" "task_assigned t' = None" "task_claimed_by t' = None" "task_blocked_reason t' = None"
    "task_description t' = Some (answered_description c t (str_strip text))" "task_version t' = task_version t + 1"
    "task_depends_on t' = task_depends_on t"
    by (simp_all add: t'_def apply_update_def answer_update_def update_simps)
  have "\<exists>t''. fst (claim_task i agent cb later s') = Inr (Some t'') \<and> task_claimed_by t'' = Some agent"
    if "deps_done (task_depends_on t) s'" "list_active_by_agent cb agent s' = []"
    using claim_granted(1) [of i agent cb s' t' later] get row that by (auto simp: claimable_def)
  with run get row show ?thesis by blast
qed

definition blocked_db :: db where
  "blocked_db = sample_db\<lparr>db_tasks := [(fresh_task ''t1'' ''b'' ''first'' None [])\<lparr>task_status := TBlocked\<rparr>]\<rparr>"

lemma hitl_answer_requeues_witness:
  "\<exists>t' s'. post_task_hitl_answer sample_caller ''t1'' ''go'' 4 blocked_db = (Inr (Some t'), s') \<and> task_status t' = TOpen"
proof -
  let ?t = "(fresh_task ''t1'' ''b'' ''first'' None [])\<lparr>task_status := TBlocked\<rparr>"
  have "task_get ''t1'' blocked_db = Some ?t" "bundle_get ''b'' blocked_db = Some (plain_bundle ''b'' ''cb'')"
    by (simp_all add: blocked_db_def sample_db_def task_get_def bundle_get_def fresh_task_def plain_bundle_def)
  moreover from this have "authorize_task_mutation sample_caller ?t blocked_db = Inr ()"
    by (simp add: authorize_task_iff fresh_task_def owns_def sample_caller_def plain_bundle_def)
  moreover have "str_strip ''go'' \<noteq> []" by (simp add: str_strip_def str_rstrip_def is_space_def)
  ultimately show ?thesis using hitl_answer_requeues [of "''t1''" blocked_db ?t sample_caller "''go''" 4] by fastforce
qed

end
