(* ===== verification/Bundle_Routes.thy ===== *)
theory Bundle_Routes
  imports Graph_Attachment Sandboxes Sharing Task_Routes
begin

text \<open>
  The handlers of \<^verbatim>\<open>routes/bundles.py\<close>: creating a bundle in a cookbook with its owner, briefs, runtime and
  sandbox, reading it with its latest events, the totals of its usage, closing and reopening, attaching a
  graph and adding a task.  A failure of the sandbox provider is swallowed by the handlers; what it answers
  is the argument \<open>e2b\<close>, as in \<open>Sandboxes\<close>, and the default template of the settings is \<open>template\<close>.
\<close>

section \<open>Creating a bundle\<close>

record bundle_request =
  bq_prompt :: string
  bq_repo_spec :: json
  bq_tasks :: "(task_input \<times> json) list"
  bq_autoplan :: bool

text \<open>A task id that is empty counts as absent.\<close>

definition requested_task :: "task_input \<Rightarrow> task_input" where
  "requested_task x = x\<lparr>ti_id := (if opt_truthy (ti_id x) then ti_id x else None)\<rparr>"

definition set_bundle_column :: "string \<Rightarrow> (bundle_row \<Rightarrow> bundle_row) \<Rightarrow> db \<Rightarrow> db" where
  "set_bundle_column i f s = s\<lparr>db_bundles := rows_update (\<lambda>b. bundle_id b = i) f (db_bundles s)\<rparr>"

text \<open>The briefs of the request, matched with the created tasks; an absent brief is \<open>JNull\<close>.\<close>

definition write_briefs :: "(json \<times> task) list \<Rightarrow> db \<Rightarrow> db" where
  "write_briefs = fold (\<lambda>(brief, t) s.
     if brief = JNull then s else set_column (task_id t) (\<lambda>r. r\<lparr>task_brief := brief\<rparr>) s)"

definition default_runtime :: "string \<Rightarrow> db \<Rightarrow> string option" where
  "default_runtime acc s = (case sort_key (\<lambda>r. - rt_last_seen r)
       (filter (\<lambda>r. rt_account r = acc \<and> rt_status r = ''online'') (db_runtimes s)) of
       [] \<Rightarrow> None | r # _ \<Rightarrow> Some (rt_id r))"

text \<open>Provisioning inside \<open>try \<dots> except Exception\<close>: the handler goes on without a sandbox.\<close>

definition bundle_sandbox_soft :: "string \<Rightarrow> string \<Rightarrow> string \<Rightarrow> string res \<Rightarrow> int \<Rightarrow> db \<Rightarrow> string option \<times> db" where
  "bundle_sandbox_soft b owner template e2b now s = (case create_for_bundle b owner template e2b now s of
       (Inl _, s1) \<Rightarrow> (None, s1)
     | (Inr sb, s1) \<Rightarrow> (Some (sb_id sb), set_sandbox b (sb_id sb) s1))"

text \<open>What the handler adds to the rows the service created.\<close>

definition equip_bundle :: "string \<Rightarrow> bundle_request \<Rightarrow> string \<Rightarrow> string res \<Rightarrow> int \<Rightarrow> bundle_row \<times> task list \<Rightarrow> db
    \<Rightarrow> (bundle_row \<times> task list) res \<times> db" where
  "equip_bundle user q template e2b now p s1 =
     (let (b, ts) = p;
          s2 = set_bundle_column (bundle_id b) (\<lambda>r. r\<lparr>bundle_owner := Some user\<rparr>) s1;
          s3 = write_briefs (zip (map snd (bq_tasks q)) ts) s2;
          runtime = default_runtime user s3;
          s4 = (if opt_truthy runtime then set_bundle_column (bundle_id b) (\<lambda>r. r\<lparr>bundle_runtime := runtime\<rparr>) s3 else s3);
          (sandbox, s5) = bundle_sandbox_soft (bundle_id b) user template e2b now s4
      in (Inr (b\<lparr>bundle_owner := Some user, bundle_runtime := runtime, bundle_sandbox := sandbox\<rparr>, ts), s5))"

definition create_bundle_under_cookbook :: "string \<Rightarrow> caller \<Rightarrow> bundle_request \<Rightarrow> string \<Rightarrow> string res \<Rightarrow> int \<Rightarrow> db
    \<Rightarrow> (bundle_row \<times> task list) res \<times> db" where
  "create_bundle_under_cookbook cb c q template e2b now = with_role cb c Member (\<lambda>s.
     bind_st (create_bundle cb (bq_prompt q) (ca_account c) (map (requested_task \<circ> fst) (bq_tasks q)) (bq_autoplan q)
         (bq_repo_spec q) now s) (equip_bundle (ca_account c) q template e2b now))"

section \<open>Reading bundles\<close>

definition list_bundles_under_cookbook :: "string \<Rightarrow> caller \<Rightarrow> db \<Rightarrow> (bundle_row \<times> int \<times> nat) list res" where
  "list_bundles_under_cookbook cb c s =
     bind_res (require_role cb c Viewer s) (\<lambda>_. Inr (bundles_by_cookbook cb s))"

text \<open>\<open>ORDER BY sequence, created_at\<close>; with a limit, the rows of \<open>ORDER BY sequence DESC, created_at DESC
  LIMIT n\<close>, turned round.\<close>

definition events_by_bundle :: "string \<Rightarrow> nat option \<Rightarrow> db \<Rightarrow> event list" where
  "events_by_bundle b limit s = (let es = filter (\<lambda>e. event_bundle e = Some b) (db_events s) in
     case limit of
       None \<Rightarrow> by_time es
     | Some n \<Rightarrow> rev (take n (sort_key (\<lambda>e. - event_sequence e) (sort_key (\<lambda>e. - event_created_at e) es))))"

definition task_with_sandbox_inherited :: "task \<Rightarrow> bundle_row \<Rightarrow> json" where
  "task_with_sandbox_inherited t b =
     (let payload = json_dict (task_json t) in
      JObj (if \<not> truthy (dict_get payload ''sandbox_id'') \<and> opt_truthy (bundle_sandbox b)
            then dict_set payload ''sandbox_id'' (opt_json (bundle_sandbox b)) else payload))"

definition get_bundle :: "string \<Rightarrow> nat \<Rightarrow> db \<Rightarrow> (bundle_row \<times> json list \<times> event list) res" where
  "get_bundle i limit s = (case bundle_get i s of
       None \<Rightarrow> Inl (HTTPException 404 ''Bundle not found'')
     | Some b \<Rightarrow> Inr (b, map (\<lambda>t. task_with_sandbox_inherited t b) (list_by_bundle i s),
         if limit = 0 then [] else events_by_bundle i (Some limit) s))"

text \<open>The join keeps a usage row whose task is in the bundle; the totals as in \<open>get_task_usage\<close>, and the
  number of tasks that have rows.\<close>

definition get_bundle_usage :: "string \<Rightarrow> db \<Rightarrow> usage list \<times> int \<times> int \<times> rat option \<times> int option \<times> nat" where
  "get_bundle_usage b s =
     (let us = sort_key usage_at (filter (\<lambda>u. case task_get (usage_task u) s of
            None \<Rightarrow> False | Some t \<Rightarrow> task_bundle t = b) (db_usage s))
      in (us, sum_list (map usage_input us), sum_list (map usage_output us), opt_total (map usage_cost us),
          opt_total (map usage_duration us), length (remdups (map usage_task us))))"

section \<open>Closing, reopening, attaching\<close>

definition set_bundle_status_route :: "string \<Rightarrow> string \<Rightarrow> caller \<Rightarrow> string \<Rightarrow> string option \<Rightarrow> int \<Rightarrow> db
    \<Rightarrow> bundle_row res \<times> db" where
  "set_bundle_status_route cb i c status reason now = with_role cb c Member (\<lambda>s.
     let in_cookbook = (case bundle_get i s of None \<Rightarrow> False | Some b \<Rightarrow> bundle_cookbook b = Some cb);
         desired = str_strip (str_lower status);
         answer = (\<lambda>(updated, s1). case updated of
             None \<Rightarrow> (Inl (HTTPException 500 ''Bundle update failed''), s1) | Some b \<Rightarrow> (Inr b, s1))
     in if \<not> in_cookbook then (Inl (HTTPException 404 ''Bundle not found in this cookbook''), s)
        else if desired = ''closed'' then answer (close_bundle i (ca_account c) reason now s)
        else if desired = ''open'' then answer (reopen_bundle i (ca_account c) reason now s)
        else (Inl (HTTPException 400 (''Invalid status '' @ quoted desired)), s))"

definition attach_bundle_graph :: "(string \<Rightarrow> string + compiled) \<Rightarrow> string \<Rightarrow> caller \<Rightarrow> string \<Rightarrow> string \<Rightarrow> int \<Rightarrow> db
    \<Rightarrow> (bundle_row \<times> task list) res \<times> db" where
  "attach_bundle_graph compile i c code created_by now s = (case require_bundle_owner i c s of
       Inl e \<Rightarrow> (Inl e, s)
     | Inr _ \<Rightarrow> (case attach_graph_artifact compile i code created_by now s of
           (Inl (GraphArtifactError status detail), s1) \<Rightarrow> (Inl (HTTPException status detail), s1)
         | other \<Rightarrow> other))"

section \<open>Adding a task\<close>

datatype added =
    Bare task
  | Assigned json "sandbox option" "string option"

definition task_sandbox_soft :: "bundle_row \<Rightarrow> task \<Rightarrow> string \<Rightarrow> string \<Rightarrow> string res \<Rightarrow> int \<Rightarrow> db
    \<Rightarrow> sandbox option \<times> string option \<times> db" where
  "task_sandbox_soft b t owner template e2b now s = (case bundle_sandbox b of
       Some x \<Rightarrow> (None, Some x, s)
     | None \<Rightarrow> (case create_for_task (task_id t) owner template e2b now s of
           (Inl _, s1) \<Rightarrow> (None, None, s1)
         | (Inr sb, s1) \<Rightarrow> (Some sb, Some (sb_id sb), s1)))"

definition assigned_payload :: "task \<Rightarrow> string option \<Rightarrow> string option \<Rightarrow> json" where
  "assigned_payload t runtime sandbox =
     JObj (dict_set (dict_set (json_dict (task_json t)) ''assigned_runtime_id'' (opt_json runtime)) ''sandbox_id''
       (opt_json sandbox))"

definition add_task_to_bundle :: "string \<Rightarrow> caller \<Rightarrow> string \<Rightarrow> string option \<Rightarrow> string list \<Rightarrow> json \<Rightarrow> string \<Rightarrow> string res
    \<Rightarrow> int \<Rightarrow> db \<Rightarrow> added res \<times> db" where
  "add_task_to_bundle i c title desc deps brief template e2b now s = (case require_bundle_owner i c s of
       Inl e \<Rightarrow> (Inl e, s)
     | Inr b \<Rightarrow>
         let legacy = (ca_method c = ''api_key'') in
         if \<not> legacy \<and> bundle_runtime b = None then (Inl (HTTPException 400 ''no_paired_agent: Hire an agent first''), s)
         else bind_st (add_task i title desc (Some deps) now s) (\<lambda>t s1.
           let s2 = write_briefs [(brief, t)] s1 in
           if legacy \<or> bundle_runtime b = None then (Inr (Bare t), s2)
           else let (sb, sandbox, s3) = task_sandbox_soft b t (ca_account c) template e2b now s2;
                    s4 = set_column (task_id t) (\<lambda>r. r\<lparr>task_runtime := bundle_runtime b, task_sandbox := sandbox\<rparr>) s3
                in (Inr (Assigned (assigned_payload t (bundle_runtime b) sandbox) sb (bundle_sandbox b)), s4)))"

section \<open>The latest events are not the ones read\<close>

lemma take_top:
  assumes "n \<le> length (filter P ys)" "sorted (map key ys)" "\<And>x y. P y \<Longrightarrow> \<not> P x \<Longrightarrow> (key y :: int) < key x"
  shows "list_all P (take n ys)"
  unfolding list_all_length
proof (intro allI impI)
  fix j assume j: "j < length (take n ys)"
  show "P (take n ys ! j)"
  proof (rule ccontr)
    assume "\<not> P (take n ys ! j)"
    then have no: "\<not> P (ys ! j)" using j by simp
    have "\<not> P y" if y: "y \<in> set (drop j ys)" for y
    proof -
      obtain k where "k < length (drop j ys)" "drop j ys ! k = y" using y by (meson in_set_conv_nth)
      then have k: "k < length ys - j" "y = ys ! (j + k)" by auto
      then have "key (ys ! j) \<le> key y"
        using sorted_nth_mono [OF assms(2), of j "j + k"] by simp
      then show ?thesis using assms(3) [of y "ys ! j"] no by force
    qed
    then have "filter P (drop j ys) = []" by (simp add: filter_empty_conv)
    moreover have "filter P ys = filter P (take j ys) @ filter P (drop j ys)"
      by (metis append_take_drop_id filter_append)
    ultimately have "length (filter P ys) \<le> j"
      by (metis append_Nil2 length_filter_le length_take min.bounded_iff)
    then show False using assms(1) j by simp
  qed
qed

lemma events_by_bundle_top:
  assumes "n \<le> length (filter (\<lambda>e. event_bundle e = Some b \<and> m < event_sequence e) (db_events s))"
  shows "\<forall>e\<in>set (events_by_bundle b (Some n) s). m < event_sequence e"
proof -
  define es where "es = filter (\<lambda>e. event_bundle e = Some b) (db_events s)"
  define ys where "ys = sort_key (\<lambda>e. - event_sequence e) (sort_key (\<lambda>e. - event_created_at e) es)"
  have "length (filter (\<lambda>e. m < event_sequence e) ys) = length (filter (\<lambda>e. m < event_sequence e) es)"
    by (simp add: ys_def filter_sort)
  also have "\<dots> = length (filter (\<lambda>e. event_bundle e = Some b \<and> m < event_sequence e) (db_events s))"
    by (simp add: es_def conj_commute)
  finally have "n \<le> length (filter (\<lambda>e. m < event_sequence e) ys)" using assms by simp
  then have "list_all (\<lambda>e. m < event_sequence e) (take n ys)"
    by (rule take_top [where key = "\<lambda>e. - event_sequence e"]) (simp_all add: ys_def)
  then show ?thesis by (simp add: events_by_bundle_def Let_def es_def ys_def list_all_iff)
qed

lemma emitted_event:
  "\<exists>e. db_events (emit_lifecycle_event b ty actor reason now s) = db_events s @ [e] \<and> event_bundle e = Some (bundle_id b) \<and>
     event_type e = ty \<and> event_sequence e = 0 \<and> event_created_at e = now"
  by (simp add: emit_lifecycle_event_def Let_def draw_def new_event_def)

lemma route_closes:
  assumes "set_bundle_status_route cb i c ''closed'' reason now s = (Inr b, s')"
  obtains "close_bundle i (ca_account c) reason now s = (Some b, s')"
proof -
  have "str_strip (str_lower ''closed'') = ''closed''" by code_simp
  then show ?thesis
    using assms that unfolding set_bundle_status_route_def with_role_def Let_def
    by (auto split: sum.splits if_splits option.splits prod.splits)
qed

text \<open>\<open>GET /bundles/{id}\<close> promises the most recent events, but it takes those with the largest number
  within their task: when a bundle is closed and its tasks have as many numbered events as the limit, the
  closing event, the newest of the bundle, is not among the events read, however old those are.\<close>

theorem close_event_hidden:
  assumes "set_bundle_status_route cb i c ''closed'' reason now s = (Inr b, s')"
    and "bundle_get i s = Some b0" "bundle_status b0 = BOpen"
    and "0 < n" "n \<le> length (filter (\<lambda>e. event_bundle e = Some i \<and> 0 < event_sequence e) (db_events s))"
  shows "\<exists>e ts es. db_events s' = db_events s @ [e] \<and> event_type e = EBundleClosed \<and> event_bundle e = Some i \<and>
    event_created_at e = now \<and> get_bundle i n s' = Inr (b, ts, es) \<and> e \<notin> set es \<and>
    (\<forall>x\<in>set es. 0 < event_sequence x)"
proof -
  let ?b = "b0\<lparr>bundle_status := BClosed, bundle_version := bundle_version b0 + 1\<rparr>"
  let ?s1 = "snd (bundle_update i (Set_status BClosed) s)"
  have close: "close_bundle i (ca_account c) reason now s = (Some b, s')" using assms(1) by (rule route_closes)
  have "bundle_status b0 \<noteq> BClosed" using assms(3) by simp
  note flip = set_status_flip [OF assms(2) this, where ty = EBundleClosed and actor = "ca_account c" and reason = reason
      and now = now]
  from HOL.trans [OF close [unfolded close_bundle_def, symmetric] flip]
  have "Some b = Some ?b" and s': "s' = publish_bundle WModified (Some (bundle_created_at ?b)) ?b (bundle_cookbook ?b) now
       (emit_lifecycle_event ?b EBundleClosed (ca_account c) reason now ?s1)"
    by (blast dest: Pair_inject, blast dest: Pair_inject)
  then have b: "b = ?b" by blast
  obtain e where e: "db_events s' = db_events s @ [e]" "event_bundle e = Some (bundle_id b0)" "event_type e = EBundleClosed"
    "event_sequence e = 0" "event_created_at e = now"
    using emitted_event [of ?b EBundleClosed "ca_account c" reason now ?s1] unfolding s' by auto
  have "bundle_get i s' = Some b"
    unfolding s' b using assms(2) by (simp add: bundle_get_update)
  then obtain ts where "get_bundle i n s' = Inr (b, ts, events_by_bundle i (Some n) s')"
    using assms(4) by (simp add: get_bundle_def)
  moreover have "n \<le> length (filter (\<lambda>e. event_bundle e = Some i \<and> 0 < event_sequence e) (db_events s'))"
    using assms(5) by (simp add: e(1))
  note events_by_bundle_top [OF this]
  ultimately show ?thesis using e bundle_get_key [OF assms(2)] by fastforce
qed

section \<open>A new bundle is whole\<close>

lemma create_tasks_rows:
  assumes "create_tasks b xs now s = (Inr ts, s')"
  shows "db_tasks s' = db_tasks s @ ts \<and> (distinct (task_keys s) \<longrightarrow> distinct (task_keys s')) \<and> length ts = length xs \<and>
     (\<forall>t\<in>set ts. task_status t = TOpen \<and> task_bundle t = b) \<and> db_bundles s' = db_bundles s \<and>
     db_runtimes s' = db_runtimes s \<and> db_sandboxes s' = db_sandboxes s"
  using assms
proof (induction xs arbitrary: s ts)
  case (Cons x xs)
  obtain drawn s1 where d: "draw ''task_'' s = (drawn, s1)" by fastforce
  define i where "i = (case ti_id x of Some k \<Rightarrow> k | None \<Rightarrow> drawn)"
  let ?t = "fresh_task i b (ti_title x) (ti_description x) (ti_depends_on x)"
  obtain t s2 ts' where t: "task_create ?t now s1 = (Inr t, s2)"
    and rest: "create_tasks b xs now s2 = (Inr ts', s')" and ts: "ts = t # ts'"
    using Cons.prems by (auto simp: d bind_st_ok i_def [symmetric] Let_def)
  have s1: "db_tasks s1 = db_tasks s" "db_bundles s1 = db_bundles s" "db_runtimes s1 = db_runtimes s"
    "db_sandboxes s1 = db_sandboxes s"
    using draw_simps [of "''task_''" s] d by simp_all
  have t': "t = inserted_task ?t now" "db_tasks s2 = db_tasks s @ [t]" "task_get i s1 = None"
    "db_bundles s2 = db_bundles s" "db_runtimes s2 = db_runtimes s" "db_sandboxes s2 = db_sandboxes s"
    using t by (auto simp: task_create_def inserted_task_def fresh_task_def s1 split: if_splits)
  have "task_id t \<notin> set (task_keys s)"
    using t'(3) by (simp add: t'(1) task_get_def row_get_None s1 task_keys_def inserted_task_def fresh_task_def)
  with Cons.IH [OF rest] show ?case
    by (auto simp: ts t'(2,4,5,6) task_keys_def) (auto simp: t'(1) inserted_task_def fresh_task_def)
qed simp

lemma create_bundle_rows:
  assumes "create_bundle cb prompt by tasks autoplan spec now s = (Inr (b, ts), s')"
  shows "bundle_get (bundle_id b) s = None" "db_tasks s' = db_tasks s @ ts" "length ts = length tasks"
    "distinct (task_keys s) \<longrightarrow> distinct (task_keys s')"
    "\<forall>t\<in>set ts. task_status t = TOpen \<and> task_bundle t = bundle_id b"
    "\<exists>r. db_bundles s' = db_bundles s @ [r] \<and> bundle_id r = bundle_id b \<and> bundle_cookbook r = Some cb \<and>
       bundle_status r = BOpen \<and> bundle_graph_code r = None \<and> bundle_sandbox r = None \<and> bundle_runtime r = None"
    "db_runtimes s' = db_runtimes s" "db_sandboxes s' = db_sandboxes s" "bundle_sandbox b = None"
proof -
  obtain bid s0 where d: "draw ''bun_'' s = (bid, s0)" by fastforce
  let ?b = "fresh_bundle bid cb spec prompt by now"
  have s0: "db_bundles s0 = db_bundles s" "db_tasks s0 = db_tasks s" "db_runtimes s0 = db_runtimes s"
    "db_sandboxes s0 = db_sandboxes s"
    using draw_simps [of "''bun_''" s] d by simp_all
  obtain s1 where i: "bundle_insert ?b s0 = (Inr b, s1)"
    using assms unfolding create_bundle_def d by (auto simp: bind_st_ok Let_def draw_def)
  define s2 where "s2 = (if autoplan then s1\<lparr>db_bundles := rows_update (\<lambda>r. bundle_id r = bid)
                  (\<lambda>r. r\<lparr>bundle_autoplan := True\<rparr>) (db_bundles s1)\<rparr> else s1)"
  obtain s3 where c: "create_tasks bid tasks now s2 = (Inr ts, s3)"
    using assms i unfolding create_bundle_def d by (auto simp: bind_st_ok Let_def draw_def s2_def)
  have b: "b = ?b" "bundle_get bid s0 = None" and s1: "db_tasks s1 = db_tasks s" "db_runtimes s1 = db_runtimes s"
    "db_sandboxes s1 = db_sandboxes s" "\<exists>r. db_bundles s1 = db_bundles s @ [r] \<and> bundle_id r = bid \<and>
      bundle_cookbook r = Some cb \<and> bundle_status r = BOpen \<and> bundle_graph_code r = None \<and> bundle_sandbox r = None \<and>
      bundle_runtime r = None"
    using i by (auto simp: bundle_insert_def fresh_bundle_def s0 split: if_splits)
  obtain r where r: "db_bundles s1 = db_bundles s @ [r]" "bundle_id r = bid" "bundle_cookbook r = Some cb"
    "bundle_status r = BOpen" "bundle_graph_code r = None" "bundle_sandbox r = None" "bundle_runtime r = None"
    using s1(4) by blast
  have "bid \<notin> bundle_id ` set (db_bundles s)" using b(2) by (simp add: bundle_get_def row_get_None s0)
  then have old: "rows_update (\<lambda>r. bundle_id r = bid) f (db_bundles s) = db_bundles s" for f
    by (intro rows_update_none) auto
  then have s2: "db_bundles s2 = db_bundles s @ [if autoplan then r\<lparr>bundle_autoplan := True\<rparr> else r]"
    "db_tasks s2 = db_tasks s" "db_runtimes s2 = db_runtimes s" "db_sandboxes s2 = db_sandboxes s"
    using r s1 by (simp_all add: s2_def rows_update_def)
  let ?e1 = "\<lambda>e. new_event e (Some cb) (Some bid) None EPrompt by ByHuman prompt now"
  let ?e2 = "\<lambda>e. new_event e (Some cb) (Some bid) None EPlan ''system'' BySystem (plan_body (length ts) autoplan) now"
  obtain e1 s4 where d1: "draw ''evt_'' s3 = (e1, s4)" by fastforce
  obtain e2 s6 where d2: "draw ''evt_'' (event_create (?e1 e1) now s4) = (e2, s6)" by fastforce
  have s': "s' = fold (\<lambda>t. publish_task WAdded t None now) ts
      (publish_bundle WAdded None b None now (event_create (?e2 e2) now s6))"
    using assms i c d1 d2 unfolding create_bundle_def d by (simp add: Let_def s2_def [symmetric])
  have same: "db_bundles s' = db_bundles s3" "db_tasks s' = db_tasks s3" "db_runtimes s' = db_runtimes s3"
    "db_sandboxes s' = db_sandboxes s3"
  proof -
    have f: "db_runtimes (fold (\<lambda>t. publish_task WAdded t None now) ts x) = db_runtimes x"
      "db_sandboxes (fold (\<lambda>t. publish_task WAdded t None now) ts x) = db_sandboxes x" for x
      by (induction ts arbitrary: x) (simp_all add: publish_task_def)
    show "db_bundles s' = db_bundles s3" "db_tasks s' = db_tasks s3" "db_runtimes s' = db_runtimes s3"
      "db_sandboxes s' = db_sandboxes s3"
      using draw_simps [of "''evt_''" s3] draw_simps [of "''evt_''" "event_create (?e1 e1) now s4"]
      by (simp_all add: s' d1 d2 publish_bundle_def f)
  qed
  note ct = create_tasks_rows [OF c]
  have bid: "bundle_id b = bid" "bundle_sandbox b = None" by (simp_all add: b fresh_bundle_def)
  show "bundle_get (bundle_id b) s = None" using b(2) by (simp add: bid bundle_get_def s0)
  show "db_tasks s' = db_tasks s @ ts" "length ts = length tasks"
    "\<forall>t\<in>set ts. task_status t = TOpen \<and> task_bundle t = bundle_id b" "db_runtimes s' = db_runtimes s"
    "db_sandboxes s' = db_sandboxes s" "bundle_sandbox b = None"
    using ct s2 by (simp_all add: same bid)
  show "distinct (task_keys s) \<longrightarrow> distinct (task_keys s')"
    using conjunct1 [OF conjunct2 [OF ct]] unfolding task_keys_def same s2 .
  show "\<exists>r. db_bundles s' = db_bundles s @ [r] \<and> bundle_id r = bundle_id b \<and> bundle_cookbook r = Some cb \<and>
       bundle_status r = BOpen \<and> bundle_graph_code r = None \<and> bundle_sandbox r = None \<and> bundle_runtime r = None"
    using ct s2 r by (simp add: same bid)
qed

text \<open>A created task with the brief of its input.\<close>

definition briefed :: "json \<Rightarrow> task \<Rightarrow> task" where
  "briefed brief t = (if brief = JNull then t else t\<lparr>task_brief := brief\<rparr>)"

lemma briefed_id [simp]: "task_id (briefed brief t) = task_id t"
  by (simp add: briefed_def)

lemma write_briefs_rows:
  assumes "length briefs = length ts" "distinct (map task_id (old @ ts))" "db_tasks s = old @ ts"
  shows "db_tasks (write_briefs (zip briefs ts) s) = old @ map2 briefed briefs ts"
  using assms
proof (induction briefs ts arbitrary: old s rule: list_induct2)
  case (Cons x xs t ts)
  let ?s1 = "if x = JNull then s else set_column (task_id t) (\<lambda>r. r\<lparr>task_brief := x\<rparr>) s"
  have "rows_update (\<lambda>r. task_id r = task_id t) f (old @ t # ts) = old @ f t # ts" for f
    using update_one_row [OF Cons.prems(1), of t f] Cons.prems(1)
    by (auto simp: image_iff intro!: map_idI)
  then have "db_tasks ?s1 = (old @ [briefed x t]) @ ts"
    using Cons.prems(2) by (simp add: set_column_def briefed_def)
  with Cons.IH [of "old @ [briefed x t]" ?s1] Cons.prems(1) show ?case
    by (simp add: write_briefs_def)
qed (simp add: write_briefs_def)

lemma bundle_get_column:
  "(\<And>r. bundle_id (f r) = bundle_id r) \<Longrightarrow>
     bundle_get j (set_bundle_column i f s) = (if j = i then map_option f (bundle_get i s) else bundle_get j s)"
  using keyed_table.get_update_key [of bundle_id "\<lambda>_. f"] by (simp add: set_bundle_column_def bundle_get_def keyed_table_def)

lemma set_bundle_column_simps [simp]:
  "db_tasks (set_bundle_column i f s) = db_tasks s" "db_runtimes (set_bundle_column i f s) = db_runtimes s"
  "db_sandboxes (set_bundle_column i f s) = db_sandboxes s" "db_watch (set_bundle_column i f s) = db_watch s"
  "default_runtime a (set_bundle_column i f s) = default_runtime a s"
  by (simp_all add: set_bundle_column_def default_runtime_def)

lemma write_briefs_simps [simp]:
  "bundle_get i (write_briefs bs s) = bundle_get i s" "db_runtimes (write_briefs bs s) = db_runtimes s"
  "db_sandboxes (write_briefs bs s) = db_sandboxes s" "db_watch (write_briefs bs s) = db_watch s"
  "default_runtime a (write_briefs bs s) = default_runtime a s"
  by (induction bs arbitrary: s)
    (auto simp: write_briefs_def set_column_def bundle_get_def default_runtime_def split: prod.splits)

lemma bundle_sandbox_soft_ok:
  assumes "bundle_sandbox_soft b owner template e2b now s = (sandbox, s')"
  shows "db_tasks s' = db_tasks s" "j \<noteq> b \<Longrightarrow> bundle_get j s' = bundle_get j s"
    and "case sandbox of
        None \<Rightarrow> db_sandboxes s' = db_sandboxes s \<and> bundle_get b s' = bundle_get b s
      | Some x \<Rightarrow> \<exists>y. e2b = Inr y \<and> db_sandboxes s' = db_sandboxes s @ [ready_sandbox x b (Some b) owner template y now] \<and>
          bundle_get b s' = map_option (bundle_apply (Set_sandbox x)) (bundle_get b s)"
proof -
  have "db_tasks s' = db_tasks s \<and> (j \<noteq> b \<longrightarrow> bundle_get j s' = bundle_get j s) \<and> (case sandbox of
        None \<Rightarrow> db_sandboxes s' = db_sandboxes s \<and> bundle_get b s' = bundle_get b s
      | Some x \<Rightarrow> \<exists>y. e2b = Inr y \<and> db_sandboxes s' = db_sandboxes s @ [ready_sandbox x b (Some b) owner template y now] \<and>
          bundle_get b s' = map_option (bundle_apply (Set_sandbox x)) (bundle_get b s))"
  proof (cases e2b)
    case (Inl e)
    then show ?thesis
      using assms by (simp add: bundle_sandbox_soft_def create_for_bundle_def provision_def)
  next
    case (Inr y)
    obtain i s1 where d: "draw ''sbx_'' s = (i, s1)" by fastforce
    have s1: "db_tasks s1 = db_tasks s" "db_sandboxes s1 = db_sandboxes s" "bundle_get k s1 = bundle_get k s" for k
      using draw_simps [of "''sbx_''" s] d by (simp_all add: bundle_get_def)
    let ?sb = "ready_sandbox i b (Some b) owner template y now"
    show ?thesis
    proof (cases "sandbox_get i s1")
      case None
      then have "sandbox = Some i \<and> s' = set_sandbox b i (s1\<lparr>db_sandboxes := db_sandboxes s1 @ [?sb]\<rparr>)"
        using assms Inr by (simp add: bundle_sandbox_soft_def create_for_bundle_def provision_def d
            sandbox_create_def ready_sandbox_def Let_def)
      moreover have "db_tasks (set_sandbox b i x) = db_tasks x" for x by (simp add: set_sandbox_def)
      ultimately show ?thesis using Inr by (simp add: s1 set_sandbox_get)
    next
      case (Some r)
      then have "sandbox = None \<and> s' = s1"
        using assms Inr by (simp add: bundle_sandbox_soft_def create_for_bundle_def provision_def d
            sandbox_create_def ready_sandbox_def Let_def)
      then show ?thesis by (simp add: s1)
    qed
  qed
  then show "db_tasks s' = db_tasks s" "j \<noteq> b \<Longrightarrow> bundle_get j s' = bundle_get j s"
    "case sandbox of
        None \<Rightarrow> db_sandboxes s' = db_sandboxes s \<and> bundle_get b s' = bundle_get b s
      | Some x \<Rightarrow> \<exists>y. e2b = Inr y \<and> db_sandboxes s' = db_sandboxes s @ [ready_sandbox x b (Some b) owner template y now] \<and>
          bundle_get b s' = map_option (bundle_apply (Set_sandbox x)) (bundle_get b s)"
    by blast+
qed

text \<open>C28: a request to create a bundle that is answered leaves a whole one: its tasks stored with their
  briefs after the old ones, one new bundle row that belongs to the caller, in the cookbook, open and bound
  to the caller's newest online process, and either a ready sandbox of its own that it points to or, when
  the provider failed, none; every other bundle is as before.\<close>

theorem bundle_created_whole:
  assumes "create_bundle_under_cookbook cb c q template e2b now s = (Inr (b, ts), s')" and "distinct (task_keys s)"
  shows "db_tasks s' = db_tasks s @ map2 briefed (map snd (bq_tasks q)) ts \<and> length ts = length (bq_tasks q) \<and>
    list_all (\<lambda>t. task_status t = TOpen \<and> task_bundle t = bundle_id b) ts \<and>
    (\<forall>j. j \<noteq> bundle_id b \<longrightarrow> bundle_get j s' = bundle_get j s) \<and> bundle_get (bundle_id b) s = None \<and>
    (\<exists>r. require_bundle_owner (bundle_id b) c s' = Inr r \<and> bundle_owner r = Some (ca_account c) \<and>
       bundle_cookbook r = Some cb \<and> bundle_status r = BOpen \<and> bundle_sandbox r = bundle_sandbox b \<and>
       bundle_runtime r = (if opt_truthy (default_runtime (ca_account c) s) then default_runtime (ca_account c) s else None)) \<and>
    (case bundle_sandbox b of
       None \<Rightarrow> db_sandboxes s' = db_sandboxes s
     | Some x \<Rightarrow> \<exists>y. e2b = Inr y \<and> db_sandboxes s' = db_sandboxes s @
         [ready_sandbox x (bundle_id b) (Some (bundle_id b)) (ca_account c) template y now])"
proof -
  let ?u = "ca_account c"
  obtain p s1 where cr: "create_bundle cb (bq_prompt q) ?u (map (requested_task \<circ> fst) (bq_tasks q)) (bq_autoplan q)
      (bq_repo_spec q) now s = (Inr p, s1)" and eq: "equip_bundle ?u q template e2b now p s1 = (Inr (b, ts), s')"
    using assms(1) unfolding create_bundle_under_cookbook_def with_role_def by (auto simp: bind_st_ok split: sum.splits)
  obtain b0 ts0 where p: "p = (b0, ts0)" by force
  have ts0: "ts0 = ts" using eq unfolding equip_bundle_def p Let_def by (simp split: prod.splits)
  note cr = cr [unfolded p ts0] and eq = eq [unfolded p ts0]
  let ?i = "bundle_id b0"
  define s3 where "s3 = write_briefs (zip (map snd (bq_tasks q)) ts)
      (set_bundle_column ?i (\<lambda>r. r\<lparr>bundle_owner := Some ?u\<rparr>) s1)"
  define rt where "rt = default_runtime ?u s3"
  define s4 where "s4 = (if opt_truthy rt then set_bundle_column ?i (\<lambda>r. r\<lparr>bundle_runtime := rt\<rparr>) s3 else s3)"
  obtain sandbox where sb: "bundle_sandbox_soft ?i ?u template e2b now s4 = (sandbox, s')"
    and b: "b = b0\<lparr>bundle_owner := Some ?u, bundle_runtime := rt, bundle_sandbox := sandbox\<rparr>"
    using eq [unfolded equip_bundle_def Let_def prod.case, folded s3_def, folded rt_def, folded s4_def]
    by (cases "bundle_sandbox_soft ?i ?u template e2b now s4") simp
  note rows = create_bundle_rows [OF cr]
  note soft = bundle_sandbox_soft_ok [OF sb]
  have i: "bundle_id b = ?i" by (simp add: b)
  have rt: "rt = default_runtime ?u s"
    by (simp add: rt_def s3_def) (simp add: default_runtime_def rows(7))
  obtain r where r: "db_bundles s1 = db_bundles s @ [r]" "bundle_id r = ?i" "bundle_cookbook r = Some cb"
    "bundle_status r = BOpen" "bundle_sandbox r = None" "bundle_runtime r = None"
    using rows(6) by blast
  have get1: "bundle_get j s1 = (if j = ?i then Some r else bundle_get j s)" for j
    using rows(1) r(2) by (auto simp: bundle_get_def r(1) row_get_append split: option.split)
  have get4: "bundle_get j s4 = (if j = ?i then Some (r\<lparr>bundle_owner := Some ?u,
      bundle_runtime := (if opt_truthy rt then rt else None)\<rparr>) else bundle_get j s)" for j
    using r(6) by (simp add: s4_def s3_def bundle_get_column get1)
  have "distinct (map task_id (db_tasks s @ ts))" using rows(2,4) assms(2) by (simp add: task_keys_def)
  moreover have "length (map snd (bq_tasks q)) = length ts" using rows(3) by simp
  ultimately have tasks: "db_tasks s4 = db_tasks s @ map2 briefed (map snd (bq_tasks q)) ts"
    using write_briefs_rows [of "map snd (bq_tasks q)" ts "db_tasks s" "set_bundle_column ?i (\<lambda>r. r\<lparr>bundle_owner := Some ?u\<rparr>) s1"]
    by (simp add: s4_def s3_def rows(2))
  have sbs: "db_sandboxes s4 = db_sandboxes s" by (simp add: s4_def s3_def rows(8))
  let ?r = "r\<lparr>bundle_owner := Some ?u, bundle_runtime := (if opt_truthy rt then rt else None)\<rparr>"
  have "\<exists>r'. bundle_get ?i s' = Some r' \<and> bundle_owner r' = Some ?u \<and> bundle_cookbook r' = Some cb \<and>
      bundle_status r' = BOpen \<and> bundle_sandbox r' = sandbox \<and> bundle_runtime r' = (if opt_truthy rt then rt else None)"
    using soft(3) r by (cases sandbox) (auto simp: get4)
  then have "\<exists>r. require_bundle_owner ?i c s' = Inr r \<and> bundle_owner r = Some ?u \<and>
       bundle_cookbook r = Some cb \<and> bundle_status r = BOpen \<and> bundle_sandbox r = sandbox \<and>
       bundle_runtime r = (if opt_truthy rt then rt else None)"
    by (auto simp: require_bundle_owner_def owns_def)
  moreover have "\<forall>j. j \<noteq> ?i \<longrightarrow> bundle_get j s' = bundle_get j s" using soft(2) get4 by simp
  moreover have "case sandbox of None \<Rightarrow> db_sandboxes s' = db_sandboxes s
     | Some x \<Rightarrow> \<exists>y. e2b = Inr y \<and> db_sandboxes s' = db_sandboxes s @ [ready_sandbox x ?i (Some ?i) ?u template y now]"
    using soft(3) by (auto simp: sbs split: option.splits)
  moreover have "bundle_sandbox b = sandbox" by (simp add: b)
  moreover have "list_all (\<lambda>t. task_status t = TOpen \<and> task_bundle t = ?i) ts" using rows(5) by (simp add: list_all_iff)
  ultimately show ?thesis
    using rows(1,3) soft(1) tasks unfolding i rt [symmetric] by simp
qed

definition new_bundle_db :: db where
  "new_bundle_db = shared_db own_cookbook [] []"

definition two_task_request :: bundle_request where
  "two_task_request = \<lparr>bq_prompt = ''p'', bq_repo_spec = JNull,
     bq_tasks = [(\<lparr>ti_id = Some ''x'', ti_title = ''one'', ti_description = None, ti_depends_on = []\<rparr>, JObj [(''goal'', JStr ''g'')])],
     bq_autoplan = False\<rparr>"

section \<open>Adding a task assigns it, silently\<close>

lemma task_sandbox_soft_ok:
  assumes "task_sandbox_soft b t owner template e2b now s = (sb, x, s')"
  shows "db_tasks s' = db_tasks s \<and> db_watch s' = db_watch s \<and> (bundle_sandbox b \<noteq> None \<longrightarrow> x = bundle_sandbox b) \<and>
     (bundle_sandbox b = None \<and> isl e2b \<longrightarrow> x = None)"
  using assms
  by (auto simp: task_sandbox_soft_def create_for_task_def provision_def draw_def sandbox_create_def bind_st_def Let_def
      split: option.splits sum.splits if_splits prod.splits)

lemma set_column_last:
  assumes "task_id t \<notin> set (map task_id old)" "db_tasks s = old @ [t]"
  shows "db_tasks (set_column (task_id t) f s) = old @ [f t]"
proof -
  have "rows_update (\<lambda>r. task_id r = task_id t) f old = old"
    using assms(1) by (intro rows_update_none) (auto simp: image_iff)
  then show ?thesis by (simp add: set_column_def assms(2) rows_update_def)
qed

text \<open>The owner of a bundle that is bound to a process gets a task that is stored open, with its brief,
  assigned to that process and placed in the bundle's sandbox or in a new one, and in none when the
  provider fails.  The one entry of the watch log that announces the task is written before all that, and
  no other entry follows: a subscriber sees a task without process, sandbox and brief.\<close>

theorem added_task_assigned:
  assumes "require_bundle_owner i c s = Inr b" "bundle_runtime b = Some rt" "ca_method c \<noteq> ''api_key''"
    and fresh: "fst (draw ''task_'' s) \<notin> set (task_keys s)"
  shows "\<exists>t t' sb x w s'. add_task_to_bundle i c title desc deps brief template e2b now s =
        (Inr (Assigned (assigned_payload t (Some rt) x) sb (bundle_sandbox b)), s') \<and>
      db_tasks s' = db_tasks s @ [t'] \<and> task_status t' = TOpen \<and> task_bundle t' = i \<and> task_depends_on t' = deps \<and>
      task_brief t' = brief \<and> task_runtime t' = Some rt \<and> task_sandbox t' = x \<and>
      (bundle_sandbox b \<noteq> None \<longrightarrow> x = bundle_sandbox b) \<and> (bundle_sandbox b = None \<and> isl e2b \<longrightarrow> x = None) \<and>
      ws_log (db_watch s') = ws_log (db_watch s) @ [w] \<and> we_payload w = task_json t \<and> we_id w = task_id t' \<and>
      task_runtime t = None \<and> task_sandbox t = None \<and> task_brief t = JNull"
proof -
  obtain k s1 where d: "draw ''task_'' s = (k, s1)" by fastforce
  have b: "bundle_get i s = Some b" using assms(1) by (auto simp: require_bundle_owner_def split: option.splits if_splits)
  have s1: "db_tasks s1 = db_tasks s" "db_watch s1 = db_watch s" "bundle_get j s1 = bundle_get j s" for j
    using draw_simps [of "''task_''" s] d by (simp_all add: bundle_get_def)
  have k: "k \<notin> set (map task_id (db_tasks s))" using fresh d by (simp add: task_keys_def)
  then have none: "task_get k s1 = None" by (simp add: task_get_def s1 row_get_None)
  let ?t = "inserted_task (fresh_task k i title desc deps) now"
  let ?s2 = "publish_task WAdded ?t (bundle_cookbook b) now (s1\<lparr>db_tasks := db_tasks s1 @ [?t]\<rparr>)"
  have add: "add_task i title desc (Some deps) now s = (Inr ?t, ?s2)"
    using none b by (simp add: add_task_def d task_create_def s1 fresh_task_def inserted_task_def)
      (simp add: bundle_get_def flip: s1(3) [unfolded bundle_get_def])
  have s2: "db_tasks ?s2 = db_tasks s @ [?t]" by (simp add: s1)
  obtain w where w: "ws_log (db_watch ?s2) = ws_log (db_watch s) @ [w]" "we_payload w = task_json ?t" "we_id w = task_id ?t"
    by (simp add: publish_task_def publish_def record_resource_def record_mutation_def s1 next_entry_def log_append_def)
  have tid: "task_id ?t = k" by (simp add: inserted_task_def fresh_task_def)
  let ?t1 = "briefed brief ?t"
  have t1: "task_id ?t1 = k" by (simp add: tid)
  have s3: "db_tasks (write_briefs [(brief, ?t)] ?s2) = db_tasks s @ [?t1]"
    using set_column_last [of ?t "db_tasks s" ?s2] k s2 by (simp add: write_briefs_def briefed_def tid)
  obtain sb x s4 where soft: "task_sandbox_soft b ?t (ca_account c) template e2b now (write_briefs [(brief, ?t)] ?s2) = (sb, x, s4)"
    by (cases "task_sandbox_soft b ?t (ca_account c) template e2b now (write_briefs [(brief, ?t)] ?s2)")
  note ok = task_sandbox_soft_ok [OF soft]
  let ?f = "\<lambda>r. r\<lparr>task_runtime := bundle_runtime b, task_sandbox := x\<rparr>"
  have "db_tasks (set_column k ?f s4) = db_tasks s @ [?f ?t1]"
    using set_column_last [of ?t1 "db_tasks s" s4 ?f] k ok s3 by (simp add: tid)
  moreover have "add_task_to_bundle i c title desc deps brief template e2b now s =
      (Inr (Assigned (assigned_payload ?t (Some rt) x) sb (bundle_sandbox b)), set_column k ?f s4)"
    using assms(2,3) soft tid by (simp add: add_task_to_bundle_def assms(1) add Let_def)
  moreover have "db_watch (set_column k ?f s4) = db_watch ?s2" using ok by (simp add: set_column_def)
  moreover have "task_status (?f ?t1) = TOpen \<and> task_bundle (?f ?t1) = i \<and> task_depends_on (?f ?t1) = deps \<and>
      task_brief (?f ?t1) = brief \<and> task_id (?f ?t1) = k"
    by (simp add: briefed_def inserted_task_def fresh_task_def)
  moreover have "task_runtime ?t = None \<and> task_sandbox ?t = None \<and> task_brief ?t = JNull"
    by (simp add: inserted_task_def fresh_task_def)
  ultimately show ?thesis
    using w ok assms(2) tid by (intro exI [of _ ?t] exI [of _ "?f ?t1"] exI [of _ sb] exI [of _ x] exI [of _ w]
      exI [of _ "set_column k ?f s4"]) simp
qed

lemma close_event_hidden_witness:
  "\<exists>b s'. set_bundle_status_route ''cb'' ''b'' owner_caller ''closed'' None 9
       (shared_db own_cookbook [] []\<lparr>db_bundles := [plain_bundle ''b'' ''cb''],
          db_events := [(new_event ''e'' None (Some ''b'') (Some ''t'') EFactAdded ''a'' ByAgent ''x'' 1)\<lparr>event_sequence := 1\<rparr>]\<rparr>)
       = (Inr b, s') \<and> length (db_events s') = 2"
proof -
  let ?e = "(new_event ''e'' None (Some ''b'') (Some ''t'') EFactAdded ''a'' ByAgent ''x'' 1)\<lparr>event_sequence := 1\<rparr>"
  let ?s = "shared_db own_cookbook [] []\<lparr>db_bundles := [plain_bundle ''b'' ''cb''], db_events := [?e]\<rparr>"
  have get: "bundle_get ''b'' ?s = Some (plain_bundle ''b'' ''cb'')"
    by (simp add: bundle_get_def plain_bundle_def)
  have role: "require_role ''cb'' owner_caller Member ?s = Inr Owner"
    by (simp add: require_role_def shared_db_def own_cookbook_def cookbook_get_def role_for_existing_cookbook_def
        is_caller_cookbook_owner_def owner_caller_def role_rank.simps)
  have lowered: "str_strip (str_lower ''closed'') = ''closed''" by code_simp
  have st: "bundle_status (plain_bundle ''b'' ''cb'') = BOpen" "bundle_cookbook (plain_bundle ''b'' ''cb'') = Some ''cb''"
    by (simp_all add: plain_bundle_def)
  have ne: "bundle_status (plain_bundle ''b'' ''cb'') \<noteq> BClosed" by (simp add: st)
  obtain b s' where c: "set_bundle_status_route ''cb'' ''b'' owner_caller ''closed'' None 9 ?s = (Inr b, s')"
    by (simp add: set_bundle_status_route_def with_role_def role get st lowered close_bundle_def set_status_flip [OF get ne])
  have "1 \<le> length (filter (\<lambda>e. event_bundle e = Some ''b'' \<and> 0 < event_sequence e) (db_events ?s))"
    by (simp add: new_event_def)
  from close_event_hidden [OF c get st(1) _ this] c show ?thesis by auto
qed

lemma bundle_created_whole_witness:
  "\<exists>b ts s'. create_bundle_under_cookbook ''cb'' owner_caller two_task_request ''base'' (Inr ''e'') 7 new_bundle_db = (Inr (b, ts), s') \<and>
     length (db_tasks s') = 1"
proof -
  have role: "require_role ''cb'' owner_caller Member new_bundle_db = Inr Owner"
    by (simp add: require_role_def shared_db_def own_cookbook_def cookbook_get_def role_for_existing_cookbook_def
        is_caller_cookbook_owner_def owner_caller_def role_rank.simps new_bundle_db_def)
  have acc: "ca_account owner_caller = ''acc_1''" by (simp add: owner_caller_def)
  have "\<exists>p s1. create_bundle ''cb'' ''p'' ''acc_1'' [\<lparr>ti_id = Some ''x'', ti_title = ''one'', ti_description = None, ti_depends_on = []\<rparr>]
      False JNull 7 new_bundle_db = (Inr p, s1)"
    by (simp add: create_bundle_def draw_def bundle_insert_def fresh_bundle_def new_bundle_db_def shared_db_def
        bundle_get_def Let_def cookbook_get_def own_cookbook_def task_create_def task_get_def fresh_task_def)
  then obtain p s1 where "create_bundle ''cb'' ''p'' ''acc_1'' [\<lparr>ti_id = Some ''x'', ti_title = ''one'', ti_description = None, ti_depends_on = []\<rparr>]
      False JNull 7 new_bundle_db = (Inr p, s1)" by blast
  then have "\<exists>b ts s'. create_bundle_under_cookbook ''cb'' owner_caller two_task_request ''base'' (Inr ''e'') 7 new_bundle_db = (Inr (b, ts), s')"
    by (simp add: create_bundle_under_cookbook_def with_role_def role two_task_request_def requested_task_def opt_truthy_def
        acc equip_bundle_def Let_def split: prod.splits)
  then obtain b ts s' where c: "create_bundle_under_cookbook ''cb'' owner_caller two_task_request ''base'' (Inr ''e'') 7 new_bundle_db = (Inr (b, ts), s')"
    by blast
  have d: "distinct (task_keys new_bundle_db)" "db_tasks new_bundle_db = []"
    by (simp_all add: task_keys_def new_bundle_db_def shared_db_def)
  from bundle_created_whole [OF c d(1)] d(2) c show ?thesis by (auto simp: two_task_request_def)
qed

lemma added_task_assigned_witness:
  "\<exists>a s'. add_task_to_bundle ''b'' owner_caller ''title'' None [] JNull ''base'' (Inl IntegrityError) 5
     (new_bundle_db\<lparr>db_bundles := [(plain_bundle ''b'' ''cb'')\<lparr>bundle_owner := Some ''acc_1'', bundle_runtime := Some ''rt''\<rparr>]\<rparr>)
       = (Inr a, s') \<and> length (db_tasks s') = 1"
proof -
  let ?b = "(plain_bundle ''b'' ''cb'')\<lparr>bundle_owner := Some ''acc_1'', bundle_runtime := Some ''rt''\<rparr>"
  let ?s = "new_bundle_db\<lparr>db_bundles := [?b]\<rparr>"
  have "require_bundle_owner ''b'' owner_caller ?s = Inr ?b"
    by (simp add: require_bundle_owner_def bundle_get_def plain_bundle_def owns_def owner_caller_def)
  moreover have "bundle_runtime ?b = Some ''rt''" "ca_method owner_caller \<noteq> ''api_key''"
    "fst (draw ''task_'' ?s) \<notin> set (task_keys ?s)" "db_tasks ?s = []"
    by (simp_all add: owner_caller_def task_keys_def new_bundle_db_def shared_db_def)
  ultimately show ?thesis
    using added_task_assigned [of "''b''" owner_caller ?s ?b "''rt''" "''title''" None "[]" JNull "''base''" "Inl IntegrityError" 5]
    by auto
qed

end
