(* ===== verification/Credentials.thy ===== *)
theory Credentials
  imports Auth Task_Service "HOL-Library.List_Lexorder" "HOL-Library.Char_ord"
begin

text \<open>
  Secrets of the operator.  The questions an invocation asks (\<^verbatim>\<open>repositories/elicit_repo.py\<close>), which a
  relay of a token reserves under a lease while it injects the token
  (\<^verbatim>\<open>routes/credential_relay.py\<close>, \<^verbatim>\<open>services/elicit_sweeper.py\<close>), and the store of encrypted credentials
  (\<^verbatim>\<open>services/credentials_service.py\<close>).  AES-GCM is a pair of arguments \<open>enc\<close> and \<open>dec\<close>, \<open>json.loads\<close> the
  argument \<open>loads\<close>; the injection into the sandbox is outside, what becomes of it is chosen by the
  environment.
\<close>

section \<open>The elicits table\<close>

definition elicit_put :: "elicit \<Rightarrow> int \<Rightarrow> db \<Rightarrow> db" where
  "elicit_put r now s =
     (if row_get el_id (el_id r) (db_elicits s) \<noteq> None then s
      else s\<lparr>db_elicits := db_elicits s @
        [r\<lparr>el_injecting_until := None, el_created_at := now, el_resolved_at := None\<rparr>]\<rparr>)"

definition is_elicit :: "string \<Rightarrow> string \<Rightarrow> elicit_status \<Rightarrow> elicit \<Rightarrow> bool" where
  "is_elicit iv i st r \<longleftrightarrow> el_invocation r = iv \<and> el_id r = i \<and> el_status r = st"

definition get_pending :: "string \<Rightarrow> string \<Rightarrow> db \<Rightarrow> elicit option" where
  "get_pending iv i s = find (is_elicit iv i ElPending) (db_elicits s)"

definition latest_pending_auth_required :: "string \<Rightarrow> db \<Rightarrow> elicit option" where
  "latest_pending_auth_required iv s = (case sort_key (\<lambda>r. - el_created_at r)
       (filter (\<lambda>r. el_invocation r = iv \<and> el_op r = ''auth_required'' \<and> el_status r = ElPending) (db_elicits s)) of
       [] \<Rightarrow> None | r # _ \<Rightarrow> Some r)"

text \<open>The two transitions and the sweep; each answers what \<open>rowcount\<close> says.\<close>

definition reserve :: "string \<Rightarrow> string \<Rightarrow> int \<Rightarrow> int \<Rightarrow> db \<Rightarrow> bool \<times> db" where
  "reserve iv i lease now s = (list_ex (is_elicit iv i ElPending) (db_elicits s),
     s\<lparr>db_elicits := rows_update (is_elicit iv i ElPending)
        (\<lambda>r. r\<lparr>el_status := ElInjecting, el_injecting_until := Some (now + lease)\<rparr>) (db_elicits s)\<rparr>)"

definition finalize :: "string \<Rightarrow> string \<Rightarrow> int \<Rightarrow> db \<Rightarrow> bool \<times> db" where
  "finalize iv i now s = (list_ex (is_elicit iv i ElInjecting) (db_elicits s),
     s\<lparr>db_elicits := rows_update (is_elicit iv i ElInjecting)
        (\<lambda>r. r\<lparr>el_status := ElResolved, el_resolved_at := Some now, el_injecting_until := None\<rparr>) (db_elicits s)\<rparr>)"

definition lease_expired :: "int \<Rightarrow> elicit \<Rightarrow> bool" where
  "lease_expired now r \<longleftrightarrow> el_status r = ElInjecting \<and>
     (case el_injecting_until r of None \<Rightarrow> False | Some u \<Rightarrow> u < now)"

definition sweep_expired_leases :: "int \<Rightarrow> db \<Rightarrow> nat \<times> db" where
  "sweep_expired_leases now s = (length (filter (lease_expired now) (db_elicits s)),
     s\<lparr>db_elicits := rows_update (lease_expired now)
        (\<lambda>r. r\<lparr>el_status := ElPending, el_injecting_until := None\<rparr>) (db_elicits s)\<rparr>)"

section \<open>Relaying a token\<close>

text \<open>Every method but the API key passes.\<close>

definition require_cookie_session :: "caller \<Rightarrow> caller res" where
  "require_cookie_session c = (if ca_method c = ''api_key'' then Inl (HTTPException 401 ''cookie-session required'') else Inr c)"

definition host_matches :: "string \<Rightarrow> string \<Rightarrow> bool" where
  "host_matches expected actual =
     (let e = str_lower expected; a = str_lower actual; family = {''api.github.com'', ''github.com'', ''codeload.github.com''}
      in e = a \<or> (if starts_with ''*.'' e then ends_with (tl e) a else {e, a} \<subseteq> family))"

record relay_request =
  rl_invocation :: string
  rl_elicit :: string
  rl_provider :: string
  rl_host :: string

text \<open>The owner of the task's bundle, as the routes of secrets demand it: a stored owner, and no service
  account.\<close>

definition owned_task :: "string \<Rightarrow> caller \<Rightarrow> string \<Rightarrow> string \<Rightarrow> db \<Rightarrow> task res" where
  "owned_task i c missing foreign s = (case task_get i s of
       None \<Rightarrow> Inl (HTTPException 404 missing)
     | Some t \<Rightarrow> (case (if task_bundle t = [] then None else bundle_get (task_bundle t) s) of
           None \<Rightarrow> Inl (HTTPException 403 ''bundle has no owner'')
         | Some b \<Rightarrow> (case bundle_owner b of
               None \<Rightarrow> Inl (HTTPException 403 ''bundle has no owner'')
             | Some ow \<Rightarrow> if ow = ca_account c then Inr t else Inl (HTTPException 403 foreign))))"

definition check_payload :: "relay_request \<Rightarrow> json \<Rightarrow> unit res" where
  "check_payload q payload = (case payload of
       JObj d \<Rightarrow>
         let provider = dict_get d ''provider''; host = dict_get d ''host''
         in if \<not> truthy provider then Inl (HTTPException 409 ''elicit missing provider'')
            else if provider \<noteq> JStr (rl_provider q) then Inl (HTTPException 409 ''provider mismatch'')
            else if \<not> truthy host then Inr ()
            else (case host of
                JStr h \<Rightarrow> if host_matches h (rl_host q) then Inr () else Inl (HTTPException 409 ''host mismatch'')
              | _ \<Rightarrow> Inl (AttributeError [Lit ''object has no attribute lower'']))
     | _ \<Rightarrow> Inl (AttributeError [Lit ''object has no attribute get'']))"

text \<open>The checks before the reservation; \<open>inv_task\<close> gives the task of an invocation, if the row is there.\<close>

definition relay_check :: "(string \<Rightarrow> string option option) \<Rightarrow> (string \<Rightarrow> json option) \<Rightarrow> string \<Rightarrow> caller \<Rightarrow>
    relay_request \<Rightarrow> db \<Rightarrow> unit res" where
  "relay_check inv_task loads i c q s =
     bind_res (require_cookie_session c) (\<lambda>c.
       bind_res (owned_task i c ''task not found'' ''not your task'' s) (\<lambda>_.
       if inv_task (rl_invocation q) \<noteq> Some (Some i) then Inl (HTTPException 404 ''invocation not on this task'')
       else case get_pending (rl_invocation q) (rl_elicit q) s of
           None \<Rightarrow> Inl (HTTPException 404 ''no matching pending elicit'')
         | Some r \<Rightarrow>
             if el_op r \<noteq> ''auth_required'' then Inl (HTTPException 404 ''no matching pending elicit'')
             else check_payload q (case loads (if el_payload r = [] then ''{}'' else el_payload r) of
                 None \<Rightarrow> JObj [] | Some v \<Rightarrow> v)))"

text \<open>Everything before the injection.\<close>

definition relay_begin :: "(string \<Rightarrow> string option option) \<Rightarrow> (string \<Rightarrow> json option) \<Rightarrow> int \<Rightarrow> string \<Rightarrow> caller \<Rightarrow>
    relay_request \<Rightarrow> int \<Rightarrow> db \<Rightarrow> unit res \<times> db" where
  "relay_begin inv_task loads lease i c q now s = (case relay_check inv_task loads i c q s of
       Inl e \<Rightarrow> (Inl e, s)
     | Inr _ \<Rightarrow> (case reserve (rl_invocation q) (rl_elicit q) lease now s of
           (True, s1) \<Rightarrow> (Inr (), s1)
         | (False, s1) \<Rightarrow> (Inl (HTTPException 404 ''elicit already in flight''), s1)))"

datatype injection = Injected | Inject_timeout | Inject_failed py_exc

text \<open>After it: \<open>finalize\<close> on success, whose answer is only logged; otherwise the row is left as it is.\<close>

definition relay_end :: "injection \<Rightarrow> string \<Rightarrow> string \<Rightarrow> int \<Rightarrow> db \<Rightarrow> unit res \<times> db" where
  "relay_end out iv i now s = (case out of
       Injected \<Rightarrow> (Inr (), snd (finalize iv i now s))
     | Inject_timeout \<Rightarrow> (Inl (HTTPException 504 ''sandbox inject timed out''), s)
     | Inject_failed e \<Rightarrow> (Inl e, s))"

section \<open>Relays over time\<close>

text \<open>An injection under way has to end by its deadline (\<open>asyncio.timeout\<close>), so time does not pass it.\<close>

record flight =
  fl_invocation :: string
  fl_elicit :: string
  fl_deadline :: int

record relay_state =
  rs_now :: int
  rs_db :: db
  rs_flying :: "flight list"

datatype relay_op =
    Rl_emit elicit
  | Rl_begin string caller relay_request
  | Rl_end flight injection
  | Rl_sweep
  | Rl_wait int

fun relay_apply :: "(string \<Rightarrow> string option option) \<Rightarrow> (string \<Rightarrow> json option) \<Rightarrow> int \<Rightarrow> int \<Rightarrow> relay_op \<Rightarrow> relay_state
    \<Rightarrow> relay_state option" where
  "relay_apply it loads timeout lease (Rl_emit r) s = Some (s\<lparr>rs_db := elicit_put r (rs_now s) (rs_db s)\<rparr>)"
| "relay_apply it loads timeout lease (Rl_begin i c q) s =
     (case relay_begin it loads lease i c q (rs_now s) (rs_db s) of
        (Inl _, d) \<Rightarrow> Some (s\<lparr>rs_db := d\<rparr>)
      | (Inr _, d) \<Rightarrow> Some (s\<lparr>rs_db := d, rs_flying := rs_flying s @
           [\<lparr>fl_invocation = rl_invocation q, fl_elicit = rl_elicit q, fl_deadline = rs_now s + timeout\<rparr>]\<rparr>))"
| "relay_apply it loads timeout lease (Rl_end f out) s =
     (if f \<in> set (rs_flying s)
      then Some (s\<lparr>rs_db := snd (relay_end out (fl_invocation f) (fl_elicit f) (rs_now s) (rs_db s)),
             rs_flying := remove1 f (rs_flying s)\<rparr>)
      else None)"
| "relay_apply it loads timeout lease Rl_sweep s = Some (s\<lparr>rs_db := snd (sweep_expired_leases (rs_now s) (rs_db s))\<rparr>)"
| "relay_apply it loads timeout lease (Rl_wait n) s =
     (if 0 \<le> n \<and> list_all (\<lambda>f. rs_now s + n \<le> fl_deadline f) (rs_flying s) then Some (s\<lparr>rs_now := rs_now s + n\<rparr>) else None)"

inductive relay_reachable :: "(string \<Rightarrow> string option option) \<Rightarrow> (string \<Rightarrow> json option) \<Rightarrow> int \<Rightarrow> int \<Rightarrow> relay_state \<Rightarrow> bool"
  for it loads timeout lease where
  start: "distinct (map el_id (db_elicits d)) \<Longrightarrow>
    relay_reachable it loads timeout lease \<lparr>rs_now = now, rs_db = d, rs_flying = []\<rparr>"
| op_step: "relay_reachable it loads timeout lease s \<Longrightarrow> relay_apply it loads timeout lease op s = Some s' \<Longrightarrow>
    relay_reachable it loads timeout lease s'"

text \<open>A flight holds its row: injecting, under a lease that outlives the flight.\<close>

definition holds :: "elicit list \<Rightarrow> flight \<Rightarrow> bool" where
  "holds rows f \<longleftrightarrow> (\<exists>r\<in>set rows. is_elicit (fl_invocation f) (fl_elicit f) ElInjecting r \<and>
     (\<exists>u. el_injecting_until r = Some u \<and> fl_deadline f \<le> u))"

definition relay_ok :: "relay_state \<Rightarrow> bool" where
  "relay_ok s \<longleftrightarrow> distinct (map el_id (db_elicits (rs_db s))) \<and> distinct (map fl_elicit (rs_flying s)) \<and>
     list_all (\<lambda>f. holds (db_elicits (rs_db s)) f \<and> rs_now s \<le> fl_deadline f) (rs_flying s)"

lemma holds_update:
  assumes "holds rows f" "distinct (map el_id rows)"
    and "\<And>r. r \<in> set rows \<Longrightarrow> el_id r = fl_elicit f \<Longrightarrow> el_status r = ElInjecting \<Longrightarrow> fl_deadline f \<le> the (el_injecting_until r)
      \<Longrightarrow> \<not> P r"
  shows "holds (rows_update P g rows) f"
proof -
  obtain r u where r: "r \<in> set rows" "is_elicit (fl_invocation f) (fl_elicit f) ElInjecting r"
    "el_injecting_until r = Some u" "fl_deadline f \<le> u"
    using assms(1) unfolding holds_def by blast
  then have "\<not> P r" using assms(3) [OF r(1)] by (simp add: is_elicit_def)
  then have "r \<in> set (rows_update P g rows)" using r(1) by (force simp: set_rows_update)
  then show ?thesis using r unfolding holds_def by blast
qed

lemma elicit_update_ids:
  "(\<And>r. el_id (g r) = el_id r) \<Longrightarrow> map el_id (rows_update P g rows) = map el_id rows"
  by (induction rows) (simp_all add: rows_update_def)

lemma relay_begin_cases:
  assumes "relay_begin it loads lease i c q now s = (res, s')"
  shows "(isl res \<and> s' = s) \<or> (res = Inr () \<and> reserve (rl_invocation q) (rl_elicit q) lease now s = (True, s'))"
proof -
  have same: "s1 = s" if "reserve iv k lease now s = (False, s1)" for iv k s1
  proof -
    have "rows_update (is_elicit iv k ElPending) g (db_elicits s) = db_elicits s" for g
      using that by (intro rows_update_none) (auto simp: reserve_def list_ex_iff)
    then show ?thesis using that by (simp add: reserve_def)
  qed
  show ?thesis
  proof (cases "relay_check it loads i c q s")
    case (Inl e)
    then have "res = Inl e \<and> s' = s" using assms by (simp add: relay_begin_def)
    then show ?thesis by simp
  next
    case (Inr u)
    obtain won s1 where "reserve (rl_invocation q) (rl_elicit q) lease now s = (won, s1)" by fastforce
    with Inr assms same show ?thesis by (cases won) (auto simp: relay_begin_def)
  qed
qed

lemma relay_ok_begin:
  assumes ok: "relay_ok s" and le: "timeout \<le> lease" and "0 \<le> timeout"
    and res: "reserve iv i lease (rs_now s) (rs_db s) = (True, d)"
  shows "relay_ok (s\<lparr>rs_db := d, rs_flying := rs_flying s @
     [\<lparr>fl_invocation = iv, fl_elicit = i, fl_deadline = rs_now s + timeout\<rparr>]\<rparr>)"
proof -
  let ?rows = "db_elicits (rs_db s)" and ?f = "\<lparr>fl_invocation = iv, fl_elicit = i, fl_deadline = rs_now s + timeout\<rparr>"
  let ?g = "\<lambda>r :: elicit. r\<lparr>el_status := ElInjecting, el_injecting_until := Some (rs_now s + lease)\<rparr>"
  have d: "db_elicits d = rows_update (is_elicit iv i ElPending) ?g ?rows" and ex: "list_ex (is_elicit iv i ElPending) ?rows"
    using res by (auto simp: reserve_def)
  obtain r where r: "r \<in> set ?rows" "is_elicit iv i ElPending r" using ex by (auto simp: list_ex_iff)
  have ids: "distinct (map el_id ?rows)" using ok by (simp add: relay_ok_def)
  have old: "holds (db_elicits d) f \<and> fl_elicit f \<noteq> i" if f: "f \<in> set (rs_flying s)" for f
  proof -
    have h: "holds ?rows f" using ok f by (auto simp: relay_ok_def list_all_iff)
    then obtain r' where r': "r' \<in> set ?rows" "el_id r' = fl_elicit f" "el_status r' = ElInjecting"
      unfolding holds_def is_elicit_def by blast
    have "r' = r" if "el_id r' = el_id r" using that ids r(1) r'(1) by (simp add: distinct_map inj_on_def)
    then have "fl_elicit f \<noteq> i" using r(2) r' by (auto simp: is_elicit_def)
    moreover have "holds (db_elicits d) f"
      unfolding d by (rule holds_update [OF h ids]) (simp add: is_elicit_def)
    ultimately show ?thesis by simp
  qed
  have "?g r \<in> set (db_elicits d)" using r by (force simp: d set_rows_update)
  then have "holds (db_elicits d) ?f"
    unfolding holds_def by (rule rev_bexI) (use r(2) le in \<open>simp add: is_elicit_def\<close>)
  moreover have "distinct (map el_id (db_elicits d))" unfolding d by (subst elicit_update_ids) (simp_all add: ids)
  ultimately show ?thesis
    using ok old assms(3) by (auto simp: relay_ok_def list_all_iff)
qed

lemma relay_ok_end:
  assumes ok: "relay_ok s" and f: "f \<in> set (rs_flying s)"
  shows "relay_ok (s\<lparr>rs_db := snd (relay_end out (fl_invocation f) (fl_elicit f) (rs_now s) (rs_db s)),
             rs_flying := remove1 f (rs_flying s)\<rparr>)"
proof -
  let ?rows = "db_elicits (rs_db s)"
  let ?d = "snd (relay_end out (fl_invocation f) (fl_elicit f) (rs_now s) (rs_db s))"
  have ids: "distinct (map el_id ?rows)" "distinct (map fl_elicit (rs_flying s))" using ok by (auto simp: relay_ok_def)
  have keep: "holds (db_elicits ?d) g" if g: "g \<in> set (remove1 f (rs_flying s))" for g
  proof -
    have g': "g \<in> set (rs_flying s)" using g notin_set_remove1 by fast
    have "distinct (rs_flying s)" using ids(2) by (simp add: distinct_map)
    then have "g \<noteq> f" using g by (simp add: set_remove1_eq)
    then have ne: "fl_elicit g \<noteq> fl_elicit f" using ids(2) f g' by (simp add: distinct_map inj_on_def) metis
    have h: "holds ?rows g" using ok g' by (auto simp: relay_ok_def list_all_iff)
    show ?thesis
    proof (cases out)
      case Injected
      then show ?thesis using ne
        by (simp add: relay_end_def finalize_def) (rule holds_update [OF h ids(1)], auto simp: is_elicit_def)
    qed (use h in \<open>simp_all add: relay_end_def\<close>)
  qed
  have "distinct (map el_id (db_elicits ?d))"
    by (cases out) (simp_all add: relay_end_def finalize_def elicit_update_ids ids(1))
  moreover have "distinct (map fl_elicit (remove1 f (rs_flying s)))" 
    using ids(2) by (auto simp: distinct_map intro: inj_on_diff)
  moreover have "rs_now s \<le> fl_deadline g" if "g \<in> set (remove1 f (rs_flying s))" for g
    using ok that notin_set_remove1 [of g "rs_flying s" f] by (auto simp: relay_ok_def list_all_iff)
  ultimately show ?thesis using keep by (simp add: relay_ok_def list_all_iff)
qed

lemma relay_ok_step:
  assumes ok: "relay_ok s" and le: "timeout \<le> lease" "0 \<le> timeout"
    and step: "relay_apply it loads timeout lease op s = Some s'"
  shows "relay_ok s'"
proof (cases op)
  case (Rl_emit r)
  have "holds (xs @ ys) f" if "holds xs f" for xs ys f using that by (auto simp: holds_def)
  then show ?thesis
    using ok step Rl_emit by (auto simp: relay_ok_def elicit_put_def row_get_None list_all_iff image_iff)
next
  case (Rl_begin i c q)
  obtain res d where b: "relay_begin it loads lease i c q (rs_now s) (rs_db s) = (res, d)" by fastforce
  from relay_begin_cases [OF b] show ?thesis
  proof
    assume "isl res \<and> d = rs_db s"
    then have "s' = s" using step Rl_begin b by (auto simp: isl_def)
    then show ?thesis using ok by simp
  next
    assume res: "res = Inr () \<and> reserve (rl_invocation q) (rl_elicit q) lease (rs_now s) (rs_db s) = (True, d)"
    then show ?thesis
      using relay_ok_begin [OF ok le conjunct2 [OF res]] step Rl_begin b by simp
  qed
next
  case (Rl_end f out)
  then show ?thesis using relay_ok_end [OF ok, of f out] step by (auto split: if_splits)
next
  case Rl_sweep
  let ?rows = "db_elicits (rs_db s)"
  have ids: "distinct (map el_id ?rows)" using ok by (simp add: relay_ok_def)
  have "holds (rows_update (lease_expired (rs_now s)) g ?rows) f" if "f \<in> set (rs_flying s)" for f g
  proof (rule holds_update [OF _ ids])
    show "holds ?rows f" using ok that by (auto simp: relay_ok_def list_all_iff)
    fix r :: elicit assume "el_id r = fl_elicit f" "fl_deadline f \<le> the (el_injecting_until r)"
    moreover have "rs_now s \<le> fl_deadline f" using ok that by (auto simp: relay_ok_def list_all_iff)
    ultimately show "\<not> lease_expired (rs_now s) r" by (auto simp: lease_expired_def split: option.splits)
  qed
  then show ?thesis
    using ok step Rl_sweep by (auto simp: relay_ok_def sweep_expired_leases_def elicit_update_ids list_all_iff)
next
  case (Rl_wait n)
  then show ?thesis using ok step by (auto simp: relay_ok_def list_all_iff split: if_splits)
qed

lemma relay_reachable_ok:
  assumes "relay_reachable it loads timeout lease s" "timeout \<le> lease" "0 \<le> timeout"
  shows "relay_ok s"
  using assms
proof (induction rule: relay_reachable.induct)
  case (op_step s op s')
  then show ?case using relay_ok_step by blast
qed (simp add: relay_ok_def)

text \<open>C29: as long as the lease is no shorter than the timeout of an injection, whatever questions are asked
  and relays and sweeps run interleaved, no question is answered by two relays at once: a second relay is
  refused without a change, the reservation of the first is still its own when it ends, and its success
  resolves the question.\<close>

theorem relay_exclusive:
  assumes "relay_reachable it loads timeout lease s" "timeout \<le> lease" "0 \<le> timeout" and f: "f \<in> set (rs_flying s)"
  shows "distinct (map fl_elicit (rs_flying s)) \<and>
    (\<forall>i c q. rl_elicit q = fl_elicit f \<longrightarrow>
       (\<exists>e. relay_begin it loads lease i c q (rs_now s) (rs_db s) = (Inl e, rs_db s))) \<and>
    fst (finalize (fl_invocation f) (fl_elicit f) (rs_now s) (rs_db s)) \<and>
    (\<exists>r. row_get el_id (fl_elicit f) (db_elicits (snd (relay_end Injected (fl_invocation f) (fl_elicit f) (rs_now s) (rs_db s)))) =
       Some r \<and> el_status r = ElResolved)"
proof -
  let ?rows = "db_elicits (rs_db s)"
  have ok: "relay_ok s" using assms(1-3) by (rule relay_reachable_ok)
  then have ids: "distinct (map el_id ?rows)" and h: "holds ?rows f" using f by (auto simp: relay_ok_def list_all_iff)
  obtain r where r: "r \<in> set ?rows" "is_elicit (fl_invocation f) (fl_elicit f) ElInjecting r"
    using h unfolding holds_def by blast
  have only: "x = r" if "x \<in> set ?rows" "el_id x = fl_elicit f" for x
    using that r ids by (auto simp: distinct_map inj_on_def is_elicit_def)
  have "\<exists>e. relay_begin it loads lease i c q (rs_now s) (rs_db s) = (Inl e, rs_db s)" if q: "rl_elicit q = fl_elicit f" for i c q
  proof -
    obtain res d where b: "relay_begin it loads lease i c q (rs_now s) (rs_db s) = (res, d)" by fastforce
    have "\<not> list_ex (is_elicit (rl_invocation q) (rl_elicit q) ElPending) ?rows"
      using only r(2) q by (auto simp: list_ex_iff is_elicit_def)
    then show ?thesis using relay_begin_cases [OF b] b by (auto simp: reserve_def isl_def)
  qed
  moreover have "fst (finalize (fl_invocation f) (fl_elicit f) (rs_now s) (rs_db s))"
    using r by (auto simp: finalize_def list_ex_iff)
  moreover have "row_get el_id (fl_elicit f) (db_elicits (snd (relay_end Injected (fl_invocation f) (fl_elicit f) (rs_now s) (rs_db s)))) =
      Some (r\<lparr>el_status := ElResolved, el_resolved_at := Some (rs_now s), el_injecting_until := None\<rparr>)"
    (is "row_get _ _ ?new = Some ?r")
  proof -
    have "?r \<in> set ?new" using r by (force simp: relay_end_def finalize_def set_rows_update)
    moreover have "distinct (map el_id ?new)" by (simp add: relay_end_def finalize_def elicit_update_ids ids)
    ultimately show ?thesis using row_get_in_set [of el_id ?new ?r] r(2) by (simp add: is_elicit_def)
  qed
  ultimately show ?thesis using ok by (simp add: relay_ok_def)
qed

definition relay_owner :: caller where
  "relay_owner = \<lparr>ca_account = ''acc_1'', ca_username = None, ca_principal = ''human'', ca_wallet = None, ca_method = ''siwe''\<rparr>"

definition asked_db :: db where
  "asked_db = sample_db\<lparr>db_bundles := [(plain_bundle ''b'' ''cb'')\<lparr>bundle_owner := Some ''acc_1''\<rparr>],
     db_elicits := [\<lparr>el_id = ''q'', el_invocation = ''i'', el_op = ''auth_required'', el_payload = ''p'', el_status = ElPending,
        el_injecting_until = None, el_created_at = 0, el_resolved_at = None\<rparr>]\<rparr>"

definition relay_answer :: relay_request where
  "relay_answer = \<lparr>rl_invocation = ''i'', rl_elicit = ''q'', rl_provider = ''github'', rl_host = ''api.github.com''\<rparr>"

lemma relay_exclusive_witness:
  "\<exists>s f. relay_reachable (\<lambda>_. Some (Some ''t1'')) (\<lambda>_. Some (JObj [(''provider'', JStr ''github'')])) 25 60 s \<and>
     rs_flying s = [f] \<and> fst (finalize (fl_invocation f) (fl_elicit f) (rs_now s) (rs_db s))"
proof -
  let ?it = "\<lambda>_. Some (Some ''t1'')" and ?loads = "\<lambda>_. Some (JObj [(''provider'', JStr ''github'')])"
  let ?s0 = "\<lparr>rs_now = 0, rs_db = asked_db, rs_flying = []\<rparr>"
  have 0: "relay_reachable ?it ?loads 25 60 ?s0" by (rule relay_reachable.start) (simp add: asked_db_def)
  have "relay_check ?it ?loads ''t1'' relay_owner relay_answer asked_db = Inr ()"
    by (simp add: relay_check_def require_cookie_session_def owned_task_def get_pending_def check_payload_def
        relay_owner_def relay_answer_def asked_db_def sample_db_def task_get_def bundle_get_def fresh_task_def
        plain_bundle_def is_elicit_def dict_get_def)
  then have "\<exists>d. relay_apply ?it ?loads 25 60 (Rl_begin ''t1'' relay_owner relay_answer) ?s0 =
      Some \<lparr>rs_now = 0, rs_db = d, rs_flying = [\<lparr>fl_invocation = ''i'', fl_elicit = ''q'', fl_deadline = 25\<rparr>]\<rparr>"
    by (simp add: relay_begin_def reserve_def asked_db_def relay_answer_def is_elicit_def)
  then obtain d where "relay_reachable ?it ?loads 25 60 \<lparr>rs_now = 0, rs_db = d,
      rs_flying = [\<lparr>fl_invocation = ''i'', fl_elicit = ''q'', fl_deadline = 25\<rparr>]\<rparr>"
    using relay_reachable.op_step [OF 0] by blast
  from this relay_exclusive [OF this, of "\<lparr>fl_invocation = ''i'', fl_elicit = ''q'', fl_deadline = 25\<rparr>"] show ?thesis
    by (intro exI [of _ "\<lparr>rs_now = 0, rs_db = d, rs_flying = [\<lparr>fl_invocation = ''i'', fl_elicit = ''q'', fl_deadline = 25\<rparr>]\<rparr>"]
        exI [of _ "\<lparr>fl_invocation = ''i'', fl_elicit = ''q'', fl_deadline = 25\<rparr>"]) simp
qed

section \<open>The credential store\<close>

record credential =
  cr_id :: string
  cr_account :: string
  cr_host :: string
  cr_env_var :: string
  cr_ciphertext :: string
  cr_nonce :: string
  cr_created_at :: int
  cr_updated_at :: int
  cr_archived_at :: "int option"

text \<open>The view without the secret: id, account, host, variable, times.\<close>

type_synonym credential_view = "string \<times> string \<times> string \<times> string \<times> int \<times> int"

definition credential_view :: "credential \<Rightarrow> credential_view" where
  "credential_view r = (cr_id r, cr_account r, cr_host r, cr_env_var r, cr_created_at r, cr_updated_at r)"

definition active_for :: "string \<Rightarrow> credential \<Rightarrow> bool" where
  "active_for acc r \<longleftrightarrow> cr_account r = acc \<and> cr_archived_at r = None"

definition get_row :: "string \<Rightarrow> string \<Rightarrow> credential list \<Rightarrow> credential option" where
  "get_row acc host rows = find (\<lambda>r. active_for acc r \<and> cr_host r = host) rows"

definition is_alnum :: "char \<Rightarrow> bool" where
  "is_alnum c \<longleftrightarrow> (let n = (of_char c :: nat) in 48 \<le> n \<and> n \<le> 57 \<or> 65 \<le> n \<and> n \<le> 90 \<or> 97 \<le> n \<and> n \<le> 122)"

definition env_name_ok :: "string \<Rightarrow> bool" where
  "env_name_ok v \<longleftrightarrow> (let w = filter (\<lambda>c. c \<noteq> CHR ''_'') v in w \<noteq> [] \<and> list_all is_alnum w)"

text \<open>\<open>cid\<close> and \<open>nonce\<close> are what \<open>secrets\<close> draws.\<close>

definition put_credential :: "(string \<Rightarrow> string \<Rightarrow> string \<Rightarrow> string) \<Rightarrow> string \<Rightarrow> string \<Rightarrow> string \<Rightarrow> string \<Rightarrow> string \<Rightarrow>
    string \<Rightarrow> string \<Rightarrow> int \<Rightarrow> credential list \<Rightarrow> credential_view res \<times> credential list" where
  "put_credential enc key acc host v plaintext nonce cid now rows =
     (if plaintext = [] then (Inl (ValueError [Lit ''plaintext credential cannot be empty'']), rows)
      else if \<not> env_name_ok v
      then (Inl (ValueError [Lit ''env_var_name must be alphanumeric/underscore: '', Repr (JStr v)]), rows)
      else let ct = enc key nonce plaintext in
        case get_row acc host rows of
          None \<Rightarrow>
            if row_get cr_id cid rows \<noteq> None then (Inl IntegrityError, rows)
            else (Inr (cid, acc, host, v, now, now), rows @
              [\<lparr>cr_id = cid, cr_account = acc, cr_host = host, cr_env_var = v, cr_ciphertext = ct, cr_nonce = nonce,
                cr_created_at = now, cr_updated_at = now, cr_archived_at = None\<rparr>])
        | Some old \<Rightarrow> (Inr (cr_id old, acc, host, v, cr_created_at old, now), rows_update (\<lambda>r. cr_id r = cr_id old)
             (\<lambda>r. r\<lparr>cr_env_var := v, cr_ciphertext := ct, cr_nonce := nonce, cr_updated_at := now\<rparr>) rows))"

definition list_for_account :: "string \<Rightarrow> credential list \<Rightarrow> credential_view list" where
  "list_for_account acc rows = map credential_view (sort_key cr_host (filter (active_for acc) rows))"

definition archive :: "string \<Rightarrow> string \<Rightarrow> int \<Rightarrow> credential list \<Rightarrow> bool \<times> credential list" where
  "archive acc host now rows = (list_ex (\<lambda>r. active_for acc r \<and> cr_host r = host) rows,
     rows_update (\<lambda>r. active_for acc r \<and> cr_host r = host) (\<lambda>r. r\<lparr>cr_archived_at := Some now\<rparr>) rows)"

definition ENV_VAR_ALIASES :: "(string \<times> string list) list" where
  "ENV_VAR_ALIASES =
     [(''api.github.com'', [''GITHUB_TOKEN'', ''GITHUB_PERSONAL_ACCESS_TOKEN'', ''GH_TOKEN'']),
      (''github.com'', [''GITHUB_TOKEN'', ''GITHUB_PERSONAL_ACCESS_TOKEN'', ''GH_TOKEN'']),
      (''api.openai.com'', [''OPENAI_API_KEY'']),
      (''api.anthropic.com'', [''ANTHROPIC_API_KEY'']),
      (''mcp.slack.com'', [''SLACK_BOT_TOKEN''])]"

definition aliases_of :: "string \<Rightarrow> string list" where
  "aliases_of host = (case map_of ENV_VAR_ALIASES host of None \<Rightarrow> [] | Some xs \<Rightarrow> xs)"

definition add_alias :: "string \<Rightarrow> string \<Rightarrow> (string \<rightharpoonup> string) \<Rightarrow> (string \<rightharpoonup> string)" where
  "add_alias plain a envs = (if envs a = None then envs(a \<mapsto> plain) else envs)"

definition add_credential :: "(string \<Rightarrow> string \<Rightarrow> string \<Rightarrow> string option) \<Rightarrow> string \<Rightarrow> credential \<Rightarrow>
    (string \<rightharpoonup> string) \<Rightarrow> (string \<rightharpoonup> string)" where
  "add_credential dec key r envs = (case dec key (cr_nonce r) (cr_ciphertext r) of
       None \<Rightarrow> envs
     | Some plain \<Rightarrow> fold (add_alias plain) (aliases_of (cr_host r)) (envs(cr_env_var r \<mapsto> plain)))"

definition get_envs :: "(string \<Rightarrow> string \<Rightarrow> string \<Rightarrow> string option) \<Rightarrow> string \<Rightarrow> string \<Rightarrow> credential list \<Rightarrow>
    (string \<rightharpoonup> string)" where
  "get_envs dec key acc rows = fold (add_credential dec key) (filter (active_for acc) rows) Map.empty"

text \<open>What the unique index keeps: one active credential per account and host.\<close>

definition store_ok :: "credential list \<Rightarrow> bool" where
  "store_ok rows \<longleftrightarrow> distinct (map cr_id rows) \<and>
     distinct (map (\<lambda>r. (cr_account r, cr_host r)) (filter (\<lambda>r. cr_archived_at r = None) rows))"

lemma store_ok_same:
  assumes "store_ok rows" "r \<in> set rows" "r' \<in> set rows" "active_for acc r" "active_for acc r'" "cr_host r = cr_host r'"
  shows "r = r'"
  using assms unfolding store_ok_def distinct_map inj_on_def active_for_def by auto

lemma get_row_Some: "get_row acc host rows = Some r \<Longrightarrow> r \<in> set rows \<and> active_for acc r \<and> cr_host r = host"
  by (auto simp: get_row_def find_Some_iff)

lemma get_row_None: "get_row acc host rows = None \<longleftrightarrow> (\<forall>r\<in>set rows. active_for acc r \<longrightarrow> cr_host r \<noteq> host)"
  by (auto simp: get_row_def find_None_iff)

lemma filter_update_other:
  "(\<And>r. r \<in> set rows \<Longrightarrow> P r \<Longrightarrow> \<not> Q r \<and> \<not> Q (f r)) \<Longrightarrow> filter Q (rows_update P f rows) = filter Q rows"
  by (induction rows) (auto simp: rows_update_def)

lemma aliases_keep: "envs v = Some p \<Longrightarrow> fold (add_alias q) as envs v = Some p"
proof (induction as arbitrary: envs)
  case (Cons a as)
  then have "add_alias q a envs v = Some p" by (auto simp: add_alias_def)
  from Cons.IH [where envs = "add_alias q a envs", OF this] show ?case by simp
qed simp

lemma aliases_defined: "fold (add_alias q) as envs a = None \<Longrightarrow> envs a = None \<and> a \<notin> set as"
proof (induction as arbitrary: envs)
  case (Cons b as)
  then have "add_alias q b envs a = None \<and> a \<notin> set as" by simp
  then show ?case by (auto simp: add_alias_def split: if_splits)
qed simp

lemma add_credential_keep:
  assumes "envs v = Some p" "cr_env_var r = v \<Longrightarrow> dec key (cr_nonce r) (cr_ciphertext r) = Some p"
  shows "add_credential dec key r envs v = Some p"
  using assms by (auto simp: add_credential_def intro!: aliases_keep split: option.split)

lemma add_credential_mono: "envs a \<noteq> None \<Longrightarrow> add_credential dec key r envs a \<noteq> None"
proof (cases "dec key (cr_nonce r) (cr_ciphertext r)")
  case (Some p)
  assume "envs a \<noteq> None"
  then have "(envs(cr_env_var r \<mapsto> p)) a \<noteq> None" by simp
  then show ?thesis using aliases_defined unfolding add_credential_def Some option.case by metis
qed (simp add: add_credential_def)

lemma envs_of:
  assumes r: "r \<in> set rows" "dec key (cr_nonce r) (cr_ciphertext r) = Some p"
    and only: "\<forall>r'\<in>set rows. cr_env_var r' = cr_env_var r \<longrightarrow> r' = r"
  shows "fold (add_credential dec key) rows envs (cr_env_var r) = Some p"
    and "a \<in> set (aliases_of (cr_host r)) \<Longrightarrow> fold (add_credential dec key) rows envs a \<noteq> None"
proof -
  obtain xs ys where rows: "rows = xs @ r # ys" using r(1) by (meson split_list)
  let ?m = "add_credential dec key r (fold (add_credential dec key) xs envs)"
  have "?m (cr_env_var r) = Some p" using r(2) by (simp add: add_credential_def aliases_keep)
  moreover have keep: "fold (add_credential dec key) zs m (cr_env_var r) = Some p"
    if "m (cr_env_var r) = Some p" "set zs \<subseteq> set rows" for zs m
    using that
  proof (induction zs arbitrary: m)
    case (Cons z zs)
    then have "add_credential dec key z m (cr_env_var r) = Some p"
      using only r(2) by (intro add_credential_keep) auto
    then show ?case using Cons by simp
  qed simp
  moreover have "set ys \<subseteq> set rows" by (auto simp: rows)
  ultimately have "fold (add_credential dec key) ys ?m (cr_env_var r) = Some p" by blast
  then show "fold (add_credential dec key) rows envs (cr_env_var r) = Some p" by (simp add: rows)
  show "fold (add_credential dec key) rows envs a \<noteq> None" if a: "a \<in> set (aliases_of (cr_host r))"
  proof -
    have "?m a \<noteq> None" using r(2) a aliases_defined [of p "aliases_of (cr_host r)"] unfolding add_credential_def by fastforce
    moreover have "fold (add_credential dec key) zs m a \<noteq> None" if "m a \<noteq> None" for zs m
      using that
    proof (induction zs arbitrary: m)
      case (Cons z zs)
      have "add_credential dec key z m a \<noteq> None" by (rule add_credential_mono) (rule Cons.prems)
      from Cons.IH [where m = "add_credential dec key z m", OF this] show ?case by simp
    qed simp
    ultimately show ?thesis by (simp add: rows)
  qed
qed

lemma put_row:
  assumes ok: "store_ok rows" and put: "put_credential enc key acc host v plain nonce cid now rows = (Inr view, rows')"
  obtains r where "r \<in> set rows'" "active_for acc r" "cr_host r = host" "cr_env_var r = v" "cr_nonce r = nonce"
    "cr_ciphertext r = enc key nonce plain" "credential_view r = view" "store_ok rows'"
    "\<forall>x\<in>set rows'. x = r \<or> (x \<in> set rows \<and> \<not> (active_for acc x \<and> cr_host x = host))"
    "\<forall>other. other \<noteq> acc \<longrightarrow> filter (active_for other) rows' = filter (active_for other) rows"
proof (cases "get_row acc host rows")
  case None
  let ?r = "\<lparr>cr_id = cid, cr_account = acc, cr_host = host, cr_env_var = v, cr_ciphertext = enc key nonce plain, cr_nonce = nonce,
                cr_created_at = now, cr_updated_at = now, cr_archived_at = None\<rparr>"
  have rows': "rows' = rows @ [?r]" and view: "view = credential_view ?r" and new: "row_get cr_id cid rows = None"
    using put None by (auto simp: put_credential_def credential_view_def Let_def split: if_splits)
  have old: "\<forall>x\<in>set rows. \<not> (active_for acc x \<and> cr_host x = host)" using None by (auto simp: get_row_None)
  have "store_ok rows'"
    using ok new old unfolding store_ok_def rows' row_get_None by (auto simp: active_for_def)
  then show ?thesis
    using old view by (intro that [of ?r]) (auto simp: rows' active_for_def)
next
  case (Some old)
  let ?P = "\<lambda>r. cr_id r = cr_id old"
  let ?f = "\<lambda>r :: credential. r\<lparr>cr_env_var := v, cr_ciphertext := enc key nonce plain, cr_nonce := nonce, cr_updated_at := now\<rparr>"
  have rows': "rows' = rows_update ?P ?f rows" and view: "view = credential_view (?f old)"
    using put Some get_row_Some [OF Some]
    by (auto simp: put_credential_def credential_view_def active_for_def Let_def split: if_splits)
  note o = get_row_Some [OF Some]
  have ids: "x = old" if "x \<in> set rows" "?P x" for x
    using that o ok by (auto simp: store_ok_def distinct_map inj_on_def)
  have "map cr_id (rows_update ?P ?f rows) = map cr_id rows" by (induction rows) (simp_all add: rows_update_def)
  moreover have "map (\<lambda>r. (cr_account r, cr_host r)) (filter (\<lambda>r. cr_archived_at r = None) (rows_update ?P ?f rows)) =
      map (\<lambda>r. (cr_account r, cr_host r)) (filter (\<lambda>r. cr_archived_at r = None) rows)"
    by (induction rows) (simp_all add: rows_update_def)
  ultimately have "store_ok rows'" using ok by (simp add: store_ok_def rows')
  moreover have "?f old \<in> set rows'" using o by (force simp: rows' set_rows_update)
  moreover have "x = ?f old \<or> (x \<in> set rows \<and> \<not> (active_for acc x \<and> cr_host x = host))" if x: "x \<in> set rows'" for x
  proof -
    obtain y where y: "y \<in> set rows" "x = (if ?P y then ?f y else y)" using x by (auto simp: rows' set_rows_update)
    show ?thesis
    proof (cases "?P y")
      case True
      then show ?thesis using ids [OF y(1)] y(2) by simp
    next
      case False
      then show ?thesis using y store_ok_same [OF ok y(1), of old acc] o by auto
    qed
  qed
  moreover have "filter (active_for other) rows' = filter (active_for other) rows" if "other \<noteq> acc" for other
    unfolding rows' using ids o that by (intro filter_update_other) (auto simp: active_for_def)
  ultimately show ?thesis
    using o view by (intro that [of "?f old"]) (auto simp: active_for_def)
qed

lemma archive_gone:
  assumes "x \<in> set (snd (archive acc host now rows))" "active_for acc x"
  shows "cr_host x \<noteq> host"
proof -
  let ?P = "\<lambda>r. active_for acc r \<and> cr_host r = host"
  obtain y where y: "x = (if ?P y then y\<lparr>cr_archived_at := Some now\<rparr> else y)"
    using assms(1) unfolding archive_def snd_conv set_rows_update by blast
  then have "\<not> ?P y" using assms(2) by (auto simp: active_for_def)
  with y assms(2) show ?thesis by simp
qed

text \<open>Where a value of the environment comes from: a credential with that variable, or one of a host with that alias.\<close>

definition names_variable :: "string \<Rightarrow> credential \<Rightarrow> bool" where
  "names_variable a r \<longleftrightarrow> cr_env_var r = a \<or> a \<in> set (aliases_of (cr_host r))"

lemma aliases_origin: "fold (add_alias q) as envs a = Some x \<Longrightarrow> envs a = Some x \<or> a \<in> set as \<and> x = q"
proof (induction as arbitrary: envs)
  case (Cons b as)
  then have "add_alias q b envs a = Some x \<or> a \<in> set as \<and> x = q" by simp
  then show ?case by (auto simp: add_alias_def split: if_splits)
qed simp

lemma add_credential_origin:
  assumes "add_credential dec key r envs a = Some x"
  shows "envs a = Some x \<or> names_variable a r \<and> dec key (cr_nonce r) (cr_ciphertext r) = Some x"
proof (cases "dec key (cr_nonce r) (cr_ciphertext r)")
  case (Some p)
  then have "fold (add_alias p) (aliases_of (cr_host r)) (envs(cr_env_var r \<mapsto> p)) a = Some x"
    using assms by (simp add: add_credential_def)
  from aliases_origin [OF this] Some show ?thesis by (auto simp: names_variable_def split: if_splits)
qed (use assms in \<open>simp add: add_credential_def\<close>)

lemma envs_origin:
  "fold (add_credential dec key) rows envs a = Some x \<Longrightarrow>
     envs a = Some x \<or> (\<exists>r\<in>set rows. names_variable a r \<and> dec key (cr_nonce r) (cr_ciphertext r) = Some x)"
proof (induction rows arbitrary: envs)
  case (Cons r rows)
  then show ?case using add_credential_origin [of dec key r envs a x] by fastforce
qed simp

text \<open>C30: whatever the operator stores for a host comes out of the store as it went in, under its variable,
  provided that no other host of the account uses the same variable. Each name tools read for that host has a
  value, which is the plaintext of an active credential of the account that is stored under that name or for
  a host with that alias; it is what the operator stored unless a credential of another host has the name.
  Other accounts see no difference; and once archived the host is gone from the list.\<close>

theorem credential_roundtrip:
  assumes aead: "\<forall>n p. dec key n (enc key n p) = Some p" and ok: "store_ok rows"
    and put: "put_credential enc key acc host v plain nonce cid now rows = (Inr view, rows')"
    and alone: "\<forall>r\<in>set rows. active_for acc r \<and> cr_env_var r = v \<longrightarrow> cr_host r = host"
  shows "get_envs dec key acc rows' v = Some plain \<and>
    (\<forall>a\<in>set (aliases_of host). \<exists>x. get_envs dec key acc rows' a = Some x \<and>
       (\<exists>r\<in>set rows'. active_for acc r \<and> names_variable a r \<and> dec key (cr_nonce r) (cr_ciphertext r) = Some x) \<and>
       ((\<forall>r\<in>set rows. active_for acc r \<and> names_variable a r \<longrightarrow> cr_host r = host) \<longrightarrow> x = plain)) \<and>
    view \<in> set (list_for_account acc rows') \<and> store_ok rows' \<and>
    (\<forall>other key2. other \<noteq> acc \<longrightarrow> get_envs dec key2 other rows' = get_envs dec key2 other rows) \<and>
    fst (archive acc host later rows') \<and>
    (\<forall>w\<in>set (list_for_account acc (snd (archive acc host later rows'))). fst (snd (snd w)) \<noteq> host)"
proof -
  obtain r where r: "r \<in> set rows'" "active_for acc r" "cr_host r = host" "cr_env_var r = v" "cr_nonce r = nonce"
    "cr_ciphertext r = enc key nonce plain" "credential_view r = view" "store_ok rows'"
    and rest: "\<forall>x\<in>set rows'. x = r \<or> (x \<in> set rows \<and> \<not> (active_for acc x \<and> cr_host x = host))"
    and others: "\<forall>other. other \<noteq> acc \<longrightarrow> filter (active_for other) rows' = filter (active_for other) rows"
    using put_row [OF ok put] by blast
  have mem: "r \<in> set (filter (active_for acc) rows')" using r by simp
  have dec: "dec key (cr_nonce r) (cr_ciphertext r) = Some plain" using aead r by simp
  have only: "\<forall>x\<in>set (filter (active_for acc) rows'). cr_env_var x = cr_env_var r \<longrightarrow> x = r"
    using rest alone r(4) by auto
  have "get_envs dec key acc rows' v = Some plain"
    using envs_of(1) [where dec = dec and key = key, OF mem dec only] r(4) by (simp add: get_envs_def)
  moreover have "\<exists>x. get_envs dec key acc rows' a = Some x \<and>
      (\<exists>r\<in>set rows'. active_for acc r \<and> names_variable a r \<and> dec key (cr_nonce r) (cr_ciphertext r) = Some x) \<and>
      ((\<forall>r\<in>set rows. active_for acc r \<and> names_variable a r \<longrightarrow> cr_host r = host) \<longrightarrow> x = plain)"
    if a: "a \<in> set (aliases_of host)" for a
  proof -
    obtain x where x: "get_envs dec key acc rows' a = Some x"
      using envs_of(2) [where dec = dec and key = key, OF mem dec only] r(3) a by (fastforce simp: get_envs_def)
    then obtain o' where o': "o' \<in> set rows'" "active_for acc o'" "names_variable a o'" "dec key (cr_nonce o') (cr_ciphertext o') = Some x"
      using envs_origin unfolding get_envs_def by fastforce
    have "x = plain" if "\<forall>r\<in>set rows. active_for acc r \<and> names_variable a r \<longrightarrow> cr_host r = host"
    proof -
      have "o' = r" using rest o'(1-3) that by blast
      then show ?thesis using o'(4) dec by simp
    qed
    with x o' show ?thesis by blast
  qed
  moreover have "view \<in> set (list_for_account acc rows')" using r by (auto simp: list_for_account_def)
  moreover have "\<forall>other key2. other \<noteq> acc \<longrightarrow> get_envs dec key2 other rows' = get_envs dec key2 other rows"
    using others by (simp add: get_envs_def)
  moreover have "fst (archive acc host later rows')" using r by (auto simp: archive_def list_ex_iff)
  moreover have "\<forall>w\<in>set (list_for_account acc (snd (archive acc host later rows'))). fst (snd (snd w)) \<noteq> host"
    unfolding list_for_account_def using archive_gone [of _ acc host later rows']
    by (auto simp: credential_view_def)
  ultimately show ?thesis using r(8) by simp
qed

lemma credential_roundtrip_witness:
  "get_envs (\<lambda>k n c. Some (rev c)) ''k'' ''acc''
     (snd (put_credential (\<lambda>k n p. rev p) ''k'' ''acc'' ''api.github.com'' ''MY_TOKEN'' ''abc'' ''n'' ''c1'' 3 [])) ''MY_TOKEN''
   = Some ''abc'' \<and>
   get_envs (\<lambda>k n c. Some (rev c)) ''k'' ''acc''
     (snd (put_credential (\<lambda>k n p. rev p) ''k'' ''acc'' ''api.github.com'' ''MY_TOKEN'' ''abc'' ''n'' ''c1'' 3 [])) ''GH_TOKEN''
   = Some ''abc''"
proof -
  have "env_name_ok ''MY_TOKEN''" by code_simp
  then have put: "put_credential (\<lambda>k n p. rev p) ''k'' ''acc'' ''api.github.com'' ''MY_TOKEN'' ''abc'' ''n'' ''c1'' 3 [] =
    (Inr (''c1'', ''acc'', ''api.github.com'', ''MY_TOKEN'', 3, 3),
     snd (put_credential (\<lambda>k n p. rev p) ''k'' ''acc'' ''api.github.com'' ''MY_TOKEN'' ''abc'' ''n'' ''c1'' 3 []))"
    by (simp add: put_credential_def get_row_def)
  have gh: "''GH_TOKEN'' \<in> set (aliases_of ''api.github.com'')" by (simp add: aliases_of_def ENV_VAR_ALIASES_def)
  have ok: "store_ok []" by (simp add: store_ok_def)
  note spec = credential_roundtrip [where dec = "\<lambda>k n c. Some (rev c)", OF _ ok put, simplified]
  show ?thesis using spec gh by fastforce
qed

end
