(* ===== verification/Invocation_Routes.thy ===== *)
theory Invocation_Routes
  imports Invocation_Service Bundle_Routes Credentials
begin

text \<open>
  The handlers of \<^verbatim>\<open>routes/invocations.py\<close> and \<^verbatim>\<open>routes/credentials.py\<close>, over the invocation service and the
  database side by side: creation with the bundle's sandbox as a target, reading and streaming a tape,
  submitting a result together with its projection onto the tape of the task that asked, cancelling.
  \<open>json.dumps\<close> is the argument \<open>dumps\<close> (\<open>sorted_dumps\<close> with sorted keys), \<open>str\<close> of a value in a message the
  argument \<open>fmt\<close>; what the other coroutines do while a handler waits is the argument \<open>wait\<close>.
\<close>

section \<open>Creating\<close>

definition msg_text :: "(json \<Rightarrow> string) \<Rightarrow> msg \<Rightarrow> string" where
  "msg_text fmt m = concat (map (\<lambda>p. case p of Lit s \<Rightarrow> s | Repr v \<Rightarrow> fmt v) m)"

text \<open>A bare \<open>sandbox\<close> stands for the sandbox of the bundle; \<open>e2b\<close> is \<open>None\<close> when no client is configured.\<close>

definition resolve_sandbox :: "invocation_request \<Rightarrow> string option \<Rightarrow> string res option \<Rightarrow> int \<Rightarrow> db
    \<Rightarrow> invocation_request res \<times> db" where
  "resolve_sandbox q bundle e2b now d =
     (if req_target q \<noteq> ''sandbox'' then (Inr q, d)
      else if \<not> opt_truthy bundle then (Inl (HTTPException 400 ''bad_target''), d)
      else case e2b of
          None \<Rightarrow> (Inl (HTTPException 503 ''platform_unavailable''), d)
        | Some answer \<Rightarrow> (case ensure_sandbox_for_bundle (the bundle) answer now d of
              (Inl _, d1) \<Rightarrow> (Inl (HTTPException 503 ''platform_unavailable''), d1)
            | (Inr sb, d1) \<Rightarrow> (Inr (q\<lparr>req_target := ''sandbox:'' @ sb_id sb\<rparr>), d1)))"

definition error_code :: "string \<Rightarrow> string" where
  "error_code m =
     (if has_infix ''target'' m \<or> has_infix ''human accepts'' m \<or> has_infix ''requires an id'' m \<or>
         has_infix ''unknown target type'' m then ''bad_target''
      else if has_infix ''schema'' m \<or> has_infix ''nested'' m then ''bad_schema''
      else ''bad_request'')"

definition post_invocation :: "(json \<Rightarrow> string) \<Rightarrow> string list \<Rightarrow> invocation_request \<Rightarrow> string option \<Rightarrow> string res option \<Rightarrow>
    caller \<Rightarrow> int \<Rightarrow> string \<Rightarrow> string \<Rightarrow> svc \<times> db \<Rightarrow> (string \<times> string \<times> invocation_status) res \<times> svc \<times> db" where
  "post_invocation fmt hands q bundle e2b c now iid tid st =
     (let (s, d) = st in
      case resolve_sandbox q bundle e2b now d of
        (Inl e, d1) \<Rightarrow> (Inl e, s, d1)
      | (Inr q', d1) \<Rightarrow> (case create hands q' (ca_account c) now iid tid s of
            (Inl (ValueError m), s1) \<Rightarrow> (Inl (HTTPException 400 (error_code (msg_text fmt m))), s1, d1)
          | (Inl e, s1) \<Rightarrow> (Inl e, s1, d1)
          | (Inr iv, s1) \<Rightarrow> (Inr (inv_id iv, inv_tape_id iv, inv_status iv), s1, d1)))"

section \<open>Reading\<close>

definition require_invocation :: "string \<Rightarrow> svc \<Rightarrow> invocation res" where
  "require_invocation i s = (case inv_get i (svc_invs s) of
       None \<Rightarrow> Inl (HTTPException 404 ''invocation not found'') | Some iv \<Rightarrow> Inr iv)"

definition get_invocation :: "string \<Rightarrow> svc \<Rightarrow> (invocation \<times> int) res" where
  "get_invocation i s = bind_res (require_invocation i s) (\<lambda>iv. Inr (iv, latest_id (inv_tape_id iv) (svc_events s)))"

definition list_events :: "string \<Rightarrow> int option \<Rightarrow> int option \<Rightarrow> svc \<Rightarrow> (inv_event list \<times> int option) res" where
  "list_events i after limit s = bind_res (require_invocation i s) (\<lambda>iv.
     let es = list_for_tape (inv_tape_id iv) after limit (svc_events s)
     in Inr (es, if es = [] then after else Some (ev_id (last es))))"

text \<open>The stream: the backlog up to a \<open>done\<close>, then what arrives on the queue for this tape, without what was
  sent already, up to a \<open>done\<close> or to the first silence of thirty seconds, which ends \<open>live\<close>.\<close>

fun emit_backlog :: "int \<Rightarrow> inv_event list \<Rightarrow> inv_event list \<times> int \<times> bool" where
  "emit_backlog l [] = ([], l, False)"
| "emit_backlog l (e # es) =
     (if ev_kind e = KDone then ([e], ev_id e, True)
      else let (out, l', over) = emit_backlog (ev_id e) es in (e # out, l', over))"

fun emit_live :: "string \<Rightarrow> int \<Rightarrow> inv_event list \<Rightarrow> inv_event list" where
  "emit_live t l [] = []"
| "emit_live t l (e # es) =
     (if ev_tape_id e \<noteq> t then emit_live t l es
      else if ev_id e \<le> l then emit_live t l es
      else if ev_kind e = KDone then [e]
      else e # emit_live t (ev_id e) es)"

definition stream_events :: "string \<Rightarrow> int option \<Rightarrow> inv_event list \<Rightarrow> inv_event list \<Rightarrow> inv_event list" where
  "stream_events t after rows live =
     (let (out, l, over) = emit_backlog (-1) (list_for_tape t after None rows)
      in if over then out else out @ emit_live t l live)"

definition stream_route :: "string \<Rightarrow> int option \<Rightarrow> svc \<Rightarrow> inv_event list \<Rightarrow> inv_event list res" where
  "stream_route i after s live = bind_res (require_invocation i s) (\<lambda>iv.
     Inr (stream_events (inv_tape_id iv) after (svc_events s) live))"

text \<open>The task behind an invocation and its open question, for the owner of the bundle.\<close>

definition invocation_task :: "string \<Rightarrow> caller \<Rightarrow> svc \<Rightarrow> db \<Rightarrow> (string \<times> string option) res" where
  "invocation_task i c s d = bind_res (require_cookie_session c) (\<lambda>c.
     case inv_get i (svc_invs s) of
       None \<Rightarrow> Inl (HTTPException 404 ''invocation not found'')
     | Some iv \<Rightarrow>
         if \<not> opt_truthy (inv_task_id iv) then Inl (HTTPException 404 ''invocation not found'')
         else bind_res (owned_task (the (inv_task_id iv)) c ''task not found'' ''not your invocation'' d) (\<lambda>_.
           Inr (the (inv_task_id iv), map_option el_id (latest_pending_auth_required i d))))"

section \<open>Submitting a result\<close>

definition submit_result :: "(svc \<Rightarrow> svc) \<Rightarrow> int \<Rightarrow> string \<Rightarrow> result_envelope \<Rightarrow> svc \<Rightarrow> inv_event res \<times> svc" where
  "submit_result wait now i env s = (case submit_check i env s of
       Inl e \<Rightarrow> (Inl e, s)
     | Inr s1 \<Rightarrow> (case inv_get i (svc_invs s) of
           None \<Rightarrow> (Inl (KeyError i), s)
         | Some iv \<Rightarrow>
             let sub = \<lparr>sub_inv = iv, sub_env = env, sub_decided = False\<rparr>;
                 s2 = wait (submit_set (sub\<lparr>sub_decided := True\<rparr>) (submit_decision now sub s1))
             in (case list_for_tape (inv_tape_id iv) None None (svc_events s2) of
                   [] \<Rightarrow> (Inl IndexError, s2) | es \<Rightarrow> (Inr (last es), s2))))"

definition text_of_content :: "(json \<Rightarrow> string) \<Rightarrow> json \<Rightarrow> string" where
  "text_of_content sorted_dumps content = (case content of
       JStr s \<Rightarrow> s
     | JObj d \<Rightarrow> (case filter (\<lambda>k. case dict_get d k of JStr x \<Rightarrow> str_strip x \<noteq> [] | _ \<Rightarrow> False)
           [''text'', ''message'', ''answer'', ''response''] of
           k # _ \<Rightarrow> (case dict_get d k of JStr x \<Rightarrow> x | _ \<Rightarrow> [])
         | [] \<Rightarrow> sorted_dumps content)
     | _ \<Rightarrow> [])"

definition envelope_body :: "(json \<Rightarrow> string) \<Rightarrow> (json \<Rightarrow> string) \<Rightarrow> result_envelope \<Rightarrow> string" where
  "envelope_body sorted_dumps fmt env =
     (if env_action env = Accept then text_of_content sorted_dumps (env_content env)
      else let name = action_name (env_action env);
               reason = (case env_reason env of None \<Rightarrow> [] | Some m \<Rightarrow> msg_text fmt m)
           in ''['' @ name @ ''] '' @ (if reason = [] then name else reason))"

text \<open>SQL \<open>LIKE\<close>: \<open>%\<close> any text, \<open>_\<close> any character, ASCII letters in either case.\<close>

fun like :: "string \<Rightarrow> string \<Rightarrow> bool" where
  "like [] s = (s = [])"
| "like (p # ps) [] = (p = CHR ''%'' \<and> like ps [])"
| "like (p # ps) (c # cs) =
     (if p = CHR ''%'' then like ps (c # cs) \<or> like (p # ps) cs
      else (p = CHR ''_'' \<or> char_lower p = char_lower c) \<and> like ps cs)"

definition field_text :: "string \<Rightarrow> string \<Rightarrow> string" where
  "field_text k v = [CHR 0x22] @ k @ [CHR 0x22] @ '': '' @ [CHR 0x22] @ v @ [CHR 0x22]"

definition is_answer :: "string \<Rightarrow> event \<Rightarrow> bool" where
  "is_answer t e \<longleftrightarrow> event_task e = Some t \<and> event_type e = EAgentReply \<and> event_actor_kind e = ByHuman"

definition projected_already :: "(json \<Rightarrow> string) \<Rightarrow> string \<Rightarrow> string \<Rightarrow> db \<Rightarrow> bool" where
  "projected_already dumps t i d = list_ex (\<lambda>e. is_answer t e \<and>
     like ([CHR ''%''] @ field_text ''invocation_id'' i @ [CHR ''%'']) (dumps (event_payload e))) (db_events d)"

definition answer_event :: "string \<Rightarrow> string \<Rightarrow> string \<Rightarrow> string option \<Rightarrow> string \<Rightarrow> string \<Rightarrow> string \<Rightarrow> string \<Rightarrow> int \<Rightarrow> int \<Rightarrow> event" where
  "answer_event eid t bundle cb i body act actor now n =
     (new_event eid cb (Some bundle) (Some t) EAgentReply (if actor = [] then ''system'' else actor) ByHuman body now)
     \<lparr>event_payload := JObj [(''text'', JStr body), (''kind'', JStr ''delegate_answer''), (''invocation_id'', JStr i),
        (''action'', JStr act)],
      event_sequence := n, event_visibility := ''user''\<rparr>"

text \<open>The projection, cut at its awaits: the probe, the lookup of the task and its bundle, the read of the next number,
  the insert.  Each runs on the database as it then is; \<open>None\<close>: it is over.\<close>

datatype projection_pc = Probing | Looking | Numbering string "string option" | Writing string "string option" int

record projecting =
  pj_task :: string
  pj_inv :: string
  pj_env :: result_envelope
  pj_actor :: string
  pj_now :: int
  pj_pc :: projection_pc

definition project_step :: "(json \<Rightarrow> string) \<Rightarrow> (json \<Rightarrow> string) \<Rightarrow> (json \<Rightarrow> string) \<Rightarrow> projecting \<Rightarrow> db \<Rightarrow> projecting option \<times> db" where
  "project_step dumps sorted_dumps fmt p d = (case pj_pc p of
       Probing \<Rightarrow> (if projected_already dumps (pj_task p) (pj_inv p) d then None else Some (p\<lparr>pj_pc := Looking\<rparr>), d)
     | Looking \<Rightarrow> (case task_get (pj_task p) d of
           None \<Rightarrow> (None, d)
         | Some tk \<Rightarrow> (case bundle_get (task_bundle tk) d of
               None \<Rightarrow> (None, d)
             | Some b \<Rightarrow>
                 (if str_strip (envelope_body sorted_dumps fmt (pj_env p)) = [] then None
                  else Some (p\<lparr>pj_pc := Numbering (task_bundle tk) (bundle_cookbook b)\<rparr>), d)))
     | Numbering b cb \<Rightarrow> (Some (p\<lparr>pj_pc := Writing b cb (next_sequence (Some (pj_task p)) (db_events d))\<rparr>), d)
     | Writing b cb n \<Rightarrow> (let (eid, d1) = draw ''evt_'' d in (None, d1\<lparr>db_events := db_events d1 @
         [answer_event eid (pj_task p) b cb (pj_inv p) (envelope_body sorted_dumps fmt (pj_env p)) (action_name (env_action (pj_env p)))
            (pj_actor p) (pj_now p) n]\<rparr>)))"

text \<open>The projection without interruption.\<close>

fun project_steps :: "nat \<Rightarrow> (json \<Rightarrow> string) \<Rightarrow> (json \<Rightarrow> string) \<Rightarrow> (json \<Rightarrow> string) \<Rightarrow> projecting \<Rightarrow> db \<Rightarrow> db" where
  "project_steps 0 dumps sorted_dumps fmt p d = d"
| "project_steps (Suc n) dumps sorted_dumps fmt p d = (case project_step dumps sorted_dumps fmt p d of
       (None, d1) \<Rightarrow> d1 | (Some p1, d1) \<Rightarrow> project_steps n dumps sorted_dumps fmt p1 d1)"

definition project_to_task_tape :: "(json \<Rightarrow> string) \<Rightarrow> (json \<Rightarrow> string) \<Rightarrow> (json \<Rightarrow> string) \<Rightarrow> projecting \<Rightarrow> db \<Rightarrow> db" where
  "project_to_task_tape dumps sorted_dumps fmt p d = project_steps 4 dumps sorted_dumps fmt p d"

text \<open>The submission itself: the answer of the route, and the projection it goes on with, if any.\<close>

definition post_submit :: "(svc \<Rightarrow> svc) \<Rightarrow> int \<Rightarrow> string \<Rightarrow> result_envelope \<Rightarrow> svc \<Rightarrow> int res \<times> svc \<times> projecting option" where
  "post_submit wait now i env s = (case submit_result wait now i env s of
        (Inl (KeyError _), s1) \<Rightarrow> (Inl (HTTPException 404 ''invocation not found''), s1, None)
      | (Inl (ConflictError m), s1) \<Rightarrow> (Inl (HTTPException 409 m), s1, None)
      | (Inl e, s1) \<Rightarrow> (Inl e, s1, None)
      | (Inr ev, s1) \<Rightarrow> (Inr (ev_id ev), s1,
          case inv_get i (svc_invs s) of
            None \<Rightarrow> None
          | Some iv \<Rightarrow>
              if opt_truthy (inv_task_id iv) \<and> env_action env \<noteq> Pending
              then Some \<lparr>pj_task = the (inv_task_id iv), pj_inv = i, pj_env = env, pj_actor = inv_created_by iv, pj_now = now,
                pj_pc = Probing\<rparr>
              else None))"

definition post_result :: "(json \<Rightarrow> string) \<Rightarrow> (json \<Rightarrow> string) \<Rightarrow> (json \<Rightarrow> string) \<Rightarrow> (svc \<Rightarrow> svc) \<Rightarrow> int \<Rightarrow> string \<Rightarrow>
    result_envelope \<Rightarrow> svc \<times> db \<Rightarrow> int res \<times> svc \<times> db" where
  "post_result dumps sorted_dumps fmt wait now i env st = (let (s, d) = st in
     case post_submit wait now i env s of
       (r, s1, None) \<Rightarrow> (r, s1, d)
     | (r, s1, Some p) \<Rightarrow> (r, s1, project_to_task_tape dumps sorted_dumps fmt p d))"

definition post_cancel :: "string \<Rightarrow> svc \<Rightarrow> unit res \<times> svc" where
  "post_cancel i s = (case require_invocation i s of
       Inl e \<Rightarrow> (Inl e, s) | Inr _ \<Rightarrow> (Inr (), cancel i ''operator_cancelled'' s))"

section \<open>The credential routes\<close>

text \<open>A pasted secret also answers the invocation that asked for it; a failure of that is swallowed.\<close>

definition paste_credential :: "(string \<Rightarrow> string \<Rightarrow> string \<Rightarrow> string) \<Rightarrow> string \<Rightarrow> (svc \<Rightarrow> svc) \<Rightarrow> caller \<Rightarrow> string \<Rightarrow> string \<Rightarrow>
    string \<Rightarrow> string option \<Rightarrow> string \<Rightarrow> string \<Rightarrow> int \<Rightarrow> credential list \<times> svc \<Rightarrow> credential_view res \<times> credential list \<times> svc" where
  "paste_credential enc key wait c host v token invocation nonce cid now st =
     (let (rows, s) = st in
      case put_credential enc key (ca_account c) (str_lower (str_strip host)) (str_strip v) token nonce cid now rows of
        (Inl e, rows') \<Rightarrow> (Inl e, rows', s)
      | (Inr view, rows') \<Rightarrow> (Inr view, rows',
          if opt_truthy invocation
          then snd (submit_result wait now (the invocation)
                 \<lparr>env_action = Accept, env_content = JObj [(''provisioned'', JBool True)], env_reason = None\<rparr> s)
          else s))"

definition list_credentials :: "caller \<Rightarrow> credential list \<Rightarrow> credential_view list" where
  "list_credentials c rows = list_for_account (ca_account c) rows"

definition get_credentials_envs :: "(string \<Rightarrow> string \<Rightarrow> string \<Rightarrow> string option) \<Rightarrow> string \<Rightarrow> caller \<Rightarrow> credential list \<Rightarrow>
    (string \<rightharpoonup> string)" where
  "get_credentials_envs dec key c rows = get_envs dec key (ca_account c) rows"

definition delete_credential :: "string \<Rightarrow> caller \<Rightarrow> int \<Rightarrow> credential list \<Rightarrow> string res \<times> credential list" where
  "delete_credential host c now rows = (case archive (ca_account c) (str_lower host) now rows of
       (True, rows') \<Rightarrow> (Inr host, rows')
     | (False, rows') \<Rightarrow> (Inl (HTTPException 404 ''credential_not_found''), rows'))"

section \<open>The stream misses nothing and repeats nothing\<close>

text \<open>The events up to the first \<open>done\<close>.\<close>

fun until_done :: "inv_event list \<Rightarrow> inv_event list" where
  "until_done [] = []"
| "until_done (e # es) = (if ev_kind e = KDone then [e] else e # until_done es)"

definition is_done :: "inv_event \<Rightarrow> bool" where
  "is_done e \<longleftrightarrow> ev_kind e = KDone"

lemma until_done_append: "until_done (xs @ ys) = (if list_ex is_done xs then until_done xs else xs @ until_done ys)"
  by (induction xs) (auto simp: is_done_def)

lemma emit_backlog_eq:
  "emit_backlog l es = (until_done es, (if until_done es = [] then l else ev_id (last (until_done es))), list_ex is_done es)"
proof (induction es arbitrary: l)
  case (Cons e es)
  then show ?case by (cases es) (auto simp: is_done_def)
qed simp

lemma until_done_all: "\<not> list_ex is_done es \<Longrightarrow> until_done es = es"
  by (induction es) (auto simp: is_done_def)

lemma emit_live_skip:
  "(\<And>e. e \<in> set xs \<Longrightarrow> ev_tape_id e = t \<Longrightarrow> ev_id e \<le> l) \<Longrightarrow> emit_live t l (xs @ ys) = emit_live t l ys"
  by (induction xs) auto

lemma emit_live_fresh:
  assumes "sorted_wrt (<) (map ev_id (tape_rows t es))" "\<And>e. e \<in> set (tape_rows t es) \<Longrightarrow> l < ev_id e"
  shows "emit_live t l es = until_done (tape_rows t es)"
  using assms
proof (induction es arbitrary: l)
  case (Cons e es)
  show ?case
  proof (cases "ev_tape_id e = t")
    case True
    then have "emit_live t (ev_id e) es = until_done (tape_rows t es)"
      using Cons.prems(1) by (intro Cons.IH) (auto simp: tape_rows_def)
    moreover have "l < ev_id e" using Cons.prems(2) True by (simp add: tape_rows_def)
    ultimately show ?thesis using True by (simp add: tape_rows_def)
  next
    case False
    then show ?thesis using Cons by (simp add: tape_rows_def)
  qed
qed (simp add: tape_rows_def)

lemma asc_last: "sorted_wrt (\<lambda>e f. ev_id e < ev_id f) es \<Longrightarrow> e \<in> set es \<Longrightarrow> ev_id e \<le> ev_id (last es)"
  by (induction es) (auto simp: order_less_imp_le)

lemma tape_rows_app: "tape_rows t (xs @ ys) = tape_rows t xs @ tape_rows t ys"
  by (simp add: tape_rows_def)

text \<open>C31: a client that opens the stream of an invocation after event \<open>a\<close> which it has seen, while others
  write (\<open>xs\<close> between the subscription and the reading of the backlog, \<open>ys\<close> later, both of which arrive on
  its queue in order), is sent the events of the tape after \<open>a\<close> in order, each exactly once, up to the
  \<open>done\<close>.\<close>

theorem stream_exact:
  assumes g: "gapless (rows @ xs @ ys)" and seen: "\<forall>a. after = Some a \<longrightarrow> a < int (length (tape_rows t rows))"
  shows "stream_events t after (rows @ xs) (xs @ ys) =
    until_done (filter (\<lambda>e. case after of None \<Rightarrow> True | Some a \<Rightarrow> a < ev_id e) (tape_rows t (rows @ xs @ ys)))"
proof -
  define P :: "inv_event \<Rightarrow> bool" where "P = (\<lambda>e. case after of None \<Rightarrow> True | Some a \<Rightarrow> a < ev_id e)"
  let ?A = "filter P (tape_rows t (rows @ xs))"
  have ids: "map ev_id (tape_rows t (rows @ xs @ ys)) = map int [0..<length (tape_rows t (rows @ xs @ ys))]"
    using g by (simp add: gapless_def)
  have sorted: "sorted_wrt (<) (map ev_id (tape_rows t (rows @ xs @ ys)))" using g by (rule gapless_sorted)
  have asc: "sorted_wrt (\<lambda>e f. ev_id e < ev_id f) (tape_rows t rows @ tape_rows t xs @ tape_rows t ys)"
    using sorted unfolding sorted_wrt_map tape_rows_app .
  have late: "int (length (tape_rows t rows)) \<le> ev_id e" if e: "e \<in> set (tape_rows t (xs @ ys))" for e
  proof -
    obtain k where k: "k < length (tape_rows t (xs @ ys))" "tape_rows t (xs @ ys) ! k = e"
      using e by (meson in_set_conv_nth)
    let ?n = "length (tape_rows t rows)"
    have "tape_rows t (rows @ xs @ ys) ! (?n + k) = e" using k by (simp add: tape_rows_app nth_append)
    moreover have "?n + k < length (tape_rows t (rows @ xs @ ys))" using k by (simp add: tape_rows_app)
    ultimately have "ev_id e = int (?n + k)" using gapless_nth [OF g, of "?n + k" t] by simp
    then show ?thesis by simp
  qed
  have P: "P e" if "e \<in> set (tape_rows t (xs @ ys))" for e
    using late [OF that] seen by (auto simp: P_def split: option.split)
  have pos: "- 1 < ev_id e" if "e \<in> set (tape_rows t (xs @ ys))" for e using late [OF that] by linarith
  have backlog: "list_for_tape t after None (rows @ xs) = ?A"
  proof -
    have "sorted_wrt (<) (map ev_id (tape_rows t (rows @ xs)))"
      using sorted by (simp add: tape_rows_app sorted_wrt_append)
    then have "sorted (map ev_id (tape_rows t (rows @ xs)))" by (rule sorted_wrt_mono_rel [rotated]) simp
    then have "sorted (map ev_id ?A)" by (rule sorted_filter)
    then show ?thesis by (simp add: list_for_tape_def sql_limit_def P_def sort_key_id_if_sorted)
  qed
  have all: "filter P (tape_rows t (rows @ xs @ ys)) = ?A @ tape_rows t ys"
    using P by (simp add: tape_rows_app)
  show ?thesis
  proof (cases "list_ex is_done ?A")
    case True
    then show ?thesis
      by (simp add: stream_events_def backlog emit_backlog_eq all until_done_append flip: P_def)
  next
    case False
    define l where "l = (if ?A = [] then - 1 else ev_id (last ?A))"
    have skip: "ev_id e \<le> l" if e: "e \<in> set xs" "ev_tape_id e = t" for e
    proof -
      have mem: "e \<in> set ?A" using e P [of e] by (simp add: tape_rows_def)
      then have "?A \<noteq> []" by (metis empty_iff list.set(1))
      moreover have "sorted_wrt (\<lambda>e f. ev_id e < ev_id f) ?A"
        using asc by (simp add: tape_rows_app sorted_wrt_append sorted_wrt_filter)
      ultimately show ?thesis using asc_last [of ?A e] mem by (simp add: l_def)
    qed
    have fresh: "l < ev_id e" if e: "e \<in> set (tape_rows t ys)" for e
    proof (cases "?A = []")
      case True
      then show ?thesis using pos [of e] e by (simp add: l_def tape_rows_app)
    next
      case False
      then have "last ?A \<in> set (tape_rows t rows) \<union> set (tape_rows t xs)"
        using last_in_set [OF False] by (auto simp: tape_rows_app)
      then show ?thesis using asc e False by (auto simp: l_def sorted_wrt_append)
    qed
    have "emit_live t l (xs @ ys) = until_done (tape_rows t ys)"
      using emit_live_skip [of xs t l ys] skip emit_live_fresh [of t ys l] fresh asc
      by (simp add: sorted_wrt_append sorted_wrt_map)
    moreover have "stream_events t after (rows @ xs) (xs @ ys) = ?A @ emit_live t l (xs @ ys)"
      using False by (simp add: stream_events_def backlog emit_backlog_eq until_done_all l_def)
    ultimately show ?thesis
      using False by (simp add: all until_done_append flip: P_def)
  qed
qed

definition tape_event :: "int \<Rightarrow> event_kind \<Rightarrow> inv_event" where
  "tape_event i k = \<lparr>ev_tape_id = ''t'', ev_id = i, ev_parent_id = None, ev_fork_id = None, ev_actor_type = ASystem,
     ev_actor_id = [], ev_kind = k, ev_body = [], ev_payload = JObj [], ev_ts = 0\<rparr>"

lemma stream_exact_witness:
  "stream_events ''t'' (Some 0) [tape_event 0 KStarted, tape_event 1 KReply] [tape_event 1 KReply, tape_event 2 KDone] =
     [tape_event 1 KReply, tape_event 2 KDone]"
proof -
  have "gapless ([tape_event 0 KStarted] @ [tape_event 1 KReply] @ [tape_event 2 KDone])"
    by (auto simp: gapless_def tape_rows_def tape_event_def)
  moreover have "\<forall>a. Some 0 = Some a \<longrightarrow> a < int (length (tape_rows ''t'' [tape_event 0 KStarted]))"
    by (simp add: tape_rows_def tape_event_def)
  ultimately show ?thesis
    using stream_exact [of "[tape_event 0 KStarted]" "[tape_event 1 KReply]" "[tape_event 2 KDone]" "Some 0" "''t''"]
    by (simp add: tape_rows_def tape_event_def)
qed

section \<open>An answer is put on the tape of the task once\<close>

text \<open>What \<open>json.dumps\<close> makes of a text field of an object, when key and text need no escape.\<close>

definition plain_text :: "string \<Rightarrow> bool" where
  "plain_text s \<longleftrightarrow> list_all (\<lambda>c. is_alnum c \<or> c = CHR ''_'') s"

definition writes_fields :: "(json \<Rightarrow> string) \<Rightarrow> bool" where
  "writes_fields dumps \<longleftrightarrow> (\<forall>d k v. (k, JStr v) \<in> set d \<and> plain_text k \<and> plain_text v \<longrightarrow>
     (\<exists>u w. dumps (JObj d) = u @ field_text k v @ w))"

lemma like_rest: "like (CHR ''%'' # []) s"
  by (induction s) auto

lemma like_here: "CHR ''%'' \<notin> set p \<Longrightarrow> like (p @ [CHR ''%'']) (p @ w)"
  by (induction p) (auto simp: like_rest)

lemma like_skip: "like ps (u @ s) \<or> like ps s \<Longrightarrow> like (CHR ''%'' # ps) (u @ s)"
proof (induction u)
  case Nil
  then show ?case by (cases s) auto
qed auto

lemma like_infix: "CHR ''%'' \<notin> set p \<Longrightarrow> like ([CHR ''%''] @ p @ [CHR ''%'']) (u @ p @ w)"
  using like_skip [of "p @ [CHR ''%'']" u "p @ w"] like_here [of p w] by simp

text \<open>The answers of invocation \<open>i\<close> on the tape of task \<open>t\<close>.\<close>

definition answers :: "string \<Rightarrow> string \<Rightarrow> db \<Rightarrow> event list" where
  "answers t i d = filter (\<lambda>e. is_answer t e \<and> (case event_payload e of
       JObj p \<Rightarrow> (''invocation_id'', JStr i) \<in> set p | _ \<Rightarrow> False)) (db_events d)"

lemma answers_probe:
  assumes w: "writes_fields dumps" and i: "plain_text i" and a: "answers t i d \<noteq> []"
  shows "projected_already dumps t i d"
proof -
  have "hd (answers t i d) \<in> set (answers t i d)" using a by simp
  then obtain e p where e: "e \<in> set (db_events d)" "is_answer t e" "event_payload e = JObj p" "(''invocation_id'', JStr i) \<in> set p"
    by (auto simp: answers_def split: json.splits)
  have k: "plain_text ''invocation_id''" by code_simp
  then obtain u v where "dumps (event_payload e) = u @ field_text ''invocation_id'' i @ v"
    using w i e(3,4) unfolding writes_fields_def by metis
  moreover have "CHR ''%'' \<notin> set (field_text ''invocation_id'' i)"
    using i by (auto simp: field_text_def plain_text_def list_all_iff is_alnum_def)
  ultimately have "like ([CHR ''%''] @ field_text ''invocation_id'' i @ [CHR ''%'']) (dumps (event_payload e))"
    using like_infix by metis
  then show ?thesis using e by (auto simp: projected_already_def list_ex_iff)
qed

text \<open>Many submissions at once: each is accepted or refused, and the projections of the accepted ones go on step by
  step, in any order and among whatever else happens to the database.\<close>

datatype posting_op = Submit "svc \<Rightarrow> svc" int string result_envelope | Advance nat | Elsewhere "db \<Rightarrow> db"

record posting =
  po_svc :: svc
  po_db :: db
  po_flying :: "projecting list"

fun posting_step :: "(json \<Rightarrow> string) \<Rightarrow> (json \<Rightarrow> string) \<Rightarrow> (json \<Rightarrow> string) \<Rightarrow> posting_op \<Rightarrow> posting \<Rightarrow> posting" where
  "posting_step dumps sd fmt (Submit wait now i env) st = (case post_submit wait now i env (po_svc st) of
       (_, s1, new) \<Rightarrow> st\<lparr>po_svc := s1, po_flying := po_flying st @ (case new of None \<Rightarrow> [] | Some p \<Rightarrow> [p])\<rparr>)"
| "posting_step dumps sd fmt (Advance k) st =
     (if k < length (po_flying st) then (case project_step dumps sd fmt (po_flying st ! k) (po_db st) of
          (rest, d1) \<Rightarrow> st\<lparr>po_db := d1,
            po_flying := take k (po_flying st) @ (case rest of None \<Rightarrow> [] | Some p \<Rightarrow> [p]) @ drop (Suc k) (po_flying st)\<rparr>)
      else st)"
| "posting_step dumps sd fmt (Elsewhere g) st = st\<lparr>po_db := g (po_db st)\<rparr>"

fun posting_run :: "(json \<Rightarrow> string) \<Rightarrow> (json \<Rightarrow> string) \<Rightarrow> (json \<Rightarrow> string) \<Rightarrow> posting_op list \<Rightarrow> posting \<Rightarrow> posting" where
  "posting_run dumps sd fmt [] st = st"
| "posting_run dumps sd fmt (op # ops) st = posting_run dumps sd fmt ops (posting_step dumps sd fmt op st)"

text \<open>The projections of an invocation to a task under way, those of them past the probe, and the most that are
  under way at the same time during a run.\<close>

definition for_answer :: "string \<Rightarrow> string \<Rightarrow> projecting \<Rightarrow> bool" where
  "for_answer t i p \<longleftrightarrow> pj_task p = t \<and> pj_inv p = i"

definition under_way :: "string \<Rightarrow> string \<Rightarrow> posting \<Rightarrow> nat" where
  "under_way t i st = length (filter (for_answer t i) (po_flying st))"

definition past_probe :: "string \<Rightarrow> string \<Rightarrow> posting \<Rightarrow> nat" where
  "past_probe t i st = length (filter (\<lambda>p. for_answer t i p \<and> pj_pc p \<noteq> Probing) (po_flying st))"

fun overlap :: "(json \<Rightarrow> string) \<Rightarrow> (json \<Rightarrow> string) \<Rightarrow> (json \<Rightarrow> string) \<Rightarrow> string \<Rightarrow> string \<Rightarrow> posting_op list \<Rightarrow> posting \<Rightarrow> nat" where
  "overlap dumps sd fmt t i [] st = under_way t i st"
| "overlap dumps sd fmt t i (op # ops) st = max (under_way t i st) (overlap dumps sd fmt t i ops (posting_step dumps sd fmt op st))"

lemma overlap_here: "under_way t i st \<le> overlap dumps sd fmt t i ops st"
  by (cases ops) simp_all

lemma past_under: "past_probe t i st \<le> under_way t i st"
  unfolding past_probe_def under_way_def
  by (induction "po_flying st") (auto simp: length_filter_conv_card intro!: card_mono)

lemma project_step_answers:
  assumes "project_step dumps sd fmt p d = (r, d1)"
  shows "length (answers t i d1) = length (answers t i d) + (if for_answer t i p \<and> (\<exists>b cb n. pj_pc p = Writing b cb n) then 1 else 0)"
proof -
  obtain eid d2 where dr: "draw ''evt_'' d = (eid, d2)" by (rule prod.exhaust)
  have "db_events d2 = db_events d" using draw_simps(3) [of "''evt_''" d] dr by simp
  then show ?thesis
    using assms dr unfolding project_step_def
    by (auto simp: answers_def is_answer_def answer_event_def new_event_def for_answer_def split: projection_pc.splits option.splits)
qed

lemma project_step_for:
  "project_step dumps sd fmt p d = (Some p1, d1) \<Longrightarrow> for_answer t i p1 = for_answer t i p \<and> pj_pc p1 \<noteq> Probing"
  unfolding project_step_def for_answer_def
  by (auto split: projection_pc.splits option.splits if_splits prod.splits)

lemma project_step_probe:
  assumes "project_step dumps sd fmt p d = (Some p1, d1)" "pj_pc p = Probing" "for_answer t i p" "writes_fields dumps" "plain_text i"
  shows "answers t i d = []"
  using assms answers_probe [OF assms(4,5), of t d] by (auto simp: project_step_def for_answer_def split: if_splits)

lemma project_step_over: "project_step dumps sd fmt p d = (Some p1, d1) \<Longrightarrow> \<not> (\<exists>b cb n. pj_pc p = Writing b cb n)"
  by (auto simp: project_step_def split: prod.splits)

lemma posting_step_bound:
  assumes w: "writes_fields dumps" "plain_text i" and g: "\<forall>g. op = Elsewhere g \<longrightarrow> (\<forall>d. answers t i (g d) = answers t i d)"
  shows "length (answers t i (po_db (posting_step dumps sd fmt op st))) + past_probe t i (posting_step dumps sd fmt op st) \<le>
    max (length (answers t i (po_db st)) + past_probe t i st) (under_way t i (posting_step dumps sd fmt op st))"
proof (cases op)
  case (Submit wait now j env)
  then show ?thesis
    by (auto simp: past_probe_def post_submit_def split: prod.splits option.splits sum.splits py_exc.splits)
next
  case (Elsewhere h)
  then show ?thesis using g by (simp add: past_probe_def)
next
  case (Advance k)
  show ?thesis
  proof (cases "k < length (po_flying st)")
    case True
    define p where "p = po_flying st ! k"
    define xs where "xs = take k (po_flying st)"
    define ys where "ys = drop (Suc k) (po_flying st)"
    have fl: "po_flying st = xs @ p # ys" using True by (simp add: p_def xs_def ys_def id_take_nth_drop)
    obtain r d1 where step: "project_step dumps sd fmt p (po_db st) = (r, d1)" by (rule prod.exhaust)
    have after: "posting_step dumps sd fmt op st = st\<lparr>po_db := d1, po_flying := xs @ (case r of None \<Rightarrow> [] | Some p \<Rightarrow> [p]) @ ys\<rparr>"
      using True step Advance by (simp add: p_def xs_def ys_def)
    note count = project_step_answers [OF step, of t i]
    show ?thesis
    proof (cases r)
      case None
      then show ?thesis unfolding after by (auto simp: count past_probe_def fl)
    next
      case (Some p1)
      note s1 = step [unfolded Some]
      have same: "length (answers t i d1) = length (answers t i (po_db st))"
        using count project_step_over [OF s1] by simp
      show ?thesis
      proof (cases "for_answer t i p \<and> pj_pc p = Probing")
        case True
        then have "answers t i (po_db st) = []" using project_step_probe [OF s1 _ _ w] by blast
        then show ?thesis using past_under [of t i "posting_step dumps sd fmt op st"] same by (simp add: after Some)
      next
        case False
        then show ?thesis using project_step_for [OF s1, of t i] same unfolding after Some by (auto simp: past_probe_def fl)
      qed
    qed
  qed (simp add: Advance)
qed

lemma posting_run_bound:
  assumes "writes_fields dumps" "plain_text i" "\<forall>g d. Elsewhere g \<in> set ops \<longrightarrow> answers t i (g d) = answers t i d"
  shows "length (answers t i (po_db (posting_run dumps sd fmt ops st))) \<le>
    max (length (answers t i (po_db st)) + past_probe t i st) (overlap dumps sd fmt t i ops st)"
  using assms(3)
proof (induction ops arbitrary: st)
  case (Cons op ops)
  let ?st = "posting_step dumps sd fmt op st"
  have "length (answers t i (po_db (posting_run dumps sd fmt ops ?st))) \<le>
      max (length (answers t i (po_db ?st)) + past_probe t i ?st) (overlap dumps sd fmt t i ops ?st)"
    using Cons.IH [of ?st] Cons.prems by simp
  moreover have "length (answers t i (po_db ?st)) + past_probe t i ?st \<le>
      max (length (answers t i (po_db st)) + past_probe t i st) (under_way t i ?st)"
    using Cons.prems by (intro posting_step_bound [OF assms(1,2)]) simp
  ultimately show ?case using overlap_here [of t i ?st dumps sd fmt ops] by simp
qed simp

text \<open>C32: many results may be submitted for an invocation, by people, by the bridge or by a retry, in any
  order, and the projections of the accepted ones may interleave with each other and with whatever does not write
  answers of that invocation. The tape of its task then gets at most as many answers of the invocation as
  projections of it are under way at the same time: at most one, when each submission ends before the next begins.
  A submission that is refused with 404 or 409 changes nothing; and an accepted text whose invocation belongs to a
  task of a bundle is on its tape afterwards, visible to the next prompt and with the next number, when its projection runs without
  interruption and the probe finds no answer there; if the probe finds one, the database is left as it is.\<close>

theorem answer_projected_once:
  fixes s :: svc and d :: db and ops :: "posting_op list"
  assumes "writes_fields dumps" "plain_text i" and none: "answers t i d = []"
    and others: "\<forall>g e. Elsewhere g \<in> set ops \<longrightarrow> answers t i (g e) = answers t i e"
  defines "start \<equiv> \<lparr>po_svc = s, po_db = d, po_flying = []\<rparr>"
  shows "length (answers t i (po_db (posting_run dumps sd fmt ops start))) \<le> overlap dumps sd fmt t i ops start \<and>
    (\<forall>wait now j env code m s1 d1. post_result dumps sd fmt wait now j env (s, d) = (Inl (HTTPException code m), s1, d1) \<longrightarrow>
       s1 = s \<and> d1 = d) \<and>
    (\<forall>wait now env x iv tk b n s1 d1. post_result dumps sd fmt wait now i env (s, d) = (Inr n, s1, d1) \<and>
       inv_get i (svc_invs s) = Some iv \<and> inv_task_id iv = Some t \<and> t \<noteq> [] \<and>
       task_get t d = Some tk \<and> bundle_get (task_bundle tk) d = Some b \<and>
       env_action env = Accept \<and> env_content env = JStr x \<and> str_strip x \<noteq> [] \<longrightarrow>
       (if projected_already dumps t i d then d1 = d
        else (\<exists>e. answers t i d1 = [e] \<and> event_body e = x \<and> event_visibility e = ''user'' \<and>
          event_sequence e = next_sequence (Some t) (db_events d))))"
proof (intro conjI allI impI)
  have "length (answers t i (po_db start)) + past_probe t i start = 0" by (simp add: start_def none past_probe_def)
  then show "length (answers t i (po_db (posting_run dumps sd fmt ops start))) \<le> overlap dumps sd fmt t i ops start"
    using posting_run_bound [OF assms(1,2) others, of sd fmt start] by simp
next
  fix wait now j env code m s1 d1
  assume "post_result dumps sd fmt wait now j env (s, d) = (Inl (HTTPException code m), s1, d1)"
  then show "s1 = s" "d1 = d"
    unfolding post_result_def post_submit_def submit_result_def submit_check_def
    by (auto simp: Let_def split: prod.splits sum.splits py_exc.splits option.splits if_splits list.splits)
next
  fix wait now env x iv tk b n s1 d1
  assume a: "post_result dumps sd fmt wait now i env (s, d) = (Inr n, s1, d1) \<and>
       inv_get i (svc_invs s) = Some iv \<and> inv_task_id iv = Some t \<and> t \<noteq> [] \<and>
       task_get t d = Some tk \<and> bundle_get (task_bundle tk) d = Some b \<and>
       env_action env = Accept \<and> env_content env = JStr x \<and> str_strip x \<noteq> []"
  then have d1: "d1 = project_to_task_tape dumps sd fmt
      \<lparr>pj_task = t, pj_inv = i, pj_env = env, pj_actor = inv_created_by iv, pj_now = now, pj_pc = Probing\<rparr> d"
    unfolding post_result_def post_submit_def
    by (auto simp: Let_def opt_truthy_def split: prod.splits sum.splits py_exc.splits option.splits)
  have body: "envelope_body sd fmt env = x" using a by (simp add: envelope_body_def text_of_content_def)
  obtain eid d2 where dr: "draw ''evt_'' d = (eid, d2)" by fastforce
  have events: "db_events d2 = db_events d" using draw_simps(3) [of "''evt_''" d] dr by simp
  show "if projected_already dumps t i d then d1 = d
      else (\<exists>e. answers t i d1 = [e] \<and> event_body e = x \<and> event_visibility e = ''user'' \<and>
          event_sequence e = next_sequence (Some t) (db_events d))"
  proof (cases "projected_already dumps t i d")
    case True
    then show ?thesis by (simp add: d1 project_to_task_tape_def eval_nat_numeral project_step_def)
  next
    case False
    then have "d1 = d2\<lparr>db_events := db_events d @ [answer_event eid t (task_bundle tk) (bundle_cookbook b) i x (action_name Accept)
        (inv_created_by iv) now (next_sequence (Some t) (db_events d))]\<rparr>"
      using a body by (simp add: d1 project_to_task_tape_def eval_nat_numeral project_step_def dr events)
    then have "answers t i d1 = answers t i d @ [answer_event eid t (task_bundle tk) (bundle_cookbook b) i x (action_name Accept)
        (inv_created_by iv) now (next_sequence (Some t) (db_events d))]"
      by (simp add: answers_def is_answer_def answer_event_def new_event_def)
    then show ?thesis using False none by (simp add: answer_event_def new_event_def)
  qed
qed

fun sample_dumps :: "json \<Rightarrow> string" where
  "sample_dumps (JObj d) = concat (map (\<lambda>(k, v). case v of JStr x \<Rightarrow> field_text k x | _ \<Rightarrow> []) d)"
| "sample_dumps _ = []"

lemma sample_dumps_fields: "writes_fields sample_dumps"
  unfolding writes_fields_def
proof (intro allI impI)
  fix d k v assume "(k, JStr v) \<in> set d \<and> plain_text k \<and> plain_text v"
  then obtain xs ys where "d = xs @ (k, JStr v) # ys" by (meson split_list)
  then show "\<exists>u w. sample_dumps (JObj d) = u @ field_text k v @ w" by auto
qed

definition asked_invocation :: invocation where
  "asked_invocation = \<lparr>inv_id = ''i'', inv_target_type = ''human'', inv_target_id = None, inv_input = JStr ''q'', inv_schema = None,
     inv_deadline_s = 300, inv_label = None, inv_parent_tape_id = None, inv_parent_fork_point = None,
     inv_idempotency_key = None, inv_tape_id = ''tp'', inv_task_id = Some ''t1'', inv_status = IRunning, inv_result = None,
     inv_created_at = 0, inv_started_at = Some 0, inv_completed_at = None, inv_created_by = ''op''\<rparr>"

definition asking_svc :: svc where
  "asking_svc = svc_init\<lparr>svc_invs := [asked_invocation], svc_runs := [''i'' \<mapsto> \<lparr>run_inv = asked_invocation, run_cancelled = False,
     run_reason = None, run_external = None, run_pc = Executing\<rparr>]\<rparr>"

definition yes_envelope :: result_envelope where
  "yes_envelope = \<lparr>env_action = Accept, env_content = JStr ''yes'', env_reason = None\<rparr>"

definition yes_projection :: projecting where
  "yes_projection = \<lparr>pj_task = ''t1'', pj_inv = ''i'', pj_env = yes_envelope, pj_actor = ''op'', pj_now = 5, pj_pc = Probing\<rparr>"

definition asking :: "svc \<Rightarrow> bool" where
  "asking s \<longleftrightarrow> inv_get ''i'' (svc_invs s) = Some asked_invocation \<and> svc_runs s ''i'' \<noteq> None"

lemma yes_accepted:
  assumes "asking s"
  shows "\<exists>n s1. post_submit (\<lambda>s. s) 5 ''i'' yes_envelope s = (Inr n, s1, Some yes_projection) \<and> asking s1"
proof -
  let ?sub = "\<lparr>sub_inv = asked_invocation, sub_env = yes_envelope, sub_decided = False\<rparr>"
  define s2 where "s2 = submit_set (?sub\<lparr>sub_decided := True\<rparr>) (submit_decision 5 ?sub (s\<lparr>svc_submits := svc_submits s @ [?sub]\<rparr>))"
  have id: "inv_id asked_invocation = ''i''" "inv_target_type asked_invocation = ''human''" "\<not> is_terminal (inv_status asked_invocation)"
    "opt_truthy (inv_task_id asked_invocation)" "the (inv_task_id asked_invocation) = ''t1''" "inv_created_by asked_invocation = ''op''"
    by (simp_all add: asked_invocation_def is_terminal_def opt_truthy_def)
  have "0 < length (list_for_tape (inv_tape_id asked_invocation) None None (svc_events s2))"
    by (simp add: s2_def submit_set_def submit_decision_def id tape_write_def tape_append_def list_for_tape_def sql_limit_def
        tape_rows_def Let_def case_prod_beta)
  then have rows: "list_for_tape (inv_tape_id asked_invocation) None None (svc_events s2) \<noteq> []" by auto
  have "submit_result (\<lambda>s. s) 5 ''i'' yes_envelope s =
      (Inr (last (list_for_tape (inv_tape_id asked_invocation) None None (svc_events s2))), s2)"
    using assms rows by (auto simp: submit_result_def submit_check_def asking_def id s2_def Let_def split: list.split)
  moreover have "asking s2"
    using assms by (auto simp: s2_def asking_def submit_set_def submit_decision_def id tape_write_def Let_def case_prod_beta)
  ultimately show ?thesis
    using assms by (auto simp: post_submit_def asking_def id yes_projection_def) (simp_all add: yes_envelope_def)
qed

lemma asking_asked: "asking asking_svc"
  by (simp add: asking_def asking_svc_def asked_invocation_def inv_get_def)

text \<open>A state in which nothing is on the tape, and one with an answer: what a projection does there.\<close>

definition yes_event :: "string \<Rightarrow> int \<Rightarrow> event" where
  "yes_event eid n = answer_event eid ''t1'' ''b'' (Some ''cb'') ''i'' ''yes'' ''accept'' ''op'' 5 n"

lemma yes_body: "envelope_body sd fmt yes_envelope = ''yes''" "str_strip ''yes'' \<noteq> []"
  by (simp add: yes_envelope_def envelope_body_def text_of_content_def) code_simp

lemma yes_steps:
  assumes "task_get ''t1'' d = Some (fresh_task ''t1'' ''b'' ''first'' None [])" "bundle_get ''b'' d = Some (plain_bundle ''b'' ''cb'')"
  shows "\<not> projected_already dumps ''t1'' ''i'' d \<Longrightarrow> project_step dumps sd fmt yes_projection d = (Some (yes_projection\<lparr>pj_pc := Looking\<rparr>), d)"
    "projected_already dumps ''t1'' ''i'' d \<Longrightarrow> project_step dumps sd fmt yes_projection d = (None, d)"
    "project_step dumps sd fmt (yes_projection\<lparr>pj_pc := Looking\<rparr>) d = (Some (yes_projection\<lparr>pj_pc := Numbering ''b'' (Some ''cb'')\<rparr>), d)"
    "project_step dumps sd fmt (yes_projection\<lparr>pj_pc := Numbering ''b'' (Some ''cb'')\<rparr>) d =
      (Some (yes_projection\<lparr>pj_pc := Writing ''b'' (Some ''cb'') (next_sequence (Some ''t1'') (db_events d))\<rparr>), d)"
    "project_step dumps sd fmt (yes_projection\<lparr>pj_pc := Writing ''b'' (Some ''cb'') n\<rparr>) d =
      (None, (snd (draw ''evt_'' d))\<lparr>db_events := db_events d @ [yes_event (fst (draw ''evt_'' d)) n]\<rparr>)"
  using assms yes_body
  by (simp_all add: project_step_def yes_projection_def fresh_task_def plain_bundle_def yes_event_def case_prod_beta)
    (simp_all add: yes_envelope_def)

text \<open>Two submissions that overlap write two answers.\<close>

definition yes_post :: posting_op where
  "yes_post = Submit (\<lambda>s. s) 5 ''i'' yes_envelope"

lemma sample_yes:
  "\<not> projected_already sample_dumps ''t1'' ''i'' sample_db" "task_get ''t1'' sample_db = Some (fresh_task ''t1'' ''b'' ''first'' None [])"
  "bundle_get ''b'' sample_db = Some (plain_bundle ''b'' ''cb'')" "answers ''t1'' ''i'' sample_db = []"
  by (simp_all add: answers_def projected_already_def sample_db_def empty_db_def bundle_get_def task_get_def fresh_task_def plain_bundle_def)

definition yes_state :: "svc \<Rightarrow> db \<Rightarrow> projecting list \<Rightarrow> posting" where
  "yes_state s d ps = \<lparr>po_svc = s, po_db = d, po_flying = ps\<rparr>"

lemma yes_state_post:
  "asking s \<Longrightarrow> \<exists>s1. asking s1 \<and> (\<forall>d ps. posting_step dumps sd fmt yes_post (yes_state s d ps) = yes_state s1 d (ps @ [yes_projection]))"
  using yes_accepted [of s] by (auto simp: yes_post_def yes_state_def)

lemma yes_state_advance:
  "project_step dumps sd fmt p d = (r, d1) \<Longrightarrow>
     posting_step dumps sd fmt (Advance 0) (yes_state s d (p # ps)) = yes_state s d1 ((case r of None \<Rightarrow> [] | Some q \<Rightarrow> [q]) @ ps)"
  "project_step dumps sd fmt q d = (r, d1) \<Longrightarrow>
     posting_step dumps sd fmt (Advance 1) (yes_state s d [p, q]) = yes_state s d1 (p # (case r of None \<Rightarrow> [] | Some q \<Rightarrow> [q]))"
  by (simp_all add: yes_state_def)

lemma yes_write:
  "project_step dumps sd fmt (yes_projection\<lparr>pj_pc := Writing ''b'' (Some ''cb'') n\<rparr>) d =
      (None, (snd (draw ''evt_'' d))\<lparr>db_events := db_events d @ [yes_event (fst (draw ''evt_'' d)) n]\<rparr>)"
proof -
  obtain i d1 where dr: "draw ''evt_'' d = (i, d1)" by (rule prod.exhaust)
  have "db_events d1 = db_events d" using draw_simps(3) [of "''evt_''" d] dr by simp
  then show ?thesis
    using yes_body dr by (simp add: project_step_def yes_projection_def yes_event_def) (simp add: yes_envelope_def)
qed

lemma yes_answers:
  "answers ''t1'' ''i'' (d\<lparr>db_events := []\<rparr>) = []"
  "answers ''t1'' ''i'' (d\<lparr>db_events := es @ [yes_event a n]\<rparr>) = answers ''t1'' ''i'' (d\<lparr>db_events := es\<rparr>) @ [yes_event a n]"
  by (simp_all add: answers_def yes_event_def answer_event_def new_event_def is_answer_def)

lemma overlap_writes_two:
  "length (answers ''t1'' ''i'' (po_db (posting_run sample_dumps (\<lambda>_. []) (\<lambda>_. [])
     [yes_post, yes_post, Advance 0, Advance 1, Advance 0, Advance 1, Advance 0, Advance 1, Advance 0, Advance 0]
     (yes_state asking_svc sample_db [])))) = 2"
proof -
  obtain s1 where s1: "asking s1" "\<And>d ps. posting_step sample_dumps (\<lambda>_. []) (\<lambda>_. []) yes_post (yes_state asking_svc d ps) = yes_state s1 d (ps @ [yes_projection])"
    using yes_state_post [OF asking_asked] by blast
  obtain s2 where s2: "\<And>d ps. posting_step sample_dumps (\<lambda>_. []) (\<lambda>_. []) yes_post (yes_state s1 d ps) = yes_state s2 d (ps @ [yes_projection])"
    using yes_state_post [OF s1(1)] by blast
  note steps = yes_steps [OF sample_yes(2,3)]
  note adv = yes_state_advance [OF steps(1) [OF sample_yes(1)]] yes_state_advance [OF steps(3)] yes_state_advance [OF steps(4)]
    yes_state_advance(1) [OF yes_write]
  have e: "db_events sample_db = []" by (simp add: sample_db_def empty_db_def)
  have two: "length (answers ''t1'' ''i'' (d\<lparr>db_events := ([] @ [yes_event a n]) @ [yes_event b m]\<rparr>)) = 2" for d :: db and a b n m
    by (simp only: yes_answers) simp
  show ?thesis
    by (simp only: posting_run.simps s1(2) s2 append.simps option.case adv e db.simps yes_state_def [symmetric])
      (simp add: yes_state_def two [simplified])
qed

text \<open>The same two submissions one after the other.\<close>

lemma serial_under_way:
  "under_way t i (yes_state s d ps) = length (filter (for_answer t i) ps)"
  by (simp add: under_way_def yes_state_def)

lemma answer_projected_once_witness:
  "length (answers ''t1'' ''i'' (po_db (posting_run sample_dumps (\<lambda>_. []) (\<lambda>_. [])
     [yes_post, Advance 0, Advance 0, Advance 0, Advance 0, yes_post, Advance 0] (yes_state asking_svc sample_db [])))) \<le> 1 \<and>
   (\<exists>n s1 d1 e. post_result sample_dumps (\<lambda>_. []) (\<lambda>_. []) (\<lambda>s. s) 5 ''i'' yes_envelope (asking_svc, sample_db) = (Inr n, s1, d1) \<and>
     answers ''t1'' ''i'' d1 = [e] \<and> event_body e = ''yes'')"
proof -
  let ?ops = "[yes_post, Advance 0, Advance 0, Advance 0, Advance 0, yes_post, Advance 0]"
  obtain s1 where s1: "asking s1" "\<And>d ps. posting_step sample_dumps (\<lambda>_. []) (\<lambda>_. []) yes_post (yes_state asking_svc d ps) = yes_state s1 d (ps @ [yes_projection])"
    using yes_state_post [OF asking_asked] by blast
  obtain s2 where s2: "\<And>d ps. posting_step sample_dumps (\<lambda>_. []) (\<lambda>_. []) yes_post (yes_state s1 d ps) = yes_state s2 d (ps @ [yes_projection])"
    using yes_state_post [OF s1(1)] by blast
  note steps = yes_steps [OF sample_yes(2,3)]
  obtain d1 a n where d1: "project_step sample_dumps (\<lambda>_. []) (\<lambda>_. [])
      (yes_projection\<lparr>pj_pc := Writing ''b'' (Some ''cb'') (next_sequence (Some ''t1'') (db_events sample_db))\<rparr>) sample_db = (None, d1)"
    "d1 = (snd (draw ''evt_'' sample_db))\<lparr>db_events := [] @ [yes_event a n]\<rparr>"
    using yes_write by (simp add: sample_db_def empty_db_def)
  have i: "plain_text ''i''" by code_simp
  have "answers ''t1'' ''i'' d1 \<noteq> []" unfolding d1(2) yes_answers by simp
  then have found: "projected_already sample_dumps ''t1'' ''i'' d1" by (rule answers_probe [OF sample_dumps_fields i])
  have stop: "project_step sample_dumps (\<lambda>_. []) (\<lambda>_. []) yes_projection d1 = (None, d1)"
    using found by (simp add: project_step_def yes_projection_def)
  note adv = yes_state_advance(1) [OF steps(1) [OF sample_yes(1)]] yes_state_advance(1) [OF steps(3)] yes_state_advance(1) [OF steps(4)]
    yes_state_advance(1) [OF d1(1)] yes_state_advance(1) [OF stop]
  have one: "overlap sample_dumps (\<lambda>_. []) (\<lambda>_. []) ''t1'' ''i'' ?ops (yes_state asking_svc sample_db []) \<le> 1"
    by (simp only: overlap.simps s1(2) s2 append.simps option.case adv serial_under_way) simp
  obtain n s3 where sub: "post_submit (\<lambda>s. s) 5 ''i'' yes_envelope asking_svc = (Inr n, s3, Some yes_projection)"
    using yes_accepted [OF asking_asked] by blast
  then obtain d2 where p: "post_result sample_dumps (\<lambda>_. []) (\<lambda>_. []) (\<lambda>s. s) 5 ''i'' yes_envelope (asking_svc, sample_db) = (Inr n, s3, d2)"
    by (simp add: post_result_def)
  have get: "inv_get ''i'' (svc_invs asking_svc) = Some asked_invocation" "inv_task_id asked_invocation = Some ''t1''"
    "env_action yes_envelope = Accept" "env_content yes_envelope = JStr ''yes''"
    by (simp_all add: asking_svc_def asked_invocation_def inv_get_def yes_envelope_def)
  have row: "bundle_get (task_bundle (fresh_task ''t1'' ''b'' ''first'' None [])) sample_db = Some (plain_bundle ''b'' ''cb'')"
    using sample_yes(3) by (simp add: fresh_task_def)
  have "\<forall>g e. Elsewhere g \<in> set ?ops \<longrightarrow> answers ''t1'' ''i'' (g e) = answers ''t1'' ''i'' e" by (simp add: yes_post_def)
  note spec = answer_projected_once [OF sample_dumps_fields i sample_yes(4) this, where s = asking_svc and sd = "\<lambda>_. []" and fmt = "\<lambda>_. []",
      folded yes_state_def]
  have "length (answers ''t1'' ''i'' (po_db (posting_run sample_dumps (\<lambda>_. []) (\<lambda>_. []) ?ops (yes_state asking_svc sample_db [])))) \<le> 1"
    using conjunct1 [OF spec] one by (rule order_trans)
  moreover have "\<exists>e. answers ''t1'' ''i'' d2 = [e] \<and> event_body e = ''yes''"
  proof -
    have "post_result sample_dumps (\<lambda>_. []) (\<lambda>_. []) (\<lambda>s. s) 5 ''i'' yes_envelope (asking_svc, sample_db) = (Inr n, s3, d2) \<and>
       inv_get ''i'' (svc_invs asking_svc) = Some asked_invocation \<and> inv_task_id asked_invocation = Some ''t1'' \<and> ''t1'' \<noteq> [] \<and>
       task_get ''t1'' sample_db = Some (fresh_task ''t1'' ''b'' ''first'' None []) \<and>
       bundle_get (task_bundle (fresh_task ''t1'' ''b'' ''first'' None [])) sample_db = Some (plain_bundle ''b'' ''cb'') \<and>
       env_action yes_envelope = Accept \<and> env_content yes_envelope = JStr ''yes'' \<and> str_strip ''yes'' \<noteq> []"
      using p get row sample_yes(2) yes_body(2) by simp
    from spec [THEN conjunct2, THEN conjunct2, rule_format, OF this] sample_yes(1) show ?thesis by auto
  qed
  ultimately show ?thesis using p by blast
qed

end
