(* ===== verification/Runtimes.thy ===== *)
theory Runtimes
  imports Domain
begin

text \<open>
  Daemon processes (\<^verbatim>\<open>routes/agent_runtimes.py\<close>): registration that recognises a device it has seen,
  heartbeats, and the sweep that marks silent processes offline.
\<close>

definition STALE_THRESHOLD_SECONDS :: int where
  "STALE_THRESHOLD_SECONDS = 60"

type_synonym host = "(string \<times> json) list"

text \<open>The last \<open>return\<close> of \<open>_same_device\<close> compares host names only when both are truthy.\<close>

definition same_device :: "host \<Rightarrow> host \<Rightarrow> bool" where
  "same_device old new =
     (let both = (\<lambda>k. truthy (dict_get old k) \<and> truthy (dict_get new k));
          same = (\<lambda>k. py_eq (dict_get old k) (dict_get new k))
      in if both ''device_id'' then same ''device_id''
         else if both ''endpoint_url'' then same ''endpoint_url''
         else both ''hostname'' \<and> same ''hostname'')"

definition runtime_get :: "string \<Rightarrow> db \<Rightarrow> runtime option" where
  "runtime_get i s = row_get rt_id i (db_runtimes s)"

definition runtime_stale :: "int \<Rightarrow> runtime \<Rightarrow> bool" where
  "runtime_stale now r \<longleftrightarrow> rt_last_seen r < now - STALE_THRESHOLD_SECONDS \<and> rt_status r \<noteq> ''offline''"

definition set_offline :: "runtime \<Rightarrow> runtime" where
  "set_offline r = r\<lparr>rt_status := ''offline''\<rparr>"

definition mark_stale :: "int \<Rightarrow> db \<Rightarrow> nat \<times> db" where
  "mark_stale now s = (row_count (runtime_stale now) (db_runtimes s),
     s\<lparr>db_runtimes := rows_update (runtime_stale now) set_offline (db_runtimes s)\<rparr>)"

record runtime_request =
  rq_agent :: string
  rq_account :: string
  rq_daemon :: "string option"
  rq_provider :: "string option"
  rq_host_info :: host

text \<open>\<open>COALESCE(provider, '') = COALESCE(?, '')\<close>\<close>

definition coalesce :: "string option \<Rightarrow> string" where
  "coalesce p = (case p of None \<Rightarrow> [] | Some x \<Rightarrow> x)"

definition newest_first :: "runtime list \<Rightarrow> runtime list" where
  "newest_first rs = sort_key (\<lambda>r. - rt_last_seen r) rs"

definition same_process :: "runtime_request \<Rightarrow> runtime \<Rightarrow> bool" where
  "same_process q r \<longleftrightarrow> rt_account r = rq_account q \<and> rt_agent r = rq_agent q \<and>
     coalesce (rt_provider r) = coalesce (rq_provider q) \<and> same_device (rt_host_info r) (rq_host_info q)"

definition device_matches :: "runtime_request \<Rightarrow> db \<Rightarrow> runtime list" where
  "device_matches q s = filter (\<lambda>r. same_device (rt_host_info r) (rq_host_info q))
     (newest_first (filter (\<lambda>r. rt_account r = rq_account q \<and> rt_agent r = rq_agent q \<and>
        coalesce (rt_provider r) = coalesce (rq_provider q)) (db_runtimes s)))"

definition back_online :: "runtime_request \<Rightarrow> int \<Rightarrow> runtime \<Rightarrow> runtime" where
  "back_online q now r = r\<lparr>rt_daemon := rq_daemon q, rt_host_info := rq_host_info q, rt_status := ''online'',
     rt_last_seen := now\<rparr>"

definition register_runtime :: "runtime_request \<Rightarrow> int \<Rightarrow> db \<Rightarrow> runtime option \<times> db" where
  "register_runtime q now s = (case device_matches q s of
       m # dups \<Rightarrow>
         let rows = rows_update (\<lambda>r. rt_id r = rt_id m) (back_online q now) (db_runtimes s);
             s' = s\<lparr>db_runtimes := rows_update (\<lambda>r. rt_id r \<in> rt_id ` set dups) set_offline rows\<rparr>
         in (runtime_get (rt_id m) s', s')
     | [] \<Rightarrow>
         let (i, s1) = draw ''rt_'' s;
             r = \<lparr>rt_id = i, rt_agent = rq_agent q, rt_account = rq_account q, rt_daemon = rq_daemon q,
                  rt_provider = rq_provider q, rt_host_info = rq_host_info q, rt_status = ''online'',
                  rt_last_seen = now, rt_started = now\<rparr>;
             s' = s1\<lparr>db_runtimes := db_runtimes s1 @ [r]\<rparr>
         in (runtime_get i s', s'))"

definition seen :: "int \<Rightarrow> runtime \<Rightarrow> runtime" where
  "seen now r = r\<lparr>rt_last_seen := now, rt_status := ''online''\<rparr>"

definition heartbeat_runtime :: "string \<Rightarrow> int \<Rightarrow> db \<Rightarrow> runtime option res \<times> db" where
  "heartbeat_runtime i now s =
     (if runtime_get i s = None then (Inl (HTTPException 404 ''Runtime not registered''), s)
      else let s' = s\<lparr>db_runtimes := rows_update (\<lambda>r. rt_id r = i) (seen now) (db_runtimes s)\<rparr>
           in (Inr (runtime_get i s'), s'))"

definition list_runtimes :: "string option \<Rightarrow> int \<Rightarrow> db \<Rightarrow> runtime list \<times> db" where
  "list_runtimes acc now s =
     (let s' = snd (mark_stale now s)
      in (newest_first (if opt_truthy acc then filter (\<lambda>r. Some (rt_account r) = acc) (db_runtimes s')
                        else db_runtimes s'), s'))"

definition sweep_stale_runtimes :: "int \<Rightarrow> db \<Rightarrow> (nat \<times> int) \<times> db" where
  "sweep_stale_runtimes now s = (let (n, s') = mark_stale now s in ((n, now - STALE_THRESHOLD_SECONDS), s'))"

interpretation online_rows: keyed_table rt_id "\<lambda>(q, now). back_online q now"
  by unfold_locales (simp add: back_online_def split: prod.split)

interpretation offline_runtimes: keyed_table rt_id "\<lambda>_::unit. set_offline"
  by unfold_locales (simp add: set_offline_def)

interpretation seen_rows: keyed_table rt_id seen
  by unfold_locales (simp add: seen_def)

section \<open>One process per device\<close>

lemma set_matches: "set (device_matches q s) = {r \<in> set (db_runtimes s). same_process q r}"
  by (auto simp: device_matches_def newest_first_def same_process_def)

lemma distinct_matches:
  assumes "distinct (map rt_id (db_runtimes s))"
  shows "distinct (map rt_id (device_matches q s))"
proof -
  have "inj_on rt_id (set (device_matches q s))"
    using assms by (auto simp: distinct_map set_matches inj_on_def)
  moreover have "distinct (device_matches q s)"
    using assms by (simp add: device_matches_def newest_first_def distinct_map)
  ultimately show ?thesis by (simp add: distinct_map)
qed

text \<open>What a registration makes of the table, either way.\<close>

lemma register_runtime_cases:
  assumes "register_runtime q now s = (res, s')"
  obtains m dups where "device_matches q s = m # dups"
      "db_runtimes s' = map (\<lambda>r. if rt_id r = rt_id m then (if rt_id m \<in> rt_id ` set dups then set_offline else id) (back_online q now r)
         else if rt_id r \<in> rt_id ` set dups then set_offline r else r) (db_runtimes s)"
      "res = runtime_get (rt_id m) s'"
  | r where "device_matches q s = []" "db_runtimes s' = db_runtimes s @ [r]" "rt_id r = ''rt_'' @ db_ids s (db_drawn s)"
      "same_process q r = same_device (rq_host_info q) (rq_host_info q)" "rt_status r = ''online''" "rt_last_seen r = now"
      "rt_host_info r = rq_host_info q" "res = runtime_get (rt_id r) s'"
proof (cases "device_matches q s")
  case Nil
  then show ?thesis using assms
    by (intro that(2)) (auto simp: register_runtime_def draw_def Let_def same_process_def)
next
  case (Cons m dups)
  then show ?thesis using assms
    by (intro that(1) [of m dups]) (auto simp: register_runtime_def Let_def rows_update_def back_online_def)
qed

definition laptop :: runtime_request where
  "laptop = \<lparr>rq_agent = ''a'', rq_account = ''op'', rq_daemon = None, rq_provider = None,
     rq_host_info = [(''device_id'', JStr ''d1'')]\<rparr>"

definition old_process :: runtime where
  "old_process = \<lparr>rt_id = ''r0'', rt_agent = ''a'', rt_account = ''op'', rt_daemon = None, rt_provider = Some [],
     rt_host_info = [(''device_id'', JStr ''d1'')], rt_status = ''offline'', rt_last_seen = 1, rt_started = 0\<rparr>"

definition laptop_db :: "runtime list \<Rightarrow> db" where
  "laptop_db rs = \<lparr>db_accounts = [], db_wallets = [], db_cookbooks = [], db_shares = [], db_grants = [], db_bundles = [], db_tasks = [],
     db_events = [], db_tapes = [], db_agents = [], db_links = [], db_reviews = [], db_usage = [], db_runtimes = rs, db_sandboxes = [], db_cards = [], db_mail = [], db_elicits = [],
     db_watch = watch_init, db_ids = \<lambda>n. replicate n CHR ''x'', db_drawn = 0\<rparr>"

text \<open>After a daemon registers, its row is online with what it reported, and it is the only row of
  that account, agent and provider on that device that is not offline; rows of other processes are as they
  were; and when the request names its device, registering again adds no row.\<close>

theorem register_runtime_one_device:
  assumes "distinct (map rt_id (db_runtimes s))" "''rt_'' @ db_ids s (db_drawn s) \<notin> rt_id ` set (db_runtimes s)"
    and "register_runtime q now s = (res, s')"
  shows "(\<exists>r. res = Some r \<and> r \<in> set (db_runtimes s') \<and> rt_status r = ''online'' \<and> rt_last_seen r = now \<and>
        rt_host_info r = rq_host_info q \<and>
        (\<forall>x\<in>set (db_runtimes s'). same_process q x \<and> rt_status x \<noteq> ''offline'' \<longrightarrow> x = r)) \<and>
     (\<forall>x\<in>set (db_runtimes s). \<not> same_process q x \<longrightarrow> x \<in> set (db_runtimes s')) \<and>
     distinct (map rt_id (db_runtimes s')) \<and>
     (same_device (rq_host_info q) (rq_host_info q) \<longrightarrow>
        length (db_runtimes (snd (register_runtime q later s'))) = length (db_runtimes s'))"
proof -
  have again: "length (db_runtimes (snd (register_runtime q later s'))) = length (db_runtimes s')"
    if "\<exists>x\<in>set (db_runtimes s'). same_process q x"
  proof -
    obtain r2 s2 where run: "register_runtime q later s' = (r2, s2)" by fastforce
    from run show ?thesis
    proof (cases rule: register_runtime_cases)
      case 1
      then show ?thesis by (simp add: run)
    next
      case 2
      then show ?thesis using that set_matches [of q s'] by auto
    qed
  qed
  show ?thesis
    using assms(3)
  proof (cases rule: register_runtime_cases)
    case (1 m dups)
    have m: "m \<in> set (db_runtimes s)" "same_process q m" and new: "rt_id m \<notin> rt_id ` set dups"
      using set_matches [of q s] distinct_matches [OF assms(1), of q] 1(1) by auto
    let ?f = "\<lambda>r. if rt_id r = rt_id m then back_online q now r else if rt_id r \<in> rt_id ` set dups then set_offline r else r"
    have rows: "db_runtimes s' = map ?f (db_runtimes s)" unfolding 1(2) using new by simp
    have keys: "map rt_id (db_runtimes s') = map rt_id (db_runtimes s)"
      by (simp add: rows back_online_def set_offline_def)
    have inj: "x = y" if "x \<in> set (db_runtimes s)" "y \<in> set (db_runtimes s)" "rt_id x = rt_id y" for x y
      using assms(1) that by (auto simp: distinct_map inj_on_def)
    let ?r = "back_online q now m"
    have r: "?r \<in> set (db_runtimes s')" "rt_id ?r = rt_id m"
      using m(1) by (auto simp: rows back_online_def image_iff intro!: bexI [of _ m])
    have res: "res = Some ?r"
      unfolding 1(3) runtime_get_def using row_get_in_set [of rt_id "db_runtimes s'" ?r] r assms(1) keys by simp
    have only: "x = ?r" if row: "x \<in> set (db_runtimes s')" and "same_process q x" "rt_status x \<noteq> ''offline''" for x
    proof -
      obtain y where y: "y \<in> set (db_runtimes s)" "x = ?f y" using row unfolding rows set_map by blast
      show ?thesis
      proof (cases "rt_id y = rt_id m")
        case True
        then show ?thesis using y inj [OF y(1) m(1)] by simp
      next
        case False
        then have "x = y" "rt_id y \<notin> rt_id ` set dups" using y that(3) by (auto simp: set_offline_def split: if_splits)
        moreover have "y \<in> set (m # dups)" using set_matches [of q s] 1(1) y(1) that(2) \<open>x = y\<close> by auto
        ultimately show ?thesis using False by auto
      qed
    qed
    have kept: "x \<in> set (db_runtimes s')" if "x \<in> set (db_runtimes s)" "\<not> same_process q x" for x
    proof -
      have "rt_id x \<notin> rt_id ` set (m # dups)"
      proof
        assume "rt_id x \<in> rt_id ` set (m # dups)"
        then obtain y where "y \<in> set (device_matches q s)" "rt_id x = rt_id y" using 1(1) by auto
        then show False using inj [OF that(1), of y] that(2) by (simp add: set_matches)
      qed
      then have "x = ?f x" by simp
      then show ?thesis unfolding rows set_map by (rule image_eqI) (rule that(1))
    qed
    have "same_process q ?r" if "same_device (rq_host_info q) (rq_host_info q)"
      using that m(2) by (simp add: same_process_def back_online_def)
    then have "same_device (rq_host_info q) (rq_host_info q) \<longrightarrow>
        length (db_runtimes (snd (register_runtime q later s'))) = length (db_runtimes s')"
      using again r(1) by blast
    moreover have "rt_status ?r = ''online''" "rt_last_seen ?r = now" "rt_host_info ?r = rq_host_info q"
      by (simp_all add: back_online_def)
    moreover have "distinct (map rt_id (db_runtimes s'))" using keys assms(1) by (simp only:)
    ultimately show ?thesis using r(1) only kept res by blast
  next
    case (2 r)
    have fresh: "row_get rt_id (rt_id r) (db_runtimes s) = None" using assms(2) 2(3) by (simp add: row_get_None)
    then have "res = Some r" by (simp add: 2(8) runtime_get_def 2(2) row_get_append)
    moreover have "\<not> same_process q x" if "x \<in> set (db_runtimes s)" for x
      using set_matches [of q s] 2(1) that by auto
    moreover have "distinct (map rt_id (db_runtimes s'))" using assms(1,2) 2(2,3) by auto
    ultimately show ?thesis using 2 again by auto
  qed
qed

lemma register_runtime_one_device_witness:
  "\<exists>r s'. register_runtime laptop 9 (laptop_db [old_process]) = (Some r, s') \<and> rt_id r = ''r0'' \<and> rt_status r = ''online'' \<and>
     length (db_runtimes (snd (register_runtime laptop 12 s'))) = 1"
proof -
  let ?s = "laptop_db [old_process]"
  obtain res s' where run: "register_runtime laptop 9 ?s = (res, s')" by fastforce
  have one: "device_matches laptop ?s = [old_process]"
    by (simp add: device_matches_def newest_first_def laptop_db_def old_process_def laptop_def coalesce_def same_device_def dict_get_def)
  have rows: "db_runtimes ?s = [old_process]" by (simp add: laptop_db_def)
  from run have "length (db_runtimes s') = 1" and res: "res = Some (back_online laptop 9 old_process)"
    by (auto simp: register_runtime_def one runtime_get_def rows rows_update_def back_online_def)
  moreover have "distinct (map rt_id (db_runtimes ?s))" "''rt_'' @ db_ids ?s (db_drawn ?s) \<notin> rt_id ` set (db_runtimes ?s)"
    using rows by (simp_all, simp add: old_process_def)
  note register_runtime_one_device [OF this run, of 12]
  moreover have "same_device (rq_host_info laptop) (rq_host_info laptop)"
    by (simp add: laptop_def same_device_def dict_get_def)
  moreover have "rt_id (back_online laptop 9 old_process) = ''r0''" by (simp add: back_online_def old_process_def)
  ultimately show ?thesis using run by auto
qed

text \<open>A registered process is online after a heartbeat, and the sweep leaves it so for 60 seconds, then marks it.\<close>

lemma heartbeat_then_sweep:
  assumes "runtime_get i s = Some r"
  shows "\<exists>s'. heartbeat_runtime i now s = (Inr (Some (seen now r)), s') \<and>
     runtime_get i (snd (mark_stale later s')) = Some (if later \<le> now + 60 then seen now r else set_offline (seen now r))"
  using assms
  by (simp add: heartbeat_runtime_def Let_def runtime_get_def seen_rows.get_update_key mark_stale_def
      offline_runtimes.get_update runtime_stale_def STALE_THRESHOLD_SECONDS_def seen_def)

end
