(* ===== verification/Agents.thy ===== *)
theory Agents
  imports Auth Task_Service
begin

text \<open>
  Agents and the processes behind them: the presence table (\<^verbatim>\<open>repositories/agent_repo.py\<close>), its
  routes (\<^verbatim>\<open>routes/agents.py\<close>), the controller that declares silent agents offline and frees their
  tasks (\<^verbatim>\<open>controllers/presence_controller.py\<close>), and the runtimes of \<^verbatim>\<open>routes/agent_runtimes.py\<close>.
\<close>

section \<open>The presence table\<close>

definition presence_key :: "presence \<Rightarrow> string \<times> string" where
  "presence_key a = (agent_id a, agent_cookbook a)"

definition presence_get :: "string \<Rightarrow> string \<Rightarrow> db \<Rightarrow> presence option" where
  "presence_get a c s = row_get presence_key (a, c) (db_agents s)"

definition agents_by_cookbook :: "string \<Rightarrow> db \<Rightarrow> presence list" where
  "agents_by_cookbook c s = filter (\<lambda>a. agent_cookbook a = c) (db_agents s)"

text \<open>\<open>ON CONFLICT DO UPDATE\<close>: the columns of the INSERT and the version; owner, mint and wallet stay.\<close>

definition refreshed :: "presence \<Rightarrow> presence \<Rightarrow> presence" where
  "refreshed p a = a\<lparr>agent_display := agent_display p, agent_capabilities := agent_capabilities p,
     agent_max_tasks := agent_max_tasks p, agent_endpoint := agent_endpoint p, agent_status := agent_status p,
     agent_heartbeat := agent_heartbeat p, agent_current_task := agent_current_task p,
     agent_version := agent_version a + 1\<rparr>"

interpretation presence_rows: keyed_table presence_key refreshed
  by unfold_locales (simp add: presence_key_def refreshed_def)

definition inserted_presence :: "presence \<Rightarrow> presence" where
  "inserted_presence p = p\<lparr>agent_version := 1, agent_owner := None, agent_mint_tx := None, agent_mint_token := None,
     agent_wallet := None\<rparr>"

definition upsert_presence :: "presence \<Rightarrow> db \<Rightarrow> presence \<times> db" where
  "upsert_presence p s =
     (let s' = (if presence_get (agent_id p) (agent_cookbook p) s \<noteq> None
                then s\<lparr>db_agents := rows_update (\<lambda>a. presence_key a = presence_key p) (refreshed p) (db_agents s)\<rparr>
                else s\<lparr>db_agents := db_agents s @ [inserted_presence p]\<rparr>)
      in (case presence_get (agent_id p) (agent_cookbook p) s' of None \<Rightarrow> p | Some a \<Rightarrow> a, s'))"

definition set_presence :: "string \<Rightarrow> string \<Rightarrow> (presence \<Rightarrow> presence) \<Rightarrow> db \<Rightarrow> db" where
  "set_presence a c f s = s\<lparr>db_agents := rows_update (\<lambda>r. presence_key r = (a, c)) f (db_agents s)\<rparr>"

definition set_wallet_address :: "string \<Rightarrow> string \<Rightarrow> string \<Rightarrow> db \<Rightarrow> db" where
  "set_wallet_address a c w = set_presence a c (\<lambda>r. r\<lparr>agent_wallet := Some w\<rparr>)"





section \<open>Routes\<close>

record presence_request =
  pq_agent :: string
  pq_cookbook :: string
  pq_display :: string
  pq_capabilities :: "string list"
  pq_max_tasks :: int
  pq_endpoint :: "string option"
  pq_current_task :: "string option"

definition request_presence :: "presence_request \<Rightarrow> agent_status \<Rightarrow> string option \<Rightarrow> int \<Rightarrow> presence" where
  "request_presence q st task now = \<lparr>agent_id = pq_agent q, agent_cookbook = pq_cookbook q, agent_display = pq_display q,
     agent_capabilities = pq_capabilities q, agent_max_tasks = pq_max_tasks q, agent_endpoint = pq_endpoint q,
     agent_status = st, agent_heartbeat = now, agent_current_task = task, agent_version = 1, agent_owner = None,
     agent_mint_tx = None, agent_mint_token = None, agent_wallet = None\<rparr>"

definition list_agents :: "string option \<Rightarrow> db \<Rightarrow> presence list" where
  "list_agents c s = (if opt_truthy c then agents_by_cookbook (the c) s
     else filter (\<lambda>a. agent_status a \<noteq> AOffline) (db_agents s))"

definition publish_presence :: "watch_kind \<Rightarrow> string \<Rightarrow> presence \<Rightarrow> int \<Rightarrow> db \<Rightarrow> db" where
  "publish_presence k i a now s = publish ''agent'' i k (presence_json a) None now s"

text \<open>The part of an agent's id before and after its \<open>@\<close> (\<open>split\<close> gives the whole id when there is none).\<close>

definition agent_short_name :: "string \<Rightarrow> string" where
  "agent_short_name a = (if CHR ''@'' \<in> set a then fst (str_partition CHR ''@'' a) else a)"

text \<open>\<open>upsert_agent_card\<close> of the A2A gateway.\<close>

definition card_json :: "string \<Rightarrow> string \<Rightarrow> string \<Rightarrow> string list \<Rightarrow> json" where
  "card_json ow agent display caps = JObj [(''name'', JStr display), (''description'', JStr (display @ '' on Cookrew'')),
     (''url'', JStr (''/a2a/'' @ ow @ ''/'' @ agent)), (''version'', JStr ''1.0.0''), (''protocolVersion'', JStr ''0.2.5''),
     (''capabilities'', JObj [(''streaming'', JBool False), (''pushNotifications'', JBool False)]),
     (''skills'', JArr (map (\<lambda>c. JObj [(''id'', JStr c), (''name'', JStr c)]) caps)),
     (''defaultInputModes'', JArr [JStr ''text'']), (''defaultOutputModes'', JArr [JStr ''text'']),
     (''provider'', JObj [(''organization'', JStr ow)])]"

definition card_key :: "agent_card \<Rightarrow> string \<times> string" where
  "card_key a = (ac_owner a, ac_agent a)"

definition upsert_agent_card :: "string \<Rightarrow> string \<Rightarrow> string \<Rightarrow> string list \<Rightarrow> int \<Rightarrow> db \<Rightarrow> db" where
  "upsert_agent_card ow agent display caps now s =
     (let card = card_json ow agent display caps
      in if row_get card_key (ow, agent) (db_cards s) = None
         then s\<lparr>db_cards := db_cards s @ [\<lparr>ac_owner = ow, ac_agent = agent, ac_json = card, ac_updated_at = now\<rparr>]\<rparr>
         else s\<lparr>db_cards := rows_update (\<lambda>a. card_key a = (ow, agent))
                 (\<lambda>a. a\<lparr>ac_json := card, ac_updated_at := now\<rparr>) (db_cards s)\<rparr>)"

text \<open>\<open>wallet\<close> is the address the account service provisions, \<open>None\<close> when it is not asked (no wallet, no
  session key, no bearer token) or fails; the row answered is the one read before the owner was stored
  unless a wallet was.\<close>

definition register_agent :: "string option \<Rightarrow> caller \<Rightarrow> presence_request \<Rightarrow> int \<Rightarrow> db \<Rightarrow> presence res \<times> db" where
  "register_agent wallet c q now s =
     (if cookbook_get (pq_cookbook q) s = None then (Inl (HTTPException 404 ''Cookbook not found''), s)
      else case authorize_agent_mutation c (presence_get (pq_agent q) (pq_cookbook q) s) of
        Inl e \<Rightarrow> (Inl e, s)
      | Inr _ \<Rightarrow>
          let (updated, s1) = upsert_presence (request_presence q AOnline None now) s;
              s2 = set_presence (pq_agent q) (pq_cookbook q) (\<lambda>r. r\<lparr>agent_owner := Some (agent_owner_identity c)\<rparr>) s1;
              s3 = publish_presence WAdded (pq_agent q) updated now s2;
              s4 = upsert_agent_card (agent_owner_identity c) (agent_short_name (pq_agent q)) (pq_display q)
                     (pq_capabilities q) now s3
          in (case wallet of
                None \<Rightarrow> (Inr updated, s4)
              | Some w \<Rightarrow> let s5 = set_wallet_address (pq_agent q) (pq_cookbook q) w s4
                          in (Inr (case presence_get (pq_agent q) (pq_cookbook q) s5 of None \<Rightarrow> updated | Some p \<Rightarrow> p), s5)))"

definition mint_agent :: "caller \<Rightarrow> string \<Rightarrow> string \<Rightarrow> string \<Rightarrow> int option \<Rightarrow> db \<Rightarrow> presence res \<times> db" where
  "mint_agent c a cb tx token s = (case presence_get a cb s of
       None \<Rightarrow> (Inl (HTTPException 404 ''Agent presence not found''), s)
     | Some p \<Rightarrow> (case authorize_agent_mutation c (Some p) of
         Inl e \<Rightarrow> (Inl e, s)
       | Inr _ \<Rightarrow>
           let s1 = set_presence a cb (\<lambda>r. r\<lparr>agent_mint_tx := Some tx, agent_mint_token := token,
                 agent_version := agent_version r + 1\<rparr>) s
           in (case presence_get a cb s1 of
                 None \<Rightarrow> Inl (HTTPException 404 ''Agent not found after update'') | Some r \<Rightarrow> Inr r, s1)))"

definition heartbeat :: "caller \<Rightarrow> presence_request \<Rightarrow> int \<Rightarrow> db \<Rightarrow> presence res \<times> db" where
  "heartbeat c q now s =
     (if cookbook_get (pq_cookbook q) s = None then (Inl (HTTPException 404 ''Cookbook not found''), s)
      else let existing = presence_get (pq_agent q) (pq_cookbook q) s in
        case authorize_agent_mutation c existing of
          Inl e \<Rightarrow> (Inl e, s)
        | Inr _ \<Rightarrow>
            let st = (if opt_truthy (pq_current_task q) then ABusy else AOnline);
                (updated, s1) = upsert_presence (request_presence q st (pq_current_task q) now) s
            in (Inr updated,
                if map_option agent_status existing \<noteq> Some (agent_status updated)
                then publish_presence WModified (pq_agent q) updated now s1
                else s1\<lparr>db_watch := notify_ephemeral ''agent'' (pq_agent q) WModified (presence_json updated) None (db_watch s1)\<rparr>))"

section \<open>The presence controller\<close>

fun release :: "task list \<Rightarrow> int \<Rightarrow> db \<Rightarrow> db" where
  "release [] now s = s"
| "release (t # ts) now s =
     (let (r, s1) = reopen_for_rerun (task_id t) now s in release ts now (publish_opt r None now s1))"

text \<open>One stale agent: its row is published, then its active and its merely assigned tasks are freed.\<close>

definition release_agent :: "int \<Rightarrow> presence \<Rightarrow> db \<Rightarrow> db" where
  "release_agent now a s =
     (let s1 = (case presence_get (agent_id a) (agent_cookbook a) s of
                  None \<Rightarrow> s | Some p \<Rightarrow> publish_presence WModified (agent_id a) p now s);
          s2 = release (list_active_by_agent (Some (agent_cookbook a)) (agent_id a) s1) now s1
      in release (list_assigned_unclaimed_by_agent (agent_cookbook a) (agent_id a) s2) now s2)"


section \<open>What a reconcile frees\<close>







lemma release_same [simp]:
  "db_bundles (release ts now s) = db_bundles s" "db_agents (release ts now s) = db_agents s"
  by (induction ts arbitrary: s)
    (simp_all add: reopen_for_rerun_def Let_def publish_opt_def publish_task_def split: prod.split option.split)







lemma release_agent_same [simp]:
  "db_bundles (release_agent now a s) = db_bundles s" "db_agents (release_agent now a s) = db_agents s"
  by (simp_all add: release_agent_def Let_def publish_presence_def split: option.split)



lemma fold_release_same [simp]:
  "db_bundles (fold (release_agent now) as s) = db_bundles s" "db_agents (fold (release_agent now) as s) = db_agents s"
  by (induction as arbitrary: s) simp_all


definition silent_agent :: presence where
  "silent_agent = request_presence \<lparr>pq_agent = ''a'', pq_cookbook = ''cb'', pq_display = ''A'', pq_capabilities = [],
     pq_max_tasks = 1, pq_endpoint = None, pq_current_task = None\<rparr> AOnline None 0"

definition silent_db :: db where
  "silent_db = sample_db\<lparr>db_tasks := [(fresh_task ''t1'' ''b'' ''first'' None [])\<lparr>task_status := TWorking, task_claimed_by := Some ''a''\<rparr>],
     db_agents := [silent_agent]\<rparr>"


text \<open>A heartbeat that is let through stores the presence it reports and leaves the owner alone; it
  appends one entry to the watch log exactly when the agent's status changes (or the agent is new), so a
  steady agent does not grow the log.\<close>

theorem heartbeat_logs_transitions:
  assumes hb: "heartbeat c q now s = (Inr p, s')"
  shows "presence_get (pq_agent q) (pq_cookbook q) s' = Some p \<and> agent_heartbeat p = now \<and>
     agent_status p = (if opt_truthy (pq_current_task q) then ABusy else AOnline) \<and>
     agent_owner p = (case presence_get (pq_agent q) (pq_cookbook q) s of None \<Rightarrow> None | Some a \<Rightarrow> agent_owner a) \<and>
     length (ws_log (db_watch s')) = length (ws_log (db_watch s)) +
       (if map_option agent_status (presence_get (pq_agent q) (pq_cookbook q) s) = Some (agent_status p) then 0 else 1)"
proof -
  define st where "st = (if opt_truthy (pq_current_task q) then ABusy else AOnline)"
  define r where "r = request_presence q st (pq_current_task q) now"
  have rk: "agent_id r = pq_agent q" "agent_cookbook r = pq_cookbook q" "presence_key r = (pq_agent q, pq_cookbook q)"
    "agent_status r = st" "agent_heartbeat r = now"
    by (simp_all add: r_def request_presence_def presence_key_def)
  obtain u s1 where up: "upsert_presence r s = (u, s1)" by fastforce
  have u: "presence_get (pq_agent q) (pq_cookbook q) s1 = Some u \<and> agent_status u = st \<and> agent_heartbeat u = now \<and>
      agent_owner u = (case presence_get (pq_agent q) (pq_cookbook q) s of None \<Rightarrow> None | Some a \<Rightarrow> agent_owner a) \<and>
      db_watch s1 = db_watch s"
  proof (cases "presence_get (pq_agent q) (pq_cookbook q) s")
    case None
    then show ?thesis
      using up rk
      by (auto simp: upsert_presence_def Let_def presence_get_def row_get_append inserted_presence_def presence_key_def)
  next
    case (Some a)
    then show ?thesis
      using up rk
      by (auto simp: upsert_presence_def Let_def presence_get_def presence_rows.get_update_key refreshed_def)
  qed
  have "p = u" "s' = (if map_option agent_status (presence_get (pq_agent q) (pq_cookbook q) s) \<noteq> Some (agent_status u)
      then publish_presence WModified (pq_agent q) u now s1
      else s1\<lparr>db_watch := notify_ephemeral ''agent'' (pq_agent q) WModified (presence_json u) None (db_watch s1)\<rparr>)"
    using hb up by (auto simp: heartbeat_def Let_def r_def st_def split: if_splits sum.splits)
  then show ?thesis using u
    by (auto simp: st_def presence_get_def publish_presence_def notify_ephemeral_def Let_def)
qed

definition steady_beat :: presence_request where
  "steady_beat = \<lparr>pq_agent = ''a'', pq_cookbook = ''cb'', pq_display = ''A'', pq_capabilities = [], pq_max_tasks = 1,
     pq_endpoint = None, pq_current_task = None\<rparr>"

definition agent_service :: caller where
  "agent_service = \<lparr>ca_account = ''svc'', ca_username = None, ca_principal = ''service'', ca_wallet = None, ca_method = ''api_key''\<rparr>"

lemma silent_presence: "presence_get ''a'' ''cb'' silent_db = Some silent_agent"
  by (simp add: presence_get_def silent_db_def silent_agent_def request_presence_def presence_key_def)

lemma heartbeat_logs_transitions_witness:
  "\<exists>p s'. heartbeat agent_service steady_beat 50 silent_db = (Inr p, s') \<and> agent_heartbeat p = 50 \<and>
     length (ws_log (db_watch s')) = length (ws_log (db_watch silent_db))"
proof -
  have "cookbook_get ''cb'' silent_db \<noteq> None"
    by (simp add: silent_db_def sample_db_def empty_db_def cookbook_get_def sample_cookbook_def)
  moreover have "authorize_agent_mutation agent_service p = Inr ()" for p
    by (simp add: authorize_agent_mutation_def agent_service_def is_service_def)
  ultimately have "isl (fst (heartbeat agent_service steady_beat 50 silent_db)) = False"
    by (simp add: heartbeat_def steady_beat_def Let_def case_prod_beta)
  then obtain p s' where run: "heartbeat agent_service steady_beat 50 silent_db = (Inr p, s')"
    by (metis isl_def prod.collapse sum.exhaust)
  have "agent_status silent_agent = AOnline" by (simp add: silent_agent_def request_presence_def)
  with run show ?thesis
    using heartbeat_logs_transitions [OF run] silent_presence by (auto simp: steady_beat_def opt_truthy_def)
qed

end
