(* ===== verification/A2A_Gateway.thy ===== *)
theory A2A_Gateway
  imports Agents
begin

text \<open>
  The agent-to-agent gateway (\<^verbatim>\<open>routes/a2a_gateway.py\<close>): a message to an agent is a row of a mailbox that
  the agent picks up and answers later, while the sender may wait for the answer in a coroutine.  The
  handler of \<open>message/send\<close> is cut at its two suspension points, so that an answer, a cancellation or a
  timeout can fall between them.  \<open>json.dumps\<close> is the argument \<open>dumps\<close>.
\<close>

section \<open>Cards and presence\<close>

definition card_get :: "string \<Rightarrow> string \<Rightarrow> db \<Rightarrow> agent_card option" where
  "card_get ow agent s = row_get card_key (ow, agent) (db_cards s)"

definition get_agent_card :: "string \<Rightarrow> string \<Rightarrow> db \<Rightarrow> json res" where
  "get_agent_card ow agent s = (case card_get ow agent s of
       None \<Rightarrow> Inl (HTTPException 404 (''Agent '' @ ow @ ''/'' @ agent @ '' not found'')) | Some c \<Rightarrow> Inr (ac_json c))"

text \<open>SQL's \<open>LIKE\<close>: a percent sign matches any text, an underscore any character, letters without case.\<close>

fun sql_like :: "string \<Rightarrow> string \<Rightarrow> bool" where
  "sql_like [] t = (t = [])"
| "sql_like (p # ps) t =
     (if p = CHR ''%'' then sql_like ps t \<or> (case t of [] \<Rightarrow> False | _ # t' \<Rightarrow> sql_like (p # ps) t')
      else case t of [] \<Rightarrow> False
        | c # t' \<Rightarrow> (p = CHR ''_'' \<or> char_lower p = char_lower c) \<and> sql_like ps t')"

definition agent_pattern :: "string \<Rightarrow> string" where
  "agent_pattern agent = agent @ ''@%''"

definition is_agent_online :: "string \<Rightarrow> db \<Rightarrow> bool" where
  "is_agent_online agent s \<longleftrightarrow>
     list_ex (\<lambda>a. sql_like (agent_pattern agent) (agent_id a) \<and> agent_status a \<noteq> AOffline) (db_agents s)"

definition get_agent_status :: "string \<Rightarrow> db \<Rightarrow> string" where
  "get_agent_status agent s =
     (case sort_key (\<lambda>a. - agent_heartbeat a) (filter (\<lambda>a. sql_like (agent_pattern agent) (agent_id a)) (db_agents s)) of
        [] \<Rightarrow> ''offline'' | a # _ \<Rightarrow> agent_status_name (agent_status a))"

section \<open>The mailbox\<close>

definition INVOCATION_TTL :: int where
  "INVOCATION_TTL = 300"

definition mail_get :: "string \<Rightarrow> db \<Rightarrow> mail option" where
  "mail_get i s = row_get ma_id i (db_mail s)"

definition mail_open :: "mail \<Rightarrow> bool" where
  "mail_open m \<longleftrightarrow> ma_status m = MPending \<or> ma_status m = MProcessing"

definition mail_update :: "(mail \<Rightarrow> bool) \<Rightarrow> (mail \<Rightarrow> mail) \<Rightarrow> db \<Rightarrow> db" where
  "mail_update P f s = s\<lparr>db_mail := rows_update P f (db_mail s)\<rparr>"

text \<open>\<open>d.get(k, default)\<close> on a value that may be no dictionary.\<close>

fun py_get :: "json \<Rightarrow> string \<Rightarrow> json \<Rightarrow> json res" where
  "py_get (JObj d) k dflt = Inr (case map_of d k of None \<Rightarrow> dflt | Some v \<Rightarrow> v)"
| "py_get _ k dflt = Inl (AttributeError [Lit ''object has no attribute get''])"

fun text_parts :: "json list \<Rightarrow> json list res" where
  "text_parts [] = Inr []"
| "text_parts (JObj d # ps) = bind_res (text_parts ps) (\<lambda>rest.
     Inr (if dict_get d ''kind'' = JStr ''text'' \<or> dict_has d ''text''
          then (case map_of d ''text'' of None \<Rightarrow> JStr [] | Some v \<Rightarrow> v) # rest else rest))"
| "text_parts (_ # ps) = Inl (AttributeError [Lit ''object has no attribute get''])"

fun join_text :: "json list \<Rightarrow> string list res" where
  "join_text [] = Inr []"
| "join_text (JStr t # ts) = bind_res (join_text ts) (\<lambda>r. Inr (t # r))"
| "join_text (_ # ts) = Inl (TypeError [Lit ''sequence item: expected str instance''])"

definition message_text :: "(json \<Rightarrow> string) \<Rightarrow> json \<Rightarrow> string res" where
  "message_text dumps message =
     bind_res (py_get message ''parts'' (JArr [])) (\<lambda>parts.
     bind_res (py_iter parts) (\<lambda>ps.
     bind_res (text_parts ps) (\<lambda>ts.
     bind_res (join_text ts) (\<lambda>strs.
       let t = str_join nl strs in Inr (if t = [] then dumps message else t)))))"

text \<open>What the sender is told: the JSON-RPC results of \<open>message/send\<close> and its errors.\<close>

datatype reply_text = Text json | Dumped json

datatype answer =
    RpcError int string
  | Submitted
  | Completed reply_text
  | Failed string
  | Raised py_exc

datatype send_pc = Stored | Waiting | Answered answer

record send_call =
  sc_mail :: string
  sc_ctx :: json
  sc_text :: string
  sc_immediate :: "bool res"
  sc_pc :: send_pc

text \<open>The part of \<open>_handle_message_send\<close> up to the commit of the new row.\<close>

definition message_send_store ::
  "(json \<Rightarrow> string) \<Rightarrow> string \<Rightarrow> string \<Rightarrow> (string \<times> json) list \<Rightarrow> int \<Rightarrow> db \<Rightarrow> (answer + send_call) \<times> db" where
  "message_send_store dumps ow agent params now s =
     (if card_get ow agent s = None then (Inl (RpcError (- 32000) (''Agent '' @ ow @ ''/'' @ agent @ '' not found'')), s)
      else if \<not> is_agent_online agent s
      then (Inl (RpcError (- 32000) (''Agent '' @ ow @ ''/'' @ agent @ '' is offline'')), s)
      else case bind_res (py_get (JObj params) ''message'' (JObj [])) (message_text dumps) of
        Inl e \<Rightarrow> (Inl (Raised e), s)
      | Inr text \<Rightarrow>
          let (i, s1) = draw ''task_'' s; (cid, s2) = draw ''ctx_'' s1;
              ctx = (case map_of params ''contextId'' of None \<Rightarrow> JStr cid | Some v \<Rightarrow> v);
              m = \<lparr>ma_id = i, ma_owner = ow, ma_agent = agent, ma_method = ''message/send'', ma_params = JObj params,
                   ma_caller = dict_get params ''caller_id'', ma_status = MPending, ma_result = None, ma_error = None,
                   ma_created_at = now, ma_completed_at = None, ma_expires_at = now + INVOCATION_TTL\<rparr>
          in if mail_get i s2 \<noteq> None then (Inl (Raised IntegrityError), s2)
             else (Inr \<lparr>sc_mail = i, sc_ctx = ctx, sc_text = text,
                     sc_immediate = bind_res (py_get (case map_of params ''configuration'' of None \<Rightarrow> JObj [] | Some v \<Rightarrow> v)
                        ''returnImmediately'' (JBool False)) (\<lambda>v. Inr (truthy v)),
                     sc_pc = Stored\<rparr>, s2\<lparr>db_mail := db_mail s2 @ [m]\<rparr>))"

definition mail_json :: "mail \<Rightarrow> send_call \<Rightarrow> json" where
  "mail_json m c = JObj [(''id'', JStr (ma_id m)), (''owner'', JStr (ma_owner m)), (''agent_name'', JStr (ma_agent m)),
     (''method'', JStr (ma_method m)), (''message'', JStr (sc_text c)), (''params'', ma_params m), (''context_id'', sc_ctx c)]"

definition announce :: "mail \<Rightarrow> send_call \<Rightarrow> int \<Rightarrow> db \<Rightarrow> db" where
  "announce m c now s = publish ''a2a_invocation'' (ma_id m) WAdded (mail_json m c) None now s"

definition responded :: "json \<Rightarrow> string option \<Rightarrow> int \<Rightarrow> mail \<Rightarrow> mail" where
  "responded result err now m = m\<lparr>ma_status := (if err = None then MCompleted else MFailed),
     ma_result := (if truthy result then Some result else None), ma_error := err, ma_completed_at := Some now\<rparr>"

definition canceled_mail :: "mail \<Rightarrow> mail" where
  "canceled_mail m = m\<lparr>ma_status := MFailed, ma_error := Some ''Canceled by caller''\<rparr>"

definition timed_out :: "mail \<Rightarrow> mail" where
  "timed_out m = m\<lparr>ma_status := MTimeout\<rparr>"

text \<open>\<open>json.loads(row["result"]) if row["result"] else \{\}\<close>, then its \<open>text\<close>, then its dump.\<close>

definition artifact :: "json option \<Rightarrow> reply_text res" where
  "artifact r = (case r of None \<Rightarrow> Inr (Dumped (JObj []))
     | Some (JObj d) \<Rightarrow> Inr (case map_of d ''text'' of None \<Rightarrow> Dumped (JObj d) | Some v \<Rightarrow> Text v)
     | Some _ \<Rightarrow> Inl (AttributeError [Lit ''object has no attribute get'']))"

definition read_answer :: "mail option \<Rightarrow> answer" where
  "read_answer r = (case r of
       None \<Rightarrow> Failed ''Agent failed''
     | Some m \<Rightarrow> if ma_status m = MCompleted then (case artifact (ma_result m) of Inl e \<Rightarrow> Raised e | Inr t \<Rightarrow> Completed t)
         else Failed (if opt_truthy (ma_error m) then the (ma_error m) else ''Agent failed''))"

fun mail_state :: "mail_status \<Rightarrow> string" where
  "mail_state MPending = ''submitted''"
| "mail_state MProcessing = ''working''"
| "mail_state MCompleted = ''completed''"
| "mail_state MFailed = ''failed''"
| "mail_state MTimeout = ''failed''"

definition tasks_get :: "string option \<Rightarrow> db \<Rightarrow> (int \<times> string) + (string \<times> reply_text option res)" where
  "tasks_get i s = (if \<not> opt_truthy i then Inl (- 32602, ''Missing task id'')
     else case mail_get (the i) s of
       None \<Rightarrow> Inl (- 32000, ''Task not found'')
     | Some m \<Rightarrow> Inr (mail_state (ma_status m),
         case ma_result m of None \<Rightarrow> Inr None | r \<Rightarrow> bind_res (artifact r) (\<lambda>t. Inr (Some t))))"

definition mail_pending :: "string \<Rightarrow> string \<Rightarrow> int \<Rightarrow> db \<Rightarrow> mail list" where
  "mail_pending ow agent now s = sort_key ma_created_at (filter (\<lambda>m. ma_owner m = ow \<and> ma_agent m = agent \<and>
     ma_status m = MPending \<and> now < ma_expires_at m) (db_mail s))"

section \<open>The hub\<close>

text \<open>The database, the dictionary \<open>_pending_events\<close> (set or not), and the senders in flight.\<close>

record hub =
  hub_db :: db
  hub_events :: "(string \<times> bool) list"
  hub_calls :: "send_call list"

definition set_pc :: "string \<Rightarrow> send_pc \<Rightarrow> send_call list \<Rightarrow> send_call list" where
  "set_pc i pc = rows_update (\<lambda>c. sc_mail c = i) (\<lambda>c. c\<lparr>sc_pc := pc\<rparr>)"

definition drop_event :: "string \<Rightarrow> (string \<times> bool) list \<Rightarrow> (string \<times> bool) list" where
  "drop_event i = filter (\<lambda>e. fst e \<noteq> i)"

definition send_store :: "(json \<Rightarrow> string) \<Rightarrow> string \<Rightarrow> string \<Rightarrow> (string \<times> json) list \<Rightarrow> int \<Rightarrow> hub \<Rightarrow> answer option \<times> hub" where
  "send_store dumps ow agent params now h = (case message_send_store dumps ow agent params now (hub_db h) of
       (Inl a, s) \<Rightarrow> (Some a, h\<lparr>hub_db := s\<rparr>)
     | (Inr c, s) \<Rightarrow> (None, h\<lparr>hub_db := s, hub_calls := hub_calls h @ [c]\<rparr>))"

text \<open>The watch entry is written; then the sender is answered at once or registers its event and waits.\<close>

definition send_announce :: "send_call \<Rightarrow> int \<Rightarrow> hub \<Rightarrow> hub" where
  "send_announce c now h = (let i = sc_mail c;
       s = (case mail_get i (hub_db h) of None \<Rightarrow> hub_db h | Some m \<Rightarrow> announce m c now (hub_db h))
     in (case sc_immediate c of
          Inl e \<Rightarrow> h\<lparr>hub_db := s, hub_calls := set_pc i (Answered (Raised e)) (hub_calls h)\<rparr>
        | Inr now \<Rightarrow> if now then h\<lparr>hub_db := s, hub_calls := set_pc i (Answered Submitted) (hub_calls h)\<rparr>
            else h\<lparr>hub_db := s, hub_events := drop_event i (hub_events h) @ [(i, False)],
                   hub_calls := set_pc i Waiting (hub_calls h)\<rparr>))"

definition send_wake :: "send_call \<Rightarrow> hub \<Rightarrow> hub" where
  "send_wake c h = h\<lparr>hub_events := drop_event (sc_mail c) (hub_events h),
     hub_calls := set_pc (sc_mail c) (Answered (read_answer (mail_get (sc_mail c) (hub_db h)))) (hub_calls h)\<rparr>"

definition send_timeout :: "send_call \<Rightarrow> hub \<Rightarrow> hub" where
  "send_timeout c h = h\<lparr>hub_db := mail_update (\<lambda>m. ma_id m = sc_mail c \<and> ma_status m = MPending) timed_out (hub_db h),
     hub_events := drop_event (sc_mail c) (hub_events h),
     hub_calls := set_pc (sc_mail c) (Answered (Failed ''Agent did not respond within timeout'')) (hub_calls h)\<rparr>"

text \<open>The body's \<open>invocation_id\<close> wins over \<open>task_id\<close>; its error is a text or null.\<close>

definition respond_invocation :: "string option \<Rightarrow> json \<Rightarrow> string option \<Rightarrow> int \<Rightarrow> hub \<Rightarrow> unit res \<times> hub" where
  "respond_invocation i result err now h =
     (if \<not> opt_truthy i then (Inl (HTTPException 400 ''Missing invocation_id''), h)
      else let P = (\<lambda>m. ma_id m = the i \<and> mail_open m); n = row_count P (db_mail (hub_db h));
               h1 = h\<lparr>hub_db := mail_update P (responded result err now) (hub_db h)\<rparr>
        in if n = 0 then (Inl (HTTPException 404 ''Invocation not found or already completed''), h1)
           else (Inr (), h1\<lparr>hub_events := map (\<lambda>(j, b). (j, b \<or> j = the i)) (hub_events h1)\<rparr>))"

definition tasks_cancel :: "string option \<Rightarrow> hub \<Rightarrow> (int \<times> string) option \<times> hub" where
  "tasks_cancel i h =
     (if \<not> opt_truthy i then (Some (- 32602, ''Missing task id''), h)
      else (None, h\<lparr>hub_db := mail_update (\<lambda>m. ma_id m = the i \<and> mail_open m) canceled_mail (hub_db h)\<rparr>))"

inductive hub_step :: "(json \<Rightarrow> string) \<Rightarrow> hub \<Rightarrow> hub \<Rightarrow> bool" for dumps where
  store: "hub_step dumps h (snd (send_store dumps ow agent params now h))"
| announce: "c \<in> set (hub_calls h) \<Longrightarrow> sc_pc c = Stored \<Longrightarrow> hub_step dumps h (send_announce c now h)"
| wake: "c \<in> set (hub_calls h) \<Longrightarrow> sc_pc c = Waiting \<Longrightarrow> (sc_mail c, True) \<in> set (hub_events h) \<Longrightarrow>
    hub_step dumps h (send_wake c h)"
| timeout: "c \<in> set (hub_calls h) \<Longrightarrow> sc_pc c = Waiting \<Longrightarrow> (sc_mail c, True) \<notin> set (hub_events h) \<Longrightarrow>
    hub_step dumps h (send_timeout c h)"
| respond: "hub_step dumps h (snd (respond_invocation i result err now h))"
| cancel: "hub_step dumps h (snd (tasks_cancel i h))"

inductive hub_reaches :: "(json \<Rightarrow> string) \<Rightarrow> hub \<Rightarrow> hub \<Rightarrow> bool" for dumps where
  refl: "hub_reaches dumps h h"
| step: "hub_reaches dumps h h1 \<Longrightarrow> hub_step dumps h1 h2 \<Longrightarrow> hub_reaches dumps h h2"

inductive_cases hub_stepE: "hub_step dumps h h'"

section \<open>What a step does\<close>

definition mail_edit :: "mail list \<Rightarrow> mail list \<Rightarrow> bool" where
  "mail_edit ms ms' \<longleftrightarrow> (\<exists>P f. (\<forall>m. P m \<longrightarrow> mail_open m) \<and> (\<forall>m. ma_id (f m) = ma_id m) \<and> ms' = rows_update P f ms) \<or>
     (\<exists>m. ms' = ms @ [m] \<and> mail_open m \<and> ma_id m \<notin> ma_id ` set ms)"

lemma mail_edit_refl [simp]: "mail_edit ms ms"
  unfolding mail_edit_def by (intro disjI1 exI [of _ "\<lambda>_. False"] exI [of _ id]) (simp add: rows_update_def)

lemma mail_edit_update:
  "(\<And>m. P m \<Longrightarrow> mail_open m) \<Longrightarrow> (\<And>m. ma_id (f m) = ma_id m) \<Longrightarrow>
     mail_edit (db_mail s) (db_mail (mail_update P f s))"
  unfolding mail_edit_def by (auto simp: mail_update_def)

lemma mail_edit_keys: "mail_edit ms ms' \<Longrightarrow> distinct (map ma_id ms) \<Longrightarrow>
    distinct (map ma_id ms') \<and> ma_id ` set ms \<subseteq> ma_id ` set ms'"
proof (unfold mail_edit_def, elim disjE exE conjE)
  fix P f assume "\<forall>m. ma_id (f m) = ma_id m" "ms' = rows_update P f ms"
  then have "map ma_id ms' = map ma_id ms" by (simp add: rows_update_def)
  then show "distinct (map ma_id ms) \<Longrightarrow> distinct (map ma_id ms') \<and> ma_id ` set ms \<subseteq> ma_id ` set ms'"
    by (metis list.set_map order_refl)
qed auto

lemma mail_edit_final: "mail_edit ms ms' \<Longrightarrow> m \<in> set ms \<Longrightarrow> \<not> mail_open m \<Longrightarrow> m \<in> set ms'"
  by (force simp: mail_edit_def rows_update_def)

lemma stored_edit:
  assumes "message_send_store dumps ow agent params now s = (r, s')"
  shows "mail_edit (db_mail s) (db_mail s') \<and> (\<forall>c. r = Inr c \<longrightarrow>
     sc_pc c = Stored \<and> sc_mail c \<notin> ma_id ` set (db_mail s) \<and> sc_mail c \<in> ma_id ` set (db_mail s'))"
proof -
  obtain i s1 where d1: "draw ''task_'' s = (i, s1)" by fastforce
  obtain j s2 where d2: "draw ''ctx_'' s1 = (j, s2)" by fastforce
  have s2: "db_mail s2 = db_mail s" using d1 d2 by (auto simp: draw_def)
  have add: "mail_open m \<Longrightarrow> ma_id m \<notin> ma_id ` set (db_mail s) \<Longrightarrow> mail_edit (db_mail s) (db_mail s @ [m])" for m
    by (auto simp: mail_edit_def)
  note run = assms [unfolded message_send_store_def d1 d2 Let_def prod.case]
  show ?thesis
  proof (cases "card_get ow agent s = None \<or> \<not> is_agent_online agent s")
    case True
    then show ?thesis using run by (auto split: if_splits)
  next
    case False
    show ?thesis
    proof (cases "bind_res (py_get (JObj params) ''message'' (JObj [])) (message_text dumps)")
      case (Inl e)
      then show ?thesis using run False by auto
    next
      case (Inr txt1)
      show ?thesis
      proof (cases "mail_get i s2")
        case None
        then have "i \<notin> ma_id ` set (db_mail s)" by (simp add: mail_get_def row_get_None s2)
        then show ?thesis using run False Inr None by (auto simp: s2 mail_open_def intro!: add)
      next
        case (Some m)
        then show ?thesis using run False Inr s2 by auto
      qed
    qed
  qed
qed

lemma announced_mail:
  "db_mail (hub_db (send_announce c now h)) = db_mail (hub_db h)"
  by (simp add: send_announce_def Let_def announce_def split: option.split sum.split)

lemma step_mail: "hub_step dumps h h' \<Longrightarrow> mail_edit (db_mail (hub_db h)) (db_mail (hub_db h'))"
proof (erule hub_stepE)
  fix ow agent params now assume "h' = snd (send_store dumps ow agent params now h)"
  then show ?thesis using stored_edit [of dumps ow agent params now "hub_db h"]
    by (auto simp: send_store_def split: prod.splits sum.splits)
next
  fix c assume "h' = send_timeout c h"
  then show ?thesis
    using mail_edit_update [of "\<lambda>m. ma_id m = sc_mail c \<and> ma_status m = MPending" timed_out "hub_db h"]
    by (auto simp: send_timeout_def mail_open_def timed_out_def)
next
  fix i result err now assume "h' = snd (respond_invocation i result err now h)"
  then show ?thesis by (auto simp: respond_invocation_def Let_def responded_def intro!: mail_edit_update)
next
  fix i assume "h' = snd (tasks_cancel i h)"
  then show ?thesis by (auto simp: tasks_cancel_def canceled_mail_def intro!: mail_edit_update)
qed (simp_all add: announced_mail send_wake_def)

section \<open>Reachable hubs\<close>

text \<open>Whoever was told \<open>completed\<close> was told what its row says.\<close>

definition told :: "db \<Rightarrow> string \<Rightarrow> send_pc \<Rightarrow> bool" where
  "told s i pc \<longleftrightarrow> (\<forall>t. pc = Answered (Completed t) \<longrightarrow>
     (\<exists>m. mail_get i s = Some m \<and> ma_status m = MCompleted \<and> artifact (ma_result m) = Inr t))"

definition hub_ok :: "hub \<Rightarrow> bool" where
  "hub_ok h \<longleftrightarrow> distinct (map ma_id (db_mail (hub_db h))) \<and> distinct (map sc_mail (hub_calls h)) \<and>
     (\<forall>c\<in>set (hub_calls h). sc_mail c \<in> ma_id ` set (db_mail (hub_db h)) \<and> told (hub_db h) (sc_mail c) (sc_pc c))"

lemma told_simps [simp]: "told s i Stored" "told s i Waiting" "told s i (Answered Submitted)" "told s i (Answered (Raised e))"
    "told s i (Answered (Failed x))"
  by (simp_all add: told_def)

lemma mail_get_final:
  assumes "mail_edit (db_mail s) (db_mail s')" "distinct (map ma_id (db_mail s))" "mail_get i s = Some m" "\<not> mail_open m"
  shows "mail_get i s' = Some m"
proof -
  have m: "m \<in> set (db_mail s)" "ma_id m = i" using row_get_Some [OF assms(3) [unfolded mail_get_def]] by auto
  then have "m \<in> set (db_mail s')" using mail_edit_final assms(1,4) by blast
  then show ?thesis
    using row_get_in_set [of ma_id "db_mail s'" m] mail_edit_keys [OF assms(1,2)] m(2) by (simp add: mail_get_def)
qed

lemma told_mono:
  assumes "mail_edit (db_mail s) (db_mail s')" "distinct (map ma_id (db_mail s))" "told s i pc"
  shows "told s' i pc"
  unfolding told_def
proof (intro allI impI)
  fix t assume "pc = Answered (Completed t)"
  then obtain m where "mail_get i s = Some m" "ma_status m = MCompleted" "artifact (ma_result m) = Inr t"
    using assms(3) by (auto simp: told_def)
  then show "\<exists>m. mail_get i s' = Some m \<and> ma_status m = MCompleted \<and> artifact (ma_result m) = Inr t"
    using mail_get_final [OF assms(1,2)] by (auto simp: mail_open_def)
qed

lemma told_read: "told s i (Answered (read_answer (mail_get i s)))"
  by (auto simp: told_def read_answer_def split: option.splits if_splits sum.splits)

text \<open>The senders after a step: the same, one more that has just stored its row, or one moved on.\<close>

definition calls_edit :: "db \<Rightarrow> db \<Rightarrow> send_call list \<Rightarrow> send_call list \<Rightarrow> bool" where
  "calls_edit s s' cs cs' \<longleftrightarrow> cs' = cs \<or> (\<exists>i pc. told s' i pc \<and> cs' = set_pc i pc cs) \<or>
     (\<exists>c. cs' = cs @ [c] \<and> sc_pc c = Stored \<and> sc_mail c \<notin> ma_id ` set (db_mail s) \<and> sc_mail c \<in> ma_id ` set (db_mail s'))"

lemma calls_edit_pc: "told s' i pc \<Longrightarrow> calls_edit s s' cs (set_pc i pc cs)"
  by (auto simp: calls_edit_def)

lemma set_pc_mail [simp]: "map sc_mail (set_pc i pc cs) = map sc_mail cs"
  by (simp add: set_pc_def rows_update_def)

lemma edit_ok:
  assumes ok: "hub_ok h" and m: "mail_edit (db_mail (hub_db h)) (db_mail (hub_db h'))"
    and c: "calls_edit (hub_db h) (hub_db h') (hub_calls h) (hub_calls h')"
  shows "hub_ok h'"
proof -
  note keys = mail_edit_keys [OF m]
  have ids: "sc_mail ` set (hub_calls h) \<subseteq> ma_id ` set (db_mail (hub_db h))" using ok by (auto simp: hub_ok_def)
  have d: "distinct (map ma_id (db_mail (hub_db h)))" using ok by (simp add: hub_ok_def)
  have old: "sc_mail x \<in> ma_id ` set (db_mail (hub_db h')) \<and> told (hub_db h') (sc_mail x) (sc_pc x)" if "x \<in> set (hub_calls h)" for x
    using that ok keys [OF d] told_mono [OF m d] by (auto simp: hub_ok_def)
  from c show ?thesis unfolding calls_edit_def
  proof (elim disjE exE conjE)
    fix i pc assume t: "told (hub_db h') i pc" and cs: "hub_calls h' = set_pc i pc (hub_calls h)"
    have "sc_mail x \<in> ma_id ` set (db_mail (hub_db h')) \<and> told (hub_db h') (sc_mail x) (sc_pc x)" if "x \<in> set (hub_calls h')" for x
      using that t old unfolding cs set_pc_def by (elim rows_update_cases) auto
    moreover have "distinct (map sc_mail (hub_calls h'))" using ok by (simp add: cs hub_ok_def)
    ultimately show ?thesis using keys [OF d] by (simp add: hub_ok_def)
  next
    fix c assume "hub_calls h' = hub_calls h @ [c]" "sc_pc c = Stored" "sc_mail c \<notin> ma_id ` set (db_mail (hub_db h))"
      "sc_mail c \<in> ma_id ` set (db_mail (hub_db h'))"
    moreover from this have "sc_mail c \<notin> sc_mail ` set (hub_calls h)" using ids by blast
    ultimately show ?thesis using old keys [OF d] ok by (auto simp: hub_ok_def)
  next
    assume "hub_calls h' = hub_calls h"
    then show ?thesis using old keys [OF d] ok by (auto simp: hub_ok_def)
  qed
qed

lemma step_calls: "hub_step dumps h h' \<Longrightarrow> calls_edit (hub_db h) (hub_db h') (hub_calls h) (hub_calls h')"
proof (erule hub_stepE)
  fix ow agent params now assume h': "h' = snd (send_store dumps ow agent params now h)"
  show ?thesis using stored_edit [of dumps ow agent params now "hub_db h"]
    unfolding h' send_store_def by (auto simp: calls_edit_def split: prod.splits sum.splits)
next
  fix c now assume "h' = send_announce c now h"
  then show ?thesis
    by (cases "sc_immediate c") (auto simp: send_announce_def Let_def intro!: calls_edit_pc)
next
  fix c assume "h' = send_wake c h"
  then show ?thesis using told_read by (simp add: send_wake_def calls_edit_pc)
next
  fix c assume "h' = send_timeout c h"
  then show ?thesis by (simp add: send_timeout_def calls_edit_pc)
qed (auto simp: respond_invocation_def tasks_cancel_def calls_edit_def Let_def)

lemma step_ok: "hub_step dumps h h' \<Longrightarrow> hub_ok h \<Longrightarrow> hub_ok h'"
  using edit_ok step_mail step_calls by blast

lemma reaches_ok: "hub_reaches dumps h h' \<Longrightarrow> hub_ok h \<Longrightarrow> hub_ok h'"
  by (induction rule: hub_reaches.induct) (auto intro: step_ok)

lemma reaches_final:
  "hub_reaches dumps h h' \<Longrightarrow> hub_ok h \<Longrightarrow> mail_get i (hub_db h) = Some m \<Longrightarrow> \<not> mail_open m \<Longrightarrow> mail_get i (hub_db h') = Some m"
proof (induction rule: hub_reaches.induct)
  case (step h h1 h2)
  then show ?case using mail_get_final step_mail reaches_ok by (metis hub_ok_def)
qed simp

text \<open>C18: a message is settled once: from the first answer, cancellation or timeout on its row never
  changes again, whatever is sent, answered or cancelled later; and a sender that was told \<open>completed\<close>
  was told exactly what the row of its message holds.\<close>

theorem mail_settles_once:
  assumes "hub_reaches dumps \<lparr>hub_db = s, hub_events = [], hub_calls = []\<rparr> h" "distinct (map ma_id (db_mail s))"
  shows "(\<forall>i m h'. mail_get i (hub_db h) = Some m \<and> \<not> mail_open m \<and> hub_reaches dumps h h' \<longrightarrow> mail_get i (hub_db h') = Some m) \<and>
     (\<forall>c\<in>set (hub_calls h). \<forall>t. sc_pc c = Answered (Completed t) \<longrightarrow>
        (\<exists>m. mail_get (sc_mail c) (hub_db h) = Some m \<and> ma_status m = MCompleted \<and> artifact (ma_result m) = Inr t))"
proof -
  have ok: "hub_ok h" by (rule reaches_ok [OF assms(1)]) (simp add: hub_ok_def assms(2))
  then show ?thesis using reaches_final by (auto simp: hub_ok_def told_def)
qed

section \<open>Senders nobody wakes\<close>

text \<open>The row is settled, the event is not set, and the sender has not been answered from the row.\<close>

definition unsignalled :: "string \<Rightarrow> hub \<Rightarrow> bool" where
  "unsignalled i h \<longleftrightarrow> (\<exists>m. mail_get i (hub_db h) = Some m \<and> \<not> mail_open m) \<and> (i, True) \<notin> set (hub_events h) \<and>
     (\<forall>c\<in>set (hub_calls h). sc_mail c = i \<longrightarrow> sc_pc c \<in> {Stored, Waiting, Answered Submitted} \<or> (\<exists>e. sc_pc c = Answered (Raised e)) \<or>
        sc_pc c = Answered (Failed ''Agent did not respond within timeout''))"

lemma set_pc_in: "c \<in> set (set_pc j pc cs) \<Longrightarrow> (sc_mail c = j \<and> sc_pc c = pc) \<or> c \<in> set cs"
  by (auto simp: set_pc_def rows_update_def)

lemma step_unsignalled:
  assumes "hub_step dumps h h'" "hub_ok h" "unsignalled i h"
  shows "unsignalled i h'"
proof -
  obtain m where m: "mail_get i (hub_db h) = Some m" "\<not> mail_open m" and ev: "(i, True) \<notin> set (hub_events h)"
    using assms(3) by (auto simp: unsignalled_def)
  have m': "mail_get i (hub_db h') = Some m"
    using mail_get_final [OF step_mail [OF assms(1)]] assms(2) m by (auto simp: hub_ok_def)
  have mid: "i \<in> ma_id ` set (db_mail (hub_db h))" using row_get_Some [OF m(1) [unfolded mail_get_def]] by auto
  have closed: "\<not> mail_open x" if "x \<in> set (db_mail (hub_db h))" "ma_id x = i" for x
    using row_get_in_set [of ma_id _ x] that assms(2) m by (auto simp: hub_ok_def mail_get_def)
  let ?fine = "\<lambda>pc. pc \<in> {Stored, Waiting, Answered Submitted} \<or> (\<exists>e. pc = Answered (Raised e)) \<or>
        pc = Answered (Failed ''Agent did not respond within timeout'')"
  have old: "?fine (sc_pc c)" if "c \<in> set (hub_calls h)" "sc_mail c = i" for c
    using assms(3) that by (auto simp: unsignalled_def)
  have "(i, True) \<notin> set (hub_events h') \<and> (\<forall>c\<in>set (hub_calls h'). sc_mail c = i \<longrightarrow> ?fine (sc_pc c))"
    using assms(1)
  proof cases
    case (store ow agent params now)
    then show ?thesis using ev old stored_edit [of dumps ow agent params now "hub_db h"]
      by (auto simp: send_store_def split: prod.splits sum.splits)
  next
    case (announce c now)
    then show ?thesis using ev old
      by (cases "sc_immediate c") (auto simp: send_announce_def Let_def drop_event_def dest!: set_pc_in)
  next
    case (wake c)
    then show ?thesis using ev old by (auto simp: send_wake_def drop_event_def dest!: set_pc_in)
  next
    case (timeout c)
    then show ?thesis using ev old by (auto simp: send_timeout_def drop_event_def dest!: set_pc_in)
  next
    case (respond j result err now)
    show ?thesis
    proof (cases "opt_truthy j \<and> the j = i")
      case True
      then have "row_count (\<lambda>x. ma_id x = the j \<and> mail_open x) (db_mail (hub_db h)) = 0"
        using closed by (auto simp: row_count_def filter_empty_conv)
      then show ?thesis using respond ev old by (auto simp: respond_invocation_def Let_def)
    next
      case False
      then show ?thesis using respond ev old by (auto simp: respond_invocation_def Let_def)
    qed
  next
    case (cancel j)
    then show ?thesis using ev old by (auto simp: tasks_cancel_def)
  qed
  then show ?thesis using m' m(2) by (auto simp: unsignalled_def)
qed

lemma reaches_unsignalled: "hub_reaches dumps h h' \<Longrightarrow> hub_ok h \<Longrightarrow> unsignalled i h \<Longrightarrow> unsignalled i h'"
  by (induction rule: hub_reaches.induct) (auto intro: step_unsignalled reaches_ok)

text \<open>A sender registers its event only after its row was stored and announced.\<close>

definition registered_ok :: "hub \<Rightarrow> bool" where
  "registered_ok h \<longleftrightarrow> fst ` set (hub_events h) \<subseteq> ma_id ` set (db_mail (hub_db h)) \<and>
     (\<forall>c\<in>set (hub_calls h). sc_pc c = Stored \<longrightarrow> sc_mail c \<notin> fst ` set (hub_events h))"

lemma step_registered:
  assumes "hub_step dumps h h'" "hub_ok h" "registered_ok h"
  shows "registered_ok h'"
proof -
  have sub: "ma_id ` set (db_mail (hub_db h)) \<subseteq> ma_id ` set (db_mail (hub_db h'))"
    using mail_edit_keys [OF step_mail [OF assms(1)]] assms(2) by (auto simp: hub_ok_def)
  have ev: "fst ` set (hub_events h) \<subseteq> ma_id ` set (db_mail (hub_db h))" using assms(3) by (simp add: registered_ok_def)
  have un: "sc_mail c \<notin> fst ` set (hub_events h)" if "c \<in> set (hub_calls h)" "sc_pc c = Stored" for c
    using assms(3) that by (simp add: registered_ok_def)
  have drop: "fst ` set (drop_event j es) \<subseteq> fst ` set es" for j es by (auto simp: drop_event_def)
  have moved: "fst ` set (hub_events h') \<subseteq> ma_id ` set (db_mail (hub_db h)) \<and>
      (\<forall>x\<in>set (hub_calls h'). sc_pc x = Stored \<longrightarrow> sc_mail x \<notin> fst ` set (hub_events h'))"
    if c: "c \<in> set (hub_calls h)" and pc: "pc \<noteq> Stored" "hub_calls h' = set_pc (sc_mail c) pc (hub_calls h)"
      and E: "fst ` set (hub_events h') \<subseteq> insert (sc_mail c) (fst ` set (hub_events h))" for c pc
  proof -
    have left: "x \<in> set (hub_calls h) \<and> sc_mail x \<noteq> sc_mail c" if "x \<in> set (hub_calls h')" "sc_pc x = Stored" for x
      using that pc by (auto simp: set_pc_def rows_update_def)
    have "sc_mail x \<notin> fst ` set (hub_events h')" if "x \<in> set (hub_calls h')" "sc_pc x = Stored" for x
      using left [OF that] that un [of x] E by auto
    moreover have "fst ` set (hub_events h') \<subseteq> ma_id ` set (db_mail (hub_db h))"
      by (rule subset_trans [OF E]) (use c ev assms(2) in \<open>auto simp: hub_ok_def\<close>)
    ultimately show ?thesis by simp
  qed
  have "fst ` set (hub_events h') \<subseteq> ma_id ` set (db_mail (hub_db h)) \<and>
      (\<forall>c\<in>set (hub_calls h'). sc_pc c = Stored \<longrightarrow> sc_mail c \<notin> fst ` set (hub_events h'))"
    using assms(1)
  proof cases
    case (store ow agent params now)
    obtain r s' where run: "message_send_store dumps ow agent params now (hub_db h) = (r, s')" by fastforce
    show ?thesis
    proof (cases r)
      case (Inl a)
      then show ?thesis using store run ev un by (auto simp: send_store_def)
    next
      case (Inr c)
      then have "sc_mail c \<notin> fst ` set (hub_events h)" using stored_edit [OF run] ev by blast
      then show ?thesis using store run ev un Inr by (auto simp: send_store_def)
    qed
  next
    case (announce c now)
    have E: "fst ` set (hub_events h') \<subseteq> insert (sc_mail c) (fst ` set (hub_events h))"
      unfolding announce(1) using drop [of "sc_mail c" "hub_events h"]
      by (cases "sc_immediate c") (auto simp: send_announce_def Let_def)
    show ?thesis
    proof (cases "sc_immediate c")
      case (Inl e)
      then show ?thesis using moved [OF announce(2) _ _ E, of "Answered (Raised e)"] announce(1)
        by (simp add: send_announce_def Let_def)
    next
      case (Inr b)
      then show ?thesis
        using moved [OF announce(2) _ _ E, of "Answered Submitted"] moved [OF announce(2) _ _ E, of Waiting] announce(1)
        by (cases b) (simp_all add: send_announce_def Let_def)
    qed
  next
    case (wake c)
    then show ?thesis
      using drop [of "sc_mail c" "hub_events h"]
        moved [OF wake(2), of "Answered (read_answer (mail_get (sc_mail c) (hub_db h)))"]
      by (simp add: send_wake_def subset_insertI2)
  next
    case (timeout c)
    then show ?thesis
      using drop [of "sc_mail c" "hub_events h"]
        moved [OF timeout(2), of "Answered (Failed ''Agent did not respond within timeout'')"]
      by (simp add: send_timeout_def subset_insertI2)
  next
    case (respond j result err now)
    have "fst ` set (map (\<lambda>(k, b). (k, b \<or> k = the j)) (hub_events h)) = fst ` set (hub_events h)" by force
    then show ?thesis using respond ev un by (auto simp: respond_invocation_def Let_def)
  next
    case (cancel j)
    then show ?thesis using ev un by (auto simp: tasks_cancel_def)
  qed
  then show ?thesis unfolding registered_ok_def using subset_trans [OF _ sub] by blast
qed

lemma reaches_registered: "hub_reaches dumps h h' \<Longrightarrow> hub_ok h \<Longrightarrow> registered_ok h \<Longrightarrow> registered_ok h'"
  by (induction rule: hub_reaches.induct) (auto intro: step_registered reaches_ok)

text \<open>A sender whose message is answered after it was stored and before the sender registered its
  event is never woken: its row says completed, and in no later state is the sender told so.\<close>

theorem wakeup_lost:
  assumes "hub_reaches dumps \<lparr>hub_db = s, hub_events = [], hub_calls = []\<rparr> h" "distinct (map ma_id (db_mail s))"
    and c: "c \<in> set (hub_calls h)" "sc_pc c = Stored"
    and resp: "respond_invocation (Some (sc_mail c)) result None now h = (Inr (), h1)"
  shows "(\<exists>m. mail_get (sc_mail c) (hub_db h1) = Some m \<and> ma_status m = MCompleted) \<and>
     (\<forall>h' d t. hub_reaches dumps h1 h' \<and> d \<in> set (hub_calls h') \<and> sc_mail d = sc_mail c \<longrightarrow> sc_pc d \<noteq> Answered (Completed t))"
proof -
  let ?i = "sc_mail c" and ?P = "\<lambda>m. ma_id m = sc_mail c \<and> mail_open m"
  have ok: "hub_ok h" by (rule reaches_ok [OF assms(1)]) (simp add: hub_ok_def assms(2))
  have "registered_ok h" by (rule reaches_registered [OF assms(1)]) (simp_all add: hub_ok_def registered_ok_def assms(2))
  then have un: "?i \<notin> fst ` set (hub_events h)" using c by (simp add: registered_ok_def)
  have h1: "hub_db h1 = mail_update ?P (responded result None now) (hub_db h)" "hub_calls h1 = hub_calls h"
      "hub_events h1 = map (\<lambda>(j, b). (j, b \<or> j = ?i)) (hub_events h)" "row_count ?P (db_mail (hub_db h)) \<noteq> 0"
    using resp by (auto simp: respond_invocation_def Let_def split: if_splits)
  then obtain m where m: "m \<in> set (db_mail (hub_db h))" "?P m" by (auto simp: row_count_def filter_empty_conv)
  let ?m = "responded result None now m"
  have ok1: "hub_ok h1" using step_ok [OF hub_step.respond [of dumps h "Some ?i" result None now] ok] resp by simp
  have "?m \<in> set (db_mail (hub_db h1))" using m by (auto simp: h1(1) mail_update_def rows_update_def)
  moreover have "ma_id ?m = ?i" using m(2) by (simp add: responded_def)
  ultimately have get: "mail_get ?i (hub_db h1) = Some ?m" "ma_status ?m = MCompleted"
    using row_get_in_set [of ma_id "db_mail (hub_db h1)" ?m] ok1 by (auto simp: mail_get_def hub_ok_def responded_def)
  have "sc_pc d = Stored" if "d \<in> set (hub_calls h)" "sc_mail d = ?i" for d
    using inj_onD [of sc_mail "set (hub_calls h)" d c] that c ok by (auto simp: hub_ok_def distinct_map)
  moreover have "(?i, True) \<notin> set (hub_events h1)" using un unfolding h1(3) by force
  moreover have "\<not> mail_open ?m" using get(2) by (simp add: mail_open_def)
  ultimately have "unsignalled ?i h1" using get(1) unfolding unsignalled_def h1(2) by auto
  then have "unsignalled ?i h'" if "hub_reaches dumps h1 h'" for h' using reaches_unsignalled that ok1 by blast
  then show ?thesis using get unfolding unsignalled_def by fastforce
qed

section \<open>Concrete runs\<close>

definition mail_db :: db where
  "mail_db = sample_db\<lparr>db_agents := [silent_agent\<lparr>agent_id := ''a@x''\<rparr>],
     db_cards := [\<lparr>ac_owner = ''x'', ac_agent = ''a'', ac_json = JNull, ac_updated_at = 0\<rparr>]\<rparr>"

definition first_hub :: hub where
  "first_hub = \<lparr>hub_db = mail_db, hub_events = [], hub_calls = []\<rparr>"

definition sent_hub :: hub where
  "sent_hub = snd (send_store (\<lambda>_. ''{}'') ''x'' ''a'' [] 3 first_hub)"

lemma mail_db_simps [simp]:
  "db_mail mail_db = []" "db_drawn mail_db = 0" "db_ids mail_db n = replicate n CHR ''x''"
  by (simp_all add: mail_db_def sample_db_def empty_db_def)

lemma sent_store:
  "\<exists>c m. sc_mail c = ''task_'' \<and> sc_pc c = Stored \<and> hub_calls sent_hub = [c] \<and> hub_events sent_hub = [] \<and>
     db_mail (hub_db sent_hub) = [m] \<and> ma_id m = ''task_'' \<and> ma_status m = MPending"
proof -
  have card: "card_get ''x'' ''a'' mail_db \<noteq> None" by (simp add: card_get_def mail_db_def card_key_def)
  have live: "is_agent_online ''a'' mail_db"
    by (simp add: is_agent_online_def mail_db_def agent_pattern_def silent_agent_def request_presence_def char_lower_def)
  have txt1: "bind_res (py_get (JObj []) ''message'' (JObj [])) (message_text (\<lambda>_. ''{}'')) = Inr ''{}''"
    by (simp add: message_text_def)
  show ?thesis
    using card live txt1
    by (simp add: sent_hub_def send_store_def first_hub_def message_send_store_def draw_def Let_def mail_get_def)
qed

lemma sent_reached: "hub_reaches (\<lambda>_. ''{}'') \<lparr>hub_db = mail_db, hub_events = [], hub_calls = []\<rparr> sent_hub"
  unfolding sent_hub_def first_hub_def by (intro hub_reaches.step [OF hub_reaches.refl] hub_step.store)

lemma sent_response:
  "\<exists>h1 c m. hub_calls sent_hub = [c] \<and> sc_mail c = ''task_'' \<and> sc_pc c = Stored \<and>
     respond_invocation (Some ''task_'') (JStr ''hi'') None 4 sent_hub = (Inr (), h1) \<and>
     mail_get ''task_'' (hub_db h1) = Some m \<and> \<not> mail_open m"
proof -
  obtain c m where c: "sc_mail c = ''task_''" "sc_pc c = Stored" "hub_calls sent_hub = [c]" "hub_events sent_hub = []"
    "db_mail (hub_db sent_hub) = [m]" "ma_id m = ''task_''" "ma_status m = MPending"
    using sent_store by blast
  then show ?thesis
    by (simp add: respond_invocation_def Let_def opt_truthy_def row_count_def mail_open_def mail_get_def mail_update_def
        rows_update_def responded_def)
qed

lemma mail_settles_once_witness:
  "\<exists>h1 m. respond_invocation (Some ''task_'') (JStr ''hi'') None 4 sent_hub = (Inr (), h1) \<and>
     (\<forall>h'. hub_reaches (\<lambda>_. ''{}'') h1 h' \<longrightarrow> mail_get ''task_'' (hub_db h') = Some m)"
proof -
  obtain h1 m where r: "respond_invocation (Some ''task_'') (JStr ''hi'') None 4 sent_hub = (Inr (), h1)"
    "mail_get ''task_'' (hub_db h1) = Some m" "\<not> mail_open m"
    using sent_response by blast
  have "hub_step (\<lambda>_. ''{}'') sent_hub h1"
    using hub_step.respond [of "\<lambda>_. ''{}''" sent_hub "Some ''task_''" "JStr ''hi''" None 4] r(1) by simp
  then have "hub_reaches (\<lambda>_. ''{}'') \<lparr>hub_db = mail_db, hub_events = [], hub_calls = []\<rparr> h1"
    using hub_reaches.step [OF sent_reached] by blast
  moreover have "distinct (map ma_id (db_mail mail_db))" by simp
  ultimately show ?thesis using mail_settles_once [of "\<lambda>_. ''{}''" mail_db h1] r by blast
qed

lemma wakeup_lost_witness:
  "\<exists>h1. respond_invocation (Some ''task_'') (JStr ''hi'') None 4 sent_hub = (Inr (), h1) \<and>
     (\<forall>h' d t. hub_reaches (\<lambda>_. ''{}'') h1 h' \<and> d \<in> set (hub_calls h') \<and> sc_mail d = ''task_'' \<longrightarrow> sc_pc d \<noteq> Answered (Completed t))"
proof -
  obtain h1 c where r: "respond_invocation (Some ''task_'') (JStr ''hi'') None 4 sent_hub = (Inr (), h1)"
    and c: "hub_calls sent_hub = [c]" "sc_mail c = ''task_''" "sc_pc c = Stored"
    using sent_response by blast
  have m: "c \<in> set (hub_calls sent_hub)" and d: "distinct (map ma_id (db_mail mail_db))" using c(1) by simp_all
  have r': "respond_invocation (Some (sc_mail c)) (JStr ''hi'') None 4 sent_hub = (Inr (), h1)" using r c(2) by simp
  note lost = wakeup_lost [OF sent_reached d m c(3) r', THEN conjunct2, unfolded c(2)]
  show ?thesis by (intro exI [of _ h1] conjI r lost)
qed

end
