(* ===== verification/Dispatch.thy ===== *)
theory Dispatch
  imports A2A_Gateway "HOL-Library.List_Lexorder" "HOL-Library.Char_ord" "HOL-Library.Product_Lexorder"
begin

text \<open>
  The two controllers that push work to agents through the gateway: open tasks
  (\<^verbatim>\<open>controllers/task_dispatch.py\<close>) and bundles that want a plan (\<^verbatim>\<open>controllers/planner_dispatch.py\<close>), with
  the choice of an agent (\<^verbatim>\<open>services/graph_runtime/agent_picker.py\<close>).  The request is an argument \<open>post\<close>: it
  takes the owner and the agent of the URL and the body, and gives the outcome together with the database
  as it stands when the answer arrives.
\<close>

section \<open>Requests\<close>

datatype reply =
    ConnectFailed
  | TimedOut
  | RequestFailed
  | Response int "json option"

type_synonym post = "string \<Rightarrow> string \<Rightarrow> json \<Rightarrow> db \<Rightarrow> reply \<times> db"

text \<open>\<open>agent_id.split("@")[-1]\<close> and \<open>[0]\<close>.\<close>

definition after_at :: "string \<Rightarrow> string" where
  "after_at a = rev (takeWhile (\<lambda>c. c \<noteq> CHR ''@'') (rev a))"

definition before_at :: "string \<Rightarrow> string" where
  "before_at a = takeWhile (\<lambda>c. c \<noteq> CHR ''@'') a"

definition gateway_owner :: "presence \<Rightarrow> string" where
  "gateway_owner a = (if opt_truthy (agent_owner a) then the (agent_owner a) else after_at (agent_id a))"

definition a2a_message :: "string \<Rightarrow> string \<Rightarrow> string \<Rightarrow> (string \<times> json) list \<Rightarrow> json" where
  "a2a_message req mid body metadata = JObj [(''jsonrpc'', JStr ''2.0''), (''id'', JStr req), (''method'', JStr ''message/send''),
     (''params'', JObj [(''message'', JObj [(''messageId'', JStr mid), (''role'', JStr ''user''),
        (''parts'', JArr [JObj [(''kind'', JStr ''text''), (''text'', JStr body)]]), (''metadata'', JObj metadata)]),
      (''configuration'', JObj [(''returnImmediately'', JBool True)])])]"

section \<open>Dispatching tasks\<close>







definition claim_for :: "string \<Rightarrow> int \<Rightarrow> task_changes" where
  "claim_for a now = no_update\<lparr>up_status := Some TClaimed, up_assigned := Some a, up_claimed_by := Some a,
     up_claimed_at := Some now\<rparr>"









section \<open>Choosing an agent\<close>

definition rank_key :: "string \<Rightarrow> presence \<Rightarrow> nat \<times> nat \<times> string" where
  "rank_key kind a = (if list_ex (\<lambda>c. str_lower c = str_lower kind) (agent_capabilities a) then 0 else 1,
     if agent_status a = AOnline then 0 else 1, agent_id a)"

definition eligible :: "string set \<Rightarrow> presence \<Rightarrow> bool" where
  "eligible excluded a \<longleftrightarrow> agent_status a \<noteq> AOffline \<and> opt_truthy (agent_endpoint a) \<and> agent_id a \<notin> excluded"

definition pick_agent_for_kind :: "presence list \<Rightarrow> string \<Rightarrow> string set \<Rightarrow> presence option" where
  "pick_agent_for_kind agents kind excluded =
     (case sort_key (rank_key kind) (filter (eligible excluded) agents) of [] \<Rightarrow> None | a # _ \<Rightarrow> Some a)"

section \<open>Dispatching bundles to a planner\<close>

definition PLANNER_CAPABILITY :: string where
  "PLANNER_CAPABILITY = ''generate-graph''"

definition wants_plan :: "db \<Rightarrow> bundle_row \<Rightarrow> bool" where
  "wants_plan s b \<longleftrightarrow> bundle_status b = BOpen \<and> bundle_graph_code b = None \<and> bundle_autoplan b \<and>
     \<not> list_ex (\<lambda>t. task_bundle t = bundle_id b) (db_tasks s)"

definition find_empty_bundles :: "db \<Rightarrow> bundle_row list" where
  "find_empty_bundles s = sort_key bundle_created_at (filter (wants_plan s) (db_bundles s))"

definition json_or :: "json \<Rightarrow> json \<Rightarrow> json" where
  "json_or v w = (if truthy v then v else w)"

definition repo_meta :: "(json \<Rightarrow> string) \<Rightarrow> json \<Rightarrow> (string \<times> json) list" where
  "repo_meta fmt spec = (case spec of
       JObj d \<Rightarrow> if d = [] then [] else
         let get = (\<lambda>k dflt. case map_of d k of None \<Rightarrow> dflt | Some v \<Rightarrow> v);
             ow = get ''owner'' (JStr []); repo = get ''repo'' (JStr []);
             ref = json_or (json_or (get ''ref'' JNull) (get ''branch'' JNull)) (JStr ''main'')
         in (if truthy ow \<and> truthy repo
             then [(''repo_url'', JStr (''git@'' @ py_str fmt (get ''provider'' (JStr ''github'')) @ ''.com:'' @
                      py_str fmt ow @ ''/'' @ py_str fmt repo @ ''.git''))]
             else []) @ [(''branch'', ref)]
     | _ \<Rightarrow> [])"

text \<open>Whether the planner accepted, and whether the bundle's reservation is given back.\<close>

definition planner_post :: "(json \<Rightarrow> string) \<Rightarrow> post \<Rightarrow> bundle_row \<Rightarrow> presence \<Rightarrow> db \<Rightarrow> (bool \<times> bool) \<times> db" where
  "planner_post fmt post b a s =
     (let (mid, s1) = draw [] s;
          payload = a2a_message (''plan:'' @ bundle_id b) mid (bundle_prompt b)
            ([(''bundle_id'', JStr (bundle_id b)),
              (''cookbook_id'', JStr (if opt_truthy (bundle_cookbook b) then the (bundle_cookbook b) else []))]
             @ repo_meta fmt (bundle_repo_spec b))
      in case post (gateway_owner a) (before_at (agent_id a)) payload s1 of (r, s2) \<Rightarrow>
        (case r of
           ConnectFailed \<Rightarrow> (False, True)
         | TimedOut \<Rightarrow> (False, False)
         | RequestFailed \<Rightarrow> (False, True)
         | Response code _ \<Rightarrow> if code = 200 then (True, False) else (False, True), s2))"

definition chosen_planner :: "bundle_row \<Rightarrow> db \<Rightarrow> presence option" where
  "chosen_planner b s = (case bundle_cookbook b of None \<Rightarrow> None
     | Some c \<Rightarrow> (case pick_agent_for_kind (agents_by_cookbook c s) PLANNER_CAPABILITY {} of
           None \<Rightarrow> None
         | Some a \<Rightarrow> if PLANNER_CAPABILITY \<in> str_lower ` set (agent_capabilities a) then Some a else None))"

text \<open>The bundles a request went out for, the reservations and the database.\<close>

fun plan_bundles :: "(json \<Rightarrow> string) \<Rightarrow> post \<Rightarrow> bundle_row list \<Rightarrow> string set \<Rightarrow> db \<Rightarrow> string list \<times> string set \<times> db" where
  "plan_bundles fmt post [] d s = ([], d, s)"
| "plan_bundles fmt post (b # bs) d s =
     (if bundle_id b \<in> d then plan_bundles fmt post bs d s
      else case chosen_planner b s of
        None \<Rightarrow> plan_bundles fmt post bs d s
      | Some a \<Rightarrow>
          let ((ok, free), s1) = planner_post fmt post b a s;
              (sent, d', s') = plan_bundles fmt post bs (if free then d - {bundle_id b} else insert (bundle_id b) d) s1
          in (bundle_id b # sent, d', s'))"

definition plan_reconcile :: "(json \<Rightarrow> string) \<Rightarrow> post \<Rightarrow> string set \<Rightarrow> db \<Rightarrow> string list \<times> string set \<times> db" where
  "plan_reconcile fmt post d s =
     (let bs = find_empty_bundles s
      in if bs = [] then ([], {}, s) else plan_bundles fmt post bs (d \<inter> bundle_id ` set bs) s)"

section \<open>The gateway these controllers talk to\<close>

text \<open>The controllers post to the hub's own gateway and ask for an immediate answer.  An unknown or offline
  agent is an error of JSON-RPC, which still has the status 200.\<close>

definition hub_post :: "(json \<Rightarrow> string) \<Rightarrow> int \<Rightarrow> post" where
  "hub_post dumps now ow agent body s =
     (let params = (case body of JObj b \<Rightarrow> (case dict_get b ''params'' of JObj d \<Rightarrow> d | _ \<Rightarrow> []) | _ \<Rightarrow> [])
      in case message_send_store dumps ow agent params now s of
           (Inl (RpcError code m), s1) \<Rightarrow>
             (Response 200 (Some (JObj [(''error'', JObj [(''code'', JInt code), (''message'', JStr m)])])), s1)
         | (Inl _, s1) \<Rightarrow> (Response 500 None, s1)
         | (Inr c, s1) \<Rightarrow> (Response 200 (Some (JObj [(''result'', JObj [(''id'', JStr (sc_mail c)), (''contextId'', sc_ctx c),
               (''status'', JObj [(''state'', JStr ''submitted'')]), (''artifacts'', JArr [])])])),
             case mail_get (sc_mail c) s1 of None \<Rightarrow> s1 | Some m \<Rightarrow> announce m c now s1))"

definition same_work :: "db \<Rightarrow> db \<Rightarrow> bool" where
  "same_work s s' \<longleftrightarrow> db_tasks s' = db_tasks s \<and> db_bundles s' = db_bundles s \<and> db_agents s' = db_agents s"


lemma same_work_refl [simp]: "same_work s s"
  by (simp add: same_work_def)




section \<open>Dispatching refines a sequence of guarded assignments\<close>




abbreviation given :: "string \<Rightarrow> int \<Rightarrow> task \<Rightarrow> task" where
  "given a now \<equiv> apply_update (claim_for a now, now)"



lemma given_simps [simp]:
  "task_id (given a now t) = task_id t" "task_bundle (given a now t) = task_bundle t" "task_status (given a now t) = TClaimed"
  "task_claimed_by (given a now t) = Some a" "task_assigned (given a now t) = Some a"
  by (simp_all add: apply_update_def claim_for_def no_update_def set_opt_def set_opt'_def)







section \<open>What a sequence of assignments keeps\<close>









section \<open>One request per bundle\<close>

lemma plan_bundles_reserved:
  "plan_bundles fmt post bs d s = (sent, d', s') \<Longrightarrow> i \<in> d \<Longrightarrow> i \<in> d' \<and> i \<notin> set sent"
proof (induction bs arbitrary: d s sent d' s')
  case (Cons b bs)
  show ?case
  proof (cases "bundle_id b \<in> d \<or> chosen_planner b s = None")
    case True
    then show ?thesis using Cons by (auto split: if_splits)
  next
    case False
    obtain a where a: "chosen_planner b s = Some a" using False by blast
    obtain ok free s1 where post: "planner_post fmt post b a s = ((ok, free), s1)" by (metis surj_pair)
    let ?d = "if free then d - {bundle_id b} else insert (bundle_id b) d"
    obtain sent1 d1 s2 where rest: "plan_bundles fmt post bs ?d s1 = (sent1, d1, s2)" by (metis prod_cases3)
    have "i \<in> ?d" using Cons.prems(2) False by auto
    then have "i \<in> d1 \<and> i \<notin> set sent1" using Cons.IH [OF rest] by blast
    moreover have "sent = bundle_id b # sent1" "d' = d1" using Cons.prems(1) False a post rest by auto
    ultimately show ?thesis using Cons.prems(2) False by auto
  qed
qed simp

text \<open>Answers after which a reservation is kept: a timeout while reading, or any body with status 200.\<close>

definition keeps_slot :: "reply \<Rightarrow> bool" where
  "keeps_slot r \<longleftrightarrow> r = TimedOut \<or> (\<exists>body. r = Response 200 body)"

lemma planner_post_keeps:
  assumes "\<And>ow ag p s. keeps_slot (fst (post ow ag p s))" "planner_post fmt post b a s = ((ok, free), s')"
  shows "\<not> free"
  using assms(2) assms(1)
  by (auto simp: planner_post_def Let_def keeps_slot_def split: prod.splits reply.splits if_splits) (metis fst_conv reply.distinct reply.inject)+

lemma plan_bundles_once:
  assumes "\<And>ow ag p s. keeps_slot (fst (post ow ag p s))"
  shows "plan_bundles fmt post bs d s = (sent, d', s') \<Longrightarrow> set sent \<subseteq> d' \<and> distinct sent"
proof (induction bs arbitrary: d s sent d' s')
  case (Cons b bs)
  show ?case
  proof (cases "bundle_id b \<in> d \<or> chosen_planner b s = None")
    case True
    then show ?thesis using Cons by (auto split: if_splits)
  next
    case False
    obtain a where a: "chosen_planner b s = Some a" using False by blast
    obtain ok free s1 where post: "planner_post fmt post b a s = ((ok, free), s1)" by (metis surj_pair)
    have nf: "\<not> free" by (rule planner_post_keeps [OF assms post])
    obtain sent1 d1 s2 where rest: "plan_bundles fmt post bs (insert (bundle_id b) d) s1 = (sent1, d1, s2)" by (metis prod_cases3)
    have "bundle_id b \<in> d1 \<and> bundle_id b \<notin> set sent1" by (rule plan_bundles_reserved [OF rest]) simp
    moreover have "sent = bundle_id b # sent1" "d' = d1" using Cons.prems False a post rest nf by auto
    ultimately show ?thesis using Cons.IH [OF rest] by auto
  qed
qed simp

text \<open>Passes of the controller over databases that may change in between.\<close>

fun plan_rounds :: "(json \<Rightarrow> string) \<Rightarrow> post \<Rightarrow> string set \<Rightarrow> db list \<Rightarrow> string list" where
  "plan_rounds fmt post d [] = []"
| "plan_rounds fmt post d (s # ss) = (let (sent, d', _) = plan_reconcile fmt post d s in sent @ plan_rounds fmt post d' ss)"

definition still_empty :: "string \<Rightarrow> db \<Rightarrow> bool" where
  "still_empty i s \<longleftrightarrow> (\<exists>b\<in>set (db_bundles s). bundle_id b = i \<and> wants_plan s b)"

lemma still_empty_found: "still_empty i s \<Longrightarrow> i \<in> bundle_id ` set (find_empty_bundles s) \<and> find_empty_bundles s \<noteq> []"
  by (auto simp: still_empty_def find_empty_bundles_def dest: arg_cong [of _ "[]" set])

lemma plan_rounds_reserved: "\<forall>s\<in>set ss. still_empty i s \<Longrightarrow> i \<in> d \<Longrightarrow> i \<notin> set (plan_rounds fmt post d ss)"
proof (induction ss arbitrary: d)
  case (Cons s ss)
  obtain sent d' s' where run: "plan_reconcile fmt post d s = (sent, d', s')" by (metis prod_cases3)
  have "plan_bundles fmt post (find_empty_bundles s) (d \<inter> bundle_id ` set (find_empty_bundles s)) s = (sent, d', s')"
    "i \<in> d \<inter> bundle_id ` set (find_empty_bundles s)"
    using run Cons.prems still_empty_found [of i s] by (auto simp: plan_reconcile_def Let_def)
  then have "i \<in> d' \<and> i \<notin> set sent" by (rule plan_bundles_reserved)
  then show ?case using Cons run by simp
qed simp

lemma distinct_count: "distinct xs \<Longrightarrow> count_list xs x \<le> 1"
  by (induction xs) auto

text \<open>However many passes the controller makes while a bundle stays empty, it asks for a plan of the bundle
  at most once, as long as requests are answered with status 200 or time out: a second planner never races
  the first.  (An error of JSON-RPC has status 200 too, so a bundle whose planner is unknown to the gateway
  or offline there is not asked for again either.)\<close>

theorem planner_asks_once:
  assumes "\<And>ow ag p s. keeps_slot (fst (post ow ag p s))" "\<forall>s\<in>set ss. still_empty i s"
  shows "count_list (plan_rounds fmt post d ss) i \<le> 1"
  using assms(2)
proof (induction ss arbitrary: d)
  case (Cons s ss)
  obtain sent d' s' where run: "plan_reconcile fmt post d s = (sent, d', s')" by (metis prod_cases3)
  have once: "set sent \<subseteq> d' \<and> distinct sent"
    using run plan_bundles_once [OF assms(1)] by (auto simp: plan_reconcile_def Let_def split: if_splits)
  show ?case
  proof (cases "i \<in> set sent")
    case True
    then have "i \<notin> set (plan_rounds fmt post d' ss)" using once Cons.prems by (intro plan_rounds_reserved) auto
    then show ?thesis using once run distinct_count [of sent i] by simp
  next
    case False
    then show ?thesis using Cons run by simp
  qed
qed simp

text \<open>What the gateway answers about an agent it does not know.\<close>

lemma unknown_agent_is_200:
  "card_get ow agent s = None \<Longrightarrow> keeps_slot (fst (hub_post dumps now ow agent body s))"
  by (simp add: hub_post_def message_send_store_def keeps_slot_def Let_def)

definition unplanned_db :: db where
  "unplanned_db = mail_db\<lparr>db_tasks := [], db_bundles := [(plain_bundle ''b'' ''cb'')\<lparr>bundle_autoplan := True\<rparr>]\<rparr>"

lemma planner_asks_once_witness:
  "count_list (plan_rounds (\<lambda>_. []) (\<lambda>_ _ _ s. (Response 200 None, s)) {} [unplanned_db, unplanned_db, unplanned_db]) ''b'' \<le> 1"
proof (rule planner_asks_once)
  show "keeps_slot (fst (Response 200 None, s))" for s :: db by (simp add: keeps_slot_def)
  have "still_empty ''b'' unplanned_db"
    by (simp add: still_empty_def unplanned_db_def wants_plan_def plain_bundle_def mail_db_def sample_db_def empty_db_def)
  then show "\<forall>s\<in>set [unplanned_db, unplanned_db, unplanned_db]. still_empty ''b'' s" by simp
qed

end
