(* ===== verification/Orchestration.thy ===== *)
theory Orchestration
  imports Task_Service
begin

text \<open>
  The controllers of orch mode: \<^verbatim>\<open>controllers/orch_controller.py\<close> supervises the tasks that carry a Brief
  (acceptance of the Report, respawn of a silent worker), \<^verbatim>\<open>controllers/link_reconciler.py\<close> fires the
  links between tasks.  An ISO date in a JSON column is a text; here it is the instant written out.
\<close>

section \<open>Bookkeeping\<close>

definition str_of_int :: "int \<Rightarrow> string" where
  "str_of_int i = (if i < 0 then ''-'' else []) @ str_of_nat (nat \<bar>i\<bar>)"

definition iso_stamp :: "int \<Rightarrow> json" where
  "iso_stamp now = JStr (''@'' @ str_of_int now)"

definition orch_of :: "task \<Rightarrow> (string \<times> json) list" where
  "orch_of t = (case task_orch t of JObj d \<Rightarrow> d | _ \<Rightarrow> [])"

text \<open>\<open>int(v)\<close>; the counter it reads is only ever written as a number, and any other value raises here.\<close>

fun py_int :: "json \<Rightarrow> int res" where
  "py_int (JInt i) = Inr i"
| "py_int (JBool b) = Inr (if b then 1 else 0)"
| "py_int (JFloat r) = Inr (if 0 \<le> r then \<lfloor>r\<rfloor> else \<lceil>r\<rceil>)"
| "py_int (JStr s) = Inl (ValueError [Lit ''invalid literal for int()''])"
| "py_int v = Inl (TypeError [Lit ''int() argument must be a string or a number''])"

definition ORCH_ACTOR :: string where
  "ORCH_ACTOR = ''orch''"

definition write_orch :: "string \<Rightarrow> (string \<times> json) list \<Rightarrow> db \<Rightarrow> db" where
  "write_orch i d s = s\<lparr>db_tasks := rows_update (\<lambda>t. task_id t = i)
     (\<lambda>t. t\<lparr>task_orch := JObj d, task_version := task_version t + 1\<rparr>) (db_tasks s)\<rparr>"

text \<open>An event of the controller; what \<open>post_event\<close> raises is logged only.\<close>

definition emit :: "string \<Rightarrow> domain_event_type \<Rightarrow> string \<Rightarrow> (string \<times> json) list \<Rightarrow> int \<Rightarrow> db \<Rightarrow> db" where
  "emit i ty body payload now s = snd (post_event i ty BySystem \<lparr>in_type = event_type_name ty, in_actor = ORCH_ACTOR,
     in_actor_kind = ''system'', in_body = body, in_payload = JObj payload, in_facts = [], in_code_refs = [],
     in_visibility = None\<rparr> None now s)"

section \<open>Reports\<close>

text \<open>\<open>Report.model_validate\<close>: a status, and four lists of texts that may be left out.\<close>

definition str_list_ok :: "(string \<times> json) list \<Rightarrow> string \<Rightarrow> bool" where
  "str_list_ok d k \<longleftrightarrow> (case map_of d k of None \<Rightarrow> True | Some (JArr xs) \<Rightarrow> list_all is_str xs | Some _ \<Rightarrow> False)"

definition report_valid :: "json \<Rightarrow> bool" where
  "report_valid r \<longleftrightarrow> (case r of
       JObj d \<Rightarrow> is_str (dict_get d ''status'') \<and> str_list_ok d ''artifacts'' \<and> str_list_ok d ''prs'' \<and>
         str_list_ok d ''blockers'' \<and> str_list_ok d ''decisions_needed''
     | _ \<Rightarrow> False)"

definition brain_attached :: "task \<Rightarrow> bool" where
  "brain_attached t \<longleftrightarrow> truthy (dict_get (orch_of t) ''managed_by_agent'')"

definition report_prs :: "task \<Rightarrow> json list" where
  "report_prs t = (case task_report t of JObj d \<Rightarrow> (case dict_get d ''prs'' of JArr xs \<Rightarrow> xs | _ \<Rightarrow> []) | _ \<Rightarrow> [])"

definition handle_done :: "task \<Rightarrow> (string \<times> json) list \<Rightarrow> int \<Rightarrow> db \<Rightarrow> db" where
  "handle_done t orch now s =
     (if report_valid (task_report t) then
        if brain_attached t then
          if truthy (dict_get orch ''awaiting_brain'') then s
          else emit (task_id t) ELog
                 ''orch: Report valid; deferring acceptance to the attached orch-agent (safety-net standing down)''
                 [(''orch'', JStr ''awaiting_brain'')] now
                 (write_orch (task_id t) (dict_set orch ''awaiting_brain'' (JBool True)) s)
        else emit (task_id t) EMilestone
               (''orch: Report accepted '' @ [CHR 0xE2, CHR 0x80, CHR 0x94] @ '' worker retired'' @
                (if report_prs t = [] then [] else '' ('' @ str_of_nat (length (report_prs t)) @ '' PR(s))''))
               [(''orch'', JStr ''accepted''), (''report'', task_report t)] now
               (write_orch (task_id t) (dict_set orch ''accepted_at'' (iso_stamp now)) s)
      else if truthy (dict_get orch ''report_invalid'') then s
      else emit (task_id t) ENeedsHuman
             (''orch: task completed without a valid Report (missing or schema-invalid) '' @
              [CHR 0xE2, CHR 0x80, CHR 0x94] @ '' needs human acceptance'')
             [(''orch'', JStr ''report_invalid'')] now
             (write_orch (task_id t) (dict_set orch ''report_invalid'' (JBool True)) s))"

section \<open>Liveness\<close>

record orch_config =
  oc_liveness :: int
  oc_max_respawns :: int

definition runtime_alive :: "orch_config \<Rightarrow> string \<Rightarrow> int \<Rightarrow> db \<Rightarrow> bool" where
  "runtime_alive c i now s \<longleftrightarrow> (case row_get rt_id i (db_runtimes s) of
       None \<Rightarrow> False | Some r \<Rightarrow> rt_status r \<noteq> ''offline'' \<and> now - oc_liveness c \<le> rt_last_seen r)"

definition park_task :: "orch_config \<Rightarrow> task \<Rightarrow> (string \<times> json) list \<Rightarrow> int \<Rightarrow> int \<Rightarrow> db \<Rightarrow> unit res \<times> db" where
  "park_task c t orch n now s =
     bind_st (task_update (task_id t) (no_update\<lparr>up_status := Some TBlocked,
         up_blocked_reason := Some (''orch: respawn limit reached ('' @ str_of_int n @ ''/'' @ str_of_int (oc_max_respawns c) @
           '') '' @ [CHR 0xE2, CHR 0x80, CHR 0x94] @ '' needs root-cause review'')\<rparr>) now
         (write_orch (task_id t) (dict_set orch ''halted'' (JBool True)) s))
       (\<lambda>updated s1. (Inr (), emit (task_id t) EBlocker
          (''orch: worker died '' @ str_of_int (n + 1) @ ''x; respawn limit ('' @ str_of_int (oc_max_respawns c) @
           '') reached '' @ [CHR 0xE2, CHR 0x80, CHR 0x94] @ '' parked for root-cause review'')
          [(''orch'', JStr ''respawn_limit''), (''respawns'', JInt n)] now (publish_opt updated None now s1)))"

definition respawn_task :: "orch_config \<Rightarrow> task \<Rightarrow> string \<Rightarrow> (string \<times> json) list \<Rightarrow> int \<Rightarrow> int \<Rightarrow> db \<Rightarrow> db" where
  "respawn_task c t rt orch n now s =
     (let (r, s1) = reopen_for_rerun (task_id t) now (write_orch (task_id t)
            (dict_set (dict_set orch ''respawns'' (JInt (n + 1))) ''last_respawn_at'' (iso_stamp now)) s)
      in emit (task_id t) ELog
           (''orch: liveness lost on runtime '' @ rt @ ''; respawned with Brief replay (attempt '' @ str_of_int (n + 1) @
            ''/'' @ str_of_int (oc_max_respawns c) @ '')'')
           [(''orch'', JStr ''respawn''), (''runtime_id'', JStr rt), (''attempt'', JInt (n + 1))] now (publish_opt r None now s1))"

definition check_liveness :: "orch_config \<Rightarrow> task \<Rightarrow> (string \<times> json) list \<Rightarrow> int \<Rightarrow> db \<Rightarrow> unit res \<times> db" where
  "check_liveness c t orch now s = (case task_runtime t of
       None \<Rightarrow> (Inr (), s)
     | Some rt \<Rightarrow>
         if runtime_alive c rt now s then (Inr (), s)
         else (case py_int (if dict_has orch ''respawns'' then dict_get orch ''respawns'' else JInt 0) of
             Inl e \<Rightarrow> (Inl e, s)
           | Inr n \<Rightarrow> if oc_max_respawns c \<le> n then park_task c t orch n now s
               else (Inr (), respawn_task c t rt orch n now s)))"

definition orch_settled :: "(string \<times> json) list \<Rightarrow> bool" where
  "orch_settled orch \<longleftrightarrow> truthy (dict_get orch ''accepted_at'') \<or> truthy (dict_get orch ''halted'') \<or>
     truthy (dict_get orch ''awaiting_brain'')"

definition reconcile_task :: "orch_config \<Rightarrow> string \<Rightarrow> int \<Rightarrow> db \<Rightarrow> unit res \<times> db" where
  "reconcile_task c i now s = (case task_get i s of
       None \<Rightarrow> (Inr (), s)
     | Some t \<Rightarrow>
         if task_brief t = JNull then (Inr (), s)
         else if orch_settled (orch_of t) then (Inr (), s)
         else if task_status t = TDone then (Inr (), handle_done t (orch_of t) now s)
         else if is_active t then check_liveness c t (orch_of t) now s
         else (Inr (), s))"

fun reconcile_ids :: "orch_config \<Rightarrow> string list \<Rightarrow> int \<Rightarrow> db \<Rightarrow> unit res \<times> db" where
  "reconcile_ids c [] now s = (Inr (), s)"
| "reconcile_ids c (i # is) now s = bind_st (reconcile_task c i now s) (\<lambda>_ s1. reconcile_ids c is now s1)"

definition orch_reconcile :: "orch_config \<Rightarrow> int \<Rightarrow> db \<Rightarrow> unit res \<times> db" where
  "orch_reconcile c now s = reconcile_ids c
     (map task_id (filter (\<lambda>t. task_brief t \<noteq> JNull \<and> task_status t \<noteq> TCancelled) (db_tasks s))) now s"

section \<open>What the transitions do to the row\<close>

abbreviation set_working :: "int \<Rightarrow> task \<Rightarrow> task" where
  "set_working now \<equiv> apply_update (no_update\<lparr>up_status := Some TWorking\<rparr>, now)"

lemma start_working_tasks:
  "db_tasks (snd (start_working i t cb actor kind now s)) =
     (if task_status t = TClaimed then rows_update (\<lambda>u. task_id u = i) (set_working now) (db_tasks s) else db_tasks s)"
  by (simp add: start_working_def task_update_plain nothing_set_def no_update_def Let_def case_prod_beta publish_task_def
      publish_event_def split: option.split)

text \<open>An event leaves every row as it was, but that of its own task when that is only claimed.\<close>

lemma emit_tasks:
  "db_tasks (emit i ty body payload now s) = (case task_get i s of
      Some t \<Rightarrow> if task_status t = TClaimed then rows_update (\<lambda>u. task_id u = i) (set_working now) (db_tasks s) else db_tasks s
    | None \<Rightarrow> db_tasks s)"
proof (cases "task_get i s")
  case None
  then show ?thesis by (simp add: emit_def post_event_def check_and_stamp_session_token_def opt_truthy_def)
next
  case (Some t)
  obtain r s1 where run: "start_working i t (cookbook_id_for_bundle (task_bundle t) s) ORCH_ACTOR BySystem now s = (r, s1)"
    by fastforce
  have "db_tasks s1 = (if task_status t = TClaimed then rows_update (\<lambda>u. task_id u = i) (set_working now) (db_tasks s) else db_tasks s)"
    using start_working_tasks [of i t "cookbook_id_for_bundle (task_bundle t) s" ORCH_ACTOR BySystem now s] by (simp add: run)
  then show ?thesis
    using Some run
    by (cases r) (simp_all add: emit_def post_event_def check_and_stamp_session_token_def opt_truthy_def append_event_tasks)
qed

lemma emit_get: "task_status t \<noteq> TClaimed \<Longrightarrow> task_get i s = Some t \<Longrightarrow> task_get j (emit i ty body payload now s) = task_get j s"
  by (simp add: task_get_def emit_tasks [unfolded task_get_def])

interpretation orch_rows: keyed_table task_id "\<lambda>d t. t\<lparr>task_orch := JObj d, task_version := task_version t + 1\<rparr>"
  by unfold_locales simp

lemma write_orch_get:
  "task_get j (write_orch i d s) =
     (if j = i then map_option (\<lambda>t. t\<lparr>task_orch := JObj d, task_version := task_version t + 1\<rparr>) (task_get i s) else task_get j s)"
  by (simp add: write_orch_def task_get_def orch_rows.get_update_key)

definition respawns_of :: "task \<Rightarrow> json" where
  "respawns_of t = (if dict_has (orch_of t) ''respawns'' then dict_get (orch_of t) ''respawns'' else JInt 0)"

text \<open>What acceptance changes: the orch column (but not the counter) and the version.\<close>

definition only_orch :: "task \<Rightarrow> task \<Rightarrow> bool" where
  "only_orch t t' \<longleftrightarrow> t' = t\<lparr>task_orch := task_orch t', task_version := task_version t'\<rparr> \<and> respawns_of t' = respawns_of t"

text \<open>What one reconcile of a task makes of its row.\<close>

definition orch_outcome :: "orch_config \<Rightarrow> int \<Rightarrow> db \<Rightarrow> task \<Rightarrow> task \<Rightarrow> bool" where
  "orch_outcome c now s t t' \<longleftrightarrow>
     (if task_brief t = JNull \<or> orch_settled (orch_of t) then t' = t
      else if task_status t = TDone then
        only_orch t t'
      else if is_active t \<and> task_runtime t \<noteq> None \<and> \<not> runtime_alive c (the (task_runtime t)) now s then
        (case py_int (respawns_of t) of
           Inl _ \<Rightarrow> t' = t
         | Inr n \<Rightarrow> task_brief t' = task_brief t \<and> task_runtime t' = task_runtime t \<and> task_description t' = task_description t \<and>
            (if n < oc_max_respawns c
             then task_status t' = TOpen \<and> task_claimed_by t' = None \<and> task_assigned t' = None \<and> \<not> orch_settled (orch_of t') \<and>
               respawns_of t' = JInt (n + 1)
             else task_status t' = TBlocked \<and> orch_settled (orch_of t') \<and> respawns_of t' = respawns_of t))
      else t' = t)"

lemma orch_of_JObj [simp]: "orch_of (t\<lparr>task_orch := JObj d, task_version := v\<rparr>) = d"
  by (simp add: orch_of_def)

lemma only_orch_fields:
  assumes "only_orch t t'"
  shows "task_brief t' = task_brief t" "respawns_of t' = respawns_of t"
proof -
  have "t' = t\<lparr>task_orch := task_orch t', task_version := task_version t'\<rparr>" using assms by (simp add: only_orch_def)
  from arg_cong [OF this, of task_brief] show "task_brief t' = task_brief t" by simp
qed (use assms in \<open>simp add: only_orch_def\<close>)

lemma handle_done_get:
  assumes "task_get i s = Some t" "task_status t = TDone"
  shows "\<exists>t'. task_get i (handle_done t (orch_of t) now s) = Some t' \<and> only_orch t t'"
proof -
  have i: "task_id t = i" using task_get_key [OF assms(1)] by simp
  have w: "task_get i (write_orch i d s) = Some (t\<lparr>task_orch := JObj d, task_version := task_version t + 1\<rparr>)" for d
    by (simp add: write_orch_get assms(1))
  have e: "task_get i (emit i ty body payload now (write_orch i d s)) = Some (t\<lparr>task_orch := JObj d, task_version := task_version t + 1\<rparr>)"
    for ty body payload d
    using emit_get [OF _ w] assms(2) w by simp
  have moved: "\<exists>t'. task_get i (emit i ty body payload now (write_orch i (dict_set (orch_of t) k v) s)) = Some t' \<and> only_orch t t'"
    if "k \<noteq> ''respawns''" for ty body payload k v
    using that by (simp add: e only_orch_def respawns_of_def)
  have same: "\<exists>t'. task_get i s = Some t' \<and> only_orch t t'" using assms(1) by (simp add: only_orch_def)
  have k: "''awaiting_brain'' \<noteq> ''respawns''" "''accepted_at'' \<noteq> ''respawns''" "''report_invalid'' \<noteq> ''respawns''" by simp_all
  show ?thesis
    unfolding handle_done_def i by (simp only: same moved [OF k(1)] moved [OF k(2)] moved [OF k(3)] if_True split: if_split) simp
qed

lemma respawn_task_get:
  assumes "task_get i s = Some t"
  shows "\<exists>t'. task_get i (respawn_task c t rt (orch_of t) n now s) = Some t' \<and> task_brief t' = task_brief t \<and>
     task_runtime t' = task_runtime t \<and> task_description t' = task_description t \<and> task_status t' = TOpen \<and>
     task_claimed_by t' = None \<and> task_assigned t' = None \<and> task_depends_on t' = task_depends_on t \<and>
     orch_settled (orch_of t') = orch_settled (orch_of t) \<and> respawns_of t' = JInt (n + 1)"
proof -
  have i: "task_id t = i" using task_get_key [OF assms] by simp
  let ?d = "dict_set (dict_set (orch_of t) ''respawns'' (JInt (n + 1))) ''last_respawn_at'' (iso_stamp now)"
  let ?s1 = "write_orch i ?d s"
  let ?s2 = "?s1\<lparr>db_tasks := rows_update (\<lambda>u. task_id u = i) (reopened now) (db_tasks ?s1)\<rparr>"
  let ?t' = "reopened now (t\<lparr>task_orch := JObj ?d, task_version := task_version t + 1\<rparr>)"
  have get: "task_get i ?s2 = Some ?t'" by (simp only: task_get_reopen) (simp add: write_orch_get assms)
  then have get': "task_get i (publish_opt (Some ?t') None now ?s2) = Some ?t'" by (simp add: publish_opt_def)
  have st: "task_status ?t' \<noteq> TClaimed" by (simp add: reopened_def)
  have run: "respawn_task c t rt (orch_of t) n now s = emit i ELog
           (''orch: liveness lost on runtime '' @ rt @ ''; respawned with Brief replay (attempt '' @ str_of_int (n + 1) @
            ''/'' @ str_of_int (oc_max_respawns c) @ '')'')
           [(''orch'', JStr ''respawn''), (''runtime_id'', JStr rt), (''attempt'', JInt (n + 1))] now (publish_opt (Some ?t') None now ?s2)"
    unfolding respawn_task_def i reopen_for_rerun_def Let_def prod.case get ..
  have fields: "orch_of ?t' = ?d" by (simp add: orch_of_def reopened_def)
  show ?thesis
    unfolding run emit_get [OF st get'] get'
    by (intro exI [of _ ?t']) (simp add: respawns_of_def fields orch_settled_def, simp add: reopened_def)
qed

lemma park_task_get:
  assumes "task_get i s = Some t"
  shows "\<exists>t'. task_get i (snd (park_task c t (orch_of t) n now s)) = Some t' \<and> task_brief t' = task_brief t \<and>
     task_runtime t' = task_runtime t \<and> task_description t' = task_description t \<and> task_status t' = TBlocked \<and>
     orch_settled (orch_of t') \<and> respawns_of t' = respawns_of t"
proof -
  have i: "task_id t = i" using task_get_key [OF assms] by simp
  let ?d = "dict_set (orch_of t) ''halted'' (JBool True)"
  let ?s1 = "write_orch i ?d s"
  let ?t1 = "t\<lparr>task_orch := JObj ?d, task_version := task_version t + 1\<rparr>"
  define u where "u = no_update\<lparr>up_status := Some TBlocked,
         up_blocked_reason := Some (''orch: respawn limit reached ('' @ str_of_int n @ ''/'' @ str_of_int (oc_max_respawns c) @
           '') '' @ [CHR 0xE2, CHR 0x80, CHR 0x94] @ '' needs root-cause review'')\<rparr>"
  let ?t' = "apply_update (u, now) ?t1"
  let ?s2 = "?s1\<lparr>db_tasks := rows_update (\<lambda>x. task_id x = i) (apply_update (u, now)) (db_tasks ?s1)\<rparr>"
  have "task_get i ?s1 = Some ?t1" by (simp add: write_orch_get assms)
  then have upd: "task_update i u now ?s1 = (Inr (Some ?t'), ?s2)"
    by (simp add: task_update_plain u_def no_update_def nothing_set_def)
  have "task_get i ?s2 = Some ?t'" by (simp only: task_get_update) (simp add: write_orch_get assms)
  then have get: "task_get i (publish_opt (Some ?t') None now ?s2) = Some ?t'" by (simp add: publish_opt_def)
  have t': "task_brief ?t' = task_brief t" "task_runtime ?t' = task_runtime t" "task_description ?t' = task_description t"
    "task_status ?t' = TBlocked" "orch_of ?t' = ?d"
    by (simp_all add: apply_update_def u_def no_update_def set_opt_def set_opt'_def orch_of_def)
  then have st: "task_status ?t' \<noteq> TClaimed" by simp
  have "task_get i (snd (park_task c t (orch_of t) n now s)) = Some ?t'"
    unfolding park_task_def i u_def [symmetric] upd bind_st_simps snd_conv by (simp only: emit_get [OF st get] get)
  then show ?thesis by (simp add: t' orch_settled_def respawns_of_def del: orch_of_JObj)
qed

lemma reconcile_task_get:
  assumes "task_get i s = Some t" "reconcile_task c i now s = (r, s')"
  shows "\<exists>t'. task_get i s' = Some t' \<and> orch_outcome c now s t t'"
proof (cases "task_brief t = JNull \<or> orch_settled (orch_of t)")
  case True
  then show ?thesis using assms by (auto simp: reconcile_task_def orch_outcome_def split: if_splits)
next
  case ours: False
  show ?thesis
  proof (cases "task_status t = TDone")
    case True
    then show ?thesis using handle_done_get [OF assms(1) True] assms ours by (auto simp: reconcile_task_def orch_outcome_def)
  next
    case nd: False
    show ?thesis
    proof (cases "is_active t \<and> task_runtime t \<noteq> None \<and> \<not> runtime_alive c (the (task_runtime t)) now s")
      case False
      then have "s' = s" using assms ours nd
        by (auto simp: reconcile_task_def check_liveness_def split: option.splits if_splits)
      then show ?thesis using assms(1) ours nd False by (auto simp: orch_outcome_def)
    next
      case lost: True
      then obtain rt where rt: "task_runtime t = Some rt" by auto
      have run: "(r, s') = (case py_int (respawns_of t) of Inl e \<Rightarrow> (Inl e, s)
           | Inr n \<Rightarrow> if oc_max_respawns c \<le> n then park_task c t (orch_of t) n now s
               else (Inr (), respawn_task c t rt (orch_of t) n now s))"
        using assms ours nd lost rt by (simp add: reconcile_task_def check_liveness_def respawns_of_def)
      show ?thesis
      proof (cases "py_int (respawns_of t)")
        case (Inl e)
        then show ?thesis using run assms(1) ours nd lost by (auto simp: orch_outcome_def)
      next
        case (Inr n)
        show ?thesis
        proof (cases "n < oc_max_respawns c")
          case True
          then have s': "s' = respawn_task c t rt (orch_of t) n now s" using run Inr by simp
          show ?thesis unfolding s'
            using respawn_task_get [OF assms(1), of c rt n now] ours nd lost True Inr by (auto simp: orch_outcome_def)
        next
          case False
          then have s': "s' = snd (park_task c t (orch_of t) n now s)" using run Inr by (simp add: prod_eq_iff)
          show ?thesis unfolding s'
            using park_task_get [OF assms(1), of c n now] ours nd lost False Inr by (auto simp: orch_outcome_def)
        qed
      qed
    qed
  qed
qed

section \<open>Respawns are bounded\<close>

text \<open>A history of one task: reconciles of it, and between them anything that leaves its Brief and its orch column
  (no route writes that column).  The number counts the reconciles that reopened the task.\<close>

definition orch_kept :: "string \<Rightarrow> db \<Rightarrow> db \<Rightarrow> bool" where
  "orch_kept i s s' \<longleftrightarrow> (\<forall>t. task_get i s = Some t \<longrightarrow>
     (\<exists>t'. task_get i s' = Some t' \<and> task_orch t' = task_orch t \<and> task_brief t' = task_brief t))"

definition reopened_by :: "string \<Rightarrow> db \<Rightarrow> db \<Rightarrow> bool" where
  "reopened_by i s s' \<longleftrightarrow> (\<exists>t t'. task_get i s = Some t \<and> is_active t \<and> task_get i s' = Some t' \<and> task_status t' = TOpen)"

inductive orch_history :: "orch_config \<Rightarrow> string \<Rightarrow> db \<Rightarrow> nat \<Rightarrow> db \<Rightarrow> bool" for c i s where
  start: "orch_history c i s 0 s"
| others: "orch_history c i s n s1 \<Longrightarrow> orch_kept i s1 s2 \<Longrightarrow> orch_history c i s n s2"
| pass: "orch_history c i s n s1 \<Longrightarrow> reconcile_task c i now s1 = (r, s2) \<Longrightarrow>
    orch_history c i s (if reopened_by i s1 s2 then Suc n else n) s2"

text \<open>C20: a supervised task is reopened by the orch controller at most \<open>max_respawns\<close> times, however its
  status, its claim and the runtimes change in between; once the limit is used up, the next pass that finds
  its worker silent parks it blocked, and after that no pass changes the row any more.\<close>

theorem respawns_bounded:
  assumes "task_get i s = Some t" "task_brief t \<noteq> JNull" "task_orch t = JNull" "0 \<le> oc_max_respawns c"
    and "orch_history c i s n s1"
  shows "int n \<le> oc_max_respawns c \<and> (\<exists>t1. task_get i s1 = Some t1 \<and> task_brief t1 = task_brief t \<and>
     (\<forall>now r s2. reconcile_task c i now s1 = (r, s2) \<longrightarrow> (\<exists>t2. task_get i s2 = Some t2 \<and>
        (orch_settled (orch_of t1) \<longrightarrow> t2 = t1) \<and>
        (\<not> orch_settled (orch_of t1) \<and> is_active t1 \<and> task_runtime t1 \<noteq> None \<and> \<not> runtime_alive c (the (task_runtime t1)) now s1 \<longrightarrow>
           (if int n < oc_max_respawns c then task_status t2 = TOpen \<and> task_claimed_by t2 = None
            else task_status t2 = TBlocked \<and> orch_settled (orch_of t2))))))"
proof -
  have inv: "int n \<le> oc_max_respawns c \<and> (\<exists>t1. task_get i s1 = Some t1 \<and> task_brief t1 = task_brief t \<and> respawns_of t1 = JInt (int n))"
    using assms(5)
  proof (induction rule: orch_history.induct)
    case start
    then show ?case using assms by (auto simp: respawns_of_def orch_of_def dict_has_def)
  next
    case (others n s1 s2)
    then obtain t1 where t1: "task_get i s1 = Some t1" "task_brief t1 = task_brief t" "respawns_of t1 = JInt (int n)" by blast
    then obtain t2 where "task_get i s2 = Some t2" "task_orch t2 = task_orch t1" "task_brief t2 = task_brief t1"
      using others(2) by (auto simp: orch_kept_def)
    then show ?case using others.IH t1 by (auto simp: respawns_of_def orch_of_def)
  next
    case (pass n s1 now r s2)
    then obtain t1 where t1: "task_get i s1 = Some t1" "task_brief t1 = task_brief t" "respawns_of t1 = JInt (int n)" by blast
    obtain t2 where t2: "task_get i s2 = Some t2" "orch_outcome c now s1 t1 t2" using reconcile_task_get [OF t1(1) pass(2)] by blast
    have re: "reopened_by i s1 s2 \<longleftrightarrow> is_active t1 \<and> task_status t2 = TOpen" using t1(1) t2(1) by (simp add: reopened_by_def)
    let ?lost = "is_active t1 \<and> task_runtime t1 \<noteq> None \<and> \<not> runtime_alive c (the (task_runtime t1)) now s1"
    show ?case
    proof (cases "task_brief t1 = JNull \<or> orch_settled (orch_of t1) \<or> task_status t1 \<noteq> TDone \<and> \<not> ?lost")
      case True
      then have "t2 = t1" using t2(2) by (auto simp: orch_outcome_def split: if_splits)
      moreover have "\<not> (is_active t1 \<and> task_status t1 = TOpen)" by (auto simp: is_active_def)
      ultimately show ?thesis using t1 t2(1) re pass.IH by auto
    next
      case False
      then show ?thesis
      proof (cases "task_status t1 = TDone")
        case True
        then have "only_orch t1 t2" using t2(2) False by (simp add: orch_outcome_def)
        note only_orch_fields [OF this]
        then show ?thesis using True t1 t2(1) re pass.IH by (auto simp: is_active_def)
      next
        case nd: False
        then have o: "task_brief t2 = task_brief t1" "if int n < oc_max_respawns c
            then task_status t2 = TOpen \<and> respawns_of t2 = JInt (int n + 1)
            else task_status t2 = TBlocked \<and> respawns_of t2 = respawns_of t1" "is_active t1"
          using t2(2) False t1(3) by (auto simp: orch_outcome_def)
        then show ?thesis using t1 t2(1) re pass.IH by (auto split: if_splits)
      qed
    qed
  qed
  then obtain t1 where t1: "task_get i s1 = Some t1" "task_brief t1 = task_brief t" "respawns_of t1 = JInt (int n)" by blast
  have "\<exists>t2. task_get i s2 = Some t2 \<and> (orch_settled (orch_of t1) \<longrightarrow> t2 = t1) \<and>
        (\<not> orch_settled (orch_of t1) \<and> is_active t1 \<and> task_runtime t1 \<noteq> None \<and> \<not> runtime_alive c (the (task_runtime t1)) now s1 \<longrightarrow>
           (if int n < oc_max_respawns c then task_status t2 = TOpen \<and> task_claimed_by t2 = None
            else task_status t2 = TBlocked \<and> orch_settled (orch_of t2)))"
    if run: "reconcile_task c i now s1 = (r, s2)" for now r s2
  proof -
    obtain t2 where t2: "task_get i s2 = Some t2" "orch_outcome c now s1 t1 t2" using reconcile_task_get [OF t1(1) run] by blast
    then show ?thesis using t1(2,3) assms(2) by (intro exI [of _ t2]) (auto simp: orch_outcome_def is_active_def)
  qed
  then show ?thesis using inv t1 by blast
qed

definition briefed_task :: task where
  "briefed_task = (fresh_task ''t1'' ''b'' ''first'' None [])\<lparr>task_status := TWorking, task_claimed_by := Some ''a'',
     task_runtime := Some ''gone'', task_brief := JObj [(''goal'', JStr ''g'')]\<rparr>"

definition briefed_db :: db where
  "briefed_db = sample_db\<lparr>db_tasks := [briefed_task]\<rparr>"

definition two_respawns :: orch_config where
  "two_respawns = \<lparr>oc_liveness = 60, oc_max_respawns = 2\<rparr>"

lemma respawns_bounded_witness:
  "\<exists>s2 t2. snd (reconcile_task two_respawns ''t1'' 100 briefed_db) = s2 \<and> task_get ''t1'' s2 = Some t2 \<and>
     task_status t2 = TOpen \<and> task_claimed_by t2 = None"
proof -
  have t: "task_get ''t1'' briefed_db = Some briefed_task" "task_brief briefed_task \<noteq> JNull" "task_orch briefed_task = JNull"
    "is_active briefed_task" "task_runtime briefed_task = Some ''gone''" "\<not> orch_settled (orch_of briefed_task)"
    by (simp_all add: task_get_def briefed_db_def briefed_task_def fresh_task_def is_active_def orch_settled_def orch_of_def dict_get_def)
  have dead: "\<not> runtime_alive two_respawns ''gone'' 100 briefed_db"
    by (simp add: runtime_alive_def briefed_db_def sample_db_def empty_db_def)
  have m: "0 \<le> oc_max_respawns two_respawns" "int 0 < oc_max_respawns two_respawns" by (simp_all add: two_respawns_def)
  obtain r s2 where run: "reconcile_task two_respawns ''t1'' 100 briefed_db = (r, s2)" by fastforce
  obtain t1 where t1: "task_get ''t1'' briefed_db = Some t1"
    "\<forall>now r s2. reconcile_task two_respawns ''t1'' now briefed_db = (r, s2) \<longrightarrow> (\<exists>t2. task_get ''t1'' s2 = Some t2 \<and>
        (orch_settled (orch_of t1) \<longrightarrow> t2 = t1) \<and>
        (\<not> orch_settled (orch_of t1) \<and> is_active t1 \<and> task_runtime t1 \<noteq> None \<and> \<not> runtime_alive two_respawns (the (task_runtime t1)) now briefed_db \<longrightarrow>
           (if int 0 < oc_max_respawns two_respawns then task_status t2 = TOpen \<and> task_claimed_by t2 = None
            else task_status t2 = TBlocked \<and> orch_settled (orch_of t2))))"
    using respawns_bounded [OF t(1-3) m(1) orch_history.start] by blast
  have "t1 = briefed_task" using t1(1) t(1) by simp
  then show ?thesis using t1(2) [rule_format, OF run] run t dead m(2) by auto
qed

end
