(* ===== verification/Link_Firing.thy ===== *)
theory Link_Firing
  imports Orchestration Links
begin

text \<open>
  The link reconciler (\<^verbatim>\<open>controllers/link_reconciler.py\<close>): one pass over the links that have neither fired
  nor been revoked.  A \<open>pipe\<close> puts the output of a finished task into the prompt of the next one; any other
  link reports the outcome of a finished task on the tape of the task that drives it.  \<open>str(v)\<close> of a JSON
  value that is no text is the argument \<open>fmt\<close>.
\<close>

section \<open>Output of a finished task\<close>

fun report_lines :: "(json \<Rightarrow> string) \<Rightarrow> (string \<times> json) list \<Rightarrow> string list \<Rightarrow> string list res" where
  "report_lines fmt rep [] = Inr []"
| "report_lines fmt rep (k # ks) =
     (let vals = dict_get rep k in
      if \<not> truthy vals then report_lines fmt rep ks
      else bind_res (py_iter vals) (\<lambda>xs.
        bind_res (report_lines fmt rep ks) (\<lambda>ls. Inr ((k @ '': '' @ str_join '', '' (map (py_str fmt) xs)) # ls))))"

definition report_keys :: "string list" where
  "report_keys = [''prs'', ''artifacts'', ''blockers'', ''decisions_needed'']"

text \<open>\<open>ORDER BY sequence DESC LIMIT 1\<close>.\<close>

definition last_reply :: "string \<Rightarrow> db \<Rightarrow> string option" where
  "last_reply i s = (case sort_key (\<lambda>e. - event_sequence e)
       (filter (\<lambda>e. event_task e = Some i \<and> event_type e = EAgentReply) (db_events s)) of
       [] \<Rightarrow> None
     | e # _ \<Rightarrow>
        let body = (case event_payload e of
            JObj d \<Rightarrow> (case dict_get d ''text'' of
                JStr x \<Rightarrow> if str_strip x \<noteq> [] then x else event_body e | _ \<Rightarrow> event_body e)
          | _ \<Rightarrow> event_body e)
        in if body = [] then None else Some body)"

definition dict_get_or :: "(string \<times> json) list \<Rightarrow> string \<Rightarrow> json \<Rightarrow> json" where
  "dict_get_or d k v = (if dict_has d k then dict_get d k else v)"

definition upstream_output :: "(json \<Rightarrow> string) \<Rightarrow> task \<Rightarrow> (string \<times> json) list \<Rightarrow> db \<Rightarrow> string option res" where
  "upstream_output fmt t payload_map s =
     (if dict_get_or payload_map ''source'' (JStr ''report'') = JStr ''report'' \<and> truthy (task_report t) then
        (case task_report t of
           JObj rep \<Rightarrow> bind_res (report_lines fmt rep report_keys) (\<lambda>ls. Inr (Some (str_join nl
             ((''status: '' @ py_str fmt (dict_get_or rep ''status'' (JStr ''?''))) # ls))))
         | _ \<Rightarrow> Inl (AttributeError [Lit ''object has no attribute get'']))
      else Inr (last_reply (task_id t) s))"

text \<open>When the outcome of a task counts: it is done and, if it carries a Brief, accepted by the orch
  controller.\<close>

definition link_due :: "task \<Rightarrow> bool" where
  "link_due t \<longleftrightarrow> task_status t = TDone \<and> (task_brief t = JNull \<or> truthy (dict_get (orch_of t) ''accepted_at''))"

section \<open>Firing\<close>

definition fire_row :: "int \<Rightarrow> link \<Rightarrow> link" where
  "fire_row now l = l\<lparr>link_fired_at := Some now\<rparr>"

definition mark_link_fired :: "string \<Rightarrow> int \<Rightarrow> db \<Rightarrow> db" where
  "mark_link_fired i now s = s\<lparr>db_links := rows_update (\<lambda>l. link_id l = i) (fire_row now) (db_links s)\<rparr>"

definition middle_dot :: string where
  "middle_dot = [CHR '' '', CHR 0xC2, CHR 0xB7, CHR '' '']"

definition paragraph_break :: string where
  "paragraph_break = nl @ nl"

text \<open>The UPDATE that carries a block of text into the task: into its Brief, or behind its description.\<close>

definition inject_block :: "task \<Rightarrow> (string \<times> json) list \<Rightarrow> string \<Rightarrow> db \<Rightarrow> unit res \<times> db" where
  "inject_block t payload_map block s =
     (if dict_get_or payload_map ''target'' (JStr ''followup'') = JStr ''brief_context'' \<and> task_brief t \<noteq> JNull then
        (case task_brief t of
           JObj brief \<Rightarrow>
             let set_context = (\<lambda>c. (Inr (), set_column (task_id t) (\<lambda>r. r\<lparr>task_brief :=
                   JObj (dict_set brief ''context'' (JStr (str_strip (c @ paragraph_break @ block)))),
                   task_version := task_version r + 1\<rparr>) s))
             in (case dict_get brief ''context'' of
                 JStr c \<Rightarrow> set_context c
               | v \<Rightarrow> if truthy v then (Inl (TypeError [Lit ''unsupported operand type'']), s) else set_context [])
         | _ \<Rightarrow> (Inl (TypeError [Lit ''object is not a mapping'']), s))
      else (Inr (), set_column (task_id t) (\<lambda>r. r\<lparr>task_description :=
              Some (str_strip (str_rstrip (case task_description t of None \<Rightarrow> [] | Some x \<Rightarrow> x) @ paragraph_break @ block)),
              task_version := task_version r + 1\<rparr>) s))"

definition pipe_block :: "link \<Rightarrow> task \<Rightarrow> string option \<Rightarrow> string" where
  "pipe_block l up content = ''[UPSTREAM OUTPUT'' @ middle_dot @ task_id up @ '' via link '' @ link_id l @ '']'' @ nl @
     (case content of Some x \<Rightarrow> x
      | None \<Rightarrow> ''(upstream task '' @ task_id up @ '' completed with no rendered output)'')"

text \<open>The end of a firing: the mark, the watch record of the task and an event on it.\<close>

definition pipe_fired :: "link \<Rightarrow> task \<Rightarrow> task \<Rightarrow> int \<Rightarrow> db \<Rightarrow> db" where
  "pipe_fired l up down now s =
     (let s2 = mark_link_fired (link_id l) now s in
      case task_get (task_id down) s2 of
        None \<Rightarrow> s2
      | Some fresh \<Rightarrow> emit (task_id fresh) ELog
          (''orch: pipe '' @ link_id l @ '' fired '' @ [CHR 0xE2, CHR 0x80, CHR 0x94] @ '' output of '' @
           task_id up @ '' injected into this task'' @ [CHR 0x27] @ ''s prompt'')
          [(''orch'', JStr ''pipe_fired''), (''link_id'', JStr (link_id l)), (''from_task'', JStr (task_id up))]
          now (publish_task WModified fresh None now s2))"

definition fire_pipe :: "(json \<Rightarrow> string) \<Rightarrow> link \<Rightarrow> int \<Rightarrow> db \<Rightarrow> unit res \<times> db" where
  "fire_pipe fmt l now s = (case task_get (link_from l) s of
       None \<Rightarrow> (Inr (), s)
     | Some up \<Rightarrow>
         if \<not> link_due up then (Inr (), s)
         else (case task_get (link_to l) s of
             None \<Rightarrow> (Inr (), mark_link_fired (link_id l) now s)
           | Some down \<Rightarrow>
               if task_status down = TDone \<or> task_status down = TCancelled
               then (Inr (), mark_link_fired (link_id l) now s)
               else (case upstream_output fmt up (link_payload_map l) s of
                   Inl e \<Rightarrow> (Inl e, s)
                 | Inr content \<Rightarrow> bind_st (inject_block down (link_payload_map l) (pipe_block l up content) s)
                     (\<lambda>_ s1. (Inr (), pipe_fired l up down now s1)))))"

definition report_event :: "string \<Rightarrow> link \<Rightarrow> task \<Rightarrow> task \<Rightarrow> string option \<Rightarrow> int \<Rightarrow> db \<Rightarrow> event" where
  "report_event eid l child parent content now s =
     (let n = next_sequence (Some (task_id parent)) (db_events s);
          body = ''[SUBAGENT REPORT'' @ middle_dot @ task_id child @ '' via link '' @ link_id l @ '']'' @ nl @
            (case content of Some x \<Rightarrow> x
             | None \<Rightarrow> ''(subagent task '' @ task_id child @ '' completed with no rendered output)'')
      in (new_event eid (cookbook_id_for_bundle (task_bundle parent) s) (Some (task_bundle parent))
            (Some (task_id parent)) EAgentReply ORCH_ACTOR ByHuman body now)
         \<lparr>event_payload := JObj [(''kind'', JStr ''subagent_report''), (''link_id'', JStr (link_id l)),
            (''from_task'', JStr (task_id child)), (''report'', task_report child)],
          event_sequence := (if n = 0 then 1 else n), event_visibility := ''user''\<rparr>)"

definition flow_report :: "(json \<Rightarrow> string) \<Rightarrow> link \<Rightarrow> int \<Rightarrow> db \<Rightarrow> unit res \<times> db" where
  "flow_report fmt l now s = (case task_get (link_to l) s of
       None \<Rightarrow> (Inr (), mark_link_fired (link_id l) now s)
     | Some child \<Rightarrow>
         if \<not> link_due child then (Inr (), s)
         else (case task_get (link_from l) s of
             None \<Rightarrow> (Inr (), mark_link_fired (link_id l) now s)
           | Some parent \<Rightarrow>
               if task_status parent = TCancelled then (Inr (), mark_link_fired (link_id l) now s)
               else (case upstream_output fmt child (link_payload_map l) s of
                   Inl e \<Rightarrow> (Inl e, s)
                 | Inr content \<Rightarrow>
                     let (eid, s1) = draw ''evt_'' s;
                         e = report_event eid l child parent content now s;
                         s2 = mark_link_fired (link_id l) now (s1\<lparr>db_events := db_events s1 @ [e]\<rparr>)
                     in (Inr (), publish_opt (task_get (task_id parent) s2) None now s2))))"

definition link_waiting :: "link \<Rightarrow> bool" where
  "link_waiting l \<longleftrightarrow> link_fired_at l = None \<and> link_revoked_at l = None"

definition reconcile_link :: "(json \<Rightarrow> string) \<Rightarrow> int \<Rightarrow> link \<Rightarrow> db \<Rightarrow> db" where
  "reconcile_link fmt now l s = snd (if link_kind l = ''pipe'' then fire_pipe fmt l now s else flow_report fmt l now s)"

definition link_reconcile :: "(json \<Rightarrow> string) \<Rightarrow> int \<Rightarrow> db \<Rightarrow> db" where
  "link_reconcile fmt now s = fold (reconcile_link fmt now) (filter link_waiting (db_links s)) s"

section \<open>What a pass leaves alone\<close>

text \<open>The columns the reconciler decides on, and what the routes promise of Report and Brief.\<close>

definition gate :: "task \<Rightarrow> bool \<times> bool \<times> bool \<times> json \<times> json" where
  "gate t = (task_status t = TDone, task_status t = TCancelled, task_brief t = JNull, task_orch t, task_report t)"

definition renders :: "task \<Rightarrow> bool" where
  "renders t \<longleftrightarrow>
     (case task_report t of JObj d \<Rightarrow> list_all (\<lambda>k. is_list (dict_get d k) \<or> \<not> truthy (dict_get d k)) report_keys
      | v \<Rightarrow> \<not> truthy v) \<and>
     (case task_brief t of JObj d \<Rightarrow> is_str (dict_get d ''context'') \<or> \<not> truthy (dict_get d ''context'')
      | v \<Rightarrow> v = JNull)"

definition kept_row :: "task \<Rightarrow> task \<Rightarrow> bool" where
  "kept_row t t' \<longleftrightarrow> task_id t' = task_id t \<and> gate t' = gate t \<and> (renders t \<longrightarrow> renders t')"

definition kept_tasks :: "db \<Rightarrow> db \<Rightarrow> bool" where
  "kept_tasks s s' \<longleftrightarrow> list_all2 kept_row (db_tasks s) (db_tasks s')"

lemma kept_refl: "db_tasks s' = db_tasks s \<Longrightarrow> kept_tasks s s'"
  by (simp add: kept_tasks_def kept_row_def list_all2_refl)

lemma kept_trans: "kept_tasks s s1 \<Longrightarrow> kept_tasks s1 s2 \<Longrightarrow> kept_tasks s s2"
  unfolding kept_tasks_def by (rule list_all2_trans [where ?P2.0 = kept_row]) (auto simp: kept_row_def)

lemma kept_keys:
  assumes "kept_tasks s s'"
  shows "task_keys s' = task_keys s"
proof -
  have "list_all2 kept_row ts ts' \<Longrightarrow> map task_id ts' = map task_id ts" for ts ts'
    by (induction rule: list_all2_induct) (simp_all add: kept_row_def)
  with assms show ?thesis by (simp add: kept_tasks_def task_keys_def)
qed

lemma kept_renders:
  assumes "kept_tasks s s'" "list_all renders (db_tasks s)"
  shows "list_all renders (db_tasks s')"
proof -
  have "list_all2 kept_row ts ts' \<Longrightarrow> list_all renders ts \<Longrightarrow> list_all renders ts'" for ts ts'
    by (induction rule: list_all2_induct) (simp_all add: kept_row_def)
  with assms show ?thesis by (simp add: kept_tasks_def)
qed

lemma kept_gate:
  assumes "kept_tasks s s'"
  shows "map_option gate (task_get i s') = map_option gate (task_get i s)"
proof -
  have "list_all2 kept_row ts ts' \<Longrightarrow> map_option gate (row_get task_id i ts') = map_option gate (row_get task_id i ts)" for ts ts'
    by (induction rule: list_all2_induct) (simp_all add: kept_row_def)
  with assms show ?thesis by (simp add: kept_tasks_def task_get_def)
qed

lemma kept_update:
  assumes "db_tasks s' = rows_update P f (db_tasks s)" "\<And>t. t \<in> set (db_tasks s) \<Longrightarrow> P t \<Longrightarrow> kept_row t (f t)"
  shows "kept_tasks s s'"
  using assms by (auto simp: kept_tasks_def rows_update_def list_all2_map2 kept_row_def intro!: list.rel_refl_strong)

lemma kept_working: "task_status t = TClaimed \<Longrightarrow> kept_row t (set_working now t)"
  by (simp add: kept_row_def gate_def renders_def apply_update_def update_simps)

lemma task_keys_only:
  assumes "distinct (task_keys s)" "task_get i s = Some t" "r \<in> set (db_tasks s)" "task_id r = i"
  shows "r = t"
  using assms row_get_in_set [of task_id "db_tasks s" r] by (simp add: task_keys_def task_get_def)

lemma kept_emit:
  assumes "distinct (task_keys s)"
  shows "kept_tasks s (emit i ty body payload now s)"
proof (cases "task_get i s")
  case None
  then show ?thesis by (intro kept_refl) (simp add: emit_tasks)
next
  case (Some t)
  show ?thesis
  proof (cases "task_status t = TClaimed")
    case True
    show ?thesis
    proof (rule kept_update)
      show "db_tasks (emit i ty body payload now s) = rows_update (\<lambda>u. task_id u = i) (set_working now) (db_tasks s)"
        using Some True by (simp add: emit_tasks)
      show "kept_row r (set_working now r)" if "r \<in> set (db_tasks s)" "task_id r = i" for r
        using task_keys_only [OF assms Some that] True by (intro kept_working) simp
    qed
  next
    case False
    then show ?thesis using Some by (intro kept_refl) (simp add: emit_tasks)
  qed
qed

lemma start_working_links: "db_links (snd (start_working i t cb actor kind now s)) = db_links s"
  by (simp add: start_working_def task_update_plain nothing_set_def no_update_def Let_def case_prod_beta publish_task_def
      publish_event_def split: option.split)

lemma append_event_links: "db_links (snd (append_event i t cb ty kind x now s)) = db_links s"
  by (simp add: append_event_def Let_def case_prod_beta publish_event_def)

lemma emit_links: "db_links (emit i ty body payload now s) = db_links s"
proof (cases "task_get i s")
  case None
  then show ?thesis by (simp add: emit_def post_event_def check_and_stamp_session_token_def opt_truthy_def)
next
  case (Some t)
  obtain r s1 where run: "start_working i t (cookbook_id_for_bundle (task_bundle t) s) ORCH_ACTOR BySystem now s = (r, s1)"
    by fastforce
  have "db_links s1 = db_links s"
    using start_working_links [of i t "cookbook_id_for_bundle (task_bundle t) s" ORCH_ACTOR BySystem now s] by (simp add: run)
  then show ?thesis
    using Some run
    by (cases r) (simp_all add: emit_def post_event_def check_and_stamp_session_token_def opt_truthy_def append_event_links)
qed

section \<open>One link\<close>

text \<open>Whether a pass that comes to this link will fire it.\<close>

definition fires :: "link \<Rightarrow> db \<Rightarrow> bool" where
  "fires l s \<longleftrightarrow> (if link_kind l = ''pipe''
     then (case task_get (link_from l) s of None \<Rightarrow> False | Some up \<Rightarrow> link_due up)
     else (case task_get (link_to l) s of None \<Rightarrow> True | Some child \<Rightarrow> link_due child))"

lemma due_gate: "gate t' = gate t \<Longrightarrow> link_due t' = link_due t"
  by (simp add: gate_def link_due_def orch_of_def)

lemma fires_iff:
  "fires l s \<longleftrightarrow> (if link_kind l = ''pipe'' then map_option link_due (task_get (link_from l) s) = Some True
     else map_option link_due (task_get (link_to l) s) \<noteq> Some False)"
  by (simp add: fires_def split: option.split)

lemma kept_due:
  assumes "kept_tasks s s'"
  shows "map_option link_due (task_get i s') = map_option link_due (task_get i s)"
proof (cases "task_get i s")
  case None
  then have "task_get i s' = None" using kept_gate [OF assms, of i] by simp
  then show ?thesis by (simp add: None)
next
  case (Some t)
  then obtain t' where "task_get i s' = Some t'" "gate t' = gate t" using kept_gate [OF assms, of i] by auto
  then show ?thesis using Some due_gate [of t' t] by simp
qed

lemma kept_fires: "kept_tasks s s' \<Longrightarrow> fires l s' = fires l s"
  by (simp only: fires_iff kept_due)

lemma not_fires:
  assumes "\<not> fires l s"
  shows "reconcile_link fmt now l s = s"
proof (cases "link_kind l = ''pipe''")
  case True
  with assms show ?thesis by (cases "task_get (link_from l) s") (simp_all add: reconcile_link_def fires_def fire_pipe_def)
next
  case False
  with assms show ?thesis by (cases "task_get (link_to l) s") (simp_all add: reconcile_link_def fires_def flow_report_def)
qed

lemma report_lines_ok:
  "list_all (\<lambda>k. is_list (dict_get d k) \<or> \<not> truthy (dict_get d k)) ks \<Longrightarrow> \<exists>ls. report_lines fmt d ks = Inr ls"
proof (induction ks)
  case (Cons k ks)
  then obtain ls where "report_lines fmt d ks = Inr ls" by auto
  then show ?case using Cons.prems by (cases "dict_get d k") (simp_all add: Let_def)
qed simp

lemma upstream_output_ok:
  assumes "renders t"
  shows "\<exists>c. upstream_output fmt t pm s = Inr c"
proof (cases "task_report t")
  case (JObj d)
  then obtain ls where "report_lines fmt d report_keys = Inr ls"
    using assms report_lines_ok [of d report_keys fmt] by (auto simp: renders_def)
  then show ?thesis using JObj by (simp add: upstream_output_def)
qed (use assms in \<open>simp_all add: upstream_output_def renders_def\<close>)

lemma kept_set_column:
  assumes "distinct (task_keys s)" "task_get i s = Some t" "kept_row t (f t)"
  shows "kept_tasks s (set_column i f s)"
proof (rule kept_update)
  show "db_tasks (set_column i f s) = rows_update (\<lambda>r. task_id r = i) f (db_tasks s)" by (simp add: set_column_def)
  show "kept_row r (f r)" if "r \<in> set (db_tasks s)" "task_id r = i" for r
    using task_keys_only [OF assms(1,2) that] assms(3) by simp
qed

lemma inject_block_ok:
  assumes "distinct (task_keys s)" "task_get i s = Some t" "renders t"
  shows "\<exists>s'. inject_block t pm block s = (Inr (), s') \<and> kept_tasks s s' \<and> db_links s' = db_links s"
proof -
  have key: "task_id t = i" using task_get_key [OF assms(2)] by simp
  show ?thesis
  proof (cases "dict_get_or pm ''target'' (JStr ''followup'') = JStr ''brief_context'' \<and> task_brief t \<noteq> JNull")
    case False
    have "kept_tasks s (set_column i (\<lambda>r. r\<lparr>task_description := x, task_version := task_version r + 1\<rparr>) s)" for x
      by (rule kept_set_column [OF assms(1,2)]) (simp add: kept_row_def gate_def renders_def)
    with False show ?thesis by (simp only: inject_block_def if_False key) (simp add: set_column_def)
  next
    case True
    then obtain d where d: "task_brief t = JObj d" "is_str (dict_get d ''context'') \<or> \<not> truthy (dict_get d ''context'')"
      using assms(3) by (auto simp: renders_def split: json.splits)
    have "kept_tasks s (set_column i (\<lambda>r. r\<lparr>task_brief := JObj (dict_set d ''context'' (JStr x)),
        task_version := task_version r + 1\<rparr>) s)" for x
      by (rule kept_set_column [OF assms(1,2)]) (use d(1) in \<open>simp add: kept_row_def gate_def renders_def\<close>)
    with True d show ?thesis
      by (cases "dict_get d ''context''") (simp_all add: inject_block_def key set_column_def)
  qed
qed

lemma mark_link_simps [simp]:
  "db_links (mark_link_fired i now s) = rows_update (\<lambda>l. link_id l = i) (fire_row now) (db_links s)"
  "db_tasks (mark_link_fired i now s) = db_tasks s" "task_get j (mark_link_fired i now s) = task_get j s"
  by (simp_all add: mark_link_fired_def task_get_def)

lemma fires_marks:
  assumes keys: "distinct (task_keys s)" and ok: "list_all renders (db_tasks s)" and "fires l s"
  shows "kept_tasks s (reconcile_link fmt now l s) \<and>
    db_links (reconcile_link fmt now l s) = rows_update (\<lambda>r. link_id r = link_id l) (fire_row now) (db_links s)"
    (is "?done (reconcile_link fmt now l s)")
proof -
  have row: "renders t" if "task_get i s = Some t" for i t
    using ok task_get_key [OF that] by (simp add: list_all_iff)
  have marked: "?done (mark_link_fired (link_id l) now s)" by (simp add: kept_refl)
  show ?thesis
  proof (cases "link_kind l = ''pipe''")
    case True
    then obtain up where up: "task_get (link_from l) s = Some up" "link_due up"
      using assms(3) by (auto simp: fires_def split: option.splits)
    obtain c where c: "upstream_output fmt up (link_payload_map l) s = Inr c" using upstream_output_ok row up(1) by blast
    show ?thesis
    proof (cases "\<exists>down. task_get (link_to l) s = Some down \<and> task_status down \<noteq> TDone \<and> task_status down \<noteq> TCancelled")
      case False
      then show ?thesis using marked True up
        by (auto simp: reconcile_link_def fire_pipe_def split: option.split)
    next
      case open_end: True
      then obtain down where down: "task_get (link_to l) s = Some down" "task_status down \<noteq> TDone" "task_status down \<noteq> TCancelled"
        by blast
      obtain s1 where s1: "inject_block down (link_payload_map l) (pipe_block l up c) s = (Inr (), s1)" "kept_tasks s s1" "db_links s1 = db_links s"
        using inject_block_ok [OF keys down(1) row [OF down(1)]] by blast
      define s2 where "s2 = mark_link_fired (link_id l) now s1"
      have s2: "kept_tasks s s2" "db_links s2 = rows_update (\<lambda>r. link_id r = link_id l) (fire_row now) (db_links s)"
        using s1(2,3) kept_trans [OF s1(2) kept_refl] by (simp_all add: s2_def)
      have after: "?done (emit i ELog body payload now (publish_task WModified fresh None now s2))" for i body payload fresh
      proof -
        let ?p = "publish_task WModified fresh None now s2"
        have p: "kept_tasks s ?p" "db_links ?p = db_links s2"
          using kept_trans [OF s2(1) kept_refl] by (simp_all add: publish_task_def)
        have "distinct (task_keys ?p)" using kept_keys [OF p(1)] keys by simp
        with p s2(2) show ?thesis using kept_trans [OF p(1) kept_emit] by (simp add: emit_links)
      qed
      have "?done (case task_get (task_id down) s2 of None \<Rightarrow> s2 | Some fresh \<Rightarrow>
          emit (task_id fresh) ELog body payload now (publish_task WModified fresh None now s2))" for body payload
        using after s2 by (simp split: option.split)
      then have "?done (pipe_fired l up down now s1)" by (simp add: pipe_fired_def Let_def flip: s2_def)
      then show ?thesis using True up down c s1(1) by (simp add: reconcile_link_def fire_pipe_def)
    qed
  next
    case False
    show ?thesis
    proof (cases "\<exists>child parent. task_get (link_to l) s = Some child \<and> link_due child \<and>
        task_get (link_from l) s = Some parent \<and> task_status parent \<noteq> TCancelled")
      case no: False
      then show ?thesis using False marked assms(3)
        by (auto simp: reconcile_link_def flow_report_def fires_def split: option.splits)
    next
      case True
      then obtain child parent where ends: "task_get (link_to l) s = Some child" "link_due child"
          "task_get (link_from l) s = Some parent" "task_status parent \<noteq> TCancelled" by blast
      obtain c where c: "upstream_output fmt child (link_payload_map l) s = Inr c" using upstream_output_ok row ends(1) by blast
      have same: "?done (publish_opt r None now (mark_link_fired (link_id l) now (snd (draw p s)\<lparr>db_events := es\<rparr>)))" for r p es
        by (simp add: publish_opt_def publish_task_def kept_refl split: option.split)
      show ?thesis
        using False ends c same by (simp add: reconcile_link_def flow_report_def Let_def case_prod_beta)
    qed
  qed
qed

section \<open>One pass\<close>

lemma fire_row_simps [simp]: "link_id (fire_row now l) = link_id l" "fire_row now (fire_row now l) = fire_row now l"
  "\<not> link_waiting (fire_row now l)"
  by (simp_all add: fire_row_def link_waiting_def)

lemma fold_links:
  assumes "distinct (task_keys s)" "list_all renders (db_tasks s)"
  shows "kept_tasks s (fold (reconcile_link fmt now) ls s) \<and>
    db_links (fold (reconcile_link fmt now) ls s) =
      rows_update (\<lambda>r. link_id r \<in> link_id ` {l \<in> set ls. fires l s}) (fire_row now) (db_links s)"
  using assms
proof (induction ls arbitrary: s)
  case Nil
  then show ?case by (simp add: kept_refl rows_update_none)
next
  case (Cons l ls)
  let ?s = "reconcile_link fmt now l s"
  have kept: "kept_tasks s ?s"
    using fires_marks [OF Cons.prems] not_fires [of l s] kept_refl [of s s] by (cases "fires l s") simp_all
  have links: "db_links ?s = (if fires l s then rows_update (\<lambda>r. link_id r = link_id l) (fire_row now) (db_links s) else db_links s)"
    using fires_marks [OF Cons.prems] not_fires [of l s] by simp
  have "distinct (task_keys ?s)" "list_all renders (db_tasks ?s)"
    using kept_keys [OF kept] kept_renders [OF kept] Cons.prems by simp_all
  note rest = Cons.IH [OF this]
  have same: "{m \<in> set ls. fires m ?s} = {m \<in> set ls. fires m s}" using kept_fires [OF kept] by simp
  have "rows_update (\<lambda>r. link_id r \<in> link_id ` {m \<in> set ls. fires m s}) (fire_row now)
      (if fires l s then rows_update (\<lambda>r. link_id r = link_id l) (fire_row now) rows else rows) =
    rows_update (\<lambda>r. link_id r \<in> link_id ` {m \<in> set (l # ls). fires m s}) (fire_row now) rows" for rows
    unfolding rows_update_def by (cases "fires l s") auto
  then show ?case using rest links kept_trans [OF kept] by (simp add: same)
qed

text \<open>C23: one pass fires exactly the waiting links whose finished task is done and, if it carries a Brief,
  accepted (or whose driven task is gone); it changes nothing the firing of a link depends on, so the next
  pass finds nothing to do: every link fires once.\<close>

theorem links_fire_once:
  assumes "distinct (task_keys s)" "distinct (map link_id (db_links s))" "list_all renders (db_tasks s)"
  shows "db_links (link_reconcile fmt now s) =
      map (\<lambda>l. if link_waiting l \<and> fires l s then fire_row now l else l) (db_links s) \<and>
    (\<forall>i. map_option gate (task_get i (link_reconcile fmt now s)) = map_option gate (task_get i s)) \<and>
    link_reconcile fmt2 later (link_reconcile fmt now s) = link_reconcile fmt now s"
proof -
  let ?s = "link_reconcile fmt now s"
  note pass = fold_links [OF assms(1,3), of fmt now "filter link_waiting (db_links s)", folded link_reconcile_def]
  have "link_id r \<in> link_id ` {l \<in> set (filter link_waiting (db_links s)). fires l s} \<longleftrightarrow> link_waiting r \<and> fires r s"
    if "r \<in> set (db_links s)" for r
    using assms(2) that by (auto simp: distinct_map inj_on_def)
  then have links: "db_links ?s = map (\<lambda>l. if link_waiting l \<and> fires l s then fire_row now l else l) (db_links s)"
    using pass by (auto simp: rows_update_def)
  have idle: "fold (reconcile_link fmt2 later) ls ?s = ?s" if "\<And>l. l \<in> set ls \<Longrightarrow> \<not> fires l ?s" for ls
    using that by (induction ls) (simp_all add: not_fires)
  have "\<not> fires l ?s" if "l \<in> set (filter link_waiting (db_links ?s))" for l
    using that kept_fires [of s ?s] pass by (auto simp: links split: if_splits)
  then have "link_reconcile fmt2 later ?s = ?s" unfolding link_reconcile_def [of fmt2] by (rule idle)
  then show ?thesis using links pass kept_gate [of s ?s] by simp
qed

definition piped_db :: db where
  "piped_db = sample_db\<lparr>db_tasks := [(fresh_task ''a'' ''b'' ''up'' None [])\<lparr>task_status := TDone\<rparr>, fresh_task ''z'' ''b'' ''down'' None [''a'']],
     db_links := [sample_link ''l1'' ''a'' ''z'' ''pipe'']\<rparr>"

lemma links_fire_once_witness:
  "map link_fired_at (db_links (link_reconcile (\<lambda>_. []) 7 piped_db)) = [Some 7] \<and>
   link_reconcile (\<lambda>_. []) 9 (link_reconcile (\<lambda>_. []) 7 piped_db) = link_reconcile (\<lambda>_. []) 7 piped_db"
proof -
  have "distinct (task_keys piped_db)" "distinct (map link_id (db_links piped_db))" "list_all renders (db_tasks piped_db)"
    by (simp_all add: piped_db_def task_keys_def fresh_task_def sample_link_def renders_def)
  from links_fire_once [OF this, of "\<lambda>_. []" 7 "\<lambda>_. []" 9] show ?thesis
    by (simp add: piped_db_def sample_link_def fires_def link_waiting_def fire_row_def task_get_def fresh_task_def link_due_def)
qed

section \<open>A pipe that comes too late\<close>

text \<open>The dependency of a pipe is on the status of the finished task, the firing waits for its
  acceptance: until then a pass leaves the pipe alone while an idle agent can claim the task behind it; and
  when that task is over by the time of the acceptance, the pipe is marked as fired and nothing is handed
  on.\<close>

theorem pipe_output_missed:
  assumes l: "link_kind l = ''pipe''" and up: "task_get (link_from l) s = Some up" "task_status up = TDone" "\<not> link_due up"
    and down: "task_get (link_to l) s = Some down" "task_status down = TOpen" "deps_done (task_depends_on down) s"
    and idle: "list_active_by_agent cb agent s = []"
    and late: "task_get (link_from l) s2 = Some up2" "link_due up2" "task_get (link_to l) s2 = Some down2" "task_status down2 = TDone"
  shows "reconcile_link fmt now l s = s \<and>
    (\<exists>t. fst (claim_task (link_to l) agent cb now s) = Inr (Some t)) \<and>
    reconcile_link fmt now l s2 = mark_link_fired (link_id l) now s2 \<and>
    db_tasks (reconcile_link fmt now l s2) = db_tasks s2 \<and> db_events (reconcile_link fmt now l s2) = db_events s2"
proof -
  have "\<not> fires l s" using l up by (simp add: fires_def)
  moreover have "claimable (link_to l) agent cb s" using down idle by (simp add: claimable_def)
  moreover have "reconcile_link fmt now l s2 = mark_link_fired (link_id l) now s2"
    using l late by (simp add: reconcile_link_def fire_pipe_def)
  ultimately show ?thesis using not_fires claim_granted(1) [OF _ down(1)] by (auto simp: mark_link_fired_def)
qed

definition briefed_up :: task where
  "briefed_up = (fresh_task ''a'' ''b'' ''up'' None [])\<lparr>task_status := TDone, task_brief := JObj []\<rparr>"

lemma pipe_output_missed_witness:
  "let accepted = briefed_up\<lparr>task_orch := JObj [(''accepted_at'', iso_stamp 4)]\<rparr>;
       before = piped_db\<lparr>db_tasks := [briefed_up, fresh_task ''z'' ''b'' ''down'' None [''a'']]\<rparr>;
       after = piped_db\<lparr>db_tasks := [accepted, (fresh_task ''z'' ''b'' ''down'' None [''a''])\<lparr>task_status := TDone\<rparr>]\<rparr>
   in (\<exists>t. fst (claim_task ''z'' ''ag'' None 5 before) = Inr (Some t)) \<and>
      reconcile_link (\<lambda>_. []) 5 (sample_link ''l1'' ''a'' ''z'' ''pipe'') after = mark_link_fired ''l1'' 5 after"
proof -
  let ?accepted = "briefed_up\<lparr>task_orch := JObj [(''accepted_at'', iso_stamp 4)]\<rparr>"
  let ?l = "sample_link ''l1'' ''a'' ''z'' ''pipe''"
  let ?before = "piped_db\<lparr>db_tasks := [briefed_up, fresh_task ''z'' ''b'' ''down'' None [''a'']]\<rparr>"
  let ?down = "(fresh_task ''z'' ''b'' ''down'' None [''a''])\<lparr>task_status := TDone\<rparr>"
  let ?after = "piped_db\<lparr>db_tasks := [?accepted, ?down]\<rparr>"
  have l: "link_kind ?l = ''pipe''" "link_id ?l = ''l1''" "link_to ?l = ''z''" by (simp_all add: sample_link_def)
  have up: "task_get (link_from ?l) ?before = Some briefed_up" "task_status briefed_up = TDone" "\<not> link_due briefed_up"
    by (simp_all add: task_get_def sample_link_def briefed_up_def fresh_task_def link_due_def orch_of_def dict_get_def)
  have down: "task_get (link_to ?l) ?before = Some (fresh_task ''z'' ''b'' ''down'' None [''a''])"
      "task_status (fresh_task ''z'' ''b'' ''down'' None [''a'']) = TOpen"
      "deps_done (task_depends_on (fresh_task ''z'' ''b'' ''down'' None [''a''])) ?before"
    by (simp_all add: task_get_def sample_link_def briefed_up_def fresh_task_def deps_done_def)
  have idle: "list_active_by_agent None ''ag'' ?before = []"
    by (simp add: list_active_by_agent_def briefed_up_def fresh_task_def)
  have late: "task_get (link_from ?l) ?after = Some ?accepted" "link_due ?accepted"
      "task_get (link_to ?l) ?after = Some ?down" "task_status ?down = TDone"
    by (simp_all add: task_get_def sample_link_def briefed_up_def fresh_task_def link_due_def orch_of_def dict_get_def iso_stamp_def)
  from pipe_output_missed [OF l(1) up down idle late, of "\<lambda>_. []" 5] show ?thesis
    by (simp add: Let_def l)
qed

end
