(* ===== verification/Graph_Cycle.thy ===== *)
theory Graph_Cycle
  imports Dispatch
begin

text \<open>
  One step of a running graph (\<^verbatim>\<open>services/graph_runtime\<close>): the records of \<^verbatim>\<open>state.py\<close>, the waits of
  \<^verbatim>\<open>polling.py\<close>, the request of \<^verbatim>\<open>a2a.py\<close> and the retry loop of \<^verbatim>\<open>cycle.py\<close>.  What everybody else does to the
  database while the cycle sleeps is the argument \<open>wo_others\<close>, indexed by the sleeps; a request is the
  argument \<open>wo_post\<close> of the dispatching controllers.  A wait reads the row at once and then after every
  interval until its deadline, which leaves room for \<open>polls\<close> reads; a read takes no time.
\<close>

section \<open>State and dependencies\<close>

record attempt =
  at_iteration :: int
  at_agent :: string
  at_status :: string
  at_summary :: string
  at_started :: int
  at_ended :: int

record node_result =
  nr_node :: string
  nr_task :: string
  nr_success :: bool
  nr_summary :: string
  nr_attempts :: "attempt list"
  nr_facts :: "json list"
  nr_code_refs :: "json list"

text \<open>\<open>OrchestratorState\<close>, with the database and the number of sleeps so far.\<close>

record graph_run =
  gr_prompt :: string
  gr_bundle :: string
  gr_recipe :: "string option"
  gr_results :: "(string \<times> node_result) list"
  gr_used :: "string set"
  gr_db :: db
  gr_sleeps :: nat

record graph_deps =
  gd_task_ids :: "(string \<times> string) list"
  gd_cookbook_id :: string
  gd_recipe_meta :: "(string \<times> json) list"
  gd_interval :: rat
  gd_timeout :: rat

record world =
  wo_others :: "nat \<Rightarrow> db \<Rightarrow> db"
  wo_clock :: "nat \<Rightarrow> int"
  wo_post :: post
  wo_fmt :: "json \<Rightarrow> string"

definition clock :: "world \<Rightarrow> graph_run \<Rightarrow> int" where
  "clock w g = wo_clock w (gr_sleeps g)"

definition sleep :: "world \<Rightarrow> graph_run \<Rightarrow> graph_run" where
  "sleep w g = g\<lparr>gr_db := wo_others w (gr_sleeps g) (gr_db g), gr_sleeps := Suc (gr_sleeps g)\<rparr>"

section \<open>Results of the nodes\<close>

definition result_of :: "string \<Rightarrow> graph_run \<Rightarrow> node_result option" where
  "result_of n g = map_of (gr_results g) n"

definition put_result :: "string \<Rightarrow> node_result \<Rightarrow> graph_run \<Rightarrow> graph_run" where
  "put_result n r g = g\<lparr>gr_results := (if result_of n g = None then gr_results g @ [(n, r)]
     else map (\<lambda>(k, v). if k = n then (k, r) else (k, v)) (gr_results g))\<rparr>"

definition fresh_result :: "string \<Rightarrow> string \<Rightarrow> bool \<Rightarrow> string \<Rightarrow> node_result" where
  "fresh_result n i success summary = \<lparr>nr_node = n, nr_task = i, nr_success = success, nr_summary = summary,
     nr_attempts = [], nr_facts = [], nr_code_refs = []\<rparr>"

definition append_attempt :: "string \<Rightarrow> string \<Rightarrow> attempt \<Rightarrow> graph_run \<Rightarrow> graph_run" where
  "append_attempt n i a g =
     (let r = (case result_of n g of Some r \<Rightarrow> r | None \<Rightarrow> fresh_result n i False [])
      in put_result n (r\<lparr>nr_attempts := nr_attempts r @ [a]\<rparr>) g)"

definition record_success :: "string \<Rightarrow> string \<Rightarrow> string \<Rightarrow> graph_run \<Rightarrow> graph_run" where
  "record_success n i summary g = put_result n (case result_of n g of
       None \<Rightarrow> fresh_result n i True summary
     | Some r \<Rightarrow> r\<lparr>nr_success := True, nr_summary := summary\<rparr>) g"

definition record_failure :: "world \<Rightarrow> string \<Rightarrow> string \<Rightarrow> int \<Rightarrow> string \<Rightarrow> string \<Rightarrow> graph_run \<Rightarrow> string \<times> graph_run" where
  "record_failure w n i iteration st summary g =
     (let r = (case result_of n g of
            None \<Rightarrow> fresh_result n i False summary
          | Some r \<Rightarrow> r\<lparr>nr_success := False, nr_summary := summary\<rparr>);
          a = \<lparr>at_iteration = iteration, at_agent = [], at_status = st, at_summary = summary, at_started = clock w g,
               at_ended = clock w g\<rparr>
      in (''error: '' @ summary,
          put_result n (if 0 < iteration then r\<lparr>nr_attempts := nr_attempts r @ [a]\<rparr> else r) g))"

definition collect_facts_and_code_refs :: "string \<Rightarrow> string \<Rightarrow> graph_run \<Rightarrow> graph_run" where
  "collect_facts_and_code_refs n i g = (case result_of n g of
       None \<Rightarrow> g
     | Some r \<Rightarrow> let es = events_by_task i (gr_db g) in
         put_result n (r\<lparr>nr_facts := nr_facts r @ concat (map event_facts es),
           nr_code_refs := nr_code_refs r @ concat (map event_code_refs es)\<rparr>) g)"

text \<open>The three lines that end a successful cycle.\<close>

definition finish :: "string \<Rightarrow> string \<Rightarrow> string \<Rightarrow> string \<Rightarrow> graph_run \<Rightarrow> string \<times> graph_run" where
  "finish n i summary who g = (''done: '' @ who, collect_facts_and_code_refs n i (record_success n i summary g))"

section \<open>Waiting\<close>

definition TERMINAL_STATUSES :: "task_status set" where
  "TERMINAL_STATUSES = {TDone, TBlocked, TCancelled}"

definition polls :: "graph_deps \<Rightarrow> nat" where
  "polls d = nat \<lfloor>gd_timeout d / gd_interval d\<rfloor> + 1"

datatype waited = Final task | Timeout | Disappeared

fun wait_for_task_terminal :: "world \<Rightarrow> string \<Rightarrow> nat \<Rightarrow> graph_run \<Rightarrow> waited \<times> graph_run" where
  "wait_for_task_terminal w i 0 g = (Timeout, g)"
| "wait_for_task_terminal w i (Suc n) g = (case task_get i (gr_db g) of
       None \<Rightarrow> (Disappeared, g)
     | Some t \<Rightarrow> if task_status t \<in> TERMINAL_STATUSES then (Final t, g) else wait_for_task_terminal w i n (sleep w g))"

datatype deps_outcome = Pending "string list" | Missing string | Failed string task_status string

fun read_deps :: "task_status \<Rightarrow> string list \<Rightarrow> db \<Rightarrow> deps_outcome" where
  "read_deps accept [] s = Pending []"
| "read_deps accept (i # is) s = (case task_get i s of
       None \<Rightarrow> Missing i
     | Some t \<Rightarrow>
         if task_status t = accept then read_deps accept is s
         else if task_status t \<in> TERMINAL_STATUSES
         then Failed i (task_status t) (case task_blocked_reason t of None \<Rightarrow> [] | Some r \<Rightarrow> r)
         else (case read_deps accept is s of Pending js \<Rightarrow> Pending (i # js) | out \<Rightarrow> out))"

fun wait_for_dependencies :: "world \<Rightarrow> task_status \<Rightarrow> nat \<Rightarrow> string list \<Rightarrow> graph_run \<Rightarrow> deps_outcome \<times> graph_run" where
  "wait_for_dependencies w accept 0 pending g = (Pending pending, g)"
| "wait_for_dependencies w accept (Suc n) pending g =
     (if pending = [] then (Pending [], g)
      else case read_deps accept pending (gr_db g) of
          Pending js \<Rightarrow> if js = [] then (Pending [], g) else wait_for_dependencies w accept n js (sleep w g)
        | out \<Rightarrow> (out, g))"

section \<open>The request\<close>

definition ACCEPTED_STATES :: "json set" where
  "ACCEPTED_STATES = {JStr ''submitted'', JStr ''working'', JStr ''completed''}"

definition got :: "json \<Rightarrow> string \<Rightarrow> json \<Rightarrow> json" where
  "got v k dflt = (case v of JObj d \<Rightarrow> (if dict_has d k then dict_get d k else dflt) | _ \<Rightarrow> dflt)"

text \<open>The answer; a state that cannot be hashed raises at the lookup in the set.\<close>

definition accepted_answer :: "json \<Rightarrow> bool res" where
  "accepted_answer body =
     (let result = (case body of JObj _ \<Rightarrow> got body ''result'' (JObj []) | _ \<Rightarrow> JObj []);
          state = (case result of JObj _ \<Rightarrow> (case got result ''status'' (JObj []) of
                JObj st \<Rightarrow> got (JObj st) ''state'' (JStr []) | _ \<Rightarrow> JStr []) | _ \<Rightarrow> JStr [])
      in if is_dict state \<or> is_list state then Inl (TypeError [Lit ''unhashable type''])
         else Inr (state \<in> ACCEPTED_STATES \<or> truthy (got result ''id'' JNull)))"

definition dispatch_to_gateway :: "world \<Rightarrow> graph_deps \<Rightarrow> presence \<Rightarrow> task \<Rightarrow> string \<Rightarrow> nat \<Rightarrow> db \<Rightarrow> bool res \<times> db" where
  "dispatch_to_gateway w d a t prompt n s =
     (let (mid, s1) = draw [] s;
          meta = [(''task_id'', JStr (task_id t)), (''bundle_id'', JStr (task_bundle t)), (''attempt'', JInt (int n))] @
            List.map_filter (\<lambda>k. map_option (Pair k) (map_of (gd_recipe_meta d) k))
              [''recipe_id'', ''recipe_name'', ''repo_url'', ''branch''];
          payload = a2a_message (task_id t @ '':'' @ str_of_nat n) mid prompt meta
      in case wo_post w (gateway_owner a) (before_at (agent_id a)) payload s1 of
           (Response code (Some body), s2) \<Rightarrow> (if code = 200 then accepted_answer body else Inr False, s2)
         | (_, s2) \<Rightarrow> (Inr False, s2))"

section \<open>Context from upstream\<close>

text \<open>\<open>TapeManager.get_fork_entries\<close>: the entries of one tape, oldest first.\<close>

definition get_fork_entries :: "string \<Rightarrow> string \<Rightarrow> db \<Rightarrow> tape_entry list" where
  "get_fork_entries b i s = filter (\<lambda>e. te_tape e = ''fork:'' @ b @ ''/'' @ i) (db_tapes s)"

definition bullet :: "string \<Rightarrow> string" where
  "bullet x = ''- '' @ x @ nl"

definition bullets :: "(json \<Rightarrow> string) \<Rightarrow> string \<Rightarrow> json \<Rightarrow> string res" where
  "bullets show title v = (if \<not> truthy v then Inr []
     else bind_res (py_iter v) (\<lambda>xs. Inr (''**'' @ title @ '':**'' @ nl @ concat (map (bullet \<circ> show) xs))))"

definition claim_value :: "(json \<Rightarrow> string) \<Rightarrow> json \<Rightarrow> json \<Rightarrow> json" where
  "claim_value fmt dflt f = (case f of JObj _ \<Rightarrow> got f ''claim'' dflt | _ \<Rightarrow> JStr (py_str fmt f))"

text \<open>\<open>", ".join(paths)\<close>.\<close>

definition join_paths :: "json \<Rightarrow> string res" where
  "join_paths v = bind_res (py_iter v) (\<lambda>xs. if list_all is_str xs
     then Inr (str_join '', '' (map (\<lambda>x. case x of JStr p \<Rightarrow> p | _ \<Rightarrow> []) xs))
     else Inl (TypeError [Lit ''sequence item: expected str instance'']))"

definition code_line :: "(json \<Rightarrow> string) \<Rightarrow> json \<Rightarrow> string res" where
  "code_line fmt cr = (if \<not> truthy cr then Inr []
     else if \<not> is_dict cr then Inl (AttributeError [Lit ''object has no attribute get''])
     else bind_res (if truthy (got cr ''paths'' JNull) then join_paths (got cr ''paths'' JNull) else Inr [])
       (\<lambda>paths. Inr (''**Code:** branch `'' @ py_str fmt (got cr ''branch'' (JStr ''?'')) @ ''` '' @ paths @ nl)))"

definition anchor_section :: "(json \<Rightarrow> string) \<Rightarrow> string \<Rightarrow> string \<Rightarrow> json \<Rightarrow> string res" where
  "anchor_section fmt n i p =
     (if \<not> is_dict p then Inl (AttributeError [Lit ''object has no attribute get''])
      else bind_res (bullets (\<lambda>f. py_str fmt (claim_value fmt f f)) ''Facts'' (got p ''facts'' JNull)) (\<lambda>facts.
        bind_res (bullets (py_str fmt) ''Decisions'' (got p ''decisions'' JNull)) (\<lambda>decisions.
        bind_res (code_line fmt (got p ''code_ref'' JNull)) (\<lambda>code.
        bind_res (bullets (py_str fmt) ''Next steps'' (got p ''next_steps'' JNull)) (\<lambda>steps.
          Inr (''### '' @ n @ '' ('' @ i @ ''): '' @ py_str fmt (got p ''summary'' (JStr ''completed'')) @ nl @
            facts @ decisions @ code @ steps))))))"

fun path_lines :: "json list \<Rightarrow> string res" where
  "path_lines [] = Inr []"
| "path_lines (cr # crs) = bind_res (if is_dict cr then join_paths (got cr ''paths'' (JArr [])) else Inr [])
     (\<lambda>p. bind_res (path_lines crs) (\<lambda>rest. Inr (bullet p @ rest)))"

definition result_section :: "(json \<Rightarrow> string) \<Rightarrow> string \<Rightarrow> string \<Rightarrow> node_result \<Rightarrow> string res" where
  "result_section fmt n i r =
     bind_res (if nr_code_refs r = [] then Inr [] else
         bind_res (path_lines (take 5 (nr_code_refs r))) (\<lambda>ls. Inr (''**Code changes:**'' @ nl @ ls)))
       (\<lambda>code. Inr (''### '' @ n @ '' ('' @ i @ ''): '' @ nr_summary r @ nl @
          (if nr_facts r = [] then [] else ''**Facts:**'' @ nl @
             concat (map (bullet \<circ> py_str fmt) (filter truthy (map (claim_value fmt (JStr [])) (take 10 (nr_facts r)))))) @ code))"

text \<open>\<open>{v: k for k, v in task_id_map.items()}\<close>: the last node of a task counts.\<close>

definition node_of :: "graph_deps \<Rightarrow> string \<Rightarrow> string" where
  "node_of d i = (case map_of (rev (map (\<lambda>(n, i). (i, n)) (gd_task_ids d))) i of None \<Rightarrow> i | Some n \<Rightarrow> n)"

text \<open>What fails while an anchor is read is swallowed, and the results in memory are used instead.\<close>

definition upstream_section :: "world \<Rightarrow> graph_deps \<Rightarrow> graph_run \<Rightarrow> string \<Rightarrow> string list res" where
  "upstream_section w d g i =
     (let n = node_of d i;
          anchors = filter (\<lambda>e. te_kind e = ''anchor'') (get_fork_entries (gr_bundle g) i (gr_db g));
          from_results = (case result_of n g of None \<Rightarrow> Inr []
            | Some r \<Rightarrow> bind_res (result_section (wo_fmt w) n i r) (\<lambda>x. Inr [x]))
      in if anchors = [] then from_results
         else (case anchor_section (wo_fmt w) n i (te_payload (last anchors)) of
             Inr x \<Rightarrow> Inr [x] | Inl e \<Rightarrow> from_results))"

fun upstream_sections :: "world \<Rightarrow> graph_deps \<Rightarrow> graph_run \<Rightarrow> string list \<Rightarrow> string list res" where
  "upstream_sections w d g [] = Inr []"
| "upstream_sections w d g (i # is) = bind_res (upstream_section w d g i) (\<lambda>xs.
     bind_res (upstream_sections w d g is) (\<lambda>ys. Inr (xs @ ys)))"

definition assemble_upstream_context :: "world \<Rightarrow> graph_deps \<Rightarrow> string list \<Rightarrow> graph_run \<Rightarrow> string res" where
  "assemble_upstream_context w d is g = bind_res (upstream_sections w d g is) (\<lambda>xs.
     Inr (if xs = [] then [] else ''## Prior work from upstream tasks'' @ nl @ nl @ str_join nl xs))"

section \<open>Choosing and asking an agent\<close>

definition pick_with_diversity :: "presence list \<Rightarrow> string \<Rightarrow> string set \<Rightarrow> string set \<Rightarrow> presence option" where
  "pick_with_diversity agents kind tried used = (case pick_agent_for_kind agents kind (tried \<union> used) of
       Some a \<Rightarrow> Some a
     | None \<Rightarrow> (case pick_agent_for_kind agents kind tried of
           Some a \<Rightarrow> Some a | None \<Rightarrow> pick_agent_for_kind agents kind {}))"

definition pick_now :: "graph_deps \<Rightarrow> string \<Rightarrow> string set \<Rightarrow> graph_run \<Rightarrow> presence option" where
  "pick_now d kind tried g = pick_with_diversity (agents_by_cookbook (gd_cookbook_id d) (gr_db g)) kind tried (gr_used g)"

text \<open>\<open>_GATEWAY_WAIT\<close>: sixty seconds in steps of the interval.\<close>

definition gateway_polls :: "graph_deps \<Rightarrow> nat" where
  "gateway_polls d = nat \<lceil>60 / gd_interval d\<rceil>"

fun await_agent :: "world \<Rightarrow> graph_deps \<Rightarrow> string \<Rightarrow> string set \<Rightarrow> nat \<Rightarrow> graph_run \<Rightarrow> presence option \<times> graph_run" where
  "await_agent w d kind tried 0 g = (None, g)"
| "await_agent w d kind tried (Suc n) g =
     (let g' = sleep w g in (case pick_now d kind tried g' of
        Some a \<Rightarrow> (Some a, g') | None \<Rightarrow> await_agent w d kind tried n g'))"

definition choose_agent :: "world \<Rightarrow> graph_deps \<Rightarrow> string \<Rightarrow> string set \<Rightarrow> graph_run \<Rightarrow> presence option \<times> graph_run" where
  "choose_agent w d kind tried g = (case pick_now d kind tried g of
       Some a \<Rightarrow> (Some a, g) | None \<Rightarrow> await_agent w d kind tried (gateway_polls d) g)"

definition build_prompt :: "string \<Rightarrow> string \<Rightarrow> string \<Rightarrow> nat \<Rightarrow> string \<Rightarrow> string" where
  "build_prompt base instruction summary n upstream = str_join (nl @ nl)
     ([''[Attempt '' @ str_of_nat n @ ''] '' @ instruction] @ (if upstream = [] then [] else [upstream]) @
      [''Context: '' @ base] @ (if summary = [] then [] else [''Prior failure: '' @ summary]))"

definition refine :: "string \<Rightarrow> string \<Rightarrow> string" where
  "refine original failure = original @ nl @ nl @ ''The previous attempt failed: '' @ failure @ nl @
     ''Please address the failure and try again.''"

definition mark_claimed :: "world \<Rightarrow> string \<Rightarrow> presence \<Rightarrow> graph_run \<Rightarrow> graph_run" where
  "mark_claimed w i a g = (let now = clock w g in
     case task_update i (claim_for (agent_id a) now) now (gr_db g) of
       (Inl e, s) \<Rightarrow> g\<lparr>gr_db := s\<rparr>
     | (Inr updated, s) \<Rightarrow> g\<lparr>gr_db := publish_opt updated None now s\<rparr>)"

definition reopen :: "world \<Rightarrow> string \<Rightarrow> graph_run \<Rightarrow> graph_run" where
  "reopen w i g = g\<lparr>gr_db := snd (reopen_for_rerun i (clock w g) (gr_db g))\<rparr>"

definition outcome_reason :: "task \<Rightarrow> string" where
  "outcome_reason t = (if opt_truthy (task_blocked_reason t) then the (task_blocked_reason t)
     else ''status='' @ task_status_name (task_status t))"

definition owner_of :: "task \<Rightarrow> string" where
  "owner_of t = (case task_claimed_by t of None \<Rightarrow> [] | Some a \<Rightarrow> a)"

definition or_else :: "string \<Rightarrow> string \<Rightarrow> string" where
  "or_else x y = (if x = [] then y else x)"

section \<open>The cycle\<close>

text \<open>The arguments of \<open>dispatch_cycle\<close>.\<close>

record step_args =
  sa_node :: string
  sa_kind :: string
  sa_instruction :: string
  sa_max :: nat
  sa_accept :: task_status

definition dep_failure :: "graph_deps \<Rightarrow> (json \<Rightarrow> string) \<Rightarrow> nat \<Rightarrow> deps_outcome \<Rightarrow> (string \<times> string) option" where
  "dep_failure d fmt n out = (case out of
       Pending js \<Rightarrow> if js = [] then None else Some (''dep_timeout'', ''timed out after '' @ fmt (JFloat (gd_timeout d)) @
         ''s waiting for '' @ str_of_nat n @ '' upstream dependency(ies)'')
     | Failed i st reason \<Rightarrow> Some (''dep_failed'', ''upstream failure: dependency '' @ i @ '' ended with '' @
         task_status_name st @ '': '' @ or_else reason ''no reason'')
     | Missing i \<Rightarrow> Some (''dep_missing'', ''dependency lookup failed: dependency '' @ i @ '' not found in db''))"

definition mapped_task :: "graph_deps \<Rightarrow> step_args \<Rightarrow> string" where
  "mapped_task d a = (case map_of (gd_task_ids d) (sa_node a) of None \<Rightarrow> [] | Some i \<Rightarrow> i)"

text \<open>Lookup, resume guard and fan-in guard: either an answer or the task to work on.\<close>

definition enter_step :: "world \<Rightarrow> graph_deps \<Rightarrow> step_args \<Rightarrow> graph_run \<Rightarrow> (string + task) \<times> graph_run" where
  "enter_step w d a g =
     (let n = sa_node a; i = mapped_task d a;
          stop = (\<lambda>(out, g). (Inl out, g))
      in if i = [] then stop (record_failure w n [] 1 ''no_task'' (''no task_id mapped for node '' @ quoted n) g)
         else case task_get i (gr_db g) of
           None \<Rightarrow> stop (record_failure w n i 1 ''missing_task'' (''task '' @ i @ '' not found in db'') g)
         | Some t \<Rightarrow>
             if task_status t = sa_accept a
             then stop (finish n i ''already complete'' (or_else (owner_of t) ''cached'') g)
             else if task_depends_on t = [] then (Inr t, g)
             else (case wait_for_dependencies w (sa_accept a) (polls d) (filter (\<lambda>j. j \<noteq> []) (task_depends_on t)) g of
                (out, g1) \<Rightarrow> (case dep_failure d (wo_fmt w) (length (task_depends_on t)) out of
                    Some (st, summary) \<Rightarrow> stop (record_failure w n i 0 st summary g1)
                  | None \<Rightarrow> (case task_get i (gr_db g1) of
                        None \<Rightarrow> (Inr t, g1)
                      | Some t' \<Rightarrow> if task_status t' = sa_accept a
                          then stop (finish n i ''already complete (won race with sibling fire)'' (or_else (owner_of t') ''cached'') g1)
                          else (Inr t', g1)))))"

definition attempt_record :: "nat \<Rightarrow> string \<Rightarrow> string \<Rightarrow> string \<Rightarrow> int \<Rightarrow> int \<Rightarrow> attempt" where
  "attempt_record n who st summary started ended =
     \<lparr>at_iteration = int n, at_agent = who, at_status = st, at_summary = summary, at_started = started, at_ended = ended\<rparr>"

text \<open>The in-flight guard: an answer, or the failure so far and the refined instruction.\<close>

definition adopt_running :: "world \<Rightarrow> graph_deps \<Rightarrow> step_args \<Rightarrow> task \<Rightarrow> graph_run
    \<Rightarrow> (string + string \<times> string) res \<times> graph_run" where
  "adopt_running w d a t g =
     (if \<not> is_active t then (Inr (Inr ([], sa_instruction a)), g)
      else let n = sa_node a; i = task_id t; who = owner_of t; started = clock w g in
        (case wait_for_task_terminal w i (polls d) g of
           (Disappeared, g1) \<Rightarrow> (Inl (ValueError [Lit ''task '', Lit i, Lit '' disappeared during polling'']), g1)
         | (Timeout, g1) \<Rightarrow>
             let summary = ''timeout waiting for '' @ or_else who ''existing run''
             in (Inr (Inr (summary, refine (sa_instruction a) summary)),
                 append_attempt n i (attempt_record 0 who ''timeout'' (''already in-flight on entry; timed out after '' @
                   wo_fmt w (JFloat (gd_timeout d)) @ ''s waiting for terminal'') started (clock w g1)) g1)
         | (Final t', g1) \<Rightarrow>
             if task_status t' = sa_accept a then
               let g2 = append_attempt n i (attempt_record 0 who ''done'' (''task was already in-flight on entry; '' @
                     or_else who ''existing run'' @ '' completed it'') started (clock w g1)) g1;
                   (out, g3) = finish n i (''adopted existing run by '' @ or_else who ''unknown'') (or_else who ''adopted'') g2
               in (Inr (Inl out), g3)
             else let reason = outcome_reason t'
               in (Inr (Inr (reason, refine (sa_instruction a) reason)),
                   reopen w i (append_attempt n i (attempt_record 0 who (task_status_name (task_status t'))
                     (''in-flight on entry, ended with '' @ reason) started (clock w g1)) g1))))"

definition exhausted :: "world \<Rightarrow> step_args \<Rightarrow> string \<Rightarrow> string \<Rightarrow> graph_run \<Rightarrow> string res \<times> graph_run" where
  "exhausted w a i summary g =
     (let (out, g') = record_failure w (sa_node a) i (int (sa_max a)) ''exhausted''
            (''exhausted '' @ str_of_nat (sa_max a) @ '' attempt(s); last: '' @ summary) g
      in (Inr out, g'))"

definition asked :: "presence \<Rightarrow> graph_run \<Rightarrow> graph_run" where
  "asked ag g = g\<lparr>gr_used := insert (agent_id ag) (gr_used g)\<rparr>"

text \<open>What one attempt does after an agent was chosen: an answer, or the failure the next one is told of.\<close>

definition try_agent :: "world \<Rightarrow> graph_deps \<Rightarrow> step_args \<Rightarrow> task \<Rightarrow> string \<Rightarrow> nat \<Rightarrow> int \<Rightarrow> presence \<Rightarrow> string \<Rightarrow> string \<Rightarrow> graph_run
    \<Rightarrow> (string + string) res \<times> graph_run" where
  "try_agent w d a t upstream n started ag summary instruction g =
     (let i = task_id t; who = agent_id ag;
          note_attempt = (\<lambda>st x g. append_attempt (sa_node a) i (attempt_record n who st x started (clock w g)) g)
      in case dispatch_to_gateway w d ag t (build_prompt (gr_prompt g) instruction summary n upstream) n (gr_db g) of
           (Inl e, s1) \<Rightarrow> (Inl e, g\<lparr>gr_db := s1\<rparr>)
         | (Inr False, s1) \<Rightarrow> (Inr (Inr (''gateway '' @ who @ '' rejected'')),
             note_attempt ''rejected'' (''gateway '' @ who @ '' rejected dispatch'') (g\<lparr>gr_db := s1\<rparr>))
         | (Inr True, s1) \<Rightarrow>
             (case wait_for_task_terminal w i (polls d) (mark_claimed w i ag (g\<lparr>gr_db := s1\<rparr>)) of
                (Disappeared, g2) \<Rightarrow> (Inl (ValueError [Lit ''task '', Lit i, Lit '' disappeared during polling'']), g2)
              | (Timeout, g2) \<Rightarrow> (Inr (Inr (''timeout on '' @ who)),
                  note_attempt ''timeout'' (''timed out after '' @ wo_fmt w (JFloat (gd_timeout d)) @ ''s'') g2)
              | (Final t', g2) \<Rightarrow>
                  if task_status t' = sa_accept a then
                    let g3 = note_attempt ''done'' (who @ '' completed in attempt '' @ str_of_nat n) g2;
                        (out, g4) = finish (sa_node a) i (''completed by '' @ who @ '' in '' @ str_of_nat n @ '' attempt(s)'') who g3
                    in (Inr (Inl out), g4)
                  else (Inr (Inr (outcome_reason t')),
                    reopen w i (note_attempt (task_status_name (task_status t')) (outcome_reason t') g2))))"

fun attempts :: "world \<Rightarrow> graph_deps \<Rightarrow> step_args \<Rightarrow> task \<Rightarrow> string \<Rightarrow> nat \<Rightarrow> string set \<Rightarrow> string \<Rightarrow> string \<Rightarrow> graph_run
    \<Rightarrow> string res \<times> graph_run" where
  "attempts w d a t upstream 0 tried summary instruction g = exhausted w a (task_id t) summary g"
| "attempts w d a t upstream (Suc k) tried summary instruction g =
     (let started = clock w g; n = sa_max a - k in
      case choose_agent w d (sa_kind a) tried g of
        (None, g1) \<Rightarrow> exhausted w a (task_id t) ''no eligible gateway''
           (append_attempt (sa_node a) (task_id t) (attempt_record n [] ''no_agent'' ''no eligible gateway in pool'' started (clock w g1)) g1)
      | (Some ag, g1) \<Rightarrow> bind_st (try_agent w d a t upstream n started ag summary instruction (asked ag g1)) (\<lambda>out g2.
          case out of Inl answer \<Rightarrow> (Inr answer, g2)
          | Inr failure \<Rightarrow> attempts w d a t upstream k (insert (agent_id ag) tried) failure
              (refine (sa_instruction a) failure) g2))"

definition dispatch_cycle :: "world \<Rightarrow> graph_deps \<Rightarrow> step_args \<Rightarrow> graph_run \<Rightarrow> string res \<times> graph_run" where
  "dispatch_cycle w d a g = (case enter_step w d a g of
       (Inl answer, g1) \<Rightarrow> (Inr answer, g1)
     | (Inr t, g1) \<Rightarrow> bind_st (adopt_running w d a t g1) (\<lambda>out g2. case out of
           Inl answer \<Rightarrow> (Inr answer, g2)
         | Inr (summary, instruction) \<Rightarrow>
             (case assemble_upstream_context w d (task_depends_on t) g2 of
                Inl e \<Rightarrow> (Inl e, g2)
              | Inr upstream \<Rightarrow> attempts w d a t upstream (sa_max a) {} summary instruction g2)))"

section \<open>Lemmas on the records\<close>

lemma result_put [simp]: "result_of m (put_result n r g) = (if m = n then Some r else result_of m g)"
proof (cases "map_of (gr_results g) n")
  case None
  then show ?thesis by (auto simp: put_result_def result_of_def map_add_def split: option.split)
next
  case (Some r0)
  then show ?thesis by (simp add: put_result_def result_of_def map_of_replace)
qed

lemma put_result_simps [simp]: "gr_db (put_result n r g) = gr_db g" "gr_sleeps (put_result n r g) = gr_sleeps g"
  "gr_used (put_result n r g) = gr_used g" "gr_prompt (put_result n r g) = gr_prompt g" "gr_bundle (put_result n r g) = gr_bundle g"
  by (simp_all add: put_result_def)

lemma result_db [simp]: "result_of m (g\<lparr>gr_db := s\<rparr>) = result_of m g" "result_of m (sleep w g) = result_of m g"
  "result_of m (asked ag g) = result_of m g" "gr_db (asked ag g) = gr_db g" "gr_sleeps (asked ag g) = gr_sleeps g"
  by (simp_all add: result_of_def sleep_def asked_def)

lemma sleep_simps [simp]: "gr_sleeps (sleep w g) = Suc (gr_sleeps g)"
  by (simp add: sleep_def)

text \<open>How many attempts a node has on record.\<close>

definition tries :: "string \<Rightarrow> graph_run \<Rightarrow> nat" where
  "tries n g = (case result_of n g of None \<Rightarrow> 0 | Some r \<Rightarrow> length (nr_attempts r))"

lemma tries_db [simp]: "tries n (g\<lparr>gr_db := s\<rparr>) = tries n g" "tries n (sleep w g) = tries n g" "tries n (asked ag g) = tries n g"
  by (simp_all add: tries_def)

lemma append_attempt_simps [simp]: "gr_db (append_attempt n i x g) = gr_db g" "gr_sleeps (append_attempt n i x g) = gr_sleeps g"
  "tries m (append_attempt n i x g) = (if m = n then Suc (tries m g) else tries m g)"
  "m \<noteq> n \<Longrightarrow> result_of m (append_attempt n i x g) = result_of m g"
  by (simp_all add: append_attempt_def tries_def fresh_result_def Let_def split: option.split)

lemma finish_simps:
  "fst (finish n i summary who g) = ''done: '' @ who" "gr_db (snd (finish n i summary who g)) = gr_db g"
  "gr_sleeps (snd (finish n i summary who g)) = gr_sleeps g" "tries m (snd (finish n i summary who g)) = tries m g"
  "m \<noteq> n \<Longrightarrow> result_of m (snd (finish n i summary who g)) = result_of m g"
  "\<exists>r. result_of n (snd (finish n i summary who g)) = Some r \<and> nr_success r"
  by (simp_all add: finish_def collect_facts_and_code_refs_def record_success_def tries_def fresh_result_def Let_def split: option.split)

lemma record_failure_simps:
  "fst (record_failure w n i k st summary g) = ''error: '' @ summary" "gr_db (snd (record_failure w n i k st summary g)) = gr_db g"
  "gr_sleeps (snd (record_failure w n i k st summary g)) = gr_sleeps g"
  "tries m (snd (record_failure w n i k st summary g)) \<le> Suc (tries m g)"
  "m \<noteq> n \<Longrightarrow> result_of m (snd (record_failure w n i k st summary g)) = result_of m g"
  "\<exists>r. result_of n (snd (record_failure w n i k st summary g)) = Some r \<and> \<not> nr_success r"
  by (simp_all add: record_failure_def tries_def fresh_result_def Let_def split: option.split)

lemma reopen_simps [simp]: "gr_sleeps (reopen w i g) = gr_sleeps g" "result_of m (reopen w i g) = result_of m g"
  "tries m (reopen w i g) = tries m g"
  by (simp_all add: reopen_def tries_def)

lemma mark_claimed_simps [simp]: "gr_sleeps (mark_claimed w i a g) = gr_sleeps g" "result_of m (mark_claimed w i a g) = result_of m g"
  "tries m (mark_claimed w i a g) = tries m g"
  by (simp_all add: mark_claimed_def tries_def Let_def split: prod.split sum.split)

text \<open>A wait touches no result, sleeps no more than it may, and ends on the row it read last.\<close>

lemma wait_terminal:
  assumes "wait_for_task_terminal w i n g = (r, g')"
  shows "result_of m g' = result_of m g" "gr_sleeps g' \<le> gr_sleeps g + n" "r = Final t \<Longrightarrow> task_get i (gr_db g') = Some t"
    "r = Final t \<Longrightarrow> task_status t \<in> TERMINAL_STATUSES"
proof -
  have "result_of m g' = result_of m g \<and> gr_sleeps g' \<le> gr_sleeps g + n \<and>
      (r = Final t \<longrightarrow> task_get i (gr_db g') = Some t \<and> task_status t \<in> TERMINAL_STATUSES)"
    using assms
  proof (induction w i n g rule: wait_for_task_terminal.induct)
    case (2 w i n g)
    show ?case
    proof (cases "task_get i (gr_db g)")
      case None
      then show ?thesis using "2.prems" by auto
    next
      case (Some u)
      show ?thesis
      proof (cases "task_status u \<in> TERMINAL_STATUSES")
        case True
        then show ?thesis using "2.prems" Some by auto
      next
        case False
        then show ?thesis using "2.IH" [OF Some False] "2.prems" Some by simp
      qed
    qed
  qed auto
  then show "result_of m g' = result_of m g" "gr_sleeps g' \<le> gr_sleeps g + n" "r = Final t \<Longrightarrow> task_get i (gr_db g') = Some t"
    "r = Final t \<Longrightarrow> task_status t \<in> TERMINAL_STATUSES" by auto
qed

lemma wait_deps:
  "wait_for_dependencies w accept n js g = (out, g') \<Longrightarrow> result_of m g' = result_of m g \<and> gr_sleeps g' \<le> gr_sleeps g + n"
proof (induction n arbitrary: js g)
  case (Suc n)
  show ?case
  proof (cases "js \<noteq> [] \<and> (\<exists>ks. read_deps accept js (gr_db g) = Pending ks \<and> ks \<noteq> [])")
    case True
    then obtain ks where "read_deps accept js (gr_db g) = Pending ks" "ks \<noteq> []" by blast
    then show ?thesis using Suc.IH [of ks "sleep w g"] Suc.prems True by simp
  next
    case False
    then show ?thesis using Suc.prems by (auto split: deps_outcome.splits if_splits)
  qed
qed simp

lemma await_agent_keeps:
  "await_agent w d kind tried n g = (r, g') \<Longrightarrow> result_of m g' = result_of m g \<and> gr_sleeps g' \<le> gr_sleeps g + n"
proof (induction n arbitrary: g)
  case (Suc n)
  show ?case
  proof (cases "pick_now d kind tried (sleep w g)")
    case None
    then show ?thesis using Suc.IH [of "sleep w g"] Suc.prems by (simp add: Let_def)
  next
    case (Some a)
    then show ?thesis using Suc.prems by (auto simp: Let_def)
  qed
qed simp

lemma choose_agent_keeps:
  assumes "choose_agent w d kind tried g = (r, g')"
  shows "result_of m g' = result_of m g" "gr_sleeps g' \<le> gr_sleeps g + gateway_polls d"
  using assms await_agent_keeps [of w d kind tried "gateway_polls d" g r g' m]
  by (auto simp: choose_agent_def split: option.splits)

section \<open>The answer tells the truth\<close>

text \<open>What an answer of the cycle for a node promises of the run it leaves.\<close>

definition honest :: "step_args \<Rightarrow> string \<Rightarrow> string \<Rightarrow> graph_run \<Rightarrow> bool" where
  "honest a i out g \<longleftrightarrow> (case result_of (sa_node a) g of
       None \<Rightarrow> False
     | Some r \<Rightarrow>
         if nr_success r then starts_with ''done: '' out \<and> (case task_get i (gr_db g) of
             None \<Rightarrow> False | Some t \<Rightarrow> task_status t = sa_accept a)
         else starts_with ''error: '' out)"

lemma honest_finish:
  assumes "task_get i (gr_db g) = Some t" "task_status t = sa_accept a" "finish (sa_node a) i summary who g = (out, g')"
  shows "honest a i out g'"
  using assms finish_simps(1,2,6) [of "sa_node a" i summary who g] by (auto simp: honest_def starts_with_def)

lemma honest_failure:
  assumes "record_failure w (sa_node a) i k st summary g = (out, g')"
  shows "honest a i out g'"
  using assms record_failure_simps(1,6) [where n = "sa_node a" and w = w and i = i and k = k and st = st and summary = summary and g = g]
  by (auto simp: honest_def starts_with_def)

text \<open>What a stage of the cycle keeps: an answer is honest, at most so many attempts are added to the node's
  record, at most so many sleeps are taken, and no other node's record is touched.\<close>

definition stage_ok :: "step_args \<Rightarrow> string \<Rightarrow> nat \<Rightarrow> nat \<Rightarrow> graph_run \<Rightarrow> string option \<Rightarrow> graph_run \<Rightarrow> bool" where
  "stage_ok a i k naps g out g' \<longleftrightarrow> (case out of None \<Rightarrow> True | Some x \<Rightarrow> honest a i x g') \<and>
     tries (sa_node a) g' \<le> tries (sa_node a) g + k \<and> gr_sleeps g' \<le> gr_sleeps g + naps \<and>
     (\<forall>m. m \<noteq> sa_node a \<longrightarrow> result_of m g' = result_of m g)"

lemma stage_refl: "stage_ok a i k naps g None g"
  by (simp add: stage_ok_def)

lemma stage_trans:
  "stage_ok a i k naps g None g1 \<Longrightarrow> stage_ok a i k' naps' g1 out g2 \<Longrightarrow> k + k' \<le> K \<Longrightarrow> naps + naps' \<le> N \<Longrightarrow> stage_ok a i K N g out g2"
  unfolding stage_ok_def by (elim conjE, intro conjI; (assumption | linarith | simp))

lemma stage_weaken: "stage_ok a i k naps g out g' \<Longrightarrow> k \<le> K \<Longrightarrow> naps \<le> N \<Longrightarrow> stage_ok a i K N g out g'"
  unfolding stage_ok_def by (elim conjE, intro conjI; (assumption | linarith | simp))

lemma stage_silent:
  assumes "\<And>m. result_of m g' = result_of m g" "gr_sleeps g' \<le> gr_sleeps g + naps"
  shows "stage_ok a i k naps g None g'"
  using assms by (simp add: stage_ok_def tries_def)

lemma stage_append: "stage_ok a i 1 0 g None (append_attempt (sa_node a) j x g)"
  by (simp add: stage_ok_def)

lemma stage_finish:
  assumes "task_get i (gr_db g) = Some t" "task_status t = sa_accept a" "finish (sa_node a) i summary who g = (out, g')"
  shows "stage_ok a i 0 0 g (Some out) g'"
  using honest_finish [OF assms] finish_simps(3-5) [where n = "sa_node a" and i = i and summary = summary and who = who and g = g] assms(3) by (simp add: stage_ok_def)

lemma stage_failure:
  assumes "record_failure w (sa_node a) i k st summary g = (out, g')"
  shows "stage_ok a i 1 0 g (Some out) g'"
  using honest_failure [OF assms] record_failure_simps(3-5) [where n = "sa_node a" and w = w and i = i and k = k and st = st and summary = summary and g = g] assms
  by (simp add: stage_ok_def)

lemma enter_step_ok:
  assumes "enter_step w d a g = (r, g')"
  shows "stage_ok a (mapped_task d a) (case r of Inl _ \<Rightarrow> 1 | Inr _ \<Rightarrow> 0) (polls d) g (case r of Inl out \<Rightarrow> Some out | Inr _ \<Rightarrow> None) g' \<and>
    (case r of Inl _ \<Rightarrow> True | Inr t \<Rightarrow> mapped_task d a = task_id t)"
    (is "?ok r g'")
proof -
  let ?i = "mapped_task d a" and ?n = "sa_node a"
  let ?stop = "\<lambda>(out, g). (Inl out, g)"
  have failed: "?ok r g'" if "?stop (record_failure w ?n ?i k st summary g1) = (r, g')"
      "stage_ok a ?i 0 (polls d) g None g1" for r g' k st summary g1
  proof -
    obtain out g2 where run: "record_failure w ?n ?i k st summary g1 = (out, g2)" by fastforce
    show ?thesis using that stage_trans [OF that(2) stage_failure [OF run], of 1 "polls d"] run by auto
  qed
  have finished: "?ok r g'" if "?stop (finish ?n ?i summary who g1) = (r, g')" "task_get ?i (gr_db g1) = Some t"
      "task_status t = sa_accept a" "stage_ok a ?i 0 (polls d) g None g1" for r g' summary who g1 t
  proof -
    obtain out g2 where run: "finish ?n ?i summary who g1 = (out, g2)" by fastforce
    show ?thesis using that stage_trans [OF that(4) stage_finish [OF that(2,3) run], of 1 "polls d"] run by auto
  qed
  have here: "stage_ok a ?i 0 (polls d) g None g" by (rule stage_refl)
  show ?thesis
  proof (cases "?i = []")
    case True
    with assms show ?thesis by (intro failed [OF _ here]) (simp add: enter_step_def Let_def)
  next
    case i: False
    show ?thesis
    proof (cases "task_get ?i (gr_db g)")
      case None
      with assms i show ?thesis by (intro failed [OF _ here]) (simp add: enter_step_def Let_def)
    next
      case (Some t)
      note t = this
      have key: "?i = task_id t" using task_get_key [OF t] by simp
      show ?thesis
      proof (cases "task_status t = sa_accept a")
        case True
        with assms i t show ?thesis
          by (intro finished [OF _ t True here]) (simp add: enter_step_def Let_def)
      next
        case open_task: False
        show ?thesis
        proof (cases "task_depends_on t = []")
          case True
          with assms i t open_task have "r = Inr t" "g' = g" by (simp_all add: enter_step_def Let_def)
          then show ?thesis using here key by simp
        next
          case False
          obtain out g1 where wait: "wait_for_dependencies w (sa_accept a) (polls d) (filter (\<lambda>j. j \<noteq> []) (task_depends_on t)) g = (out, g1)"
            by fastforce
          have there: "stage_ok a ?i 0 (polls d) g None g1" using wait_deps [OF wait] by (intro stage_silent) auto
          have run: "(case dep_failure d (wo_fmt w) (length (task_depends_on t)) out of
                Some (st, summary) \<Rightarrow> ?stop (record_failure w ?n ?i 0 st summary g1)
              | None \<Rightarrow> (case task_get ?i (gr_db g1) of None \<Rightarrow> (Inr t, g1)
                  | Some t' \<Rightarrow> if task_status t' = sa_accept a
                      then ?stop (finish ?n ?i ''already complete (won race with sibling fire)'' (or_else (owner_of t') ''cached'') g1)
                      else (Inr t', g1))) = (r, g')"
            using assms i t open_task False wait by (simp add: enter_step_def Let_def)
          show ?thesis
          proof (cases "dep_failure d (wo_fmt w) (length (task_depends_on t)) out")
            case (Some p)
            with run show ?thesis by (cases p) (intro failed [OF _ there], simp)
          next
            case None
            note fine = this
            show ?thesis
            proof (cases "task_get ?i (gr_db g1)")
              case None
              with run fine there key show ?thesis by auto
            next
              case (Some t')
              show ?thesis
              proof (cases "task_status t' = sa_accept a")
                case True
                with run fine Some show ?thesis by (intro finished [OF _ Some True there]) simp
              next
                case False
                with run fine Some there task_get_key [OF Some] show ?thesis by auto
              qed
            qed
          qed
        qed
      qed
    qed
  qed
qed

lemma stage_note:
  "stage_ok a i k naps g None g1 \<Longrightarrow> stage_ok a i (Suc k) naps g None (append_attempt (sa_node a) j x g1)"
  "stage_ok a i k naps g None g1 \<Longrightarrow> stage_ok a i k naps g None (reopen w j g1)"
  by (simp_all add: stage_ok_def)

lemma stage_answer:
  assumes "stage_ok a i k naps g None g1" "finish (sa_node a) i summary who g1 = (out, g2)"
    and "task_get i (gr_db g1) = Some t" "task_status t = sa_accept a"
  shows "stage_ok a i k naps g (Some out) g2"
  by (rule stage_trans [OF assms(1) stage_finish [OF assms(3,4,2)]]) simp_all

lemma adopt_running_ok:
  assumes "adopt_running w d a t g = (r, g')"
  shows "stage_ok a (task_id t) 1 (polls d) g (case r of Inr (Inl out) \<Rightarrow> Some out | _ \<Rightarrow> None) g'"
proof (cases "is_active t")
  case False
  with assms have "r = Inr (Inr ([], sa_instruction a))" "g' = g" by (simp_all add: adopt_running_def)
  then show ?thesis by (simp add: stage_refl)
next
  case True
  obtain out g1 where wait: "wait_for_task_terminal w (task_id t) (polls d) g = (out, g1)" by fastforce
  have there: "stage_ok a (task_id t) 0 (polls d) g None g1"
    using wait_terminal(1,2) [OF wait] by (intro stage_silent) auto
  note run = assms [unfolded adopt_running_def Let_def wait prod.case]
  show ?thesis
  proof (cases out)
    case (Final t')
    show ?thesis
    proof (cases "task_status t' = sa_accept a")
      case accepted: True
      define x where "x = attempt_record 0 (owner_of t) ''done'' (''task was already in-flight on entry; '' @
          or_else (owner_of t) ''existing run'' @ '' completed it'') (clock w g) (clock w g1)"
      obtain answer g3 where fin: "finish (sa_node a) (task_id t) (''adopted existing run by '' @ or_else (owner_of t) ''unknown'')
          (or_else (owner_of t) ''adopted'') (append_attempt (sa_node a) (task_id t) x g1) = (answer, g3)" by fastforce
      have "task_get (task_id t) (gr_db (append_attempt (sa_node a) (task_id t) x g1)) = Some t'"
        using wait_terminal(3) [OF wait Final] by simp
      from stage_answer [OF stage_note(1) [OF there] fin this accepted]
      show ?thesis using run fin True by (auto simp: Final accepted x_def)
    next
      case False
      then show ?thesis using run True stage_note(2) [OF stage_note(1) [OF there]] by (auto simp: Final)
    qed
  next
    case Timeout
    then show ?thesis using run True stage_note(1) [OF there] by auto
  next
    case Disappeared
    then show ?thesis using run True stage_weaken [OF there, of 1 "polls d"] by auto
  qed
qed

lemma try_agent_ok:
  assumes "try_agent w d a t upstream n started ag summary instruction g = (r, g')"
  shows "stage_ok a (task_id t) 1 (polls d) g (case r of Inr (Inl out) \<Rightarrow> Some out | _ \<Rightarrow> None) g'"
proof -
  obtain ok s1 where sent: "dispatch_to_gateway w d ag t (build_prompt (gr_prompt g) instruction summary n upstream) n (gr_db g) = (ok, s1)"
    by fastforce
  have here: "stage_ok a (task_id t) 0 (polls d) g None (g\<lparr>gr_db := s1\<rparr>)" by (intro stage_silent) simp_all
  note run = assms [unfolded try_agent_def Let_def sent prod.case]
  show ?thesis
  proof (cases "ok = Inr True")
    case False
    then show ?thesis using run stage_note(1) [OF here] stage_weaken [OF here, of 1 "polls d"]
      by (cases ok) auto
  next
    case True
    obtain out g2 where wait: "wait_for_task_terminal w (task_id t) (polls d) (mark_claimed w (task_id t) ag (g\<lparr>gr_db := s1\<rparr>)) = (out, g2)"
      by fastforce
    have there: "stage_ok a (task_id t) 0 (polls d) g None g2"
      using wait_terminal(1,2) [OF wait] by (intro stage_silent) auto
    note run = run [unfolded True wait sum.case prod.case bool.case]
    show ?thesis
    proof (cases out)
      case (Final t')
      show ?thesis
      proof (cases "task_status t' = sa_accept a")
        case accepted: True
        define x where "x = attempt_record n (agent_id ag) ''done'' (agent_id ag @ '' completed in attempt '' @ str_of_nat n) started (clock w g2)"
        obtain answer g3 where fin: "finish (sa_node a) (task_id t) (''completed by '' @ agent_id ag @ '' in '' @ str_of_nat n @ '' attempt(s)'')
            (agent_id ag) (append_attempt (sa_node a) (task_id t) x g2) = (answer, g3)" by fastforce
        have "task_get (task_id t) (gr_db (append_attempt (sa_node a) (task_id t) x g2)) = Some t'"
          using wait_terminal(3) [OF wait Final] by simp
        from stage_answer [OF stage_note(1) [OF there] fin this accepted]
        show ?thesis using run fin by (auto simp: Final accepted x_def)
      next
        case False
        then show ?thesis using run stage_note(2) [OF stage_note(1) [OF there]] by (auto simp: Final)
      qed
    next
      case Timeout
      then show ?thesis using run stage_note(1) [OF there] by auto
    next
      case Disappeared
      then show ?thesis using run stage_weaken [OF there, of 1 "polls d"] by auto
    qed
  qed
qed

lemma exhausted_ok:
  assumes "exhausted w a i summary g = (r, g')"
  shows "\<exists>out. r = Inr out \<and> stage_ok a i 1 0 g (Some out) g'"
proof -
  obtain out g2 where run: "record_failure w (sa_node a) i (int (sa_max a)) ''exhausted''
      (''exhausted '' @ str_of_nat (sa_max a) @ '' attempt(s); last: '' @ summary) g = (out, g2)" by fastforce
  then show ?thesis using assms stage_failure [OF run] by (auto simp: exhausted_def Let_def)
qed

lemma attempts_ok:
  "attempts w d a t upstream k tried summary instruction g = (r, g') \<Longrightarrow>
   stage_ok a (task_id t) (Suc k) (k * (gateway_polls d + polls d)) g (case r of Inr out \<Rightarrow> Some out | Inl _ \<Rightarrow> None) g'"
proof (induction k arbitrary: tried summary instruction g)
  case 0
  then show ?case using exhausted_ok [of w a "task_id t" summary g r g'] by auto
next
  case (Suc k)
  let ?n = "sa_max a - k" and ?naps = "gateway_polls d + polls d"
  obtain choice g1 where choose: "choose_agent w d (sa_kind a) tried g = (choice, g1)" by fastforce
  have there: "stage_ok a (task_id t) 0 (gateway_polls d) g None g1"
    using choose_agent_keeps [OF choose] by (intro stage_silent) auto
  show ?case
  proof (cases choice)
    case None
    define x where "x = attempt_record ?n [] ''no_agent'' ''no eligible gateway in pool'' (clock w g) (clock w g1)"
    have "exhausted w a (task_id t) ''no eligible gateway'' (append_attempt (sa_node a) (task_id t) x g1) = (r, g')"
      using Suc.prems choose None by (simp add: Let_def x_def)
    from exhausted_ok [OF this] obtain out where "r = Inr out"
      "stage_ok a (task_id t) 1 0 (append_attempt (sa_node a) (task_id t) x g1) (Some out) g'" by blast
    with stage_trans [OF stage_note(1) [OF there]] show ?thesis by fastforce
  next
    case (Some ag)
    obtain out g2 where tried: "try_agent w d a t upstream ?n (clock w g) ag summary instruction (asked ag g1) = (out, g2)" by fastforce
    have asked: "stage_ok a (task_id t) 0 (gateway_polls d) g None (asked ag g1)"
      using choose_agent_keeps [OF choose] by (intro stage_silent) auto
    note one = stage_trans [OF asked try_agent_ok [OF tried], of 1 ?naps]
    have run: "bind_st (out, g2) (\<lambda>out g2. case out of Inl answer \<Rightarrow> (Inr answer, g2)
        | Inr failure \<Rightarrow> attempts w d a t upstream k (insert (agent_id ag) tried) failure (refine (sa_instruction a) failure) g2) = (r, g')"
      using Suc.prems choose Some tried by (simp add: Let_def)
    show ?thesis
    proof (cases out)
      case (Inl e)
      then show ?thesis using run one by (auto intro: stage_weaken)
    next
      case (Inr v)
      show ?thesis
      proof (cases v)
        case (Inl answer)
        then show ?thesis using run one \<open>out = Inr v\<close> by (auto intro: stage_weaken)
      next
        case (Inr failure)
        then have rest: "attempts w d a t upstream k (insert (agent_id ag) tried) failure (refine (sa_instruction a) failure) g2 = (r, g')"
          using run \<open>out = Inr v\<close> by simp
        show ?thesis using stage_trans [OF _ Suc.IH [OF rest]] one \<open>out = Inr v\<close> Inr by (simp add: algebra_simps)
      qed
    qed
  qed
qed

text \<open>C24: a cycle comes to an end by itself: it takes at most as many sleeps as its waits, its attempts and
  the deadline allow, puts at most two records more than the permitted attempts on its own node and none on
  another; and its answer is honest: one that begins with "done: " leaves the node marked as a success and the
  task in the accepted status, any other begins with "error: " and leaves the node marked as a failure.\<close>

theorem cycle_honest_and_bounded:
  assumes "dispatch_cycle w d a g = (r, g')"
  shows "(case r of Inr out \<Rightarrow> honest a (mapped_task d a) out g' | Inl _ \<Rightarrow> True) \<and>
    tries (sa_node a) g' \<le> tries (sa_node a) g + (sa_max a + 2) \<and>
    gr_sleeps g' \<le> gr_sleeps g + (2 * polls d + sa_max a * (gateway_polls d + polls d)) \<and>
    (\<forall>m. m \<noteq> sa_node a \<longrightarrow> result_of m g' = result_of m g)"
proof -
  let ?K = "sa_max a + 2" and ?N = "2 * polls d + sa_max a * (gateway_polls d + polls d)"
  have "stage_ok a (mapped_task d a) ?K ?N g (case r of Inr out \<Rightarrow> Some out | Inl _ \<Rightarrow> None) g'"
  proof -
    obtain entry g1 where enter: "enter_step w d a g = (entry, g1)" by fastforce
    note entered = enter_step_ok [OF enter]
    show ?thesis
    proof (cases entry)
      case (Inl out)
      then show ?thesis using assms enter entered by (auto simp: dispatch_cycle_def intro: stage_weaken)
    next
      case (Inr t)
      have i: "mapped_task d a = task_id t" and e: "stage_ok a (task_id t) 0 (polls d) g None g1"
        using entered Inr by auto
      obtain out g2 where adopt: "adopt_running w d a t g1 = (out, g2)" by fastforce
      note adopted = stage_trans [OF e adopt_running_ok [OF adopt], of 1 "2 * polls d"]
      have run: "bind_st (out, g2) (\<lambda>out g2. case out of Inl answer \<Rightarrow> (Inr answer, g2)
         | Inr (summary, instruction) \<Rightarrow> (case assemble_upstream_context w d (task_depends_on t) g2 of
                Inl e \<Rightarrow> (Inl e, g2)
              | Inr upstream \<Rightarrow> attempts w d a t upstream (sa_max a) {} summary instruction g2)) = (r, g')"
        using assms enter Inr adopt by (simp add: dispatch_cycle_def)
      show ?thesis
      proof (cases out)
        case (Inl e)
        then show ?thesis using run adopted i by (auto intro: stage_weaken)
      next
        case (Inr v)
        note v = this
        show ?thesis
        proof (cases v)
          case (Inl answer)
          then show ?thesis using run adopted i v by (auto intro: stage_weaken)
        next
          case (Inr p)
          obtain summary instruction where p: "p = (summary, instruction)" by fastforce
          show ?thesis
          proof (cases "assemble_upstream_context w d (task_depends_on t) g2")
            case (Inl e)
            then have "r = Inl e" "g' = g2" using run v \<open>v = Inr p\<close> p by simp_all
            then show ?thesis using adopted i v \<open>v = Inr p\<close> by (auto intro: stage_weaken)
          next
            case (Inr upstream)
            then have "attempts w d a t upstream (sa_max a) {} summary instruction g2 = (r, g')"
              using run v \<open>v = Inr p\<close> p by simp
            from stage_trans [OF _ attempts_ok [OF this]] adopted i v \<open>v = Inr p\<close> show ?thesis by simp
          qed
        qed
      qed
    qed
  qed
  then show ?thesis by (cases r) (simp_all add: stage_ok_def)
qed

section \<open>A cancelled step runs again\<close>

text \<open>A task that is cancelled, or blocked, while an agent works on it for a graph does not stay so: the
  attempt counts as failed, the row is reopened (without its claim and its reason) and the next attempt, if
  one is left, dispatches it to another agent.\<close>

theorem cancellation_undone:
  assumes sent: "dispatch_to_gateway w d ag t (build_prompt (gr_prompt g) instruction summary n upstream) n (gr_db g) = (Inr True, s1)"
    and ended: "wait_for_task_terminal w (task_id t) (polls d) (mark_claimed w (task_id t) ag (g\<lparr>gr_db := s1\<rparr>)) = (Final t', g2)"
    and "task_status t' = TCancelled" "sa_accept a = TDone"
  shows "\<exists>reason g3 t3. try_agent w d a t upstream n started ag summary instruction g = (Inr (Inr reason), g3) \<and>
    task_get (task_id t) (gr_db g3) = Some t3 \<and> task_status t3 = TOpen \<and> task_claimed_by t3 = None \<and>
    map_option task_status (task_get (task_id t) (gr_db (snd (attempts w d a t upstream 0 tried reason last_text g3)))) = Some TOpen"
proof -
  define g3 where "g3 = reopen w (task_id t) (append_attempt (sa_node a) (task_id t)
     (attempt_record n (agent_id ag) (task_status_name (task_status t')) (outcome_reason t') started (clock w g2)) g2)"
  have run: "try_agent w d a t upstream n started ag summary instruction g = (Inr (Inr (outcome_reason t')), g3)"
    using assms by (simp add: try_agent_def Let_def g3_def)
  have "gr_db (snd (exhausted w a (task_id t) (outcome_reason t') g3)) = gr_db g3"
    by (simp add: exhausted_def Let_def case_prod_beta record_failure_simps(2))
  moreover have row: "task_get (task_id t) (gr_db g3) = Some (reopened (clock w g2) t')"
    using wait_terminal(3) [OF ended HOL.refl]
    by (simp add: g3_def reopen_def reopen_for_rerun_def Let_def task_get_reopen clock_def)
  ultimately show ?thesis using run by (simp add: row reopened_def)
qed

definition step_db :: "task_status \<Rightarrow> db" where
  "step_db st = sample_db\<lparr>db_tasks := [(fresh_task ''t1'' ''b'' ''step'' None [])\<lparr>task_status := st, task_node := Some ''n''\<rparr>]\<rparr>"

definition step_run :: "task_status \<Rightarrow> graph_run" where
  "step_run st = \<lparr>gr_prompt = ''p'', gr_bundle = ''b'', gr_recipe = None, gr_results = [], gr_used = {}, gr_db = step_db st, gr_sleeps = 0\<rparr>"

definition step_deps :: graph_deps where
  "step_deps = \<lparr>gd_task_ids = [(''n'', ''t1'')], gd_cookbook_id = ''cb'', gd_recipe_meta = [], gd_interval = 1, gd_timeout = 1\<rparr>"

definition one_step :: step_args where
  "one_step = \<lparr>sa_node = ''n'', sa_kind = ''k'', sa_instruction = ''do'', sa_max = 1, sa_accept = TDone\<rparr>"

definition eager_post :: post where
  "eager_post ow agent body s = (Response 200 (Some (JObj [(''result'', JObj [(''id'', JStr ''m'')])])), s)"

text \<open>While the cycle sleeps, somebody gives the task this status.\<close>

definition meanwhile :: "task_status \<Rightarrow> world" where
  "meanwhile st = \<lparr>wo_others = (\<lambda>_ s. s\<lparr>db_tasks := map (\<lambda>t. t\<lparr>task_status := st\<rparr>) (db_tasks s)\<rparr>), wo_clock = int,
     wo_post = eager_post, wo_fmt = (\<lambda>_. [])\<rparr>"

lemma polls_step [simp]: "polls step_deps = Suc (Suc 0)"
  by (simp add: polls_def step_deps_def)

lemma record_sleeps [simp]: "gr_sleeps (collect_facts_and_code_refs n i g) = gr_sleeps g"
  "gr_sleeps (record_success n i x g) = gr_sleeps g"
  by (simp_all add: collect_facts_and_code_refs_def record_success_def Let_def split: option.split)

lemma cycle_honest_and_bounded_witness:
  "\<exists>g'. dispatch_cycle (meanwhile TDone) step_deps one_step (step_run TWorking) = (Inr ''done: adopted'', g') \<and>
     honest one_step ''t1'' ''done: adopted'' g' \<and> gr_sleeps g' = 1"
proof -
  obtain out g' where run: "dispatch_cycle (meanwhile TDone) step_deps one_step (step_run TWorking) = (out, g')" by fastforce
  moreover have "out = Inr ''done: adopted'' \<and> gr_sleeps g' = 1"
    using run
    by (auto simp: dispatch_cycle_def enter_step_def mapped_task_def step_deps_def [THEN arg_cong, of gd_task_ids] one_step_def
      step_run_def step_db_def task_get_def fresh_task_def adopt_running_def is_active_def TERMINAL_STATUSES_def meanwhile_def
      sleep_def Let_def owner_of_def or_else_def finish_def)
  moreover have "mapped_task step_deps one_step = ''t1''" by (simp add: mapped_task_def step_deps_def one_step_def)
  ultimately show ?thesis using cycle_honest_and_bounded [OF run] by auto
qed

definition hub_agent :: presence where
  "hub_agent = \<lparr>agent_id = ''a@op'', agent_cookbook = ''cb'', agent_display = ''a'', agent_capabilities = [], agent_max_tasks = 1,
     agent_endpoint = Some ''e'', agent_status = AOnline, agent_heartbeat = 0, agent_current_task = None, agent_version = 1,
     agent_owner = Some ''op'', agent_mint_tx = None, agent_mint_token = None, agent_wallet = None\<rparr>"

lemma cancellation_undone_witness:
  "\<exists>t reason g3. try_agent (meanwhile TCancelled) step_deps one_step t [] 1 0 hub_agent [] ''do'' (step_run TOpen) =
      (Inr (Inr reason), g3) \<and> map_option task_status (task_get ''t1'' (gr_db g3)) = Some TOpen"
proof -
  let ?w = "meanwhile TCancelled" and ?g = "step_run TOpen"
  obtain t where t: "task_get ''t1'' (gr_db ?g) = Some t" and id: "task_id t = ''t1''"
    by (auto simp: task_get_def step_run_def step_db_def fresh_task_def)
  obtain ok s1 where sent: "dispatch_to_gateway ?w step_deps hub_agent t (build_prompt (gr_prompt ?g) ''do'' [] 1 []) 1 (gr_db ?g) = (ok, s1)"
    by fastforce
  then have ok: "ok = Inr True" "db_tasks s1 = db_tasks (gr_db ?g)"
    by (auto simp: dispatch_to_gateway_def meanwhile_def eager_post_def draw_def Let_def accepted_answer_def got_def dict_get_def
      dict_has_def)
  have s1: "task_get ''t1'' s1 = Some t" using t ok(2) by (simp add: task_get_def)
  have upd: "task_update ''t1'' (claim_for x n) n s1 = (Inr (Some (apply_update (claim_for x n, n) t)),
      s1\<lparr>db_tasks := rows_update (\<lambda>t. task_id t = ''t1'') (apply_update (claim_for x n, n)) (db_tasks s1)\<rparr>)" for x n
    using s1 by (subst task_update_plain) (simp_all add: claim_for_def update_simps)
  define g1 where "g1 = mark_claimed ?w ''t1'' hub_agent (?g\<lparr>gr_db := s1\<rparr>)"
  obtain u where u: "task_get ''t1'' (gr_db g1) = Some u" "task_status u = TClaimed"
    by (simp add: g1_def mark_claimed_def Let_def upd publish_opt_def publish_task_def task_get_update s1)
  have rows: "db_tasks (gr_db (sleep ?w g1)) = map (\<lambda>t. t\<lparr>task_status := TCancelled\<rparr>) (db_tasks (gr_db g1))"
    by (simp add: sleep_def meanwhile_def)
  have "row_get task_id i (map (\<lambda>t. t\<lparr>task_status := st\<rparr>) rows) = map_option (\<lambda>t. t\<lparr>task_status := st\<rparr>) (row_get task_id i rows)"
    for i st and rows :: "task list" by (induction rows) auto
  then have "task_get ''t1'' (gr_db (sleep ?w g1)) = Some (u\<lparr>task_status := TCancelled\<rparr>)"
    using u(1) rows by (simp add: task_get_def)
  then have "wait_for_task_terminal ?w ''t1'' (polls step_deps) g1 = (Final (u\<lparr>task_status := TCancelled\<rparr>), sleep ?w g1)"
    using u by (simp add: TERMINAL_STATUSES_def)
  from cancellation_undone [OF sent [unfolded ok(1)] this [unfolded g1_def, folded id]] show ?thesis
    by (force simp: one_step_def id)
qed

end
