(* ===== verification/Graph_Runner.thy ===== *)
theory Graph_Runner
  imports Bundle_Service Graph_Cycle
begin

text \<open>
  The controller that runs the graph of a bundle (\<^verbatim>\<open>controllers/graph_runner.py\<close>): which bundles it
  starts, one run from the code to the final mark, and the milestone it leaves.  Executing the generated
  code is Python's and driving the graph is pydantic-graph's: \<open>compile\<close> says what became of the code and
  \<open>iter\<close> drives the compiled graph, given what a step does when it calls \<open>dispatch_cycle\<close>.
\<close>

section \<open>Starting runs\<close>

record runner =
  rn_grace :: nat
  rn_in_flight :: "string list"

fun spawn :: "nat \<Rightarrow> string list \<Rightarrow> string list \<Rightarrow> string list" where
  "spawn most [] in_flight = in_flight"
| "spawn most (b # bs) in_flight =
     (if b \<in> set in_flight then spawn most bs in_flight
      else if most \<le> length in_flight then in_flight
      else spawn most bs (in_flight @ [b]))"

definition runner_reconcile :: "nat \<Rightarrow> db \<Rightarrow> runner \<Rightarrow> runner" where
  "runner_reconcile most s r =
     (if 0 < rn_grace r then r\<lparr>rn_grace := rn_grace r - 1\<rparr>
      else if most \<le> length (rn_in_flight r) then r
      else r\<lparr>rn_in_flight := spawn most (map bundle_id (list_runnable s)) (rn_in_flight r)\<rparr>)"

definition runner_finished :: "string \<Rightarrow> runner \<Rightarrow> runner" where
  "runner_finished b r = r\<lparr>rn_in_flight := removeAll b (rn_in_flight r)\<rparr>"

section \<open>The milestone\<close>

definition emit_graph_milestone :: "string \<Rightarrow> string \<Rightarrow> bool \<Rightarrow> int \<Rightarrow> db \<Rightarrow> db" where
  "emit_graph_milestone i body success now s = (case bundle_get i s of
       None \<Rightarrow> s
     | Some b \<Rightarrow>
         let evt_body = take 500 body;
             (eid, s1) = draw ''evt_'' s;
             e = (new_event eid (bundle_cookbook b) (Some i) None EMilestone ''graph-runner'' BySystem evt_body now)
                 \<lparr>event_payload := JObj [(''graph_success'', JBool success)]\<rparr>;
             (updated, s2) = mark_graph_terminal i success (Some evt_body) now (event_create e now s1);
             b' = (case updated of None \<Rightarrow> b | Some u \<Rightarrow> u)
         in publish_bundle WModified (Some (bundle_created_at b')) b' (bundle_cookbook b) now s2)"

section \<open>One run\<close>

datatype 'p compiled_code =
    Rejected string
  | Crashed string
  | Compiled 'p

definition terminal_task :: "task \<Rightarrow> bool" where
  "terminal_task t \<longleftrightarrow> task_status t \<in> {TDone, TBlocked, TCancelled}"

definition run_deps :: "(json \<Rightarrow> string) \<Rightarrow> rat \<Rightarrow> rat \<Rightarrow> bundle_row \<Rightarrow> string \<Rightarrow> db \<Rightarrow> graph_deps" where
  "run_deps fmt interval timeout b cb s = \<lparr>gd_task_ids = build_node_id_map (bundle_id b) s, gd_cookbook_id = cb,
     gd_recipe_meta = repo_meta fmt (bundle_repo_spec b), gd_interval = interval, gd_timeout = timeout\<rparr>"

definition fresh_run :: "bundle_row \<Rightarrow> nat \<Rightarrow> db \<Rightarrow> graph_run" where
  "fresh_run b sleeps s = \<lparr>gr_prompt = bundle_prompt b, gr_bundle = bundle_id b, gr_recipe = None, gr_results = [], gr_used = {},
     gr_db = s, gr_sleeps = sleeps\<rparr>"

text \<open>The verdict on a graph that ran to its end.\<close>

definition graph_verdict :: "string \<Rightarrow> graph_run \<Rightarrow> bool \<times> string" where
  "graph_verdict b g =
     (let rs = map snd (gr_results g) in
      if rs \<noteq> [] \<and> list_all nr_success rs then
        let open_tasks = filter (\<lambda>t. \<not> terminal_task t) (list_by_bundle b (gr_db g)) in
        if open_tasks \<noteq> []
        then (False, ''graph finished but '' @ str_of_nat (length open_tasks) @ '' task(s) non-terminal: '' @
          str_join '', '' (map (\<lambda>t. task_id t @ ''='' @ task_status_name (task_status t)) (take 5 open_tasks)))
        else (True, ''Graph completed: '' @ str_of_nat (length rs) @ '' nodes succeeded'')
      else (False, or_else (str_join ''; '' (map (\<lambda>r. nr_node r @ '': '' @ nr_summary r) (filter (\<lambda>r. \<not> nr_success r) rs)))
        ''no task results recorded''))"

type_synonym 'p graph_iter = "'p \<Rightarrow> (step_args \<Rightarrow> graph_run \<Rightarrow> string res \<times> graph_run) \<Rightarrow> graph_run \<Rightarrow> string option \<times> graph_run"

text \<open>A run and the sleeps it took; each of its ends leaves one milestone.  \<open>iter\<close> gives the text of the
  exception it ended with, if any.\<close>

definition execute_bundle :: "world \<Rightarrow> rat \<Rightarrow> rat \<Rightarrow> (string \<Rightarrow> 'p compiled_code) \<Rightarrow> 'p graph_iter \<Rightarrow> string \<Rightarrow> nat \<Rightarrow> db \<Rightarrow> nat \<times> db" where
  "execute_bundle w interval timeout compile iter i sleeps s =
     (let stop = (\<lambda>n body success s. (n, emit_graph_milestone i body success (wo_clock w n) s)) in
      case bundle_get i s of
        None \<Rightarrow> (sleeps, s)
      | Some b \<Rightarrow> (case (bundle_graph_code b, bundle_cookbook b) of
          (None, _) \<Rightarrow> (sleeps, s)
        | (Some code, None) \<Rightarrow> stop sleeps ''bundle has no cookbook_id'' False s
        | (Some code, Some cb) \<Rightarrow> (case compile code of
            Rejected m \<Rightarrow> stop sleeps (''graph compile failed: '' @ m) False s
          | Crashed m \<Rightarrow> stop sleeps (''runner crash: '' @ m) False s
          | Compiled p \<Rightarrow>
              if build_node_id_map i s = []
              then stop sleeps ''no graph-bound tasks found for bundle (graph_node_id is NULL on all rows)'' False s
              else (case iter p (dispatch_cycle w (run_deps (wo_fmt w) interval timeout b cb s)) (fresh_run b sleeps s) of
                  (Some m, g) \<Rightarrow> stop (gr_sleeps g) (''graph.iter failed: '' @ m) False (gr_db g)
                | (None, g) \<Rightarrow> (case graph_verdict i g of
                      (success, body) \<Rightarrow> stop (gr_sleeps g) body success (gr_db g))))))"

section \<open>Every run ends in a verdict\<close>

text \<open>What a milestone looks like: the one event of the run, with the verdict in its payload.\<close>

definition graph_milestone :: "string \<Rightarrow> bool \<Rightarrow> event \<Rightarrow> bool" where
  "graph_milestone i success e \<longleftrightarrow> event_bundle e = Some i \<and> event_type e = EMilestone \<and> event_actor e = ''graph-runner'' \<and>
     event_payload e = JObj [(''graph_success'', JBool success)]"

lemma milestone_spec:
  assumes "bundle_get i s = Some b"
  shows "ran i (emit_graph_milestone i body success now s)"
    "bundle_get j (emit_graph_milestone i body success now s) = (if j = i then
       Some (bundle_apply (if success then Graph_succeeded now else Graph_failed (Some (take 500 body))) b) else bundle_get j s)"
    "db_tasks (emit_graph_milestone i body success now s) = db_tasks s"
    "\<exists>e. db_events (emit_graph_milestone i body success now s) = db_events s @ [e] \<and> graph_milestone i success e \<and>
       event_body e = take 500 body"
proof -
  obtain eid s1 where d: "draw ''evt_'' s = (eid, s1)" by fastforce
  define e where "e = (new_event eid (bundle_cookbook b) (Some i) None EMilestone ''graph-runner'' BySystem (take 500 body) now)
      \<lparr>event_payload := JObj [(''graph_success'', JBool success)]\<rparr>"
  define u where "u = (if success then Graph_succeeded now else Graph_failed (Some (take 500 body)))"
  define s2 where "s2 = snd (bundle_update i u (event_create e now s1))"
  have s1: "db_tasks s1 = db_tasks s" "db_events s1 = db_events s" "bundle_get j s1 = bundle_get j s" for j
    using d by (auto simp: draw_def bundle_get_def)
  have pair: "mark_graph_terminal i success (Some (take 500 body)) now (event_create e now s1) = (Some (bundle_apply u b), s2)"
    unfolding mark_graph_terminal_def s2_def u_def [symmetric] by (subst bundle_update_pair) (simp add: s1 assms)
  have run: "emit_graph_milestone i body success now s =
      publish_bundle WModified (Some (bundle_created_at (bundle_apply u b))) (bundle_apply u b) (bundle_cookbook b) now s2"
    using pair by (simp add: emit_graph_milestone_def assms d Let_def flip: e_def)
  have "ran i s2" using terminal_ran [of i success "Some (take 500 body)" now "event_create e now s1"] pair by simp
  then show "ran i (emit_graph_milestone i body success now s)" by (simp add: run ran_def publish_bundle_def)
  show "bundle_get j (emit_graph_milestone i body success now s) = (if j = i then
       Some (bundle_apply (if success then Graph_succeeded now else Graph_failed (Some (take 500 body))) b) else bundle_get j s)"
    by (simp add: run s2_def bundle_get_update s1 assms flip: u_def del: bundle_apply.simps)
  show "db_tasks (emit_graph_milestone i body success now s) = db_tasks s" by (simp add: run s2_def s1)
  show "\<exists>e. db_events (emit_graph_milestone i body success now s) = db_events s @ [e] \<and> graph_milestone i success e \<and>
      event_body e = take 500 body"
    by (intro exI [of _ e]) (simp add: run s2_def s1 graph_milestone_def e_def new_event_def)
qed

lemma milestone_gone: "bundle_get i s = None \<Longrightarrow> emit_graph_milestone i body success now s = s"
  by (simp add: emit_graph_milestone_def)

lemma not_runnable:
  assumes "ran i s"
  shows "i \<notin> bundle_id ` set (list_runnable s)"
  using assms by (auto simp: ran_def list_runnable_def runnable_def)

lemma milestone_not_runnable: "i \<notin> bundle_id ` set (list_runnable (emit_graph_milestone i body success now s))"
proof (cases "bundle_get i s")
  case None
  then have "i \<notin> bundle_id ` set (db_bundles s)" by (simp add: bundle_get_def row_get_None)
  then show ?thesis by (auto simp: milestone_gone [OF None] list_runnable_def)
next
  case (Some b)
  then show ?thesis by (intro not_runnable milestone_spec(1))
qed

text \<open>The verdict the run deserves: its results, and the tasks of the bundle as the run left them.\<close>

definition graph_done :: "string \<Rightarrow> graph_run \<Rightarrow> bool" where
  "graph_done i g \<longleftrightarrow> gr_results g \<noteq> [] \<and> list_all (\<lambda>(n, r). nr_success r) (gr_results g) \<and>
     list_all terminal_task (list_by_bundle i (gr_db g))"

lemma verdict_done: "fst (graph_verdict i g) = graph_done i g"
  by (auto simp: graph_verdict_def graph_done_def Let_def list_all_iff filter_empty_conv list.pred_map case_prod_beta)

text \<open>The run of the graph itself, when it comes so far: the text of its exception and the state it left.\<close>

definition run_of :: "world \<Rightarrow> rat \<Rightarrow> rat \<Rightarrow> (string \<Rightarrow> 'p compiled_code) \<Rightarrow> 'p graph_iter \<Rightarrow> string \<Rightarrow> nat \<Rightarrow> db \<Rightarrow>
    (string option \<times> graph_run) option" where
  "run_of w interval timeout compile iter i sleeps s = (case bundle_get i s of
       None \<Rightarrow> None
     | Some b \<Rightarrow> (case (bundle_graph_code b, bundle_cookbook b) of
         (Some code, Some cb) \<Rightarrow> (case compile code of
             Compiled p \<Rightarrow> if build_node_id_map i s = [] then None
               else Some (iter p (dispatch_cycle w (run_deps (wo_fmt w) interval timeout b cb s)) (fresh_run b sleeps s))
           | _ \<Rightarrow> None)
       | _ \<Rightarrow> None))"

definition has_graph :: "string \<Rightarrow> db \<Rightarrow> bool" where
  "has_graph i s = (case bundle_get i s of None \<Rightarrow> False | Some b \<Rightarrow> bundle_graph_code b \<noteq> None)"

text \<open>How a run of \<open>i\<close> that left \<open>s\<close> is recorded in \<open>s'\<close>, at time \<open>now\<close>.\<close>

definition recorded_as :: "string \<Rightarrow> int \<Rightarrow> db \<Rightarrow> bool \<Rightarrow> db \<Rightarrow> bool" where
  "recorded_as i now s success s' \<longleftrightarrow> (case bundle_get i s of
       None \<Rightarrow> s' = s
     | Some b \<Rightarrow> db_tasks s' = db_tasks s \<and> (\<exists>e. db_events s' = db_events s @ [e] \<and> graph_milestone i success e \<and>
         bundle_get i s' = Some (if success
           then b\<lparr>bundle_graph_terminal_at := (case bundle_graph_terminal_at b of None \<Rightarrow> Some now | Some t \<Rightarrow> Some t),
                  bundle_version := bundle_version b + 1\<rparr>
           else b\<lparr>bundle_blocked_reason := Some (if event_body e = [] then ''graph run failed'' else event_body e),
             bundle_version := bundle_version b + 1\<rparr>)))"

lemma milestone_recorded: "recorded_as i now s success (emit_graph_milestone i body success now s)"
proof (cases "bundle_get i s")
  case (Some b)
  obtain e where e: "db_events (emit_graph_milestone i body success now s) = db_events s @ [e]" "graph_milestone i success e"
    "event_body e = take 500 body"
    using milestone_spec(4) [OF Some] by blast
  then show ?thesis
    using milestone_spec(2) [OF Some, of i body success now] milestone_spec(3) [OF Some, of body success now]
    unfolding recorded_as_def Some option.case by (intro conjI exI [of _ e]) (simp_all add: opt_truthy_def)
qed (simp add: recorded_as_def milestone_gone)

text \<open>The end of a run: what it left, whether it succeeded, and the database after the milestone.\<close>

lemma execute_bundle_ends:
  assumes run: "execute_bundle w interval timeout compile iter i sleeps s = (sleeps', s')" and graph: "has_graph i s"
  shows "\<exists>body. s' = (case run_of w interval timeout compile iter i sleeps s of
      None \<Rightarrow> emit_graph_milestone i body False (wo_clock w sleeps') s
    | Some (m, g) \<Rightarrow> emit_graph_milestone i body (m = None \<and> graph_done i g) (wo_clock w sleeps') (gr_db g))"
proof -
  obtain b code where b: "bundle_get i s = Some b" "bundle_graph_code b = Some code"
    using graph by (auto simp: has_graph_def split: option.splits)
  show ?thesis
  proof (cases "run_of w interval timeout compile iter i sleeps s")
    case None
    then show ?thesis
      using run b by (auto simp: execute_bundle_def run_of_def split: option.splits compiled_code.splits if_splits)
  next
    case (Some mg)
    obtain m g where mg: "mg = (m, g)" by (rule prod.exhaust)
    obtain success body where v: "graph_verdict i g = (success, body)" by (rule prod.exhaust)
    have ok: "success = graph_done i g" using verdict_done [of i g] v by simp
    show ?thesis
      using Some run b v ok mg
      by (cases m) (auto simp: execute_bundle_def run_of_def Let_def split: option.splits compiled_code.splits if_splits)
  qed
qed

text \<open>C25: however a run ends (no cookbook, rejected or crashing code, no graph tasks, an exception of the
  graph, failed or unfinished nodes, success), the bundle leaves the runnable set, so that no later pass
  starts it again until it is reopened, and the run leaves exactly one milestone, on the state the graph left
  (the state at the start, when it never ran). The milestone says success, and the bundle gets its terminal
  mark (an earlier one is kept), exactly when the graph came to its end without an exception, every node result
  it recorded is a success, at least one was recorded, and every task of the bundle is done, blocked or cancelled;
  otherwise it says failure, the terminal mark stays and the bundle is blocked with the text of the milestone. A bundle that is
  gone when the run ends, or that has no graph, is left alone.\<close>

theorem runner_finalizes:
  assumes keys: "distinct (map bundle_id (db_bundles s))"
    and run: "execute_bundle w interval timeout compile iter i sleeps s = (sleeps', s')"
  shows "i \<notin> bundle_id ` set (list_runnable s') \<and>
    (if has_graph i s
     then (case run_of w interval timeout compile iter i sleeps s of
         None \<Rightarrow> recorded_as i (wo_clock w sleeps') s False s'
       | Some (m, g) \<Rightarrow> recorded_as i (wo_clock w sleeps') (gr_db g) (m = None \<and> graph_done i g) s')
     else s' = s)"
proof (cases "has_graph i s")
  case True
  from run True obtain body where s': "s' = (case run_of w interval timeout compile iter i sleeps s of
      None \<Rightarrow> emit_graph_milestone i body False (wo_clock w sleeps') s
    | Some (m, g) \<Rightarrow> emit_graph_milestone i body (m = None \<and> graph_done i g) (wo_clock w sleeps') (gr_db g))"
    using execute_bundle_ends by blast
  show ?thesis
  proof (cases "run_of w interval timeout compile iter i sleeps s")
    case None
    then show ?thesis using True milestone_recorded milestone_not_runnable by (simp add: s')
  next
    case (Some mg)
    obtain m g where mg: "mg = (m, g)" by (rule prod.exhaust)
    show ?thesis using True milestone_recorded milestone_not_runnable by (simp add: s' Some mg)
  qed
next
  case False
  then have same: "s' = s" using run by (auto simp: has_graph_def execute_bundle_def split: option.splits)
  have "x \<in> set (db_bundles s) \<Longrightarrow> bundle_id x = i \<Longrightarrow> bundle_get i s = Some x" for x
    using row_get_in_set [OF keys, of x] by (simp add: bundle_get_def)
  then have "i \<notin> bundle_id ` set (list_runnable s)"
    using False by (auto simp: has_graph_def list_runnable_def runnable_def)
  then show ?thesis using False same by simp
qed

text \<open>A graph of one step after the other, driven to its end.\<close>

fun in_order :: "step_args list graph_iter" where
  "in_order [] step g = (None, g)"
| "in_order (a # as) step g = (case step a g of
     (Inl e, g') \<Rightarrow> (Some ''step failed'', g') | (Inr out, g') \<Rightarrow> in_order as step g')"

definition runner_db :: db where
  "runner_db = (step_db TDone)\<lparr>db_bundles := [(plain_bundle ''b'' ''cb'')\<lparr>bundle_graph_code := Some ''code''\<rparr>]\<rparr>"

lemma runner_finalizes_witness:
  "''b'' \<in> bundle_id ` set (list_runnable runner_db) \<and>
   (\<exists>n s'. execute_bundle (meanwhile TDone) 1 1 (\<lambda>_. Compiled [one_step]) in_order ''b'' 0 runner_db = (n, s') \<and>
      ''b'' \<notin> bundle_id ` set (list_runnable s'))"
proof -
  obtain n s' where run: "execute_bundle (meanwhile TDone) 1 1 (\<lambda>_. Compiled [one_step]) in_order ''b'' 0 runner_db = (n, s')" by fastforce
  have "distinct (map bundle_id (db_bundles runner_db))" by (simp add: runner_db_def)
  from runner_finalizes [OF this run] run show ?thesis
    by (simp add: runner_db_def list_runnable_def runnable_def plain_bundle_def)
qed

section \<open>Capacity\<close>

lemma spawn_spec:
  assumes "distinct bs" "distinct fl"
  shows "\<exists>new. spawn most bs fl = fl @ new \<and> set new \<subseteq> set bs - set fl \<and> distinct new \<and> length (fl @ new) \<le> max most (length fl)"
  using assms
proof (induction bs arbitrary: fl)
  case (Cons b bs)
  show ?case
  proof (cases "b \<in> set fl \<or> most \<le> length fl")
    case True
    then show ?thesis using Cons.IH [of fl] Cons.prems by (auto intro: exI [of _ "[]"])
  next
    case False
    then obtain new where new: "spawn most bs (fl @ [b]) = (fl @ [b]) @ new" "set new \<subseteq> set bs - set (fl @ [b])" "distinct new"
        "length ((fl @ [b]) @ new) \<le> max most (length (fl @ [b]))"
      using Cons.IH [of "fl @ [b]"] Cons.prems by auto
    show ?thesis using False new Cons.prems by (intro exI [of _ "b # new"]) auto
  qed
qed (auto intro: exI [of _ "[]"])

text \<open>A pass starts runnable bundles only, none that is already running, and never more than the limit.\<close>

lemma reconcile_capacity:
  assumes "distinct (map bundle_id (db_bundles s))" "distinct (rn_in_flight r)" "length (rn_in_flight r) \<le> most"
  shows "length (rn_in_flight (runner_reconcile most s r)) \<le> most \<and> distinct (rn_in_flight (runner_reconcile most s r)) \<and>
    set (rn_in_flight (runner_reconcile most s r)) \<subseteq> set (rn_in_flight r) \<union> bundle_id ` set (list_runnable s)"
proof -
  have "inj_on bundle_id (set (list_runnable s))" "distinct (list_runnable s)"
    using assms(1) by (auto simp: list_runnable_def distinct_map inj_on_def)
  then have "distinct (map bundle_id (list_runnable s))" by (simp add: distinct_map)
  from spawn_spec [OF this assms(2), of most] obtain new where
    "spawn most (map bundle_id (list_runnable s)) (rn_in_flight r) = rn_in_flight r @ new"
    "set new \<subseteq> set (map bundle_id (list_runnable s)) - set (rn_in_flight r)" "distinct new"
    "length (rn_in_flight r @ new) \<le> max most (length (rn_in_flight r))" by blast
  with assms show ?thesis by (auto simp: runner_reconcile_def)
qed

end
