(* ===== verification/Graph_Validator.thy ===== *)
theory Graph_Validator
  imports Prelude
begin

text \<open>
  \<^verbatim>\<open>services/graph_sandbox/validator.py\<close>: the allowlist check that stands between LLM-written graph
  code and \<open>exec\<close> with the full builtins.  A Python syntax tree is the datatype \<open>ast\<close>: one constructor
  per node class that has its own visitor, \<open>Disallowed\<close> for the classes of \<open>DISALLOWED_NODES\<close>, and
  \<open>Generic\<close> for every other class, with its child nodes in field order (what \<open>generic_visit\<close> walks).
  The names of keyword arguments and parameters are strings of their nodes, not child nodes.  Line
  numbers in messages are left out.
\<close>

section \<open>Syntax trees\<close>

datatype ast =
    Name string bool
  | Attribute ast string
  | Assign "ast list" ast
  | AnnAssign ast ast "ast option"
  | Subscript ast ast
  | JoinedStr "ast list"
  | FormattedValue ast "ast option"
  | AsyncFunctionDef string "ast list" "ast list" "ast list"
  | FunctionDef string "ast list"
  | Disallowed string "ast list"
  | Generic string "ast list"

text \<open>\<open>Name x load\<close> is loaded or stored; \<open>AsyncFunctionDef f before decorators after\<close> keeps the children
  before and after the decorators (parameters and body; return annotation).\<close>

section \<open>Allowlists\<close>

definition INJECTED_NAMES :: "string list" where
  "INJECTED_NAMES = [''GraphBuilder'', ''StepContext'', ''reduce_list_append'', ''dispatch_cycle'',
     ''OrchestratorState'', ''OrchestratorDeps'']"

definition ALLOWED_BUILTINS :: "string list" where
  "ALLOWED_BUILTINS = [''str'', ''int'', ''float'', ''bool'', ''bytes'', ''list'', ''dict'', ''tuple'', ''set'',
     ''frozenset'', ''None'', ''True'', ''False'', ''len'', ''range'', ''enumerate'', ''zip'', ''min'', ''max'',
     ''sum'', ''any'', ''all'', ''sorted'', ''reversed'', ''abs'', ''round'', ''isinstance'']"

definition BANNED_NAMES :: "string list" where
  "BANNED_NAMES = [''__import__'', ''__builtins__'', ''__loader__'', ''__spec__'', ''__file__'', ''__name__'',
     ''__package__'', ''__doc__'', ''__class__'', ''__dict__'', ''__mro__'', ''__bases__'', ''__subclasses__'',
     ''__globals__'', ''__code__'', ''__closure__'', ''__init_subclass__'', ''__getattribute__'',
     ''__getattr__'', ''__setattr__'', ''__delattr__'', ''__module__'', ''__qualname__'', ''eval'', ''exec'',
     ''compile'', ''open'', ''input'', ''breakpoint'', ''help'', ''getattr'', ''setattr'', ''delattr'',
     ''globals'', ''locals'', ''vars'', ''dir'', ''id'', ''type'', ''object'', ''super'', ''memoryview'',
     ''bytearray'', ''exit'', ''quit'']"

section \<open>The visitor\<close>

record validator =
  va_violations :: "msg list"
  va_defined :: "string list"
  va_steps :: "string list"

definition flag :: "msg \<Rightarrow> validator \<Rightarrow> validator" where
  "flag m v = v\<lparr>va_violations := va_violations v @ [m]\<rparr>"

definition define_name :: "string \<Rightarrow> validator \<Rightarrow> validator" where
  "define_name x v = v\<lparr>va_defined := x # va_defined v\<rparr>"

definition banned :: "string \<Rightarrow> bool" where
  "banned x \<longleftrightarrow> x \<in> set BANNED_NAMES \<or> starts_with ''__'' x"

definition check_name :: "string \<Rightarrow> validator \<Rightarrow> validator" where
  "check_name x v = (if banned x then flag [Lit ''banned identifier '', Repr (JStr x)] v else v)"

definition fixed_name :: "string \<Rightarrow> bool" where
  "fixed_name x \<longleftrightarrow> x \<in> set INJECTED_NAMES \<or> x \<in> set ALLOWED_BUILTINS \<or> x \<in> set [''g'', ''graph'', ''ctx'']"

definition allowed_load :: "validator \<Rightarrow> string \<Rightarrow> bool" where
  "allowed_load v x \<longleftrightarrow> fixed_name x \<or> x \<in> set (va_defined v) \<or> x \<in> set (va_steps v)"

definition visit_name :: "string \<Rightarrow> bool \<Rightarrow> validator \<Rightarrow> validator" where
  "visit_name x load v = (let v1 = check_name x v in
     if load \<and> \<not> allowed_load v1 x then flag [Lit ''reference to unknown name '', Repr (JStr x)] v1 else v1)"

definition attr_ok :: "string \<Rightarrow> bool" where
  "attr_ok a \<longleftrightarrow> \<not> starts_with ''_'' a \<and> a \<notin> set BANNED_NAMES"

definition flag_attr :: "string \<Rightarrow> validator \<Rightarrow> validator" where
  "flag_attr a v = (if starts_with ''_'' a then flag [Lit ''access to private/dunder attribute '', Repr (JStr a)] v
     else flag [Lit ''access to banned attribute '', Repr (JStr a)] v)"

definition is_g_step :: "ast \<Rightarrow> bool" where
  "is_g_step d = (case d of Attribute (Name x _) a \<Rightarrow> a = ''step'' \<and> x = ''g'' | _ \<Rightarrow> False)"

definition check_decorators :: "ast list \<Rightarrow> validator \<Rightarrow> validator" where
  "check_decorators ds v = fold (\<lambda>d v. if is_g_step d then v
     else flag [Lit ''only @g.step decorator is allowed on step functions''] v) ds v"

definition assign_target :: "ast \<Rightarrow> validator \<Rightarrow> validator" where
  "assign_target tgt v = (case tgt of
       Name x _ \<Rightarrow> check_name x (define_name x v)
     | _ \<Rightarrow> flag [Lit ''only simple `name = expr` assignments allowed at module level''] v)"

text \<open>The target of an annotated assignment is looked at only when it is a name.\<close>

definition ann_target :: "ast \<Rightarrow> validator \<Rightarrow> validator" where
  "ann_target tgt v = (case tgt of Name x _ \<Rightarrow> check_name x (define_name x v) | _ \<Rightarrow> v)"

fun visit :: "ast \<Rightarrow> validator \<Rightarrow> validator" and visit_all :: "ast list \<Rightarrow> validator \<Rightarrow> validator" where
  "visit (Name x load) v = visit_name x load v"
| "visit (Attribute e a) v = (if attr_ok a then visit e v else flag_attr a v)"
| "visit (Assign tgts e) v = visit e (fold assign_target tgts v)"
| "visit (AnnAssign tgt ann e) v =
     (let v1 = visit ann (ann_target tgt v) in case e of None \<Rightarrow> v1 | Some x \<Rightarrow> visit x v1)"
| "visit (Subscript e sl) v = visit sl (visit e v)"
| "visit (JoinedStr es) v = visit_all es v"
| "visit (FormattedValue e spec) v =
     (let v1 = visit e v in case spec of None \<Rightarrow> v1 | Some x \<Rightarrow> visit x v1)"
| "visit (AsyncFunctionDef f before decs after) v =
     visit_all after (visit_all decs (visit_all before (check_decorators decs (check_name f v))))"
| "visit (FunctionDef f kids) v =
     flag [Lit ''step function '', Repr (JStr f), Lit '' must be `async def`, not `def`''] v"
| "visit (Disallowed k kids) v = flag [Lit ''disallowed construct '', Lit k] v"
| "visit (Generic k kids) v = visit_all kids v"
| "visit_all [] v = v"
| "visit_all (t # ts) v = visit_all ts (visit t v)"

text \<open>\<open>visit_Module\<close>: names bound at the top level first, then every statement.\<close>

definition collect :: "ast \<Rightarrow> validator \<Rightarrow> validator" where
  "collect stmt v = (case stmt of
       AsyncFunctionDef f _ _ _ \<Rightarrow> v\<lparr>va_steps := f # va_steps v, va_defined := f # va_defined v\<rparr>
     | FunctionDef f _ \<Rightarrow> v\<lparr>va_steps := f # va_steps v, va_defined := f # va_defined v\<rparr>
     | Assign tgts _ \<Rightarrow> fold (\<lambda>t v. case t of Name x _ \<Rightarrow> define_name x v | _ \<Rightarrow> v) tgts v
     | AnnAssign (Name x _) _ _ \<Rightarrow> define_name x v
     | _ \<Rightarrow> v)"

definition empty_validator :: validator where
  "empty_validator = \<lparr>va_violations = [], va_defined = [], va_steps = []\<rparr>"

definition visit_module :: "ast list \<Rightarrow> validator" where
  "visit_module body = visit_all body (fold collect body empty_validator)"

definition assigns_graph :: "ast \<Rightarrow> bool" where
  "assigns_graph stmt = (case stmt of
       Assign tgts _ \<Rightarrow> list_ex (\<lambda>t. case t of Name x _ \<Rightarrow> x = ''graph'' | _ \<Rightarrow> False) tgts | _ \<Rightarrow> False)"

text \<open>\<open>parse\<close> is \<open>ast.parse\<close>: the statements of the module, or the message of a syntax error.\<close>

definition validate_module :: "ast list \<Rightarrow> msg list" where
  "validate_module body = va_violations (visit_module body) @
     (if list_ex assigns_graph body then [] else [[Lit ''module must assign a `graph` variable (e.g. `graph = g.build()`)'']])"

definition validate_graph_code :: "(string \<Rightarrow> string + ast list) \<Rightarrow> string \<Rightarrow> unit res" where
  "validate_graph_code parse code = (case parse code of
       Inl m \<Rightarrow> Inl (ValueError [Lit ''syntax error: '', Lit m])
     | Inr body \<Rightarrow> if validate_module body = [] then Inr () else Inl (ValueError (concat (validate_module body))))"

section \<open>What an accepted tree looks like\<close>

text \<open>The names a tree binds by assignment, which the visitor takes as known.\<close>

definition target_names :: "ast list \<Rightarrow> string list" where
  "target_names ts = concat (map (\<lambda>t. case t of Name x _ \<Rightarrow> [x] | _ \<Rightarrow> []) ts)"

fun bound :: "ast \<Rightarrow> string list" and bound_all :: "ast list \<Rightarrow> string list" where
  "bound (Name x load) = []"
| "bound (Attribute e a) = bound e"
| "bound (Assign tgts e) = target_names tgts @ bound e"
| "bound (AnnAssign tgt ann e) = target_names [tgt] @ bound ann @ (case e of None \<Rightarrow> [] | Some x \<Rightarrow> bound x)"
| "bound (Subscript e sl) = bound e @ bound sl"
| "bound (JoinedStr es) = bound_all es"
| "bound (FormattedValue e spec) = bound e @ (case spec of None \<Rightarrow> [] | Some x \<Rightarrow> bound x)"
| "bound (AsyncFunctionDef f before decs after) = f # bound_all before @ bound_all decs @ bound_all after"
| "bound (FunctionDef f kids) = [f]"
| "bound (Disallowed k kids) = []"
| "bound (Generic k kids) = bound_all kids"
| "bound_all [] = []"
| "bound_all (t # ts) = bound t @ bound_all ts"

text \<open>\<open>safe ok t\<close>: no disallowed construct, plain function, banned or private identifier anywhere in \<open>t\<close>,
  every loaded name is one of \<open>ok\<close>, and only names are assigned to.  \<open>hides\<close> marks the trees the visitor
  does not look into: annotated assignments to something that is not a name.\<close>

fun safe :: "(string \<Rightarrow> bool) \<Rightarrow> ast \<Rightarrow> bool" and safe_all :: "(string \<Rightarrow> bool) \<Rightarrow> ast list \<Rightarrow> bool" where
  "safe ok (Name x load) = (\<not> banned x \<and> (load \<longrightarrow> ok x))"
| "safe ok (Attribute e a) = (attr_ok a \<and> safe ok e)"
| "safe ok (Assign tgts e) = (list_all (\<lambda>t. case t of Name x _ \<Rightarrow> \<not> banned x | _ \<Rightarrow> False) tgts \<and> safe ok e)"
| "safe ok (AnnAssign tgt ann e) =
     ((case tgt of Name x _ \<Rightarrow> \<not> banned x | _ \<Rightarrow> False) \<and> safe ok ann \<and> (case e of None \<Rightarrow> True | Some x \<Rightarrow> safe ok x))"
| "safe ok (Subscript e sl) = (safe ok e \<and> safe ok sl)"
| "safe ok (JoinedStr es) = safe_all ok es"
| "safe ok (FormattedValue e spec) = (safe ok e \<and> (case spec of None \<Rightarrow> True | Some x \<Rightarrow> safe ok x))"
| "safe ok (AsyncFunctionDef f before decs after) = (\<not> banned f \<and> list_all is_g_step decs \<and>
     safe_all ok before \<and> safe_all ok decs \<and> safe_all ok after)"
| "safe ok (FunctionDef f kids) = False"
| "safe ok (Disallowed k kids) = False"
| "safe ok (Generic k kids) = safe_all ok kids"
| "safe_all ok [] = True"
| "safe_all ok (t # ts) = (safe ok t \<and> safe_all ok ts)"

fun hides :: "ast \<Rightarrow> bool" and hides_any :: "ast list \<Rightarrow> bool" where
  "hides (Name x load) = False"
| "hides (Attribute e a) = hides e"
| "hides (Assign tgts e) = hides e"
| "hides (AnnAssign tgt ann e) = ((case tgt of Name x _ \<Rightarrow> False | _ \<Rightarrow> True) \<or> hides ann \<or>
     (case e of None \<Rightarrow> False | Some x \<Rightarrow> hides x))"
| "hides (Subscript e sl) = (hides e \<or> hides sl)"
| "hides (JoinedStr es) = hides_any es"
| "hides (FormattedValue e spec) = (hides e \<or> (case spec of None \<Rightarrow> False | Some x \<Rightarrow> hides x))"
| "hides (AsyncFunctionDef f before decs after) = (hides_any before \<or> hides_any decs \<or> hides_any after)"
| "hides (FunctionDef f kids) = False"
| "hides (Disallowed k kids) = False"
| "hides (Generic k kids) = hides_any kids"
| "hides_any [] = False"
| "hides_any (t # ts) = (hides t \<or> hides_any ts)"

section \<open>Soundness of acceptance\<close>

definition clean :: "validator \<Rightarrow> bool" where
  "clean v \<longleftrightarrow> va_violations v = []"

text \<open>\<open>knows ok v\<close>: every name the visitor would let a load of is an \<open>ok\<close> one.\<close>

definition knows :: "(string \<Rightarrow> bool) \<Rightarrow> validator \<Rightarrow> bool" where
  "knows ok v \<longleftrightarrow> (\<forall>x. allowed_load v x \<longrightarrow> ok x)"

lemma flag_not_clean [simp]: "\<not> clean (flag m v)" "\<not> clean (flag_attr a v)"
  by (auto simp: clean_def flag_def flag_attr_def)

lemma knows_simps [simp]:
  "knows ok (flag m v) = knows ok v" "knows ok (check_name x v) = knows ok v"
  "knows ok (define_name x v) = (ok x \<and> knows ok v)"
  by (auto simp: knows_def allowed_load_def flag_def check_name_def define_name_def)

lemma define_clean [simp]: "clean (define_name x v) = clean v"
  by (simp add: clean_def define_name_def)

lemma check_name_clean: "clean (check_name x v) \<longleftrightarrow> clean v \<and> \<not> banned x"
  by (auto simp: check_name_def)

lemma visit_name_clean:
  "clean (visit_name x load v) \<Longrightarrow> clean v \<and> \<not> banned x \<and> (load \<longrightarrow> allowed_load v x)"
proof -
  have "allowed_load (check_name x v) x = allowed_load v x"
    by (simp add: allowed_load_def check_name_def flag_def)
  moreover assume "clean (visit_name x load v)"
  ultimately show ?thesis by (auto simp: visit_name_def Let_def check_name_clean split: if_splits)
qed

lemma visit_name_knows: "knows ok (visit_name x load v) = knows ok v"
  by (simp add: visit_name_def Let_def)

lemma check_decorators_clean: "clean (check_decorators ds v) \<Longrightarrow> clean v \<and> list_all is_g_step ds"
proof (induction ds arbitrary: v)
  case (Cons d ds)
  let ?v = "if is_g_step d then v else flag [Lit ''only @g.step decorator is allowed on step functions''] v"
  have "clean (check_decorators ds ?v)" using Cons.prems by (simp add: check_decorators_def)
  from Cons.IH [OF this] show ?case by (simp split: if_splits)
qed (simp add: check_decorators_def)

lemma check_decorators_knows [simp]: "knows ok (check_decorators ds v) = knows ok v"
proof -
  have "knows ok (fold (\<lambda>d v. if is_g_step d then v else flag m v) ds v) = knows ok v" for m v
    by (induction ds arbitrary: v) auto
  then show ?thesis by (simp add: check_decorators_def)
qed

lemma assign_targets_clean:
  "clean (fold assign_target ts v) \<Longrightarrow>
     clean v \<and> list_all (\<lambda>t. case t of Name x _ \<Rightarrow> \<not> banned x | _ \<Rightarrow> False) ts"
proof (induction ts arbitrary: v)
  case (Cons t ts)
  then have "clean (assign_target t v)" "list_all (\<lambda>t. case t of Name x _ \<Rightarrow> \<not> banned x | _ \<Rightarrow> False) ts" by auto
  then show ?case by (cases t) (auto simp: assign_target_def check_name_clean)
qed simp

lemma assign_targets_knows:
  "knows ok v \<Longrightarrow> \<forall>x\<in>set (target_names ts). ok x \<Longrightarrow> knows ok (fold assign_target ts v)"
proof (induction ts arbitrary: v)
  case (Cons t ts)
  then show ?case by (cases t) (auto simp: assign_target_def target_names_def)
qed simp

lemma ann_target_clean:
  "clean (ann_target t v) \<Longrightarrow> clean v \<and> (case t of Name x _ \<Rightarrow> \<not> banned x | _ \<Rightarrow> True)"
  by (cases t) (auto simp: ann_target_def check_name_clean)

lemma ann_target_knows: "knows ok v \<Longrightarrow> \<forall>x\<in>set (target_names [t]). ok x \<Longrightarrow> knows ok (ann_target t v)"
  by (cases t) (auto simp: ann_target_def target_names_def)

lemma visit_knows:
  "knows ok v \<Longrightarrow> \<forall>x\<in>set (bound t). ok x \<Longrightarrow> knows ok (visit t v)"
  "knows ok v \<Longrightarrow> \<forall>x\<in>set (bound_all ts). ok x \<Longrightarrow> knows ok (visit_all ts v)"
  by (induction t v and ts v rule: visit_visit_all.induct)
    (auto simp: visit_name_knows assign_targets_knows ann_target_knows flag_attr_def Let_def split: option.splits)

lemma visit_safe:
  "clean (visit t v) \<Longrightarrow> \<not> hides t \<Longrightarrow> knows ok v \<Longrightarrow> \<forall>x\<in>set (bound t). ok x \<Longrightarrow> clean v \<and> safe ok t"
  "clean (visit_all ts v) \<Longrightarrow> \<not> hides_any ts \<Longrightarrow> knows ok v \<Longrightarrow> \<forall>x\<in>set (bound_all ts). ok x \<Longrightarrow>
     clean v \<and> safe_all ok ts"
proof (induction t v and ts v rule: visit_visit_all.induct)
  case (1 x load v)
  then show ?case using visit_name_clean [of x load v] by (auto simp: knows_def)
next
  case (2 e a v)
  then show ?case by (auto split: if_splits)
next
  case (3 tgts e v)
  then show ?case using assign_targets_clean [of tgts v] assign_targets_knows [of ok v tgts] by auto
next
  case (4 tgt ann e v)
  have k: "knows ok (ann_target tgt v)" using 4 by (intro ann_target_knows) auto
  then have k2: "knows ok (visit ann (ann_target tgt v))" using 4 by (intro visit_knows) auto
  show ?case
    using 4 k k2 ann_target_clean [of tgt v] by (auto simp: Let_def split: option.splits ast.splits)
next
  case (5 e sl v)
  then show ?case using visit_knows(1) [of ok v e] by auto
next
  case (7 e spec v)
  then show ?case using visit_knows(1) [of ok v e] by (auto simp: Let_def split: option.splits)
next
  case (8 f before decs after v)
  let ?v0 = "check_decorators decs (check_name f v)"
  have k0: "knows ok ?v0" using 8 by simp
  have k1: "knows ok (visit_all before ?v0)" using 8 k0 by (intro visit_knows) auto
  have k2: "knows ok (visit_all decs (visit_all before ?v0))" using 8 k1 by (intro visit_knows) auto
  show ?case
    using 8 k0 k1 k2 check_decorators_clean [of decs "check_name f v"] by (auto simp: check_name_clean)
next
  case (13 t ts v)
  then show ?case using visit_knows(1) [of ok v t] by auto
qed auto

lemma fold_collect:
  "clean (fold collect body v) = clean v"
  "knows ok v \<Longrightarrow> \<forall>x\<in>set (bound_all body). ok x \<Longrightarrow> knows ok (fold collect body v)"
proof -
  have names: "clean (fold (\<lambda>t v. case t of Name x _ \<Rightarrow> define_name x v | _ \<Rightarrow> v) ts v) = clean v"
    "knows ok v \<Longrightarrow> \<forall>x\<in>set (target_names ts). ok x \<Longrightarrow>
       knows ok (fold (\<lambda>t v. case t of Name x _ \<Rightarrow> define_name x v | _ \<Rightarrow> v) ts v)" for ts v
    by (induction ts arbitrary: v) (auto simp: target_names_def split: ast.split)
  have c: "clean (collect s v) = clean v" for s v
    by (cases s) (auto simp: collect_def names split: ast.split, auto simp: clean_def)
  show "clean (fold collect body v) = clean v" by (induction body arbitrary: v) (simp_all add: c)
  have k: "knows ok (collect s v)" if "knows ok v" "\<forall>x\<in>set (bound s). ok x" for s v
  proof -
    have st: "knows ok (v\<lparr>va_steps := f # va_steps v, va_defined := f # va_defined v\<rparr>) = (ok f \<and> knows ok v)" for f
      by (auto simp: knows_def allowed_load_def)
    show ?thesis
    proof (cases s)
      case (Assign tgts e)
      then show ?thesis using that names(2) [of v tgts] by (simp add: collect_def)
    next
      case (AnnAssign tgt ann e)
      then show ?thesis using that by (cases tgt) (simp_all add: collect_def target_names_def)
    qed (use that in \<open>simp_all add: collect_def st\<close>)
  qed
  show "knows ok v \<Longrightarrow> \<forall>x\<in>set (bound_all body). ok x \<Longrightarrow> knows ok (fold collect body v)"
    by (induction body arbitrary: v) (simp_all add: k)
qed

text \<open>C11: if the validator accepts a module, and the module has no annotated assignment to a target that
  is not a name, then nothing unsafe is anywhere in it: no disallowed construct, no plain function, no
  banned, dunder or private identifier, no assignment to anything but a name, and every name it reads is
  injected, an allowed builtin, a conventional local, or bound by the module itself.\<close>

theorem validator_sound:
  assumes "validate_module body = []" and "\<not> hides_any body"
  shows "safe_all (\<lambda>x. fixed_name x \<or> x \<in> set (bound_all body)) body"
proof -
  let ?ok = "\<lambda>x. fixed_name x \<or> x \<in> set (bound_all body)"
  have "clean (visit_module body)" using assms(1) by (simp add: validate_module_def clean_def)
  moreover have "knows ?ok (fold collect body empty_validator)"
    by (rule fold_collect(2)) (auto simp: knows_def allowed_load_def empty_validator_def)
  ultimately show ?thesis using visit_safe(2) [of body _ ?ok] assms(2) by (auto simp: visit_module_def)
qed

text \<open>A small accepted module: \<open>g = GraphBuilder()\<close> and \<open>graph = g.build()\<close>.\<close>

definition sample_module :: "ast list" where
  "sample_module = [Assign [Name ''g'' False] (Generic ''Call'' [Name ''GraphBuilder'' True]),
     Assign [Name ''graph'' False] (Generic ''Call'' [Attribute (Name ''g'' True) ''build''])]"

lemmas validator_eval = validate_module_def visit_module_def empty_validator_def collect_def define_name_def
  assign_target_def ann_target_def check_name_def banned_def BANNED_NAMES_def starts_with_def visit_name_def
  allowed_load_def fixed_name_def INJECTED_NAMES_def ALLOWED_BUILTINS_def attr_ok_def assigns_graph_def

lemma sample_accepted: "validate_module sample_module = []"
  by (simp add: sample_module_def validator_eval)

lemma validator_sound_witness:
  "safe_all (\<lambda>x. fixed_name x \<or> x \<in> set (bound_all sample_module)) sample_module"
  by (rule validator_sound [OF sample_accepted]) (simp add: sample_module_def)

text \<open>\<open>__import__("os").system("id").x: int = 1\<close> in front of it.\<close>

definition escape :: ast where
  "escape = AnnAssign (Attribute (Generic ''Call'' [Attribute (Generic ''Call''
     [Name ''__import__'' True, Generic ''Constant'' []]) ''system'', Generic ''Constant'' []]) ''x'')
     (Name ''int'' True) (Some (Generic ''Constant'' []))"

text \<open>The validator accepts a module that imports \<open>os\<close> and runs a command: the target of an annotated
  assignment is evaluated when the code runs, but the visitor looks at it only when it is a name.\<close>

theorem validator_escape:
  "validate_module (escape # sample_module) = [] \<and>
   \<not> safe_all (\<lambda>_. True) (escape # sample_module)"
  by (simp add: escape_def sample_module_def validator_eval)

end
