(* ===== verification/Graph_Renderer.thy ===== *)
theory Graph_Renderer
  imports Graph_Validator Reachability
begin

text \<open>
  From generated code to the picture of a graph (\<^verbatim>\<open>services/graph_sandbox/sandbox.py\<close>,
  \<^verbatim>\<open>services/graph_sandbox/renderer.py\<close>): running validated code, the extraction of the user's steps and of
  the edges between them through the scaffolding of pydantic-graph, and the Mermaid text.  The walk through
  the scaffolding is proved to find exactly the steps that are reached without passing another step, so
  that what cookrew displays has the reachability of the graph that runs.  Node ids are ASCII, as the names
  of step functions are; the interpreter (\<open>compile\<close> and \<open>exec\<close>) is an argument.
\<close>

section \<open>Objects of pydantic-graph\<close>

text \<open>What the code looks at: the class name of every node, and for every path its items with the
  \<open>destination_id\<close> of each, if it has one that is a text.  \<open>None\<close> stands for an attribute that is missing
  or is not a dictionary.\<close>

type_synonym path = "string option list"

record py_graph =
  pg_class :: string
  pg_nodes :: "(string \<times> string) list option"
  pg_edges :: "(string \<times> path list) list option"
  pg_runs :: bool

definition looks_like_graph :: "py_graph \<Rightarrow> bool" where
  "looks_like_graph g \<longleftrightarrow> pg_nodes g \<noteq> None \<and> pg_runs g"

section \<open>Executing the generated code\<close>

definition namespace_keys :: "string list" where
  "namespace_keys = [''__builtins__'', ''GraphBuilder'', ''StepContext'', ''reduce_list_append'', ''dispatch_cycle'',
     ''OrchestratorState'', ''OrchestratorDeps'']"

definition build_namespace :: "string list res" where
  "build_namespace = (if filter (\<lambda>k. k \<notin> set namespace_keys) INJECTED_NAMES \<noteq> []
     then Inl (GraphExecError ''namespace missing injected names'') else Inr namespace_keys)"

text \<open>\<open>run\<close> compiles and executes the code in the namespace: the text of an exception, or what the code
  assigned to \<open>graph\<close>.\<close>

definition execute_graph_code :: "(string \<Rightarrow> string + ast list) \<Rightarrow> (string list \<Rightarrow> string \<Rightarrow> string + py_graph option) \<Rightarrow>
    string \<Rightarrow> py_graph res" where
  "execute_graph_code parse run code =
     bind_res (validate_graph_code parse code) (\<lambda>_. bind_res build_namespace (\<lambda>names.
       case run names code of
         Inl m \<Rightarrow> Inl (GraphExecError (''graph code execution failed: '' @ m))
       | Inr None \<Rightarrow> Inl (GraphExecError ''graph code did not assign a `graph` variable'')
       | Inr (Some g) \<Rightarrow>
           if looks_like_graph g then Inr g
           else Inl (GraphExecError (''`graph` is not a pydantic-graph Graph (got '' @ pg_class g @ '')''))))"

section \<open>Extracting steps and edges\<close>

definition is_internal :: "string \<Rightarrow> string \<Rightarrow> bool" where
  "is_internal name cls \<longleftrightarrow> name \<in> {''__start__'', ''__end__''} \<or> cls \<in> {''StartNode'', ''EndNode'', ''Fork'', ''Join''}"

definition destination_of_path :: "path \<Rightarrow> string option" where
  "destination_of_path p = (case filter (\<lambda>d. d \<noteq> None) (rev p) of [] \<Rightarrow> None | d # _ \<Rightarrow> d)"

text \<open>The destination of a path if it is a node of the graph, with its class.\<close>

definition path_target :: "(string \<times> string) list \<Rightarrow> path \<Rightarrow> (string \<times> string) option" where
  "path_target nodes p = (case destination_of_path p of
       None \<Rightarrow> None | Some d \<Rightarrow> map_option (\<lambda>c. (d, c)) (map_of nodes d))"

text \<open>\<open>edges_by_source.get(d, []) or []\<close>.\<close>

definition paths_from :: "(string \<times> path list) list \<Rightarrow> string \<Rightarrow> path list" where
  "paths_from edges d = (case map_of edges d of None \<Rightarrow> [] | Some ps \<Rightarrow> ps)"

text \<open>\<open>walk\<close> over the paths that are left at the current node, with the nodes visited so far: it adds the
  steps it meets and goes on behind the scaffolding.\<close>

function walk :: "(string \<times> string) list \<Rightarrow> (string \<times> path list) list \<Rightarrow> path list \<Rightarrow> string list \<Rightarrow> string list \<times> string list" where
  "walk nodes edges [] visited = (visited, [])"
| "walk nodes edges (p # ps) visited =
     (case path_target nodes p of
        None \<Rightarrow> walk nodes edges ps visited
      | Some (d, c) \<Rightarrow>
          if \<not> is_internal d c then (let (v, r) = walk nodes edges ps visited in (v, d # r))
          else if d \<in> set visited then walk nodes edges ps visited
          else (let (v, r) = walk nodes edges (paths_from edges d) (d # visited);
                    (v', r') = walk nodes edges ps v
                in (v', r @ r')))"
  by pat_completeness auto

lemma walk_visited: "walk_dom (nodes, edges, ps, visited) \<Longrightarrow> set visited \<subseteq> set (fst (walk nodes edges ps visited))"
proof (induction nodes edges ps visited rule: walk.pinduct)
  case (2 nodes edges p ps visited)
  note eq = walk.psimps(2) [OF 2(1)]
  show ?case
  proof (cases "path_target nodes p")
    case None
    then show ?thesis using 2(2) by (simp add: eq)
  next
    case (Some dc)
    obtain d c where dc: "dc = (d, c)" by force
    note IH = 2(3-6) [OF Some dc [symmetric]]
    show ?thesis
    proof (cases "is_internal d c \<and> d \<notin> set visited")
      case False
      then show ?thesis using IH(1,2) Some dc by (auto simp: eq case_prod_beta Let_def)
    next
      case True
      obtain v1 r1 where w1: "walk nodes edges (paths_from edges d) (d # visited) = (v1, r1)" by force
      have "set (d # visited) \<subseteq> set v1" "set v1 \<subseteq> set (fst (walk nodes edges ps v1))"
        subgoal using IH(3) True w1 by auto
        subgoal using IH(4) True w1 by (metis (full_types) fst_conv)
        done
      then have "set visited \<subseteq> set (fst (walk nodes edges ps v1))" by auto
      then show ?thesis using Some dc True w1 by (simp add: eq case_prod_beta Let_def)
    qed
  qed
qed (simp add: walk.psimps)

lemma path_target_node: "path_target nodes p = Some (d, c) \<Longrightarrow> map_of nodes d = Some c"
  by (auto simp: path_target_def split: option.splits)

lemma fresh_node_decreases:
  assumes "map_of nodes d = Some c" "d \<notin> set visited" "insert d (set visited) \<subseteq> v"
  shows "card (fst ` set nodes - v) < card (fst ` set nodes - set visited)"
proof (rule psubset_card_mono)
  have "d \<in> fst ` set nodes" using assms(1) by (force dest: map_of_SomeD)
  then show "fst ` set nodes - v \<subset> fst ` set nodes - set visited" using assms(2,3) by blast
qed simp

termination walk
proof (relation "measures [\<lambda>(nodes, edges, ps, visited). card (fst ` set nodes - set visited), \<lambda>(nodes, edges, ps, visited). length ps]",
    simp, simp, simp, simp)
  show "((nodes, edges, paths_from edges d, d # visited), nodes, edges, p # ps, visited) \<in>
      measures [\<lambda>(nodes, edges, ps, visited). card (fst ` set nodes - set visited), \<lambda>(nodes, edges, ps, visited). length ps]"
    if "path_target nodes p = Some x2" "(d, c) = x2" "d \<notin> set visited" for nodes edges p ps visited x2 d c
    using fresh_node_decreases [of nodes d c visited "set (d # visited)"] path_target_node that by auto
next
  show "((nodes, edges, ps, v), nodes, edges, p # ps, visited) \<in>
      measures [\<lambda>(nodes, edges, ps, visited). card (fst ` set nodes - set visited), \<lambda>(nodes, edges, ps, visited). length ps]"
    if "path_target nodes p = Some x2" "(d, c) = x2" "d \<notin> set visited" "x = walk nodes edges (paths_from edges d) (d # visited)"
      "(v, r) = x" "walk_dom (nodes, edges, paths_from edges d, d # visited)" for nodes edges p ps visited x2 d c x v r
    using fresh_node_decreases [of nodes d c visited "set v"] path_target_node that walk_visited [OF that(6)]
    by (auto dest: sym)
qed

declare walk.simps [simp del]

lemma walk_Nil [simp]: "walk nodes edges [] visited = (visited, [])"
  by (simp add: walk.simps)

lemma walk_Cons:
  "path_target nodes p = None \<Longrightarrow> walk nodes edges (p # ps) visited = walk nodes edges ps visited"
  "path_target nodes p = Some (d, c) \<Longrightarrow> \<not> is_internal d c \<Longrightarrow> walk nodes edges ps visited = (v, r) \<Longrightarrow>
     walk nodes edges (p # ps) visited = (v, d # r)"
  "path_target nodes p = Some (d, c) \<Longrightarrow> is_internal d c \<Longrightarrow> d \<in> set visited \<Longrightarrow>
     walk nodes edges (p # ps) visited = walk nodes edges ps visited"
  "path_target nodes p = Some (d, c) \<Longrightarrow> is_internal d c \<Longrightarrow> d \<notin> set visited \<Longrightarrow>
     walk nodes edges (paths_from edges d) (d # visited) = (v, r) \<Longrightarrow> walk nodes edges ps v = (v', r') \<Longrightarrow>
     walk nodes edges (p # ps) visited = (v', r @ r')"
  by (simp_all add: walk.simps)

definition resolve_user_destinations :: "(string \<times> string) list \<Rightarrow> (string \<times> path list) list \<Rightarrow> string \<Rightarrow> string list" where
  "resolve_user_destinations nodes edges src = snd (walk nodes edges (paths_from edges src) [])"

definition add_pair :: "'a \<Rightarrow> 'a list \<Rightarrow> 'a list" where
  "add_pair e es = (if e \<in> set es then es else es @ [e])"

text \<open>\<open>order\<close> is the order in which Python iterates over the set of step ids.\<close>

definition extract_edges :: "(string list \<Rightarrow> string list) \<Rightarrow> (string \<times> string) list \<Rightarrow> (string \<times> path list) list option \<Rightarrow>
    string list \<Rightarrow> (string \<times> string) list" where
  "extract_edges order nodes edges user = (case edges of
       None \<Rightarrow> []
     | Some es \<Rightarrow> fold add_pair (concat (map (\<lambda>src. map (Pair src)
         (filter (\<lambda>dst. dst \<in> set user) (resolve_user_destinations nodes es src))) (order user))) [])"

definition extract_graph_structure :: "(string list \<Rightarrow> string list) \<Rightarrow> py_graph \<Rightarrow> string list \<times> (string \<times> string) list" where
  "extract_graph_structure order g = (case pg_nodes g of
       None \<Rightarrow> ([], [])
     | Some nodes \<Rightarrow>
         let ids = map fst (filter (\<lambda>(n, c). \<not> is_internal n c) nodes)
         in (ids, extract_edges order nodes (pg_edges g) ids))"

section \<open>Rendering\<close>

definition char_upper :: "char \<Rightarrow> char" where
  "char_upper c = (let n = (of_char c :: nat) in if 97 \<le> n \<and> n \<le> 122 then char_of (n - 32) else c)"

definition ord_in :: "nat \<Rightarrow> nat \<Rightarrow> char \<Rightarrow> bool" where
  "ord_in lo hi c \<longleftrightarrow> lo \<le> of_char c \<and> of_char c \<le> hi"

definition is_upper :: "char \<Rightarrow> bool" where
  "is_upper c = ord_in 65 90 c"

definition is_letter :: "char \<Rightarrow> bool" where
  "is_letter c \<longleftrightarrow> is_upper c \<or> ord_in 97 122 c"

text \<open>\<open>str.title\<close>: the first letter after a character that is no letter is put in upper case.\<close>

fun title_from :: "bool \<Rightarrow> string \<Rightarrow> string" where
  "title_from inside [] = []"
| "title_from inside (c # s) = (if inside then char_lower c else char_upper c) # title_from (is_letter c) s"

definition spaced :: "string \<Rightarrow> string" where
  "spaced s = (case s of [] \<Rightarrow> [] | c # cs \<Rightarrow> c # concat (map (\<lambda>d. if is_upper d then [CHR '' '', d] else [d]) cs))"

definition humanize :: "string \<Rightarrow> string" where
  "humanize n = title_from False (map (\<lambda>c. if c = CHR ''_'' then CHR '' '' else c) (spaced n))"

definition safe_id :: "string \<Rightarrow> string" where
  "safe_id n = map (\<lambda>c. if is_letter c \<or> ord_in 48 57 c \<or> c = CHR ''_'' then c else CHR ''_'') n"

definition backslash :: char where
  "backslash = CHR 0x5C"

definition quote_mark :: char where
  "quote_mark = CHR 0x22"

definition escape_mermaid :: "string \<Rightarrow> string" where
  "escape_mermaid s = concat (map (\<lambda>c. if c = backslash then [backslash, backslash]
     else if c = quote_mark then [backslash, quote_mark] else [c]) s)"

definition VALID_DIRECTIONS :: "string list" where
  "VALID_DIRECTIONS = [''TD'', ''TB'', ''BT'', ''LR'', ''RL'']"

record rendered_graph =
  rg_mermaid :: string
  rg_node_count :: nat
  rg_edge_count :: nat

definition incoming :: "(string \<times> string) list \<Rightarrow> string \<Rightarrow> string list" where
  "incoming es n = map fst (filter (\<lambda>e. snd e = n) es)"

definition outgoing :: "(string \<times> string) list \<Rightarrow> string \<Rightarrow> string list" where
  "outgoing es n = map snd (filter (\<lambda>e. fst e = n) es)"

definition roots :: "string list \<Rightarrow> (string \<times> string) list \<Rightarrow> string list" where
  "roots ids es = filter (\<lambda>n. incoming es n = []) ids"

definition leaves :: "string list \<Rightarrow> (string \<times> string) list \<Rightarrow> string list" where
  "leaves ids es = filter (\<lambda>n. outgoing es n = []) ids"

definition node_line :: "string \<Rightarrow> string" where
  "node_line n = ''    '' @ safe_id n @ ''['' @ [quote_mark] @ escape_mermaid (humanize n) @ [quote_mark] @ '']''"

definition edge_line :: "string \<times> string \<Rightarrow> string" where
  "edge_line e = ''    '' @ safe_id (fst e) @ '' --> '' @ safe_id (snd e)"

definition class_line :: "string list \<Rightarrow> string \<Rightarrow> string" where
  "class_line ids cls = ''    class '' @ str_join '','' (map safe_id ids) @ '' '' @ cls"

definition root_style :: string where
  "root_style = ''    classDef root fill:#e8f5e9,stroke:#4caf50,stroke-width:2px''"

definition leaf_style :: string where
  "leaf_style = ''    classDef leaf fill:#e3f2fd,stroke:#2196f3,stroke-width:2px''"

definition mermaid_lines :: "string \<Rightarrow> string list \<Rightarrow> (string \<times> string) list \<Rightarrow> string list" where
  "mermaid_lines dir ids es =
     ([''flowchart '' @ dir] @ map node_line ids @ map edge_line es @
      (if roots ids es = [] then [] else [root_style, class_line (roots ids es) ''root'']) @
      (if leaves ids es = [] then [] else [leaf_style, class_line (leaves ids es) ''leaf'']))"

definition render_graph :: "(string list \<Rightarrow> string list) \<Rightarrow> py_graph \<Rightarrow> string \<Rightarrow> rendered_graph res" where
  "render_graph order g dir =
     (if dir \<notin> set VALID_DIRECTIONS then Inl (ValueError [Lit ''invalid direction '', Repr (JStr dir)])
      else case extract_graph_structure order g of (ids, es) \<Rightarrow>
        if ids = [] then Inr \<lparr>rg_mermaid = ''flowchart '' @ dir, rg_node_count = 0, rg_edge_count = 0\<rparr>
        else Inr \<lparr>rg_mermaid = str_join nl (mermaid_lines dir ids es), rg_node_count = length ids, rg_edge_count = length es\<rparr>)"

section \<open>The extracted edges are the graph without its scaffolding\<close>

text \<open>One path of the graph, and one that ends in scaffolding.\<close>

definition hop :: "(string \<times> string) list \<Rightarrow> (string \<times> path list) list \<Rightarrow> (string \<times> string) set" where
  "hop nodes edges = {(x, y). \<exists>p\<in>set (paths_from edges x). \<exists>c. path_target nodes p = Some (y, c)}"

definition silent :: "(string \<times> string) list \<Rightarrow> (string \<times> path list) list \<Rightarrow> (string \<times> string) set" where
  "silent nodes edges = {(x, y). \<exists>p\<in>set (paths_from edges x). \<exists>c. path_target nodes p = Some (y, c) \<and> is_internal y c}"

text \<open>The steps and the scaffolding that some paths lead to.\<close>

definition steps_at :: "(string \<times> string) list \<Rightarrow> path list \<Rightarrow> string set" where
  "steps_at nodes ps = {d. \<exists>p\<in>set ps. \<exists>c. path_target nodes p = Some (d, c) \<and> \<not> is_internal d c}"

definition scaffold_at :: "(string \<times> string) list \<Rightarrow> path list \<Rightarrow> string set" where
  "scaffold_at nodes ps = {d. \<exists>p\<in>set ps. \<exists>c. path_target nodes p = Some (d, c) \<and> is_internal d c}"

lemma at_Cons:
  "path_target nodes p = None \<Longrightarrow> steps_at nodes (p # ps) = steps_at nodes ps \<and> scaffold_at nodes (p # ps) = scaffold_at nodes ps"
  "path_target nodes p = Some (d, c) \<Longrightarrow> \<not> is_internal d c \<Longrightarrow>
     steps_at nodes (p # ps) = insert d (steps_at nodes ps) \<and> scaffold_at nodes (p # ps) = scaffold_at nodes ps"
  "path_target nodes p = Some (d, c) \<Longrightarrow> is_internal d c \<Longrightarrow>
     steps_at nodes (p # ps) = steps_at nodes ps \<and> scaffold_at nodes (p # ps) = insert d (scaffold_at nodes ps)"
  by (auto simp: steps_at_def scaffold_at_def)

text \<open>What is visited is scaffolding reached silently, and every visited node but those that were there
  before has all it leads to in the answer.\<close>

lemma walk_post:
  "walk nodes edges ps visited = (v, r) \<Longrightarrow>
     set visited \<union> scaffold_at nodes ps \<subseteq> set v \<and> steps_at nodes ps \<subseteq> set r \<and>
     (\<forall>x\<in>set v - set visited. scaffold_at nodes (paths_from edges x) \<subseteq> set v \<and> steps_at nodes (paths_from edges x) \<subseteq> set r)"
proof (induction nodes edges ps visited arbitrary: v r rule: walk.induct)
  case (2 nodes edges p ps visited)
  obtain v0 r0 where w0: "walk nodes edges ps visited = (v0, r0)" by force
  consider "path_target nodes p = None"
    | d c where "path_target nodes p = Some (d, c)" "\<not> is_internal d c"
    | d c where "path_target nodes p = Some (d, c)" "is_internal d c" "d \<in> set visited"
    | d c where "path_target nodes p = Some (d, c)" "is_internal d c" "d \<notin> set visited"
    by (metis option.exhaust surj_pair)
  then show ?case
  proof cases
    case 1
    then show ?thesis using 2(1) [OF 1] 2(6) by (simp add: walk_Cons at_Cons)
  next
    case (2 d c)
    then have "v = v0" "r = d # r0" using "2.prems" w0 by (simp_all add: walk_Cons(2))
    then show ?thesis using "2.IH"(2) [OF 2(1) HOL.refl 2(2) w0] at_Cons(2) [OF 2, of ps] by auto
  next
    case (3 d c)
    then have "walk nodes edges ps visited = (v, r)" using "2.prems" by (simp add: walk_Cons(3))
    from "2.IH"(3) [OF 3(1) HOL.refl _ 3(3) this] show ?thesis using 3 at_Cons(3) [OF 3(1,2), of ps] by auto
  next
    case (4 d c)
    obtain v1 r1 where w1: "walk nodes edges (paths_from edges d) (d # visited) = (v1, r1)" by force
    obtain v2 r2 where w2: "walk nodes edges ps v1 = (v2, r2)" by force
    have vr: "v = v2" "r = r1 @ r2" using walk_Cons(4) [OF 4 w1 w2] "2.prems" by auto
    have A: "insert d (set visited) \<union> scaffold_at nodes (paths_from edges d) \<subseteq> set v1"
      "steps_at nodes (paths_from edges d) \<subseteq> set r1"
      "\<forall>x\<in>set v1 - set (d # visited). scaffold_at nodes (paths_from edges x) \<subseteq> set v1 \<and> steps_at nodes (paths_from edges x) \<subseteq> set r1"
      using "2.IH"(4) [OF 4(1) HOL.refl _ 4(3) w1] 4(2) by auto
    have B: "set v1 \<union> scaffold_at nodes ps \<subseteq> set v2" "steps_at nodes ps \<subseteq> set r2"
      "\<forall>x\<in>set v2 - set v1. scaffold_at nodes (paths_from edges x) \<subseteq> set v2 \<and> steps_at nodes (paths_from edges x) \<subseteq> set r2"
      using "2.IH"(5) [OF 4(1) HOL.refl _ 4(3) w1 [symmetric] HOL.refl w2] 4(2) by auto
    have "scaffold_at nodes (paths_from edges x) \<subseteq> set v2 \<and> steps_at nodes (paths_from edges x) \<subseteq> set (r1 @ r2)"
      if "x \<in> set v2 - set visited" for x
    proof (cases "x \<in> set v1")
      case True
      then have "scaffold_at nodes (paths_from edges x) \<subseteq> set v1 \<and> steps_at nodes (paths_from edges x) \<subseteq> set r1"
        using A that by (cases "x = d") auto
      then show ?thesis using B(1) by auto
    qed (use B(3) that in auto)
    then show ?thesis unfolding vr at_Cons(3) [OF 4(1,2), THEN conjunct1] at_Cons(3) [OF 4(1,2), THEN conjunct2]
      using A(1,2) B(1,2) by auto
  qed
qed (auto simp: steps_at_def scaffold_at_def)

lemma silent_iff: "(x, y) \<in> silent nodes edges \<longleftrightarrow> y \<in> scaffold_at nodes (paths_from edges x)"
  by (auto simp: silent_def scaffold_at_def)

lemma hop_iff: "(x, y) \<in> hop nodes edges \<longleftrightarrow> y \<in> scaffold_at nodes (paths_from edges x) \<union> steps_at nodes (paths_from edges x)"
  by (auto simp: hop_def scaffold_at_def steps_at_def)

lemma walk_sound:
  "walk nodes edges ps visited = (v, r) \<Longrightarrow> d \<in> set r \<Longrightarrow>
     d \<in> steps_at nodes ps \<or> (\<exists>x\<in>scaffold_at nodes ps. \<exists>y. (x, y) \<in> (silent nodes edges)\<^sup>* \<and> d \<in> steps_at nodes (paths_from edges y))"
proof (induction nodes edges ps visited arbitrary: v r rule: walk.induct)
  case (2 nodes edges p ps visited)
  obtain v0 r0 where w0: "walk nodes edges ps visited = (v0, r0)" by force
  consider "path_target nodes p = None"
    | d' c where "path_target nodes p = Some (d', c)" "\<not> is_internal d' c"
    | d' c where "path_target nodes p = Some (d', c)" "is_internal d' c" "d' \<in> set visited"
    | d' c where "path_target nodes p = Some (d', c)" "is_internal d' c" "d' \<notin> set visited"
    by (metis option.exhaust surj_pair)
  then show ?case
  proof cases
    case 1
    then show ?thesis using 2(1) [OF 1] 2(6,7) by (simp add: walk_Cons at_Cons)
  next
    case (2 d' c)
    then have "r = d' # r0" using "2.prems" w0 by (simp_all add: walk_Cons(2))
    then show ?thesis using "2.IH"(2) [OF 2(1) HOL.refl 2(2) w0] "2.prems"(2) at_Cons(2) [OF 2, of ps] by auto
  next
    case (3 d' c)
    then have "walk nodes edges ps visited = (v, r)" using "2.prems" by (simp add: walk_Cons(3))
    from "2.IH"(3) [OF 3(1) HOL.refl _ 3(3) this "2.prems"(2)] show ?thesis using 3 at_Cons(3) [OF 3(1,2), of ps] by auto
  next
    case (4 d' c)
    obtain v1 r1 where w1: "walk nodes edges (paths_from edges d') (d' # visited) = (v1, r1)" by force
    obtain v2 r2 where w2: "walk nodes edges ps v1 = (v2, r2)" by force
    have "d \<in> set r1 \<or> d \<in> set r2" using walk_Cons(4) [OF 4 w1 w2] "2.prems" by auto
    then show ?thesis
    proof
      assume "d \<in> set r1"
      then have "d \<in> steps_at nodes (paths_from edges d') \<or> (\<exists>x. (d', x) \<in> silent nodes edges \<and>
          (\<exists>y. (x, y) \<in> (silent nodes edges)\<^sup>* \<and> d \<in> steps_at nodes (paths_from edges y)))"
        using "2.IH"(4) [OF 4(1) HOL.refl _ 4(3) w1] 4(2) silent_iff by blast
      then have "\<exists>y. (d', y) \<in> (silent nodes edges)\<^sup>* \<and> d \<in> steps_at nodes (paths_from edges y)"
        by (blast intro: converse_rtrancl_into_rtrancl)
      then show ?thesis using at_Cons(3) [OF 4(1,2), of ps] by blast
    next
      assume "d \<in> set r2"
      then show ?thesis
        using "2.IH"(5) [OF 4(1) HOL.refl _ 4(3) w1 [symmetric] HOL.refl w2] 4(2) at_Cons(3) [OF 4(1,2), of ps] by blast
    qed
  qed
qed simp

lemma resolve_exact:
  "set (resolve_user_destinations nodes edges src) =
     {d. \<exists>x. (src, x) \<in> (silent nodes edges)\<^sup>* \<and> d \<in> steps_at nodes (paths_from edges x)}"
proof -
  obtain v r where w: "walk nodes edges (paths_from edges src) [] = (v, r)" by force
  note post = walk_post [OF w]
  have reach: "x = src \<or> x \<in> set v" if "(src, x) \<in> (silent nodes edges)\<^sup>*" for x
    using that
  proof induction
    case (step x y)
    have "y \<in> scaffold_at nodes (paths_from edges x)" using step(2) by (simp add: silent_iff)
    then show ?case using step(3) post by auto
  qed simp
  have "d \<in> set r" if "(src, x) \<in> (silent nodes edges)\<^sup>*" "d \<in> steps_at nodes (paths_from edges x)" for d x
    using reach [OF that(1)] that(2) post by auto
  moreover have "\<exists>x. (src, x) \<in> (silent nodes edges)\<^sup>* \<and> d \<in> steps_at nodes (paths_from edges x)" if "d \<in> set r" for d
    using walk_sound [OF w that] silent_iff by (blast intro: converse_rtrancl_into_rtrancl)
  ultimately show ?thesis by (auto simp: resolve_user_destinations_def w)
qed

lemma fold_add_pair: "set (fold add_pair xs es) = set es \<union> set xs" "distinct es \<Longrightarrow> distinct (fold add_pair xs es)"
  by (induction xs arbitrary: es) (auto simp: add_pair_def)

text \<open>The steps of a graph.\<close>

definition steps_of :: "(string \<times> string) list \<Rightarrow> string set" where
  "steps_of nodes = {n. \<exists>c. (n, c) \<in> set nodes \<and> \<not> is_internal n c}"

lemma steps_at_steps: "distinct (map fst nodes) \<Longrightarrow> steps_at nodes ps \<subseteq> steps_of nodes"
  by (auto simp: steps_at_def steps_of_def dest: path_target_node map_of_SomeD)

lemma step_not_internal: "map_of nodes d = Some c \<Longrightarrow> d \<in> steps_of nodes \<Longrightarrow> distinct (map fst nodes) \<Longrightarrow> \<not> is_internal d c"
  by (auto simp: steps_of_def dest: eq_key_imp_eq_value map_of_SomeD)

lemma hop_step: "(x, d) \<in> hop nodes edges \<Longrightarrow> d \<in> steps_of nodes \<Longrightarrow> distinct (map fst nodes) \<Longrightarrow>
    d \<in> steps_at nodes (paths_from edges x)"
  by (auto simp: hop_def steps_at_def dest: path_target_node step_not_internal)

definition collapsed :: "(string \<times> string) list \<Rightarrow> (string \<times> path list) list \<Rightarrow> (string \<times> string) set" where
  "collapsed nodes edges = {(a, b). a \<in> steps_of nodes \<and> b \<in> set (resolve_user_destinations nodes edges a)}"

lemma collapsed_reaches:
  assumes "(a, b) \<in> (hop nodes edges)\<^sup>+" and b: "b \<in> steps_of nodes" and d: "distinct (map fst nodes)"
  shows "\<exists>x s. (a, x) \<in> (silent nodes edges)\<^sup>* \<and> s \<in> steps_at nodes (paths_from edges x) \<and> (s, b) \<in> (collapsed nodes edges)\<^sup>*"
  using assms(1)
proof (induction rule: converse_trancl_induct)
  case (base a)
  then show ?case using hop_step [OF _ b d] by blast
next
  case (step a c)
  then obtain x s where IH: "(c, x) \<in> (silent nodes edges)\<^sup>*" "s \<in> steps_at nodes (paths_from edges x)" "(s, b) \<in> (collapsed nodes edges)\<^sup>*"
    by blast
  show ?case
  proof (cases "c \<in> steps_at nodes (paths_from edges a)")
    case True
    then have "(c, s) \<in> collapsed nodes edges"
      using IH(1,2) steps_at_steps [OF d] by (auto simp: collapsed_def resolve_exact)
    then show ?thesis using True IH(3) by (meson converse_rtrancl_into_rtrancl rtrancl.rtrancl_refl)
  next
    case False
    then have "(a, c) \<in> silent nodes edges" using step(1) by (simp add: hop_iff silent_iff)
    then show ?thesis using IH by (meson converse_rtrancl_into_rtrancl)
  qed
qed

lemma silent_hop: "silent nodes edges \<subseteq> hop nodes edges"
  by (auto simp: silent_def hop_def)

lemma collapsed_hops: "collapsed nodes edges \<subseteq> (hop nodes edges)\<^sup>+"
proof (rule subrelI)
  fix a b assume "(a, b) \<in> collapsed nodes edges"
  then obtain x where "(a, x) \<in> (silent nodes edges)\<^sup>*" "(x, b) \<in> hop nodes edges"
    by (auto simp: collapsed_def resolve_exact hop_iff)
  then show "(a, b) \<in> (hop nodes edges)\<^sup>+"
    by (meson rtrancl_into_trancl1 rtrancl_mono silent_hop subsetD)
qed

lemma collapsed_trancl:
  assumes "distinct (map fst nodes)" "a \<in> steps_of nodes" "b \<in> steps_of nodes"
  shows "(a, b) \<in> (collapsed nodes edges)\<^sup>+ \<longleftrightarrow> (a, b) \<in> (hop nodes edges)\<^sup>+"
proof
  assume "(a, b) \<in> (collapsed nodes edges)\<^sup>+"
  then show "(a, b) \<in> (hop nodes edges)\<^sup>+"
    using trancl_mono [OF _ collapsed_hops] by (metis trancl_id trans_trancl)
next
  assume "(a, b) \<in> (hop nodes edges)\<^sup>+"
  then obtain x s where "(a, x) \<in> (silent nodes edges)\<^sup>*" "s \<in> steps_at nodes (paths_from edges x)" "(s, b) \<in> (collapsed nodes edges)\<^sup>*"
    using collapsed_reaches [OF _ assms(3,1)] by blast
  moreover from this have "(a, s) \<in> collapsed nodes edges" using assms(2) by (auto simp: collapsed_def resolve_exact)
  ultimately show "(a, b) \<in> (collapsed nodes edges)\<^sup>+" by (meson rtrancl_into_trancl2)
qed

lemma extracted:
  assumes "extract_graph_structure order g = (ids, es)" "pg_nodes g = Some nodes" "pg_edges g = Some edges"
    and "distinct (map fst nodes)" "set (order ids) = set ids"
  shows "set ids = steps_of nodes" "distinct ids" "distinct es" "set es = collapsed nodes edges"
proof -
  have ids: "ids = map fst (filter (\<lambda>(n, c). \<not> is_internal n c) nodes)" and es: "es = extract_edges order nodes (Some edges) ids"
    using assms(1-3) by (auto simp: extract_graph_structure_def Let_def)
  show s: "set ids = steps_of nodes" by (force simp: ids steps_of_def)
  show "distinct ids" using assms(4) by (simp add: ids distinct_map_filter)
  show "distinct es" by (simp add: es extract_edges_def fold_add_pair)
  have "set (resolve_user_destinations nodes edges a) \<subseteq> set ids" for a
    using steps_at_steps [OF assms(4)] by (auto simp: s resolve_exact)
  then show "set es = collapsed nodes edges"
    using assms(5) s by (auto simp: es extract_edges_def fold_add_pair collapsed_def)
qed

text \<open>Of a built graph, whatever order Python iterates its set of steps in, the extraction returns every
  step once and every edge once; there is an edge from one step to another exactly when the graph leads from
  the one to the other through scaffolding alone, so one step is upstream of another in the extract exactly
  when it is in the graph; the picture counts these steps and edges, and marks as roots the steps that no
  step is upstream of and as leaves those that are upstream of none.\<close>

theorem extraction_exact:
  assumes "extract_graph_structure order g = (ids, es)" "pg_nodes g = Some nodes" "pg_edges g = Some edges"
    and "distinct (map fst nodes)" "set (order ids) = set ids"
  shows "set ids = steps_of nodes \<and> distinct ids \<and> distinct es \<and>
    (\<forall>a b. (a, b) \<in> set es \<longleftrightarrow> a \<in> steps_of nodes \<and> b \<in> steps_of nodes \<and>
       (\<exists>x. (a, x) \<in> (silent nodes edges)\<^sup>* \<and> (x, b) \<in> hop nodes edges)) \<and>
    (\<forall>a\<in>steps_of nodes. \<forall>b\<in>steps_of nodes. (a, b) \<in> (set es)\<^sup>+ \<longleftrightarrow> (a, b) \<in> (hop nodes edges)\<^sup>+) \<and>
    set (roots ids es) = {n \<in> steps_of nodes. \<forall>a\<in>steps_of nodes. (a, n) \<notin> (hop nodes edges)\<^sup>+} \<and>
    set (leaves ids es) = {n \<in> steps_of nodes. \<forall>b\<in>steps_of nodes. (n, b) \<notin> (hop nodes edges)\<^sup>+} \<and>
    (\<forall>dir\<in>set VALID_DIRECTIONS. \<exists>r. render_graph order g dir = Inr r \<and> rg_node_count r = card (steps_of nodes) \<and>
       (steps_of nodes \<noteq> {} \<longrightarrow> rg_edge_count r = card (set es) \<and> rg_mermaid r = str_join nl (mermaid_lines dir ids es)))"
proof -
  note ex = extracted [OF assms]
  have tr: "(a, b) \<in> (set es)\<^sup>+ \<longleftrightarrow> (a, b) \<in> (hop nodes edges)\<^sup>+" if "a \<in> steps_of nodes" "b \<in> steps_of nodes" for a b
    using collapsed_trancl [OF assms(4) that] by (simp add: ex(4))
  have edge: "(a, b) \<in> set es \<longleftrightarrow> a \<in> steps_of nodes \<and> b \<in> steps_of nodes \<and>
       (\<exists>x. (a, x) \<in> (silent nodes edges)\<^sup>* \<and> (x, b) \<in> hop nodes edges)" for a b
    using steps_at_steps [OF assms(4)] hop_step [OF _ _ assms(4)]
    by (auto simp: ex(4) collapsed_def resolve_exact hop_iff) blast
  have no_in: "incoming es n = [] \<longleftrightarrow> (\<forall>a\<in>steps_of nodes. (a, n) \<notin> (set es)\<^sup>+)" for n
    using edge by (fastforce simp: incoming_def filter_empty_conv elim: tranclE)
  have no_out: "outgoing es n = [] \<longleftrightarrow> (\<forall>b\<in>steps_of nodes. (n, b) \<notin> (set es)\<^sup>+)" for n
    using edge by (fastforce simp: outgoing_def filter_empty_conv elim: converse_tranclE)
  have "\<exists>r. render_graph order g dir = Inr r \<and> rg_node_count r = card (steps_of nodes) \<and>
       (steps_of nodes \<noteq> {} \<longrightarrow> rg_edge_count r = card (set es) \<and> rg_mermaid r = str_join nl (mermaid_lines dir ids es))"
    if "dir \<in> set VALID_DIRECTIONS" for dir
    using that ex(1) distinct_card [OF ex(2)] distinct_card [OF ex(3)]
    by (cases "ids = []") (auto simp: render_graph_def assms(1))
  then show ?thesis using ex(1-3) tr edge no_in no_out by (auto simp: roots_def leaves_def)
qed

text \<open>A step that fans out to two, which join again.\<close>

definition sample_nodes :: "(string \<times> string) list" where
  "sample_nodes = [(''__start__'', ''StartNode''), (''a'', ''Step''), (''f'', ''Fork''), (''b'', ''Step''), (''c'', ''Step''),
     (''j'', ''Join''), (''d'', ''Step''), (''__end__'', ''EndNode'')]"

definition sample_edges :: "(string \<times> path list) list" where
  "sample_edges = [(''__start__'', [[Some ''a'']]), (''a'', [[None, Some ''f'']]), (''f'', [[Some ''b''], [Some ''c'']]),
     (''b'', [[Some ''j'']]), (''c'', [[Some ''j'']]), (''j'', [[Some ''d'']]), (''d'', [[Some ''__end__'']])]"

definition sample_graph :: py_graph where
  "sample_graph = \<lparr>pg_class = ''Graph'', pg_nodes = Some sample_nodes, pg_edges = Some sample_edges, pg_runs = True\<rparr>"

lemma sample_extract:
  "extract_graph_structure rev sample_graph =
     ([''a'', ''b'', ''c'', ''d''], [(''c'', ''d''), (''b'', ''d''), (''a'', ''b''), (''a'', ''c'')])"
  by code_simp

lemma extraction_exact_witness:
  "{n \<in> steps_of sample_nodes. \<forall>a\<in>steps_of sample_nodes. (a, n) \<notin> (hop sample_nodes sample_edges)\<^sup>+} = {''a''}"
proof -
  have d: "distinct (map fst sample_nodes)" by code_simp
  have o: "set (rev [''a'', ''b'', ''c'', ''d'']) = set [''a'', ''b'', ''c'', ''d'']" by (rule set_rev)
  have r: "roots [''a'', ''b'', ''c'', ''d''] [(''c'', ''d''), (''b'', ''d''), (''a'', ''b''), (''a'', ''c'')] = [''a'']" by code_simp
  have g: "pg_nodes sample_graph = Some sample_nodes" "pg_edges sample_graph = Some sample_edges" by (simp_all add: sample_graph_def)
  show ?thesis using extraction_exact [OF sample_extract g d o] unfolding r by simp
qed

end
