(* ===== verification/Byte_Text.thy ===== *)
theory Byte_Text
  imports Prelude
begin

text \<open>
  Bytes and texts, as the code that talks to a sandbox handles them: \<open>bytes.decode("utf-8")\<close>, strictly and
  with \<open>errors="replace"\<close>, \<open>base64.b64encode\<close> and \<open>base64.b64decode\<close> of Python 3.12.  A text is the string of
  its UTF-8 bytes, so that encoding it is the identity; a text that decoding made is well-formed.
\<close>

section \<open>UTF-8\<close>

definition byte_of :: "char \<Rightarrow> nat" where
  "byte_of c = of_char c"

lemma byte_of_less [simp]: "byte_of c < 256"
  by (simp add: byte_of_def)

text \<open>The ranges of the bytes that have to follow a first byte; \<open>None\<close> if no character starts with it.\<close>

definition tail_ranges :: "nat \<Rightarrow> (nat \<times> nat) list option" where
  "tail_ranges b =
     (let c = (128, 191) in
      if b < 128 then Some []
      else if b < 194 then None
      else if b < 224 then Some [c]
      else if b = 224 then Some [(160, 191), c]
      else if b = 237 then Some [(128, 159), c]
      else if b < 240 then Some [c, c]
      else if b = 240 then Some [(144, 191), c, c]
      else if b < 244 then Some [c, c, c]
      else if b = 244 then Some [(128, 143), c, c]
      else None)"

text \<open>How many of them do follow.\<close>

fun matched :: "(nat \<times> nat) list \<Rightarrow> string \<Rightarrow> nat" where
  "matched [] s = 0"
| "matched rs [] = 0"
| "matched ((lo, hi) # rs) (c # s) = (if lo \<le> byte_of c \<and> byte_of c \<le> hi then Suc (matched rs s) else 0)"

definition replacement_char :: string where
  "replacement_char = [CHR 0xEF, CHR 0xBF, CHR 0xBD]"

function decode_replace :: "string \<Rightarrow> string" where
  "decode_replace [] = []"
| "decode_replace (b # s) = (case tail_ranges (byte_of b) of
     None \<Rightarrow> replacement_char @ decode_replace s
   | Some rs \<Rightarrow> (let n = matched rs s in
       if n = length rs then b # take n s @ decode_replace (drop n s)
       else replacement_char @ decode_replace (drop n s)))"
  by pat_completeness auto
termination by (relation "measure length") auto

function valid_utf8 :: "string \<Rightarrow> bool" where
  "valid_utf8 [] = True"
| "valid_utf8 (b # s) = (case tail_ranges (byte_of b) of
     None \<Rightarrow> False
   | Some rs \<Rightarrow> matched rs s = length rs \<and> valid_utf8 (drop (length rs) s))"
  by pat_completeness auto
termination by (relation "measure length") auto

text \<open>\<open>decode("utf-8")\<close> raises on the others.\<close>

definition decode_strict :: "string \<Rightarrow> string option" where
  "decode_strict s = (if valid_utf8 s then Some s else None)"

declare decode_replace.simps(2) [simp del] valid_utf8.simps(2) [simp del]

lemma decode_valid: "valid_utf8 s \<Longrightarrow> decode_replace s = s"
  by (induction s rule: valid_utf8.induct)
    (auto simp: valid_utf8.simps decode_replace.simps Let_def split: option.splits)

lemma matched_app: "matched rs s = length rs \<Longrightarrow> matched rs (s @ t) = length rs \<and> length rs \<le> length s"
  by (induction rs s rule: matched.induct) (auto split: if_splits)

lemma valid_append: "valid_utf8 s \<Longrightarrow> valid_utf8 t \<Longrightarrow> valid_utf8 (s @ t)"
proof (induction s rule: valid_utf8.induct)
  case (2 b s)
  then obtain rs where rs: "tail_ranges (byte_of b) = Some rs" "matched rs s = length rs" "valid_utf8 (drop (length rs) s)"
    by (auto simp: valid_utf8.simps(2) split: option.splits)
  then have "valid_utf8 (drop (length rs) s @ t)" using 2 by blast
  then show ?case using rs(1) matched_app [OF rs(2), of t] by (simp add: valid_utf8.simps(2))
qed simp

text \<open>A byte that continues a character starts none.\<close>

definition continues :: "char \<Rightarrow> bool" where
  "continues c \<longleftrightarrow> 128 \<le> byte_of c \<and> byte_of c \<le> 191"

lemma continues_ranges: "continues c \<Longrightarrow> tail_ranges (byte_of c) = None"
  by (simp add: continues_def tail_ranges_def)

lemma decode_continues:
  "list_all continues js \<Longrightarrow> decode_replace (js @ s) = concat (replicate (length js) replacement_char) @ decode_replace s"
  by (induction js) (auto simp: decode_replace.simps(2) continues_ranges)

lemma tail_ranges_bound: "tail_ranges b = Some rs \<Longrightarrow> length rs \<le> 3 \<and> (\<forall>(lo, hi)\<in>set rs. 128 \<le> lo \<and> hi \<le> 191)"
  by (auto simp: tail_ranges_def Let_def split: if_splits)

lemma matched_continue:
  assumes "matched rs s = length rs" "\<forall>(lo, hi)\<in>set rs. 128 \<le> lo \<and> hi \<le> 191"
  shows "list_all continues (take (length rs) s)"
  using assms by (induction rs s rule: matched.induct) (auto simp: continues_def split: if_splits)

text \<open>Cut anywhere, a well-formed text loses at most three bytes of a character.\<close>

lemma valid_suffix:
  assumes "valid_utf8 s"
  shows "\<exists>js v. drop n s = js @ v \<and> list_all continues js \<and> length js \<le> 3 \<and> valid_utf8 v"
  using assms
proof (induction s arbitrary: n rule: valid_utf8.induct)
  case (2 b s)
  then obtain rs where rs: "tail_ranges (byte_of b) = Some rs" "matched rs s = length rs" "valid_utf8 (drop (length rs) s)"
    by (auto simp: valid_utf8.simps(2) split: option.splits)
  show ?case
  proof (cases n)
    case 0
    then show ?thesis using 2(2) by (intro exI [of _ "[]"] exI [of _ "b # s"]) simp
  next
    case (Suc m)
    show ?thesis
    proof (cases "length rs \<le> m")
      case True
      then have "drop n (b # s) = drop (m - length rs) (drop (length rs) s)" using Suc by simp
      then show ?thesis using 2(1) [OF rs(1,3)] by metis
    next
      case False
      have "drop n (b # s) = drop m (take (length rs) s) @ drop (length rs) s"
        using Suc False matched_app [OF rs(2)] by (metis append_take_drop_id drop_Suc_Cons drop_append length_take min.absorb2
            diff_is_0_eq drop_0 nat_le_linear)
      moreover have "list_all continues (drop m (take (length rs) s))"
        using matched_continue [OF rs(2)] tail_ranges_bound [OF rs(1)] by (auto simp: list_all_iff dest: in_set_dropD)
      moreover have "length (drop m (take (length rs) s)) \<le> 3" using tail_ranges_bound [OF rs(1)] by auto
      ultimately show ?thesis using rs(3) by metis
    qed
  qed
qed simp

text \<open>\<open>s[:n]\<close> counts characters.\<close>

fun str_take :: "nat \<Rightarrow> string \<Rightarrow> string" where
  "str_take n [] = []"
| "str_take n (c # s) = (if continues c then c # str_take n s
     else case n of 0 \<Rightarrow> [] | Suc m \<Rightarrow> c # str_take m s)"

section \<open>Base64\<close>

definition b64_char :: "nat \<Rightarrow> char" where
  "b64_char n = char_of (if n < 26 then 65 + n else if n < 52 then 71 + n else if n < 62 then n - 4 else if n = 62 then 43 else (47::nat))"

definition b64_val :: "char \<Rightarrow> nat option" where
  "b64_val c = (let n = byte_of c in
     if 65 \<le> n \<and> n \<le> 90 then Some (n - 65)
     else if 97 \<le> n \<and> n \<le> 122 then Some (n - 71)
     else if 48 \<le> n \<and> n \<le> 57 then Some (n + 4)
     else if n = 43 then Some 62
     else if n = 47 then Some 63
     else None)"

definition pad_char :: char where
  "pad_char = CHR ''=''"

fun b64encode :: "string \<Rightarrow> string" where
  "b64encode [] = []"
| "b64encode [a] = (let x = byte_of a in [b64_char (x div 4), b64_char (x mod 4 * 16), pad_char, pad_char])"
| "b64encode [a, b] = (let x = byte_of a; y = byte_of b in
     [b64_char (x div 4), b64_char (x mod 4 * 16 + y div 16), b64_char (y mod 16 * 4), pad_char])"
| "b64encode (a # b # c # s) = (let x = byte_of a; y = byte_of b; z = byte_of c in
     [b64_char (x div 4), b64_char (x mod 4 * 16 + y div 16), b64_char (y mod 16 * 4 + z div 64), b64_char (z mod 64)] @ b64encode s)"

text \<open>\<open>binascii.a2b_base64\<close>: the position in the group of four, the bits left over, the pads counted, and
  whether a pad was seen.  Without \<open>strict\<close> a foreign character is skipped.\<close>

fun a2b :: "bool \<Rightarrow> nat \<Rightarrow> nat \<Rightarrow> nat \<Rightarrow> bool \<Rightarrow> string \<Rightarrow> string + string" where
  "a2b strict q l p padded [] =
     (if q = 0 then Inr []
      else if q = 1 then Inl ''Invalid base64-encoded string: number of data characters cannot be 1 more than a multiple of 4''
      else Inl ''Incorrect padding'')"
| "a2b strict q l p padded (c # s) =
     (if c = pad_char
      then if 2 \<le> q \<and> 4 \<le> q + Suc p then (if strict \<and> s \<noteq> [] then Inl ''Excess data after padding'' else Inr [])
           else a2b strict q l (if 2 \<le> q then Suc p else p) True s
      else case b64_val c of
          None \<Rightarrow> if strict then Inl ''Only base64 data is allowed'' else a2b strict q l p padded s
        | Some v \<Rightarrow>
            if strict \<and> padded then Inl ''Discontinuous padding not allowed''
            else if q = 0 then a2b strict 1 v 0 padded s
            else if q = 1 then map_sum id (Cons (char_of (l * 4 + v div 16))) (a2b strict 2 (v mod 16) 0 padded s)
            else if q = 2 then map_sum id (Cons (char_of (l * 16 + v div 4))) (a2b strict 3 (v mod 4) 0 padded s)
            else map_sum id (Cons (char_of (l * 64 + v))) (a2b strict 0 0 0 padded s))"

definition b64decode :: "bool \<Rightarrow> string \<Rightarrow> string + string" where
  "b64decode strict s =
     (if list_ex (\<lambda>c. 128 \<le> byte_of c) s then Inl ''string argument should contain only ASCII characters''
      else if strict \<and> s \<noteq> [] \<and> hd s = pad_char then Inl ''Leading padding not allowed''
      else a2b strict 0 0 0 False s)"

lemma b64_facts:
  assumes "n < 64"
  shows "b64_val (b64_char n) = Some n \<and> b64_char n \<noteq> pad_char \<and> byte_of (b64_char n) < 128"
proof -
  have b: "byte_of (b64_char n) = (if n < 26 then 65 + n else if n < 52 then 71 + n else if n < 62 then n - 4 else if n = 62 then 43 else 47)"
    using assms by (simp add: b64_char_def byte_of_def)
  have "byte_of pad_char = 61" by (simp add: pad_char_def byte_of_def)
  then have "byte_of (b64_char n) \<noteq> byte_of pad_char" unfolding b using assms by auto
  then have "b64_char n \<noteq> pad_char" by auto
  moreover have "b64_val (b64_char n) = Some n" unfolding b64_val_def b Let_def using assms by auto
  moreover have "byte_of (b64_char n) < 128" unfolding b using assms by auto
  ultimately show ?thesis by blast
qed

lemma b64_digit [simp]: "n < 64 \<Longrightarrow> b64_val (b64_char n) = Some n" "n < 64 \<Longrightarrow> b64_char n \<noteq> pad_char"
  using b64_facts by blast+

lemma char_of_byte [simp]: "char_of (byte_of c) = c"
  by (simp add: byte_of_def)

text \<open>Three bytes are four groups of six bits.\<close>

lemma six_bits:
  fixes x y z :: nat
  assumes "x < 256" "y < 256" "z < 256"
  shows "x div 4 < 64" "x mod 4 * 16 + y div 16 < 64" "y mod 16 * 4 + z div 64 < 64" "z mod 64 < 64"
    "x mod 4 * 16 < 64" "y mod 16 * 4 < 64"
proof -
  have "x mod 4 < 4" "y div 16 < 16" "y mod 16 < 16" "z div 64 < 4" using assms by (simp_all add: less_mult_imp_div_less)
  then show "x mod 4 * 16 + y div 16 < 64" "y mod 16 * 4 + z div 64 < 64" "x mod 4 * 16 < 64" "y mod 16 * 4 < 64" by linarith+
  show "x div 4 < 64" "z mod 64 < 64" using assms by (simp_all add: less_mult_imp_div_less)
qed

lemma regroup:
  fixes x y z :: nat
  assumes "y < 256" "z < 256"
  shows "x div 4 * 4 + (x mod 4 * 16 + y div 16) div 16 = x"
    "(x mod 4 * 16 + y div 16) mod 16 * 16 + (y mod 16 * 4 + z div 64) div 4 = y"
    "(y mod 16 * 4 + z div 64) mod 4 * 64 + z mod 64 = z"
proof -
  have y: "y div 16 < 16" "z div 64 < 4" using assms by (simp_all add: less_mult_imp_div_less)
  then have "(x mod 4 * 16 + y div 16) div 16 = x mod 4" "(x mod 4 * 16 + y div 16) mod 16 = y div 16"
    "(y mod 16 * 4 + z div 64) div 4 = y mod 16" "(y mod 16 * 4 + z div 64) mod 4 = z div 64" by simp_all
  then show "x div 4 * 4 + (x mod 4 * 16 + y div 16) div 16 = x"
    "(x mod 4 * 16 + y div 16) mod 16 * 16 + (y mod 16 * 4 + z div 64) div 4 = y"
    "(y mod 16 * 4 + z div 64) mod 4 * 64 + z mod 64 = z"
    using div_mult_mod_eq [of x 4] div_mult_mod_eq [of y 16] div_mult_mod_eq [of z 64] by simp_all
qed

lemma a2b_encode: "a2b strict 0 0 0 False (b64encode s) = Inr s"
proof (induction s rule: b64encode.induct)
  case (2 a)
  show ?case using six_bits [of "byte_of a" 0 0] regroup(1) [of 0 0 "byte_of a"] by (simp add: Let_def)
next
  case (3 a b)
  show ?case using six_bits [of "byte_of a" "byte_of b" 0] regroup(1,2) [of "byte_of b" 0] by (simp add: Let_def)
next
  case (4 a b c s)
  have "byte_of b div 16 div 16 = 0" "byte_of b div 16 mod 16 = byte_of b div 16"
    by (simp_all add: less_mult_imp_div_less)
  note this [simp]
  show ?case using 4 six_bits [of "byte_of a" "byte_of b" "byte_of c"] regroup [of "byte_of b" "byte_of c"]
    by (simp add: Let_def)
qed simp

lemma b64encode_ascii: "\<forall>c\<in>set (b64encode s). byte_of c < 128"
proof (induction s rule: b64encode.induct)
  case (2 a)
  then show ?case using six_bits [of "byte_of a" 0 0] b64_facts by (simp add: Let_def pad_char_def byte_of_def)
next
  case (3 a b)
  then show ?case using six_bits [of "byte_of a" "byte_of b" 0] b64_facts by (simp add: Let_def pad_char_def byte_of_def)
next
  case (4 a b c s)
  then show ?case using six_bits [of "byte_of a" "byte_of b" "byte_of c"] b64_facts by (simp add: Let_def)
qed simp

lemma b64encode_head: "b64encode s \<noteq> [] \<Longrightarrow> hd (b64encode s) \<noteq> pad_char"
proof (cases s rule: b64encode.cases)
  case (2 a)
  then show ?thesis using six_bits(1) [of "byte_of a" 0 0] by (simp add: Let_def)
next
  case (3 a b)
  then show ?thesis using six_bits(1) [of "byte_of a" 0 0] by (simp add: Let_def)
next
  case (4 a b c s)
  then show ?thesis using six_bits(1) [of "byte_of a" 0 0] by (simp add: Let_def)
qed simp

lemma b64_roundtrip [simp]: "b64decode strict (b64encode s) = Inr s"
  using b64encode_ascii [of s] b64encode_head [of s] a2b_encode [of strict s]
  by (auto simp: b64decode_def list_ex_iff)

end
