(* ===== verification/Hands.thy ===== *)
theory Hands
  imports Invocation_Routes A2A_Gateway Byte_Text
begin

text \<open>
  The hands that put an invocation to a person (\<^verbatim>\<open>workers/human_hand.py\<close>) and to an agent
  (\<^verbatim>\<open>workers/agent_hand.py\<close> over \<^verbatim>\<open>repositories/a2a_invocation_repo.py\<close>), and the contract of
  \<^verbatim>\<open>invocations/protocol.py\<close> that the service relies on, as a locale.  A hand is a coroutine: what
  becomes of the question, of the row in the mailbox and of the clock while it waits is the environment's
  (arguments \<open>cancelled\<close>, \<open>clock\<close>, \<open>others\<close>).  \<open>fmt\<close> is \<open>str\<close> of a value that is no text, \<open>dumps\<close> is
  \<open>json.dumps\<close>.
\<close>

section \<open>The contract\<close>

text \<open>A hand streams events of its own kinds only and returns an envelope that \<open>ResultEnvelope\<close> accepts;
  \<open>'e\<close> is what the environment does.\<close>

definition valid_envelope :: "result_envelope \<Rightarrow> bool" where
  "valid_envelope e \<longleftrightarrow> ResultEnvelope (env_action e) (env_content e) (env_reason e) = Inr e"

locale hand =
  fixes answer :: "'e \<Rightarrow> result_envelope" and events :: "'e \<Rightarrow> event_spec list"
  assumes valid: "valid_envelope (answer x)"
    and kinds: "sp \<in> set (events x) \<Longrightarrow> is_hand_kind (sp_kind sp)"
begin

lemma streams:
  assumes "svc_runs s k = Some r" "run_pc r = Executing"
  shows "\<exists>s'. svc_exec hands (map (\<lambda>sp. Op_hand_event k sp now) (events x)) s = Some s' \<and> svc_runs s' = svc_runs s"
proof -
  have "\<exists>s'. svc_exec hands (map (\<lambda>sp. Op_hand_event k sp now) es) s = Some s' \<and> svc_runs s' = svc_runs s"
    if "\<forall>sp\<in>set es. is_hand_kind (sp_kind sp)" "svc_runs s k = Some r" for es s
    using that assms(2)
  proof (induction es arbitrary: s)
    case (Cons sp es)
    let ?s = "tape_write (Some k) (inv_tape_id (run_inv r)) sp now s"
    have same: "svc_runs ?s = svc_runs s" by (simp add: tape_write_def case_prod_beta)
    then have "svc_runs ?s k = Some r" using Cons.prems(2) by simp
    then obtain s' where "svc_exec hands (map (\<lambda>sp. Op_hand_event k sp now) es) ?s = Some s'" "svc_runs s' = svc_runs s"
      using Cons.IH [of ?s] Cons.prems(1,3) same by auto
    then show ?case using Cons.prems by auto
  qed simp
  then show ?thesis using kinds assms(1) by blast
qed

text \<open>So an executing invocation runs to its end on what the hand streams and answers.\<close>

lemma runs_to_end:
  assumes "svc_reachable hands s" and r: "svc_runs s k = Some r" "run_pc r = Executing"
    and e: "resolve_result r (Returned (answer x)) = Some e"
  shows "\<exists>s'. svc_exec hands (map (\<lambda>sp. Op_hand_event k sp now) (events x) @ [Op_hand_end k (Returned (answer x)),
        Op_finalize k t1, Op_finalize k t2, Op_finalize k t3, Op_finalize k t4]) s = Some s' \<and> svc_runs s' k = None \<and>
      (\<exists>i\<in>set (svc_invs s'). inv_id i = k \<and> inv_result i = Some e \<and> inv_status i = action_to_status (env_action e))"
proof -
  obtain s1 where s1: "svc_exec hands (map (\<lambda>sp. Op_hand_event k sp now) (events x)) s = Some s1" "svc_runs s1 = svc_runs s"
    using streams [OF r] by blast
  have "svc_reachable hands s1" using svc_exec_reachable [OF assms(1) s1(1)] .
  from executing_ends [OF this _ r(2) e] s1 r(1) show ?thesis by (simp add: svc_exec_append)
qed

end

section \<open>The human hand\<close>

definition parse_human_input :: "json \<Rightarrow> string" where
  "parse_human_input v = (case v of
       JStr s \<Rightarrow> str_strip s
     | JObj d \<Rightarrow> (case dict_get d ''message'' of JStr m \<Rightarrow> str_strip m | _ \<Rightarrow> [])
     | _ \<Rightarrow> [])"

definition KNOWN_HUMAN_OPS :: "string list" where
  "KNOWN_HUMAN_OPS = [''auth_required'']"

definition parse_structured_op :: "json \<Rightarrow> (string \<times> json) list option" where
  "parse_structured_op v = (case v of
       JObj d \<Rightarrow> (case dict_get d ''op'' of JStr op \<Rightarrow> if op \<in> set KNOWN_HUMAN_OPS then Some d else None | _ \<Rightarrow> None)
     | _ \<Rightarrow> None)"

definition em_dash :: string where
  "em_dash = [CHR '' '', CHR 0xE2, CHR 0x80, CHR 0x94, CHR '' '']"

definition synthesize_message :: "(json \<Rightarrow> string) \<Rightarrow> (string \<times> json) list \<Rightarrow> string" where
  "synthesize_message fmt d =
     (let get = (\<lambda>k. case map_of d k of None \<Rightarrow> JStr [] | Some v \<Rightarrow> v);
          base = str_strip (''Authentication needed for '' @ py_str fmt (get ''host''))
      in if dict_get d ''op'' = JStr ''auth_required''
         then (if truthy (get ''reason'') then base @ em_dash @ py_str fmt (get ''reason'')
               else if base = [] then ''Authentication needed'' else base)
         else ''Operator action requested'')"

definition elicit_fields :: "(string \<times> json) list option \<Rightarrow> (string \<times> json) list" where
  "elicit_fields st = (case st of None \<Rightarrow> []
     | Some d \<Rightarrow> (''op'', dict_get d ''op'') # concat (map (\<lambda>k. if dict_has d k then [(k, dict_get d k)] else [])
         [''host'', ''reason'', ''env_var_name'', ''hint'']))"

definition elicit_spec :: "string \<Rightarrow> (string \<times> json) list option \<Rightarrow> invocation \<Rightarrow> int \<Rightarrow> event_spec" where
  "elicit_spec message st iv now = \<lparr>sp_kind = KElicit, sp_body = str_take 200 message,
     sp_payload = JObj ([(''message'', JStr message), (''schema'', case inv_schema iv of None \<Rightarrow> JNull | Some sc \<Rightarrow> JObj sc),
        (''deadline_ts'', JInt (now + inv_deadline_s iv))] @ elicit_fields st),
     sp_actor_type = AHuman, sp_actor_id = ''operator'', sp_parent_id = None\<rparr>"

text \<open>The durable row behind a question for a secret; the invocation is looked up by its tape.\<close>

definition write_elicit_row :: "(json \<Rightarrow> string) \<Rightarrow> string \<Rightarrow> (string \<times> json) list \<Rightarrow> int \<Rightarrow> svc \<Rightarrow> db \<Rightarrow> db" where
  "write_elicit_row dumps t op now s d =
     (case find (\<lambda>v. inv_tape_id v = t) (svc_invs s) of
        None \<Rightarrow> d
      | Some v \<Rightarrow> (let (i, d1) = draw ''el_'' d in elicit_put
          \<lparr>el_id = i, el_invocation = inv_id v, el_op = ''auth_required'',
           el_payload = dumps (JObj (filter (\<lambda>(k, _). k \<noteq> ''op'') op)), el_status = ElPending,
           el_injecting_until = None, el_created_at = now, el_resolved_at = None\<rparr> now d1))"

text \<open>\<open>execute\<close> up to its wait: an answer at once, or the question asked.\<close>

definition human_begin :: "(json \<Rightarrow> string) \<Rightarrow> (json \<Rightarrow> string) \<Rightarrow> bool \<Rightarrow> invocation \<Rightarrow> int \<Rightarrow> svc \<times> db \<Rightarrow>
    result_envelope option \<times> svc \<times> db" where
  "human_begin fmt dumps has_db iv now st = (let (s, d) = st in
     if inv_target_id iv \<noteq> None then (Some (plain_envelope Error [Lit ''bad_target: human accepts no id'']), s, d)
     else let op = parse_structured_op (inv_input iv); m = parse_human_input (inv_input iv) in
       if op = None \<and> m = []
       then (Some (plain_envelope Error [Lit ''empty_message: HumanHand input must contain a non-empty message or structured op'']), s, d)
       else let message = (case op of Some x \<Rightarrow> if m = [] then synthesize_message fmt x else m | None \<Rightarrow> m);
                s1 = tape_write (Some (inv_id iv)) (inv_tape_id iv) (elicit_spec message op iv now) now s
            in (None, s1, case op of
                  Some x \<Rightarrow> if dict_get x ''op'' = JStr ''auth_required'' \<and> has_db
                            then write_elicit_row dumps (inv_tape_id iv) x now s1 d else d
                | None \<Rightarrow> d))"

text \<open>What it returns when the wait is over, by cancellation or by a submitted result.\<close>

definition human_end :: "bool \<Rightarrow> string option \<Rightarrow> result_envelope" where
  "human_end cancelled reason =
     (if cancelled then plain_envelope Cancel [Lit (if opt_truthy reason then the reason else ''operator_cancelled'')]
      else plain_envelope Cancel [Lit ''operator_submission_pending_capture''])"

text \<open>One execution: the environment says whether and why it is cancelled.\<close>

definition human_execute :: "(json \<Rightarrow> string) \<Rightarrow> (json \<Rightarrow> string) \<Rightarrow> bool \<Rightarrow> invocation \<times> int \<times> svc \<times> db \<times> bool \<times> string option \<Rightarrow> result_envelope" where
  "human_execute fmt dumps has_db = (\<lambda>(iv, now, s, d, cancelled, reason).
     case human_begin fmt dumps has_db iv now (s, d) of (Some e, _) \<Rightarrow> e | (None, _) \<Rightarrow> human_end cancelled reason)"

definition human_events :: "(json \<Rightarrow> string) \<Rightarrow> invocation \<times> int \<times> svc \<times> db \<times> bool \<times> string option \<Rightarrow> event_spec list" where
  "human_events fmt = (\<lambda>(iv, now, _).
     (let op = parse_structured_op (inv_input iv); m = parse_human_input (inv_input iv) in
      if inv_target_id iv \<noteq> None \<or> op = None \<and> m = [] then []
      else [elicit_spec (case op of Some x \<Rightarrow> if m = [] then synthesize_message fmt x else m | None \<Rightarrow> m) op iv now]))"

lemma valid_plain [simp]: "valid_envelope (plain_envelope a [Lit (c # r)])"
  by (simp add: valid_envelope_def plain_envelope_def ResultEnvelope_def reason_missing_def)

interpretation human: hand "human_execute fmt dumps has_db" "human_events fmt"
proof
  show "valid_envelope (human_execute fmt dumps has_db x)" for x
    by (cases x) (auto simp: human_execute_def human_begin_def human_end_def Let_def opt_truthy_def neq_Nil_conv
      split: option.splits if_splits)
  show "is_hand_kind (sp_kind sp)" if "sp \<in> set (human_events fmt x)" for sp x
    using that by (cases x) (auto simp: human_events_def Let_def elicit_spec_def is_hand_kind_def split: if_splits)
qed

section \<open>A question for a secret reaches the relay\<close>





lemma tape_write_invs [simp]: "svc_invs (tape_write i t sp now s) = svc_invs s"
  by (simp add: tape_write_def case_prod_beta)








definition secret_request :: "(string \<times> json) list" where
  "secret_request = [(''op'', JStr ''auth_required''), (''provider'', JStr ''github''), (''host'', JStr ''api.github.com'')]"

definition secret_invocation :: invocation where
  "secret_invocation = asked_invocation\<lparr>inv_input := JObj secret_request\<rparr>"



section \<open>The agent hand\<close>

text \<open>\<open><agent>@<owner>\<close>, or an agent of the default owner.\<close>

definition parse_target_id :: "string \<Rightarrow> string \<Rightarrow> string \<times> string" where
  "parse_target_id i default_owner =
     (if CHR ''@'' \<in> set i then (case str_partition (CHR ''@'') i of
         (agent, ow) \<Rightarrow> (if agent = [] then i else agent, if ow = [] then default_owner else ow))
      else (i, default_owner))"

text \<open>The repository of the mailbox.\<close>

definition mail_create :: "mail \<Rightarrow> db \<Rightarrow> unit res \<times> db" where
  "mail_create m d = (if mail_get (ma_id m) d \<noteq> None then (Inl IntegrityError, d) else (Inr (), d\<lparr>db_mail := db_mail d @ [m]\<rparr>))"

definition mail_mark_timeout :: "string \<Rightarrow> db \<Rightarrow> db" where
  "mail_mark_timeout i d = mail_update (\<lambda>m. ma_id m = i \<and> ma_status m = MPending) timed_out d"

definition mail_update_status :: "string \<Rightarrow> mail_status \<Rightarrow> json option \<Rightarrow> string option \<Rightarrow> int \<Rightarrow> db \<Rightarrow> nat \<times> db" where
  "mail_update_status i st result err now d = (let P = (\<lambda>m. ma_id m = i \<and> mail_open m) in
     (row_count P (db_mail d),
      mail_update P (\<lambda>m. m\<lparr>ma_status := st, ma_result := (if result = None then ma_result m else result),
        ma_error := (if err = None then ma_error m else err),
        ma_completed_at := (if st \<in> {MCompleted, MFailed} then Some now else ma_completed_at m)\<rparr>) d))"

text \<open>The loop, entered at time \<open>start\<close>.  At poll \<open>k\<close> the token says \<open>cancelled k\<close>, the clock of the event loop says \<open>clock k\<close>,
  \<open>between k\<close> is what others do to the database while the hand, having read the row, waits for its
  \<open>mark_timeout\<close>, \<open>mark_fails k\<close> says that this raises, which the hand ignores, and \<open>others k\<close> is what happens
  during the sleep after the poll.  The column \<open>result\<close> is a text, the dump of what the agent answered.\<close>

record poll_env =
  pe_cancelled :: "nat \<Rightarrow> bool"
  pe_reason :: "string option"
  pe_start :: rat
  pe_clock :: "nat \<Rightarrow> rat"
  pe_between :: "nat \<Rightarrow> db \<Rightarrow> db"
  pe_mark_fails :: "nat \<Rightarrow> bool"
  pe_others :: "nat \<Rightarrow> db \<Rightarrow> db"

definition give_up :: "poll_env \<Rightarrow> string \<Rightarrow> nat \<Rightarrow> db \<Rightarrow> db" where
  "give_up w i k d = (let d1 = pe_between w k d in if pe_mark_fails w k then d1 else mail_mark_timeout i d1)"

definition settled_envelope :: "(json \<Rightarrow> string) \<Rightarrow> mail \<Rightarrow> result_envelope option" where
  "settled_envelope dumps m = (case ma_status m of
       MCompleted \<Rightarrow> Some \<lparr>env_action = Accept, env_content = JStr (case ma_result m of None \<Rightarrow> [] | Some v \<Rightarrow> dumps v), env_reason = None\<rparr>
     | MFailed \<Rightarrow> Some (plain_envelope Error [Lit (if opt_truthy (ma_error m) then the (ma_error m) else ''a2a_failed'')])
     | MTimeout \<Rightarrow> Some (plain_envelope Cancel [Lit ''a2a_timeout''])
     | _ \<Rightarrow> None)"

definition poll_once :: "(json \<Rightarrow> string) \<Rightarrow> poll_env \<Rightarrow> rat \<Rightarrow> string \<Rightarrow> nat \<Rightarrow> db \<Rightarrow> (result_envelope \<times> db) option" where
  "poll_once dumps w deadline i k d = (case mail_get i d of
       None \<Rightarrow> Some (plain_envelope Error [Lit (''a2a_row_lost: '' @ i)], d)
     | Some m \<Rightarrow> (case settled_envelope dumps m of
           Some e \<Rightarrow> Some (e, d)
         | None \<Rightarrow>
             if pe_cancelled w k
             then Some (plain_envelope Cancel [Lit (if opt_truthy (pe_reason w) then the (pe_reason w) else ''operator_cancelled'')],
                    give_up w i k d)
             else if deadline < pe_clock w k
             then Some (plain_envelope Cancel [Lit ''a2a_deadline_exceeded''], give_up w i k d)
             else None))"

partial_function (option) agent_poll :: "(json \<Rightarrow> string) \<Rightarrow> poll_env \<Rightarrow> rat \<Rightarrow> string \<Rightarrow> nat \<Rightarrow> db \<Rightarrow> (result_envelope \<times> db) option" where
  "agent_poll dumps w deadline i k d = (case poll_once dumps w deadline i k d of
       Some r \<Rightarrow> Some r
     | None \<Rightarrow> agent_poll dumps w deadline i (Suc k) (pe_others w k d))"

definition delegate_mail :: "string \<Rightarrow> invocation \<Rightarrow> int \<Rightarrow> mail" where
  "delegate_mail i iv now = (case parse_target_id (the (inv_target_id iv)) ''krew'' of (agent, ow) \<Rightarrow>
     \<lparr>ma_id = i, ma_owner = ow, ma_agent = agent, ma_method = ''delegate'',
      ma_params = JObj ((''input'', inv_input iv) # (case inv_schema iv of None \<Rightarrow> [] | Some sc \<Rightarrow> [(''schema'', JObj sc)])),
      ma_caller = JNull, ma_status = MPending, ma_result = None, ma_error = None, ma_created_at = now,
      ma_completed_at = None, ma_expires_at = now + inv_deadline_s iv\<rparr>)"

text \<open>\<open>execute\<close>: \<open>None\<close> if it never returns.\<close>

definition agent_execute :: "(json \<Rightarrow> string) \<Rightarrow> poll_env \<Rightarrow> invocation \<Rightarrow> int \<Rightarrow> db \<Rightarrow> (result_envelope \<times> db) option" where
  "agent_execute dumps w iv now d =
     (if \<not> opt_truthy (inv_target_id iv)
      then Some (plain_envelope Error [Lit ''target_id_missing: AgentHand requires a target_id (e.g. 'claude@krew')''], d)
      else let (i, d1) = draw ''a2a_'' d in (case mail_create (delegate_mail i iv now) d1 of
          (Inl _, d2) \<Rightarrow> Some (plain_envelope Error [Lit ''a2a_create_failed: UNIQUE constraint failed''], d2)
        | (Inr _, d2) \<Rightarrow> agent_poll dumps w (pe_start w + of_int (inv_deadline_s iv)) i 0 d2))"

section \<open>The agent hand ends and tells the truth\<close>

lemma mail_get_mark: "mail_get i (mail_mark_timeout i d) = map_option (\<lambda>m. if ma_status m = MPending then timed_out m else m) (mail_get i d)"
proof -
  have "row_get ma_id i (rows_update (\<lambda>m. ma_id m = i \<and> ma_status m = MPending) timed_out ms) =
      map_option (\<lambda>m. if ma_status m = MPending then timed_out m else m) (row_get ma_id i ms)" for ms
    by (induction ms) (auto simp: rows_update_def timed_out_def)
  then show ?thesis by (simp add: mail_get_def mail_mark_timeout_def mail_update_def)
qed

text \<open>How the envelope of the poll \<open>k\<close>, its last, agrees with the row it read in \<open>d\<close>, and what it leaves
  behind in \<open>d'\<close>: a message settled when read is left as it is; one that was not may be settled before the
  timeout is written, and then stays settled so.\<close>

definition mail_agrees :: "(json \<Rightarrow> string) \<Rightarrow> poll_env \<Rightarrow> rat \<Rightarrow> string \<Rightarrow> nat \<Rightarrow> db \<Rightarrow> result_envelope \<Rightarrow> db \<Rightarrow> bool" where
  "mail_agrees dumps w deadline i k d e d' =
     (let unsettled = (env_action e = Cancel \<and> (pe_cancelled w k \<or> deadline < pe_clock w k) \<and>
            mail_get i d' = map_option (\<lambda>m. if ma_status m = MPending \<and> \<not> pe_mark_fails w k then timed_out m else m)
              (mail_get i (pe_between w k d)))
      in case mail_get i d of
       None \<Rightarrow> env_action e = Error \<and> d' = d
     | Some m \<Rightarrow> (case ma_status m of
           MPending \<Rightarrow> unsettled
         | MProcessing \<Rightarrow> unsettled
         | MCompleted \<Rightarrow> env_action e = Accept \<and> env_content e = JStr (case ma_result m of None \<Rightarrow> [] | Some v \<Rightarrow> dumps v) \<and> d' = d
         | MFailed \<Rightarrow> env_action e = Error \<and> d' = d
         | MTimeout \<Rightarrow> env_action e = Cancel \<and> d' = d))"

lemma valid_lit: "s \<noteq> [] \<Longrightarrow> valid_envelope (plain_envelope a [Lit s])"
  by (cases s) auto

lemma settled_envelope_ok:
  "mail_get i d = Some m \<Longrightarrow> settled_envelope dumps m = Some e \<Longrightarrow>
    valid_envelope e \<and> mail_agrees dumps w deadline i k d e d"
  by (cases "ma_status m"; cases "ma_error m")
    (auto simp: settled_envelope_def mail_agrees_def plain_envelope_def opt_truthy_def valid_envelope_def ResultEnvelope_def
      reason_missing_def Let_def split: if_splits)

lemma marked_ok:
  assumes "mail_get i d = Some m" "settled_envelope dumps m = None" "s \<noteq> []" "pe_cancelled w k \<or> deadline < pe_clock w k"
  shows "valid_envelope (plain_envelope Cancel [Lit s]) \<and>
    mail_agrees dumps w deadline i k d (plain_envelope Cancel [Lit s]) (give_up w i k d)"
proof -
  have "map_option (\<lambda>m. m) x = x" for x :: "mail option" by (cases x) simp_all
  then have "mail_get i (give_up w i k d) = map_option (\<lambda>m. if ma_status m = MPending \<and> \<not> pe_mark_fails w k then timed_out m else m)
      (mail_get i (pe_between w k d))"
    by (simp add: give_up_def Let_def mail_get_mark)
  then show ?thesis
    using assms valid_lit [of s Cancel]
    by (cases "ma_status m") (auto simp: settled_envelope_def mail_agrees_def plain_envelope_def Let_def)
qed

lemma poll_once_ok:
  assumes "poll_once dumps w deadline i k d = Some (e, d')"
  shows "valid_envelope e \<and> mail_agrees dumps w deadline i k d e d'"
proof (cases "mail_get i d")
  case None
  then show ?thesis using assms
    by (auto simp: poll_once_def mail_agrees_def plain_envelope_def valid_envelope_def ResultEnvelope_def reason_missing_def)
next
  case (Some m)
  show ?thesis
  proof (cases "settled_envelope dumps m")
    case None
    then show ?thesis using assms Some marked_ok [OF Some None]
      by (auto simp: poll_once_def opt_truthy_def split: if_splits)
  next
    case (Some e')
    then show ?thesis using assms \<open>mail_get i d = Some m\<close> settled_envelope_ok by (auto simp: poll_once_def)
  qed
qed

text \<open>What a poll sees after \<open>j\<close> more sleeps.\<close>

fun db_at_poll :: "poll_env \<Rightarrow> nat \<Rightarrow> nat \<Rightarrow> db \<Rightarrow> db" where
  "db_at_poll w k 0 d = d"
| "db_at_poll w k (Suc j) d = db_at_poll w (Suc k) j (pe_others w k d)"

lemma agent_poll_ends:
  assumes "pe_cancelled w (k + n) \<or> deadline < pe_clock w (k + n)"
  shows "\<exists>j\<le>n. \<exists>e d'. agent_poll dumps w deadline i k d = Some (e, d') \<and> valid_envelope e \<and>
     mail_agrees dumps w deadline i (k + j) (db_at_poll w k j d) e d' \<and>
     (\<forall>l<j. \<not> pe_cancelled w (k + l) \<and> \<not> deadline < pe_clock w (k + l))"
  using assms
proof (induction n arbitrary: k d)
  case 0
  then have "poll_once dumps w deadline i k d \<noteq> None" by (auto simp: poll_once_def split: option.split)
  then obtain e d' where p: "poll_once dumps w deadline i k d = Some (e, d')" by fastforce
  then show ?case using poll_once_ok [OF p] by (subst agent_poll.simps) simp
next
  case (Suc n)
  show ?case
  proof (cases "poll_once dumps w deadline i k d")
    case (Some r)
    obtain e d' where r: "r = (e, d')" by (rule prod.exhaust)
    show ?thesis using poll_once_ok [of dumps w deadline i k d e d'] Some r
      by (subst agent_poll.simps) (intro exI [of _ 0]; simp)
  next
    case None
    then have quiet: "\<not> pe_cancelled w k \<and> \<not> deadline < pe_clock w k"
      by (auto simp: poll_once_def split: option.splits if_splits)
    have more_polls: "agent_poll dumps w deadline i k d = agent_poll dumps w deadline i (Suc k) (pe_others w k d)"
      using None by (subst agent_poll.simps) simp
    have "pe_cancelled w (Suc k + n) \<or> deadline < pe_clock w (Suc k + n)" using Suc.prems by simp
    from Suc.IH [OF this, of "pe_others w k d"] obtain j e d' where j: "j \<le> n"
      "agent_poll dumps w deadline i (Suc k) (pe_others w k d) = Some (e, d')" "valid_envelope e"
      "mail_agrees dumps w deadline i (Suc k + j) (db_at_poll w (Suc k) j (pe_others w k d)) e d'"
      "\<forall>l<j. \<not> pe_cancelled w (Suc k + l) \<and> \<not> deadline < pe_clock w (Suc k + l)" by blast
    have "\<forall>l<Suc j. \<not> pe_cancelled w (k + l) \<and> \<not> deadline < pe_clock w (k + l)"
    proof (intro allI impI)
      fix l assume "l < Suc j"
      then show "\<not> pe_cancelled w (k + l) \<and> \<not> deadline < pe_clock w (k + l)"
        using quiet j(5) by (cases l) auto
    qed
    then show ?thesis using j more_polls by (intro exI [of _ "Suc j"]) simp
  qed
qed

lemma agent_poll_ok:
  assumes "agent_poll dumps w deadline i k d = Some r"
  shows "valid_envelope (fst r)"
proof (rule agent_poll.raw_induct [OF _ assms, where P = "\<lambda>dumps w deadline i k d r. valid_envelope (fst r)"])
  fix poll :: "(json \<Rightarrow> string) \<Rightarrow> poll_env \<Rightarrow> rat \<Rightarrow> string \<Rightarrow> nat \<Rightarrow> db \<Rightarrow> (result_envelope \<times> db) option"
    and dumps w deadline i k d r
  assume IH: "\<And>dumps w deadline i k d r. poll dumps w deadline i k d = Some r \<Longrightarrow> valid_envelope (fst r)"
    and r: "(case poll_once dumps w deadline i k d of None \<Rightarrow> poll dumps w deadline i (Suc k) (pe_others w k d) | Some r \<Rightarrow> Some r) = Some r"
  show "valid_envelope (fst r)"
  proof (cases "poll_once dumps w deadline i k d")
    case None
    then show ?thesis using r IH by simp
  next
    case (Some r')
    then show ?thesis using r poll_once_ok [of dumps w deadline i k d "fst r" "snd r"] by simp
  qed
qed

lemma text_content_rejected:
  assumes "run_external r = None" "inv_schema (run_inv r) \<noteq> None" "\<exists>s. env_content e = JStr s \<or> env_action e \<noteq> Accept"
  shows "\<exists>e'. resolve_result r (Returned e) = Some e' \<and> env_action e' \<noteq> Accept"
  using assms by (auto simp: resolve_result_def check_schema_def outcome_envelope_def plain_envelope_def split: option.splits)

text \<open>C34: when an invocation goes to an agent, the message is in the agent's mailbox, readable until the
  invocation's deadline, and the hand returns at the latest at the poll at which it is cancelled or the
  deadline has passed, whatever others do to the mailbox meanwhile, during its sleeps or between a read and
  the timeout it then writes. Its envelope is one the service takes and says what the last poll read:
  accepted exactly with the text of a message read completed, an error exactly for one read failed or lost, cancelled
  for one read as timed out, and these are left as they are; a message read pending or in processing is answered
  with a cancellation, and only when cancelled or past the deadline. The message is then timed out if it is still
  pending and the write does not fail; an agent that completed it in flight leaves a completed message
  behind a cancelled invocation. The text of an accepted envelope is what makes an invocation with a
  schema fail: the service accepts an object only, so such an agent invocation never completes by the
  agent's answer.\<close>

theorem agent_hand_settles:
  fixes w :: poll_env and iv :: invocation and d :: db and now :: int and dumps :: "json \<Rightarrow> string"
  assumes target: "opt_truthy (inv_target_id iv)" and new: "mail_get (fst (draw ''a2a_'' d)) d = None"
    and ends: "pe_cancelled w n \<or> pe_start w + of_int (inv_deadline_s iv) < pe_clock w n"
  defines "i \<equiv> fst (draw ''a2a_'' d)" and "deadline \<equiv> pe_start w + of_int (inv_deadline_s iv)"
  defines "d1 \<equiv> (snd (draw ''a2a_'' d))\<lparr>db_mail := db_mail d @ [delegate_mail i iv now]\<rparr>"
  shows "(\<forall>t < now + inv_deadline_s iv. case parse_target_id (the (inv_target_id iv)) ''krew'' of (agent, ow) \<Rightarrow>
         delegate_mail i iv now \<in> set (mail_pending ow agent t d1)) \<and>
    (\<exists>k\<le>n. \<exists>e d'. agent_execute dumps w iv now d = Some (e, d') \<and> valid_envelope e \<and>
      mail_agrees dumps w deadline i k (db_at_poll w 0 k d1) e d' \<and>
      (\<forall>l<k. \<not> pe_cancelled w l \<and> \<not> deadline < pe_clock w l) \<and>
      (\<forall>r. run_external r = None \<and> inv_schema (run_inv r) \<noteq> None \<longrightarrow>
         (\<exists>e'. resolve_result r (Returned e) = Some e' \<and> env_action e' \<noteq> Accept)))"
proof -
  define m where "m = delegate_mail i iv now"
  have key: "ma_id m = i" by (simp add: m_def delegate_mail_def case_prod_beta)
  have "mail_get i (snd (draw ''a2a_'' d)) = None" using new by (simp add: mail_get_def i_def)
  then have ex: "agent_execute dumps w iv now d = agent_poll dumps w deadline i 0 d1"
    using target key by (simp add: agent_execute_def case_prod_beta mail_create_def d1_def i_def m_def deadline_def)
  have box: "case parse_target_id (the (inv_target_id iv)) ''krew'' of (agent, ow) \<Rightarrow> m \<in> set (mail_pending ow agent t d1)"
    if "t < now + inv_deadline_s iv" for t
    using that by (simp add: case_prod_beta mail_pending_def d1_def m_def delegate_mail_def)
  have "pe_cancelled w (0 + n) \<or> deadline < pe_clock w (0 + n)" using ends by (simp add: deadline_def)
  from agent_poll_ends [OF this, of dumps i d1] obtain k e d' where k: "k \<le> n"
    "agent_poll dumps w deadline i 0 d1 = Some (e, d')" "valid_envelope e"
    "mail_agrees dumps w deadline i k (db_at_poll w 0 k d1) e d'"
    "\<forall>l<k. \<not> pe_cancelled w l \<and> \<not> deadline < pe_clock w l" by auto
  have text_only: "\<exists>s. env_content e = JStr s \<or> env_action e \<noteq> Accept"
    using k(4) by (auto simp: mail_agrees_def Let_def split: option.splits mail_status.splits)
  have rejected: "\<forall>r. run_external r = None \<and> inv_schema (run_inv r) \<noteq> None \<longrightarrow>
      (\<exists>e'. resolve_result r (Returned e) = Some e' \<and> env_action e' \<noteq> Accept)"
    using text_content_rejected text_only by blast
  show ?thesis
    using box k(1,3-5) ex k(2) rejected unfolding m_def
    by (intro conjI exI [of _ k] exI [of _ e] exI [of _ d']) simp_all
qed

definition quiet_env :: poll_env where
  "quiet_env = \<lparr>pe_cancelled = (\<lambda>_. False), pe_reason = None, pe_start = 0, pe_clock = (\<lambda>k. of_nat k), pe_between = (\<lambda>_ d. d),
     pe_mark_fails = (\<lambda>_. False), pe_others = (\<lambda>_ d. d)\<rparr>"

lemma agent_hand_settles_witness:
  "\<exists>e d'. agent_execute (\<lambda>_. []) quiet_env (secret_invocation\<lparr>inv_target_id := Some ''claude@krew''\<rparr>) 5 sample_db = Some (e, d') \<and> valid_envelope e"
proof -
  have "mail_get (fst (draw ''a2a_'' sample_db)) sample_db = None" by (simp add: mail_get_def sample_db_def empty_db_def)
  moreover have "pe_start quiet_env + of_int (inv_deadline_s (secret_invocation\<lparr>inv_target_id := Some ''claude@krew''\<rparr>)) < pe_clock quiet_env 301"
    by (simp add: quiet_env_def secret_invocation_def asked_invocation_def)
  ultimately show ?thesis
    using agent_hand_settles [of "secret_invocation\<lparr>inv_target_id := Some ''claude@krew''\<rparr>" sample_db quiet_env 301 5 "\<lambda>_. []"]
    by (auto simp: opt_truthy_def)
qed

text \<open>A hand that has not returned by the deadline is cut off by the service.\<close>

definition agent_answer :: "(json \<Rightarrow> string) \<Rightarrow> poll_env \<times> invocation \<times> int \<times> db \<Rightarrow> result_envelope" where
  "agent_answer dumps = (\<lambda>(w, iv, now, d). case agent_execute dumps w iv now d of
     Some (e, _) \<Rightarrow> e | None \<Rightarrow> plain_envelope Cancel [Lit ''deadline_exceeded''])"

interpretation agent: hand "agent_answer dumps" "\<lambda>_. []"
proof
  show "valid_envelope (agent_answer dumps x)" for x
    by (cases x) (auto simp: agent_answer_def agent_execute_def Let_def dest: agent_poll_ok split: option.splits prod.splits sum.splits if_splits)
qed simp

end
