(* ===== verification/E2b_Stream.thy ===== *)
theory E2b_Stream
  imports Byte_Text
begin

text \<open>
  The stream of a command that runs in a sandbox (\<^verbatim>\<open>services/e2b_client.py\<close>): the envelopes of the Connect
  protocol, the decoder that takes them apart as bytes come in, and the chunks it hands on.  \<open>json.loads\<close>
  is the argument \<open>loads\<close> (\<open>None\<close> for JSONDecodeError).  Proved: the chunks do not depend on how the network
  cuts the bytes, and the output and the exit code that envd reports come out as they went in.
\<close>

section \<open>Python on values that may have any shape\<close>

text \<open>\<open>k in v\<close> and \<open>v[k]\<close> for a text \<open>k\<close>.\<close>

fun py_in :: "string \<Rightarrow> json \<Rightarrow> bool res" where
  "py_in k (JObj d) = Inr (dict_has d k)"
| "py_in k (JArr xs) = Inr (JStr k \<in> set xs)"
| "py_in k (JStr s) = Inr (has_infix k s)"
| "py_in k _ = Inl (TypeError [Lit ''argument is not iterable''])"

fun py_index :: "json \<Rightarrow> string \<Rightarrow> json res" where
  "py_index (JObj d) k = (case map_of d k of None \<Rightarrow> Inl (KeyError k) | Some v \<Rightarrow> Inr v)"
| "py_index _ k = Inl (TypeError [Lit ''indices must be integers''])"

fun py_attr_get :: "json \<Rightarrow> string \<Rightarrow> json res" where
  "py_attr_get (JObj d) k = Inr (dict_get d k)"
| "py_attr_get _ k = Inl (AttributeError [Lit ''object has no attribute get''])"

definition or_dict :: "json \<Rightarrow> json" where
  "or_dict v = (if truthy v then v else JObj [])"

text \<open>\<open>int(s)\<close> of a text: white space around, a sign, digits with single underscores between.\<close>

definition digit_val :: "char \<Rightarrow> nat option" where
  "digit_val c = (if 48 \<le> byte_of c \<and> byte_of c \<le> 57 then Some (byte_of c - 48) else None)"

fun int_digits :: "nat \<Rightarrow> bool \<Rightarrow> string \<Rightarrow> nat option" where
  "int_digits n after_digit [] = (if after_digit then Some n else None)"
| "int_digits n after_digit (c # s) =
     (if c = CHR ''_'' then (if after_digit then int_digits n False s else None)
      else case digit_val c of None \<Rightarrow> None | Some v \<Rightarrow> int_digits (10 * n + v) True s)"

definition int_of_text :: "string \<Rightarrow> int option" where
  "int_of_text s = (case str_strip s of
       [] \<Rightarrow> None
     | c # t \<Rightarrow> if c = CHR ''-'' then map_option (\<lambda>n. - int n) (int_digits 0 False t)
         else map_option int (int_digits 0 False (if c = CHR ''+'' then t else c # t)))"

text \<open>\<open>int(v)\<close>; \<open>None\<close> for TypeError and ValueError.\<close>

fun py_int :: "json \<Rightarrow> int option" where
  "py_int (JInt n) = Some n"
| "py_int (JBool b) = Some (if b then 1 else 0)"
| "py_int (JFloat r) = Some (if 0 \<le> r then \<lfloor>r\<rfloor> else \<lceil>r\<rceil>)"
| "py_int (JStr s) = int_of_text s"
| "py_int _ = None"

fun is_int :: "json \<Rightarrow> bool" where
  "is_int (JInt _) = True"
| "is_int (JBool _) = True"
| "is_int _ = False"

section \<open>Envelopes\<close>

text \<open>\<open>struct.unpack(">I")\<close> and \<open>struct.pack(">BI", flags, n)\<close>, the latter for what fits.\<close>

definition be32 :: "string \<Rightarrow> nat" where
  "be32 s = fold (\<lambda>c n. n * 256 + byte_of c) s 0"

definition pack_be32 :: "nat \<Rightarrow> string" where
  "pack_be32 n = [char_of (n div 256 ^ 3), char_of (n div 256 ^ 2), char_of (n div 256), char_of n]"

definition envelope :: "nat \<Rightarrow> string \<Rightarrow> string" where
  "envelope flags body = char_of flags # pack_be32 (length body) @ body"

definition take_envelope :: "string \<Rightarrow> (nat \<times> string \<times> string) option" where
  "take_envelope buf =
     (if length buf < 5 then None
      else let size = be32 (take 4 (drop 1 buf)) in
        if length buf < 5 + size then None
        else Some (byte_of (hd buf), take size (drop 5 buf), drop size (drop 5 buf)))"

lemma be32_pack: "n < 256 ^ 4 \<Longrightarrow> be32 (pack_be32 n) = n"
proof -
  assume n: "n < 256 ^ 4"
  have "be32 (pack_be32 n) = ((n div 256 ^ 3 mod 256 * 256 + n div 256 ^ 2 mod 256) * 256 + n div 256 mod 256) * 256 + n mod 256"
    by (simp add: be32_def pack_be32_def byte_of_def)
  also have "n div 256 ^ 3 mod 256 * 256 + n div 256 ^ 2 mod 256 = n div 256 ^ 2"
  proof -
    have "n div 256 ^ 3 < 256" using n by (simp add: less_mult_imp_div_less)
    moreover have "n div 256 ^ 3 = n div 256 ^ 2 div 256" by (simp add: div_mult2_eq [symmetric])
    ultimately show ?thesis using div_mult_mod_eq [of "n div 256 ^ 2" 256] by simp
  qed
  also have "n div 256 ^ 2 * 256 + n div 256 mod 256 = n div 256"
    using div_mult_mod_eq [of "n div 256" 256] by (simp add: div_mult2_eq [symmetric])
  finally show ?thesis by simp
qed

lemma take_envelope [simp]:
  assumes "length body < 256 ^ 4" "flags < 256"
  shows "take_envelope (envelope flags body @ rest) = Some (flags, body, rest)"
  using assms be32_pack [OF assms(1)]
  by (simp add: take_envelope_def envelope_def byte_of_def pack_be32_def Let_def)

lemma take_envelope_app: "take_envelope buf = Some (f, b, r) \<Longrightarrow> take_envelope (buf @ more) = Some (f, b, r @ more)"
  by (cases buf) (auto simp: take_envelope_def Let_def split: if_splits)

lemma take_envelope_shorter: "take_envelope buf = Some (f, b, r) \<Longrightarrow> length r < length buf"
  by (auto simp: take_envelope_def Let_def split: if_splits)

section \<open>The decoder\<close>

type_synonym chunk = "(string \<times> json) list"

datatype verdict = Go | Stop | Fail py_exc

definition b64_text :: "json \<Rightarrow> string" where
  "b64_text v = (case v of
       JStr s \<Rightarrow> (case b64decode False s of Inl _ \<Rightarrow> [] | Inr b \<Rightarrow> decode_replace b)
     | _ \<Rightarrow> [])"

definition connect_error_string :: "(json \<Rightarrow> string) \<Rightarrow> json \<Rightarrow> string res" where
  "connect_error_string fmt err = (case err of
       JStr s \<Rightarrow> Inr s
     | JObj d \<Rightarrow> Inr (py_str fmt (case map_of d ''code'' of None \<Rightarrow> JStr ''unknown'' | Some v \<Rightarrow> v) @ '': '' @
         py_str fmt (case map_of d ''message'' of None \<Rightarrow> JStr [] | Some v \<Rightarrow> v))
     | _ \<Rightarrow> Inl (AttributeError [Lit ''object has no attribute get'']))"

definition exit_chunk :: "json \<Rightarrow> chunk" where
  "exit_chunk code = [(''exit_code'', code)]"

definition error_chunk :: "string \<Rightarrow> chunk" where
  "error_chunk m = [(''error'', JStr m)]"

definition output_chunk :: "string \<Rightarrow> string \<Rightarrow> chunk" where
  "output_chunk stream data = [(''stream'', JStr stream), (''data'', JStr data)]"

text \<open>The last envelope: an error, and an exit code if no \<open>end\<close> came.\<close>

definition on_end_of_stream :: "(json \<Rightarrow> string) \<Rightarrow> json \<Rightarrow> bool \<Rightarrow> chunk list \<times> verdict" where
  "on_end_of_stream fmt msg saw_exit =
     (let synth = (if saw_exit then [] else [exit_chunk (JInt 0)]) in
      case py_attr_get msg ''error'' of
        Inl e \<Rightarrow> ([], Fail e)
      | Inr err \<Rightarrow> if \<not> truthy err then (synth, Stop)
          else (case connect_error_string fmt err of
              Inl e \<Rightarrow> ([], Fail e) | Inr m \<Rightarrow> (error_chunk m # synth, Stop)))"

definition on_data :: "json \<Rightarrow> chunk list res" where
  "on_data event = bind_res (py_index event ''data'') (\<lambda>v. let data = or_dict v in
     bind_res (py_in ''stdout'' data) (\<lambda>is_out.
       if is_out then bind_res (py_index data ''stdout'') (\<lambda>s. Inr [output_chunk ''stdout'' (b64_text s)])
       else bind_res (py_in ''stderr'' data) (\<lambda>is_err.
         if is_err then bind_res (py_index data ''stderr'') (\<lambda>s. Inr [output_chunk ''stderr'' (b64_text s)])
         else Inr [])))"

definition on_end :: "json \<Rightarrow> chunk list res" where
  "on_end event = bind_res (py_index event ''end'') (\<lambda>v. bind_res (py_attr_get (or_dict v) ''exit_code'') (\<lambda>c.
     let code = (if truthy c then c else JInt 0) in
     Inr [exit_chunk (if is_int code then code else case py_int code of None \<Rightarrow> JInt 0 | Some n \<Rightarrow> JInt n)]))"

text \<open>One event: its chunks and whether it was an \<open>end\<close>.\<close>

definition on_event :: "json \<Rightarrow> (chunk list \<times> bool) res" where
  "on_event event = bind_res (py_in ''data'' event) (\<lambda>is_data.
     if is_data then bind_res (on_data event) (\<lambda>cs. Inr (cs, False))
     else bind_res (py_in ''end'' event) (\<lambda>is_end.
       if is_end then bind_res (on_end event) (\<lambda>cs. Inr (cs, True)) else Inr ([], False)))"

definition on_envelope :: "(json \<Rightarrow> string) \<Rightarrow> (string \<Rightarrow> json option) \<Rightarrow> nat \<Rightarrow> string \<Rightarrow> bool \<Rightarrow> chunk list \<times> bool \<times> verdict" where
  "on_envelope fmt loads flags body saw_exit =
     (case (if body = [] then Inr (Some (JObj [])) else case decode_strict body of
          None \<Rightarrow> Inl (ValueError [Lit ''codec can't decode byte'']) | Some t \<Rightarrow> Inr (loads t)) of
        Inl e \<Rightarrow> ([], saw_exit, Fail e)
      | Inr None \<Rightarrow> ([], saw_exit, Go)
      | Inr (Some v) \<Rightarrow>
          let msg = or_dict v in
          if odd (flags div 2) then (case on_end_of_stream fmt msg saw_exit of (cs, w) \<Rightarrow> (cs, saw_exit, w))
          else case bind_res (py_attr_get msg ''event'') (\<lambda>e. on_event (or_dict e)) of
              Inl e \<Rightarrow> ([], saw_exit, Fail e)
            | Inr (cs, ended) \<Rightarrow> (cs, saw_exit \<or> ended, Go))"

text \<open>The inner loop over the envelopes in the buffer, the outer one over the pieces of the network.\<close>

function drain :: "(json \<Rightarrow> string) \<Rightarrow> (string \<Rightarrow> json option) \<Rightarrow> string \<Rightarrow> bool \<Rightarrow> chunk list \<times> string \<times> bool \<times> verdict" where
  "drain fmt loads buf saw_exit = (case take_envelope buf of
       None \<Rightarrow> ([], buf, saw_exit, Go)
     | Some (flags, body, rest) \<Rightarrow> (case on_envelope fmt loads flags body saw_exit of
           (cs, seen, Go) \<Rightarrow> (case drain fmt loads rest seen of (cs', out) \<Rightarrow> (cs @ cs', out))
         | (cs, seen, w) \<Rightarrow> (cs, rest, seen, w)))"
  by pat_completeness auto
termination by (relation "measure (\<lambda>(_, _, buf, _). length buf)") (auto dest: take_envelope_shorter)

declare drain.simps [simp del]

fun decode_pieces :: "(json \<Rightarrow> string) \<Rightarrow> (string \<Rightarrow> json option) \<Rightarrow> string \<Rightarrow> bool \<Rightarrow> string list \<Rightarrow> chunk list \<times> verdict" where
  "decode_pieces fmt loads buf saw_exit [] = ([], Go)"
| "decode_pieces fmt loads buf saw_exit (p # ps) = (case drain fmt loads (buf @ p) saw_exit of
       (cs, rest, seen, Go) \<Rightarrow> (case decode_pieces fmt loads rest seen ps of (cs', w) \<Rightarrow> (cs @ cs', w))
     | (cs, rest, seen, w) \<Rightarrow> (cs, w))"

definition decode_connect_stream :: "(json \<Rightarrow> string) \<Rightarrow> (string \<Rightarrow> json option) \<Rightarrow> string list \<Rightarrow> chunk list \<times> verdict" where
  "decode_connect_stream fmt loads pieces = decode_pieces fmt loads [] False pieces"

section \<open>The client\<close>

text \<open>What a request gives back: the status and the pieces of the body, which may break off with a network
  error; or no response at all.  \<open>status_text\<close> is the message of \<open>raise_for_status\<close> of httpx.\<close>

datatype response = Response nat "string list" "string option" | No_response string

datatype io_exc = Value_error string | Not_found string | Dead_sandbox string | Io_error string

fun io_text :: "io_exc \<Rightarrow> string" where
  "io_text (Value_error m) = m"
| "io_text (Not_found m) = m"
| "io_text (Dead_sandbox m) = m"
| "io_text (Io_error m) = m"

definition MAX_WRITE_BYTES :: nat where
  "MAX_WRITE_BYTES = 1024 * 1024"

definition raise_for_status :: "(nat \<Rightarrow> string) \<Rightarrow> nat \<Rightarrow> unit + io_exc" where
  "raise_for_status status_text code = (if 200 \<le> code \<and> code < 300 then Inl () else Inr (Io_error (status_text code)))"

text \<open>The body of a unary request, read to its end; every request needs the proxy.\<close>

definition unary :: "bool \<Rightarrow> response \<Rightarrow> io_exc + nat \<times> string" where
  "unary proxy resp = (if \<not> proxy then Inl (Io_error ''proxy_not_configured: e2b client-proxy not set'')
     else case resp of
         No_response m \<Rightarrow> Inl (Io_error m)
       | Response code pieces (Some m) \<Rightarrow> Inl (Io_error m)
       | Response code pieces None \<Rightarrow> Inr (code, concat pieces))"

definition client_write :: "(nat \<Rightarrow> string) \<Rightarrow> bool \<Rightarrow> response \<Rightarrow> string \<Rightarrow> io_exc + unit" where
  "client_write status_text proxy resp data =
     (if MAX_WRITE_BYTES < length data
      then Inl (Value_error (''path_too_large: '' @ str_of_nat (length data) @ '' bytes exceeds '' @ str_of_nat MAX_WRITE_BYTES @ ''-byte cap''))
      else case unary proxy resp of
          Inl e \<Rightarrow> Inl e
        | Inr (code, _) \<Rightarrow> (case raise_for_status status_text code of Inr e \<Rightarrow> Inl e | Inl _ \<Rightarrow> Inr ()))"

definition client_read :: "(nat \<Rightarrow> string) \<Rightarrow> bool \<Rightarrow> response \<Rightarrow> string \<Rightarrow> io_exc + string" where
  "client_read status_text proxy resp path = (case unary proxy resp of
       Inl e \<Rightarrow> Inl e
     | Inr (code, body) \<Rightarrow> if code = 404 then Inl (Not_found path)
         else (case raise_for_status status_text code of Inr e \<Rightarrow> Inl e | Inl _ \<Rightarrow> Inr body))"

text \<open>\<open>resp.json().get("entries", [])\<close>; a body that is no JSON object raises.\<close>

definition client_list :: "(nat \<Rightarrow> string) \<Rightarrow> (string \<Rightarrow> json option) \<Rightarrow> bool \<Rightarrow> response \<Rightarrow> string \<Rightarrow> io_exc + json" where
  "client_list status_text loads proxy resp path = (case client_read status_text proxy resp path of
       Inl e \<Rightarrow> Inl e
     | Inr body \<Rightarrow> (case loads body of
           Some (JObj d) \<Rightarrow> Inr (case map_of d ''entries'' of None \<Rightarrow> JArr [] | Some v \<Rightarrow> v)
         | Some _ \<Rightarrow> Inl (Io_error ''object has no attribute get'')
         | None \<Rightarrow> Inl (Value_error ''Expecting value'')))"

definition exec_request :: "(json \<Rightarrow> string) \<Rightarrow> string \<Rightarrow> string option \<Rightarrow> json option \<Rightarrow> string" where
  "exec_request dumps command cwd env = envelope 0 (dumps (JObj [(''process'', JObj ([(''cmd'', JStr ''/bin/sh''),
     (''args'', JArr [JStr ''-c'', JStr command])] @ (case cwd of None \<Rightarrow> [] | Some c \<Rightarrow> [(''cwd'', JStr c)]) @
     (case env of None \<Rightarrow> [] | Some e \<Rightarrow> [(''envs'', e)])))]))"

text \<open>The chunks of a command, and the exception the generator dies of.\<close>

definition client_exec :: "(json \<Rightarrow> string) \<Rightarrow> (string \<Rightarrow> json option) \<Rightarrow> bool \<Rightarrow> response \<Rightarrow> chunk list \<times> py_exc option" where
  "client_exec fmt loads proxy resp =
     (if \<not> proxy then ([error_chunk ''e2b client-proxy not configured''], None)
      else case resp of
          No_response m \<Rightarrow> ([error_chunk (''envd request failed: '' @ m)], None)
        | Response code pieces broke \<Rightarrow>
            if code \<noteq> 200 then ([error_chunk (case broke of
                 Some m \<Rightarrow> ''envd request failed: '' @ m
               | None \<Rightarrow> ''envd Start returned '' @ str_of_nat code @ '': '' @ str_take 500 (decode_replace (concat pieces)))], None)
            else (case decode_connect_stream fmt loads pieces of
                (cs, Fail e) \<Rightarrow> (cs, Some e)
              | (cs, Stop) \<Rightarrow> (cs, None)
              | (cs, Go) \<Rightarrow> (case broke of None \<Rightarrow> (cs, None) | Some m \<Rightarrow> (cs @ [error_chunk (''envd request failed: '' @ m)], None))))"

section \<open>The cut of the network does not matter\<close>

lemma drain_app:
  "drain fmt loads buf saw = (cs, rest, seen, w) \<Longrightarrow> drain fmt loads (buf @ more) saw =
     (case w of Go \<Rightarrow> (case drain fmt loads (rest @ more) seen of (cs', out) \<Rightarrow> (cs @ cs', out))
      | _ \<Rightarrow> (cs, rest @ more, seen, w))"
proof (induction fmt loads buf saw arbitrary: cs rest seen w rule: drain.induct)
  case (1 fmt loads buf saw)
  show ?case
  proof (cases "take_envelope buf")
    case None
    then show ?thesis using 1(2) by (simp add: drain.simps [of fmt loads buf])
  next
    case (Some env)
    obtain f b r where env: "env = (f, b, r)" using prod_cases3 by blast
    obtain cs1 s1 w1 where h: "on_envelope fmt loads f b saw = (cs1, s1, w1)" using prod_cases3 by blast
    note more = take_envelope_app [OF Some [unfolded env], of more]
    show ?thesis
    proof (cases w1)
      case Go
      obtain cs2 r2 s2 w2 where d: "drain fmt loads r s1 = (cs2, r2, s2, w2)" using prod_cases4 by blast
      have "cs = cs1 @ cs2" "rest = r2" "seen = s2" "w = w2"
        using 1(2) Some env h Go d by (simp_all add: drain.simps [of fmt loads buf])
      then show ?thesis using 1(1) [OF Some env [symmetric] HOL.refl h [symmetric] HOL.refl Go d] more h Go
        by (simp add: drain.simps [of fmt loads "buf @ more"] split: verdict.splits prod.splits)
    qed (use 1(2) Some env h more in \<open>simp_all add: drain.simps [of fmt loads buf] drain.simps [of fmt loads "buf @ more"]
      split: verdict.split\<close>)
  qed
qed

lemma drain_rest: "drain fmt loads buf saw = (cs, rest, seen, Go) \<Longrightarrow> take_envelope rest = None"
proof (induction fmt loads buf saw arbitrary: cs rest seen rule: drain.induct)
  case (1 fmt loads buf saw)
  then show ?case
    by (subst (asm) drain.simps) (auto split: option.splits prod.splits verdict.splits)
qed

lemma drain_idle: "take_envelope buf = None \<Longrightarrow> drain fmt loads buf saw = ([], buf, saw, Go)"
  by (simp add: drain.simps)

lemma decode_concat:
  "take_envelope buf = None \<Longrightarrow> decode_pieces fmt loads buf saw ps =
     (case drain fmt loads (buf @ concat ps) saw of (cs, rest, seen, w) \<Rightarrow> (cs, w))"
proof (induction ps arbitrary: buf saw)
  case Nil
  then show ?case by (simp add: drain_idle)
next
  case (Cons p ps)
  obtain cs rest seen w where d: "drain fmt loads (buf @ p) saw = (cs, rest, seen, w)" using prod_cases4 by blast
  show ?case
    using drain_app [OF d, of "concat ps"] Cons.IH [of rest seen] drain_rest [of fmt loads "buf @ p" saw cs rest seen] d
    by (cases w) (auto split: prod.splits)
qed

lemma decode_cut:
  "decode_connect_stream fmt loads ps = (case drain fmt loads (concat ps) False of (cs, rest, seen, w) \<Rightarrow> (cs, w))"
  using decode_concat [of "[]" fmt loads False ps] by (simp add: decode_connect_stream_def take_envelope_def)

section \<open>What envd sends arrives\<close>

definition data_event :: "string \<times> string \<Rightarrow> json" where
  "data_event o' = JObj [(''event'', JObj [(''data'', JObj [(fst o', JStr (b64encode (snd o')))])])]"

definition end_event :: "int \<Rightarrow> json" where
  "end_event code = JObj [(''event'', JObj [(''end'', JObj [(''exit_code'', JInt code)])])]"

definition start_event :: "int \<Rightarrow> json" where
  "start_event pid = JObj [(''event'', JObj [(''start'', JObj [(''pid'', JInt pid)])])]"

text \<open>A command that writes the texts \<open>outs\<close> and exits.\<close>

definition exec_events :: "int \<Rightarrow> (string \<times> string) list \<Rightarrow> int \<Rightarrow> json list" where
  "exec_events pid outs code = start_event pid # map data_event outs @ [end_event code]"

definition wire :: "(json \<Rightarrow> string) \<Rightarrow> json list \<Rightarrow> string" where
  "wire dumps vs = concat (map (\<lambda>v. envelope 0 (dumps v)) vs)"

lemma drain_envelope:
  assumes "length body < 256 ^ 4" "flags < 256" "on_envelope fmt loads flags body saw = (cs, seen, Go)"
  shows "drain fmt loads (envelope flags body @ rest) saw = (case drain fmt loads rest seen of (cs', out) \<Rightarrow> (cs @ cs', out))"
  using assms by (simp add: drain.simps [of fmt loads "envelope flags body @ rest"])

definition sendable :: "(json \<Rightarrow> string) \<Rightarrow> (string \<Rightarrow> json option) \<Rightarrow> json \<Rightarrow> bool" where
  "sendable dumps loads v \<longleftrightarrow> loads (dumps v) = Some v \<and> valid_utf8 (dumps v) \<and> dumps v \<noteq> [] \<and> length (dumps v) < 256 ^ 4"

lemma on_sendable:
  assumes "sendable dumps loads v" "truthy v"
  shows "on_envelope fmt loads 0 (dumps v) saw =
     (case bind_res (py_attr_get v ''event'') (\<lambda>e. on_event (or_dict e)) of
        Inl e \<Rightarrow> ([], saw, Fail e) | Inr (cs, ended) \<Rightarrow> (cs, saw \<or> ended, Go))"
  using assms by (simp add: sendable_def on_envelope_def decode_strict_def or_dict_def Let_def)

lemma drain_data:
  assumes "\<forall>o'\<in>set outs. sendable dumps loads (data_event o') \<and> fst o' \<in> {''stdout'', ''stderr''} \<and> valid_utf8 (snd o')"
  shows "drain fmt loads (wire dumps (map data_event outs) @ rest) saw =
     (case drain fmt loads rest saw of (cs', out) \<Rightarrow> (map (\<lambda>(s, t). output_chunk s t) outs @ cs', out))"
  using assms
proof (induction outs)
  case Nil
  then show ?case by (simp add: wire_def split: prod.split)
next
  case (Cons o' outs)
  obtain s t where o': "o' = (s, t)" by force
  have ok: "sendable dumps loads (data_event (s, t))" "s \<in> {''stdout'', ''stderr''}" "valid_utf8 t" using Cons.prems o' by auto
  have "bind_res (py_attr_get (data_event (s, t)) ''event'') (\<lambda>e. on_event (or_dict e)) = Inr ([output_chunk s t], False)"
    using ok(2,3) by (auto simp: data_event_def on_event_def on_data_def or_dict_def dict_get_def dict_has_def b64_text_def decode_valid Let_def)
  then have "on_envelope fmt loads 0 (dumps (data_event (s, t))) saw = ([output_chunk s t], saw, Go)"
    using on_sendable [OF ok(1)] by (simp add: data_event_def)
  note d = drain_envelope [OF _ _ this, of "wire dumps (map data_event outs) @ rest"]
  show ?case using d ok(1) Cons.IH Cons.prems o' by (simp add: wire_def sendable_def split: prod.splits)
qed

lemma drain_step:
  assumes "sendable dumps loads v" "truthy v"
    and "bind_res (py_attr_get v ''event'') (\<lambda>e. on_event (or_dict e)) = Inr (cs, ended)"
  shows "drain fmt loads (envelope 0 (dumps v) @ rest) saw =
     (case drain fmt loads rest (saw \<or> ended) of (cs', out) \<Rightarrow> (cs @ cs', out))"
proof (rule drain_envelope)
  show "on_envelope fmt loads 0 (dumps v) saw = (cs, saw \<or> ended, Go)" using on_sendable [OF assms(1,2)] assms(3) by simp
qed (use assms(1) in \<open>simp_all add: sendable_def\<close>)

lemma start_quiet: "bind_res (py_attr_get (start_event pid) ''event'') (\<lambda>e. on_event (or_dict e)) = Inr ([], False)"
  by (simp add: start_event_def on_event_def or_dict_def dict_get_def dict_has_def)

lemma end_exit: "bind_res (py_attr_get (end_event code) ''event'') (\<lambda>e. on_event (or_dict e)) = Inr ([exit_chunk (JInt code)], True)"
  by (auto simp: end_event_def on_event_def on_end_def or_dict_def dict_get_def dict_has_def Let_def)

text \<open>C35: a command that runs in a sandbox and writes the texts \<open>outs\<close> to stdout and stderr before it exits
  with \<open>code\<close> gives, however the network cuts the bytes envd sends, exactly these outputs in their order and
  then this exit code, and the stream stops; a connection that breaks off anywhere has given a beginning of
  that.\<close>

theorem exec_stream_arrives:
  assumes json: "\<forall>v\<in>set (exec_events pid outs code). sendable dumps loads v" "loads ''{}'' = Some (JObj [])"
    and outs: "\<forall>o'\<in>set outs. fst o' \<in> {''stdout'', ''stderr''} \<and> valid_utf8 (snd o')"
    and sent: "concat pieces = wire dumps (exec_events pid outs code) @ envelope 2 ''{}''"
  shows "decode_connect_stream fmt loads pieces = (map (\<lambda>(s, t). output_chunk s t) outs @ [exit_chunk (JInt code)], Stop) \<and>
    (\<forall>received lost. concat received @ lost = concat pieces \<longrightarrow>
       (\<exists>missing. fst (decode_connect_stream fmt loads received) @ missing =
          map (\<lambda>(s, t). output_chunk s t) outs @ [exit_chunk (JInt code)]))"
proof -
  have last: "drain fmt loads (envelope 2 ''{}'') True = ([], [], True, Stop)"
  proof -
    have "on_envelope fmt loads 2 ''{}'' True = ([], True, Stop)"
      using json(2) by (simp add: on_envelope_def decode_strict_def valid_utf8.simps(2) tail_ranges_def byte_of_def or_dict_def
          on_end_of_stream_def dict_get_def Let_def)
    then show ?thesis using take_envelope [of "''{}''" 2 "[]"] by (simp add: drain.simps [of fmt loads "envelope 2 ''{}''"])
  qed
  have send: "sendable dumps loads (start_event pid)" "\<forall>o'\<in>set outs. sendable dumps loads (data_event o')"
    "sendable dumps loads (end_event code)"
    using json(1) by (auto simp: exec_events_def)
  have t: "truthy (start_event pid)" "truthy (end_event code)" by (simp_all add: start_event_def end_event_def)
  have "drain fmt loads (envelope 0 (dumps (end_event code)) @ envelope 2 ''{}'') False = ([exit_chunk (JInt code)], [], True, Stop)"
    using drain_step [OF send(3) t(2) end_exit] last by simp
  then have "drain fmt loads (wire dumps (map data_event outs) @ envelope 0 (dumps (end_event code)) @ envelope 2 ''{}'') False =
      (map (\<lambda>(s, t). output_chunk s t) outs @ [exit_chunk (JInt code)], [], True, Stop)"
    using drain_data [of outs dumps loads] send(2) outs by simp
  then have all: "drain fmt loads (concat pieces) False = (map (\<lambda>(s, t). output_chunk s t) outs @ [exit_chunk (JInt code)], [], True, Stop)"
    using drain_step [OF send(1) t(1) start_quiet] sent by (simp add: exec_events_def wire_def)
  have "\<exists>missing. fst (decode_connect_stream fmt loads received) @ missing = map (\<lambda>(s, t). output_chunk s t) outs @ [exit_chunk (JInt code)]"
    if cut: "concat received @ lost = concat pieces" for received lost
  proof -
    obtain cs rest seen w where d: "drain fmt loads (concat received) False = (cs, rest, seen, w)" using prod_cases4 by blast
    from drain_app [OF d, of lost] all cut show ?thesis
      by (cases w) (auto simp: decode_cut d split: prod.splits)
  qed
  then show ?thesis using all by (simp add: decode_cut)
qed

lemma exec_stream_arrives_witness:
  "\<exists>pieces. length pieces = 2 \<and> decode_connect_stream (\<lambda>_. []) (map_of [(''S'', start_event 7), (''D'', data_event (''stdout'', ''hi'')), (''E'', end_event 0), (''{}'', JObj [])]) pieces =
     ([output_chunk ''stdout'' ''hi'', exit_chunk (JInt 0)], Stop)"
proof -
  let ?dumps = "\<lambda>v. if v = start_event 7 then ''S'' else if v = end_event 0 then ''E'' else ''D''"
  let ?loads = "map_of [(''S'', start_event 7), (''D'', data_event (''stdout'', ''hi'')), (''E'', end_event 0), (''{}'', JObj [])]"
  have 1: "\<forall>v\<in>set (exec_events 7 [(''stdout'', ''hi'')] 0). sendable ?dumps ?loads v"
    by (simp add: exec_events_def sendable_def start_event_def end_event_def data_event_def valid_utf8.simps(2) tail_ranges_def byte_of_def)
  have 2: "?loads ''{}'' = Some (JObj [])" by simp
  have 3: "\<forall>o'\<in>set [(''stdout'', ''hi'')]. fst o' \<in> {''stdout'', ''stderr''} \<and> valid_utf8 (snd o')"
    by (simp add: valid_utf8.simps(2) tail_ranges_def byte_of_def)
  let ?all = "wire ?dumps (exec_events 7 [(''stdout'', ''hi'')] 0) @ envelope 2 ''{}''"
  have 4: "concat [take 8 ?all, drop 8 ?all] = ?all"
    by (simp only: concat.simps append_take_drop_id append_Nil2)
  have "decode_connect_stream (\<lambda>_. []) ?loads [take 8 ?all, drop 8 ?all] = (map (\<lambda>(s, t). output_chunk s t) [(''stdout'', ''hi'')] @ [exit_chunk (JInt 0)], Stop)"
    by (rule exec_stream_arrives [OF 1 2 3 4, THEN conjunct1])
  moreover have "length [take 8 ?all, drop 8 ?all] = 2" by (simp only: list.size)
  ultimately show ?thesis by (simp only: list.map prod.case append.simps) blast
qed

end
