(* ===== verification/Sandbox_Hand.thy ===== *)
theory Sandbox_Hand
  imports Hands E2b_Stream Sandboxes Credentials
begin

text \<open>
  The hand that runs an invocation in a sandbox (\<^verbatim>\<open>workers/sandbox_hand.py\<close>), over the client of
  \<open>E2b_Stream\<close>: the operations a brain may ask for, the bounded tails of a command's output, the recovery of
  a sandbox that died, credentials merged into the environment.  What the sandbox answers to a request is
  the argument \<open>outside\<close>, by attempt and sandbox; \<open>repr\<close> is \<open>repr\<close> of a value.  The heartbeat after an
  operation and the kill after a cancellation are requests whose outcome is dropped; they are left out.
\<close>

section \<open>Operations\<close>

datatype sandbox_op =
    OpExec string "string option" "(string \<times> json) list option"
  | OpWrite string string
  | OpRead string
  | OpList string int

definition file_path :: "string \<Rightarrow> (string \<times> json) list \<Rightarrow> string + string" where
  "file_path op d = (case dict_get d ''path'' of
       JStr p \<Rightarrow> if p = [] then Inl (''missing_path: '' @ op @ '' op requires 'path' string'') else Inr p
     | _ \<Rightarrow> Inl (''missing_path: '' @ op @ '' op requires 'path' string''))"

definition lower_or :: "(json \<Rightarrow> string) \<Rightarrow> json \<Rightarrow> string \<Rightarrow> string" where
  "lower_or fmt v dflt = str_lower (if truthy v then py_str fmt v else dflt)"

definition write_data :: "(json \<Rightarrow> string) \<Rightarrow> (string \<times> json) list \<Rightarrow> string + string" where
  "write_data fmt d = (let encoding = lower_or fmt (dict_get d ''encoding'') ''utf-8''; raw = dict_get d ''data'' in
     if encoding = ''base64'' then (case raw of
         JStr s \<Rightarrow> (case b64decode True s of Inl m \<Rightarrow> Inl (''bad_data: '' @ m) | Inr b \<Rightarrow> Inr b)
       | _ \<Rightarrow> Inl ''bad_data: base64 'data' must be string'')
     else if encoding = ''utf-8'' then Inr (py_str fmt raw)
     else Inl (''bad_encoding: ' '' @ encoding @ '' ' (expected 'utf-8' or 'base64')''))"

definition parse_op :: "(json \<Rightarrow> string) \<Rightarrow> json \<Rightarrow> string + sandbox_op" where
  "parse_op fmt v = (case v of
       JStr s \<Rightarrow> Inr (OpExec s None None)
     | JObj d \<Rightarrow>
         let op = lower_or fmt (dict_get d ''op'') ''exec'' in
         if op = ''exec'' then
           (let command = (if truthy (dict_get d ''command'') then py_str fmt (dict_get d ''command'') else []) in
            if command = [] then Inl ''empty_command: SandboxHand exec requires a non-empty command''
            else Inr (OpExec command
              (case dict_get d ''cwd'' of JNull \<Rightarrow> None | c \<Rightarrow> Some (py_str fmt c))
              (case dict_get d ''env'' of JObj e \<Rightarrow> Some e | _ \<Rightarrow> None)))
         else if op = ''write'' then (case file_path op d of
             Inl m \<Rightarrow> Inl m
           | Inr p \<Rightarrow> if \<not> dict_has d ''data'' then Inl ''missing_data: write op requires 'data' field''
               else (case write_data fmt d of Inl m \<Rightarrow> Inl m | Inr b \<Rightarrow> Inr (OpWrite p b)))
         else if op = ''read'' then (case file_path op d of Inl m \<Rightarrow> Inl m | Inr p \<Rightarrow> Inr (OpRead p))
         else if op = ''list'' then (case file_path op d of
             Inl m \<Rightarrow> Inl m
           | Inr p \<Rightarrow> Inr (OpList p (case (case map_of d ''depth'' of None \<Rightarrow> Some 1 | Some n \<Rightarrow> py_int n) of
               None \<Rightarrow> 1 | Some n \<Rightarrow> max 1 n)))
         else Inl (''unknown_op: ' '' @ op @ '' ' (expected 'exec', 'write', 'read', or 'list')'')
     | _ \<Rightarrow> Inl ''bad_input: input must be a string or object'')"

definition classify_bytes :: "string \<Rightarrow> string \<times> string" where
  "classify_bytes data =
     (if CHR 0x00 \<in> set data then (b64encode data, ''base64'')
      else case decode_strict data of Some t \<Rightarrow> (t, ''utf-8'') | None \<Rightarrow> (b64encode data, ''base64''))"

section \<open>The tail of an output\<close>

definition TAIL_BYTES :: nat where
  "TAIL_BYTES = 16 * 1024"

record tail =
  tl_chunks :: "string list"
  tl_total :: nat

definition empty_tail :: tail where
  "empty_tail = \<lparr>tl_chunks = [], tl_total = 0\<rparr>"

text \<open>\<open>b[-n:]\<close>.\<close>

definition last_bytes :: "nat \<Rightarrow> string \<Rightarrow> string" where
  "last_bytes n s = drop (length s - n) s"

definition tail_append :: "nat \<Rightarrow> string \<Rightarrow> tail \<Rightarrow> tail" where
  "tail_append n t b =
     (if t = [] then b
      else let chunks = tl_chunks b @ [t]; total = tl_total b + length t in
        if n * 4 < total
        then let kept = last_bytes n (concat chunks) in \<lparr>tl_chunks = [decode_replace kept], tl_total = length kept\<rparr>
        else \<lparr>tl_chunks = chunks, tl_total = total\<rparr>)"

definition tail_value :: "nat \<Rightarrow> tail \<Rightarrow> string" where
  "tail_value n b = (let joined = concat (tl_chunks b) in
     if length joined \<le> n then decode_replace joined else decode_replace (last_bytes n joined))"

section \<open>Running a command\<close>

record exec_state =
  es_out :: tail
  es_err :: tail
  es_exit :: "int option"
  es_infra :: "string option"

definition output_spec :: "string \<Rightarrow> string \<Rightarrow> string \<Rightarrow> event_spec" where
  "output_spec target stream data = \<lparr>sp_kind = KOutput, sp_body = [],
     sp_payload = JObj [(''stream'', JStr stream), (''chunk'', JStr data)], sp_actor_type = ASandbox,
     sp_actor_id = target, sp_parent_id = None\<rparr>"

text \<open>\<open>_consume\<close>: the state, the events, and whether it returned before the stream was at its end.\<close>

fun consume :: "(json \<Rightarrow> string) \<Rightarrow> (json \<Rightarrow> string) \<Rightarrow> string \<Rightarrow> chunk list \<Rightarrow> exec_state \<Rightarrow> exec_state \<times> event_spec list \<times> bool" where
  "consume fmt repr target [] st = (st, [], False)"
| "consume fmt repr target (c # cs) st =
     (if dict_has c ''exit_code'' then (case py_int (dict_get c ''exit_code'') of
          Some n \<Rightarrow> (st\<lparr>es_exit := Some n\<rparr>, [], True)
        | None \<Rightarrow> (st\<lparr>es_exit := None, es_infra := Some (''bad_exit_code: '' @ repr (dict_get c ''exit_code''))\<rparr>, [], True))
      else if dict_has c ''error'' then (st\<lparr>es_infra := Some (py_str fmt (dict_get c ''error''))\<rparr>, [], True)
      else let stream = dict_get c ''stream''; data = dict_get c ''data'' in
        if (stream = JStr ''stdout'' \<or> stream = JStr ''stderr'') \<and> truthy data
        then (case (stream, data) of
            (JStr name, JStr t) \<Rightarrow>
              (case consume fmt repr target cs (if name = ''stdout'' then st\<lparr>es_out := tail_append TAIL_BYTES t (es_out st)\<rparr>
                   else st\<lparr>es_err := tail_append TAIL_BYTES t (es_err st)\<rparr>) of
                (st', evs, ended) \<Rightarrow> (st', output_spec target name t # evs, ended))
          | _ \<Rightarrow> (st\<lparr>es_infra := Some ''e2b_stream_error: object has no attribute encode''\<rparr>, [], True))
        else consume fmt repr target cs st)"

datatype op_result = Accepted json | Failing string | Cancelled string

text \<open>How one attempt went outside: the response, how many chunks were consumed when a cancellation or a
  submitted result ended the wait (\<open>None\<close>: all), and whether it is cancelled.\<close>

record attempt_env =
  ae_response :: response
  ae_cut :: "nat option"
  ae_cancelled :: bool

definition exc_text :: "py_exc \<Rightarrow> string" where
  "exc_text e = (case e of
       ValueError (Lit m # _) \<Rightarrow> m | TypeError (Lit m # _) \<Rightarrow> m | AttributeError (Lit m # _) \<Rightarrow> m | KeyError k \<Rightarrow> quoted k
     | _ \<Rightarrow> ''error'')"

definition run_stream :: "(json \<Rightarrow> string) \<Rightarrow> (json \<Rightarrow> string) \<Rightarrow> (string \<Rightarrow> json option) \<Rightarrow> bool \<Rightarrow> string \<Rightarrow> attempt_env \<Rightarrow>
    exec_state \<times> event_spec list" where
  "run_stream fmt repr loads proxy target w =
     (let (cs, raised) = client_exec fmt loads proxy (ae_response w);
          fresh = \<lparr>es_out = empty_tail, es_err = empty_tail, es_exit = None, es_infra = None\<rparr>
      in case ae_cut w of
          Some n \<Rightarrow> (case consume fmt repr target (take n cs) fresh of (st, evs, _) \<Rightarrow> (st, evs))
        | None \<Rightarrow> (case consume fmt repr target cs fresh of (st, evs, ended) \<Rightarrow>
              (if ended then st else case raised of None \<Rightarrow> st
                 | Some e \<Rightarrow> st\<lparr>es_infra := Some (''e2b_stream_error: '' @ exc_text e)\<rparr>, evs)))"

definition not_wired :: string where
  "not_wired = ''e2b_exec_not_wired: the krewhub'' @ [CHR 0xE2, CHR 0x86, CHR 0x92] @
     ''envd exec path is not configured in this deployment. Underlying: ''"

definition exec_content :: "int \<Rightarrow> exec_state \<Rightarrow> json" where
  "exec_content n st = JObj [(''exit_code'', JInt n), (''stdout_tail'', JStr (tail_value TAIL_BYTES (es_out st))),
     (''stderr_tail'', JStr (tail_value TAIL_BYTES (es_err st))), (''artifacts'', JArr []), (''diff_summary'', JNull)]"

definition or_cancelled :: "string option \<Rightarrow> string" where
  "or_cancelled reason = (if opt_truthy reason then the reason else ''operator_cancelled'')"

definition do_exec_attempt :: "(json \<Rightarrow> string) \<Rightarrow> (json \<Rightarrow> string) \<Rightarrow> (string \<Rightarrow> json option) \<Rightarrow> bool \<Rightarrow> string \<Rightarrow> string option \<Rightarrow>
    attempt_env \<Rightarrow> op_result \<times> event_spec list" where
  "do_exec_attempt fmt repr loads proxy target reason w =
     (case run_stream fmt repr loads proxy target w of (st, evs) \<Rightarrow>
       (if ae_cancelled w then Cancelled (or_cancelled reason)
        else case es_infra st of
            Some m \<Rightarrow> Failing (if has_infix ''no matching operation'' m \<or> has_infix ''404'' m then not_wired @ m else m)
          | None \<Rightarrow> (case es_exit st of
                None \<Rightarrow> Failing ''no_exit_code: e2b stream ended without exit code''
              | Some n \<Rightarrow> Accepted (exec_content n st)), evs))"

section \<open>A sandbox that died\<close>

definition DEAD_SANDBOX_MARKERS :: "string list" where
  "DEAD_SANDBOX_MARKERS = [''sandbox was not found'', ''sandbox_not_found'', CHR 0x22 # ''code'' @ CHR 0x22 # '':502'',
     ''code:502'', ''502 bad gateway'']"

definition looks_like_dead_sandbox :: "string \<Rightarrow> bool" where
  "looks_like_dead_sandbox m = list_ex (\<lambda>k. has_infix (str_lower k) (str_lower m)) DEAD_SANDBOX_MARKERS"

definition lookup_sandbox :: "string \<Rightarrow> db \<Rightarrow> sandbox option" where
  "lookup_sandbox target s = (if starts_with ''sbx_'' target then sandbox_get target s else None)"

definition reprovisioned :: "sandbox \<Rightarrow> sandbox \<Rightarrow> event_spec" where
  "reprovisioned old new = \<lparr>sp_kind = KMilestone, sp_body = ''sandbox reprovisioned: '' @ sb_id old @ rarrow @ sb_id new,
     sp_payload = JObj [(''event'', JStr ''sandbox_reprovisioned''), (''old_sandbox_id'', JStr (sb_id old)),
       (''new_sandbox_id'', JStr (sb_id new)), (''new_e2b_id'', JStr (sb_e2b new)), (''reason'', JStr ''dead_sandbox_recovery'')],
     sp_actor_type = ASystem, sp_actor_id = [], sp_parent_id = None\<rparr>"

text \<open>\<open>op k e\<close> is the \<open>k\<close>-th attempt, on the sandbox \<open>e\<close>; \<open>wired\<close> is whether the service of the sandboxes
  is there, \<open>e2b\<close> what the provider answers to a new sandbox.\<close>

definition with_recovery :: "bool \<Rightarrow> string \<Rightarrow> string \<Rightarrow> (nat \<Rightarrow> string \<Rightarrow> (io_exc + 'a) \<times> event_spec list) \<Rightarrow> string res \<Rightarrow>
    int \<Rightarrow> db \<Rightarrow> (io_exc + 'a) \<times> event_spec list \<times> db" where
  "with_recovery wired target eid op e2b now s = (case op 0 eid of
       (Inr x, evs) \<Rightarrow> (Inr x, evs, s)
     | (Inl e, evs) \<Rightarrow>
         if \<not> looks_like_dead_sandbox (io_text e) \<or> \<not> wired then (Inl e, evs, s)
         else (case lookup_sandbox target s of
             None \<Rightarrow> (Inl e, evs, s)
           | Some sb \<Rightarrow>
               if \<not> opt_truthy (sb_bundle sb) then (Inl e, evs, s)
               else (case reprovision_for_bundle (the (sb_bundle sb)) (Some (sb_id sb)) e2b now s of
                   (Inl _, s') \<Rightarrow> (Inl e, evs, s')
                 | (Inr new, s') \<Rightarrow> (case op 1 (sb_e2b new) of
                     (r, evs') \<Rightarrow> (r, evs @ reprovisioned sb new # evs', s')))))"

section \<open>The execution\<close>

text \<open>The brain's environment over the stored credentials; \<open>None\<close> for \<open>stored\<close> if there is no store or it
  failed.\<close>

definition merge_credentials_into_env :: "(string \<times> string) list option \<Rightarrow> (string \<times> json) list option \<Rightarrow> (string \<times> json) list option" where
  "merge_credentials_into_env stored brain = (case stored of
       None \<Rightarrow> brain
     | Some st \<Rightarrow> (let b = (case brain of None \<Rightarrow> [] | Some e \<Rightarrow> e) in
         if st = [] \<and> b = [] then None
         else Some (fold (\<lambda>(k, v) d. dict_set d k v) b (map (\<lambda>(k, v). (k, JStr v)) st))))"

record sandbox_env =
  sv_wired :: bool
  sv_proxy :: bool
  sv_status :: "nat \<Rightarrow> string"
  sv_fmt :: "json \<Rightarrow> string"
  sv_repr :: "json \<Rightarrow> string"
  sv_loads :: "string \<Rightarrow> json option"
  sv_outside :: "nat \<Rightarrow> string \<Rightarrow> sandbox_op \<Rightarrow> attempt_env"
  sv_reason :: "string option"
  sv_stored :: "string \<Rightarrow> (string \<times> string) list option"
  sv_e2b :: "string res"

definition accepted :: "json \<Rightarrow> result_envelope" where
  "accepted c = \<lparr>env_action = Accept, env_content = c, env_reason = None\<rparr>"

definition failed :: "string \<Rightarrow> result_envelope" where
  "failed m = plain_envelope Error [Lit m]"

definition result_of :: "op_result \<Rightarrow> result_envelope" where
  "result_of r = (case r of Accepted c \<Rightarrow> accepted c | Failing m \<Rightarrow> failed m | Cancelled m \<Rightarrow> plain_envelope Cancel [Lit m])"

definition exec_op :: "sandbox_env \<Rightarrow> string \<Rightarrow> sandbox_op \<Rightarrow> nat \<Rightarrow> string \<Rightarrow> (io_exc + op_result) \<times> event_spec list" where
  "exec_op w target op k eid =
     (case do_exec_attempt (sv_fmt w) (sv_repr w) (sv_loads w) (sv_proxy w) target (sv_reason w) (sv_outside w k eid op) of
        (Failing m, evs) \<Rightarrow> (if m \<noteq> [] \<and> looks_like_dead_sandbox m then Inl (Dead_sandbox m) else Inr (Failing m), evs)
      | (r, evs) \<Rightarrow> (Inr r, evs))"

definition execute_exec :: "sandbox_env \<Rightarrow> string \<Rightarrow> string \<Rightarrow> sandbox_op \<Rightarrow> int \<Rightarrow> db \<Rightarrow> result_envelope \<times> event_spec list \<times> db" where
  "execute_exec w target eid op now s =
     (case with_recovery (sv_wired w) target eid (exec_op w target op) (sv_e2b w) now s of (r, rest) \<Rightarrow>
       (case r of Inl e \<Rightarrow> failed (io_text e) | Inr x \<Rightarrow> result_of x, rest))"

definition filesystem_failed :: "io_exc \<Rightarrow> result_envelope" where
  "filesystem_failed e = (case e of
       Not_found m \<Rightarrow> failed (''path_not_found: '' @ m)
     | _ \<Rightarrow> failed (''e2b_filesystem_failed: '' @ io_text e))"

definition write_failed :: "io_exc \<Rightarrow> result_envelope" where
  "write_failed e = (case e of
       Value_error m \<Rightarrow> if has_infix ''path_too_large'' m then failed m else filesystem_failed e
     | _ \<Rightarrow> filesystem_failed e)"

definition execute_write :: "sandbox_env \<Rightarrow> string \<Rightarrow> string \<Rightarrow> string \<Rightarrow> string \<Rightarrow> int \<Rightarrow> db \<Rightarrow> result_envelope \<times> event_spec list \<times> db" where
  "execute_write w target eid path data now s =
     (case with_recovery (sv_wired w) target eid (\<lambda>k e.
         (client_write (sv_status w) (sv_proxy w) (ae_response (sv_outside w k e (OpWrite path data))) data, [])) (sv_e2b w) now s of
       (r, rest) \<Rightarrow> (case r of
           Inl e \<Rightarrow> write_failed e
         | Inr _ \<Rightarrow> accepted (JObj [(''path'', JStr path), (''bytes_written'', JInt (int (length data)))]), rest))"

definition execute_read :: "sandbox_env \<Rightarrow> string \<Rightarrow> string \<Rightarrow> string \<Rightarrow> int \<Rightarrow> db \<Rightarrow> result_envelope \<times> event_spec list \<times> db" where
  "execute_read w target eid path now s =
     (case with_recovery (sv_wired w) target eid (\<lambda>k e.
         (client_read (sv_status w) (sv_proxy w) (ae_response (sv_outside w k e (OpRead path))) path, [])) (sv_e2b w) now s of
       (r, rest) \<Rightarrow> (case r of
           Inl e \<Rightarrow> filesystem_failed e
         | Inr data \<Rightarrow> (case classify_bytes data of (t, encoding) \<Rightarrow>
             accepted (JObj [(''path'', JStr path), (''data'', JStr t), (''encoding'', JStr encoding)])), rest))"

definition execute_list :: "sandbox_env \<Rightarrow> string \<Rightarrow> string \<Rightarrow> string \<Rightarrow> int \<Rightarrow> int \<Rightarrow> db \<Rightarrow> result_envelope \<times> event_spec list \<times> db" where
  "execute_list w target eid path depth now s =
     (case with_recovery (sv_wired w) target eid (\<lambda>k e.
         (client_list (sv_status w) (sv_loads w) (sv_proxy w) (ae_response (sv_outside w k e (OpList path depth))) path, [])) (sv_e2b w) now s of
       (r, rest) \<Rightarrow> (case r of
           Inl e \<Rightarrow> filesystem_failed e
         | Inr entries \<Rightarrow> accepted (JObj [(''path'', JStr path), (''entries'', entries)]), rest))"

definition run_op :: "sandbox_env \<Rightarrow> string \<Rightarrow> string \<Rightarrow> string option \<Rightarrow> sandbox_op \<Rightarrow> int \<Rightarrow> db \<Rightarrow> result_envelope \<times> event_spec list \<times> db" where
  "run_op w target eid account op now s = (case op of
       OpWrite p data \<Rightarrow> execute_write w target eid p data now s
     | OpRead p \<Rightarrow> execute_read w target eid p now s
     | OpList p depth \<Rightarrow> execute_list w target eid p depth now s
     | OpExec command cwd brain \<Rightarrow>
         (let stored = (case account of None \<Rightarrow> None | Some a \<Rightarrow> sv_stored w a) in
          execute_exec w target eid (OpExec command cwd (merge_credentials_into_env stored brain)) now s))"

text \<open>\<open>execute\<close>.  A target that is no \<open>sbx_\<close> id is passed to the provider as it is.\<close>

definition sandbox_execute :: "sandbox_env \<Rightarrow> invocation \<Rightarrow> int \<Rightarrow> db \<Rightarrow> result_envelope \<times> event_spec list \<times> db" where
  "sandbox_execute w iv now s =
     (if \<not> opt_truthy (inv_target_id iv) then (failed ''sandbox_id_missing: SandboxHand requires a target_id'', [], s)
      else let target = the (inv_target_id iv) in
        case (if starts_with ''sbx_'' target then map_option (\<lambda>sb. (sb_e2b sb, Some (sb_owner sb))) (sandbox_get target s)
              else Some (target, None)) of
          None \<Rightarrow> (failed (''sandbox_not_found: '' @ target), [], s)
        | Some (eid, account) \<Rightarrow> (case parse_op (sv_fmt w) (inv_input iv) of
              Inl m \<Rightarrow> (failed m, [], s)
            | Inr op \<Rightarrow> run_op w target eid account op now s))"

section \<open>The contract\<close>

text \<open>An error of the client is never the empty text.\<close>

definition chunk_ok :: "chunk \<Rightarrow> bool" where
  "chunk_ok c \<longleftrightarrow> (dict_has c ''error'' \<longrightarrow> (\<exists>b m. dict_get c ''error'' = JStr (b # m)))"

lemma chunk_ok_simps [simp]: "chunk_ok (error_chunk (b # m))" "chunk_ok (exit_chunk v)" "chunk_ok (output_chunk s t)"
  by (simp_all add: chunk_ok_def error_chunk_def exit_chunk_def output_chunk_def dict_has_def dict_get_def)

lemma chunk_ok_error: "m \<noteq> [] \<Longrightarrow> chunk_ok (error_chunk m)"
  by (cases m) auto

lemma connect_error_string_text: "truthy err \<Longrightarrow> connect_error_string fmt err = Inr m \<Longrightarrow> m \<noteq> []"
  by (auto simp: connect_error_string_def split: json.splits)

lemma on_end_of_stream_ok: "on_end_of_stream fmt msg saw = (cs, w) \<Longrightarrow> list_all chunk_ok cs"
  by (auto simp: on_end_of_stream_def Let_def split: sum.splits if_splits intro!: chunk_ok_error dest: connect_error_string_text)

lemma on_event_ok: "on_event event = Inr (cs, b) \<Longrightarrow> list_all chunk_ok cs"
  by (auto simp: on_event_def on_data_def on_end_def bind_res_Inr Let_def split: if_splits)

lemma on_envelope_ok: "on_envelope fmt loads flags body saw = (cs, seen, w) \<Longrightarrow> list_all chunk_ok cs"
  by (auto simp: on_envelope_def Let_def bind_res_Inr split: sum.splits option.splits if_splits prod.splits
      dest: on_end_of_stream_ok on_event_ok)

lemma drain_ok: "drain fmt loads buf saw = (cs, out) \<Longrightarrow> list_all chunk_ok cs"
proof (induction fmt loads buf saw arbitrary: cs out rule: drain.induct)
  case (1 fmt loads buf saw)
  show ?case
  proof (cases "take_envelope buf")
    case None
    then show ?thesis using 1(2) by (simp add: drain.simps [of fmt loads buf])
  next
    case (Some env)
    obtain f b r where env: "env = (f, b, r)" using prod_cases3 by blast
    obtain cs1 s1 w1 where h: "on_envelope fmt loads f b saw = (cs1, s1, w1)" using prod_cases3 by blast
    obtain cs2 out2 where d: "drain fmt loads r s1 = (cs2, out2)" by (metis prod.collapse)
    show ?thesis using 1(2) Some env h d on_envelope_ok [OF h] 1(1) [OF Some env [symmetric] HOL.refl h [symmetric] HOL.refl]
      by (cases w1) (auto simp: drain.simps [of fmt loads buf])
  qed
qed

lemma decode_pieces_ok: "list_all chunk_ok (fst (decode_pieces fmt loads buf saw ps))"
proof (induction ps arbitrary: buf saw)
  case (Cons p ps)
  obtain cs rest seen w where d: "drain fmt loads (buf @ p) saw = (cs, rest, seen, w)" by (metis prod.collapse)
  show ?case using drain_ok [OF d] Cons [of rest seen] d by (cases w) (auto split: prod.splits)
qed simp

lemma client_exec_ok: "list_all chunk_ok (fst (client_exec fmt loads proxy resp))"
proof (cases resp)
  case (Response code pieces broke)
  have "list_all chunk_ok (fst (decode_connect_stream fmt loads pieces))"
    by (simp add: decode_connect_stream_def decode_pieces_ok)
  then show ?thesis using Response
    by (cases "decode_connect_stream fmt loads pieces")
      (auto simp: client_exec_def split: option.splits verdict.splits)
qed (simp add: client_exec_def)

lemma consume_skip:
  assumes "\<not> dict_has c ''exit_code''" "\<not> dict_has c ''error''"
    "\<not> ((dict_get c ''stream'' = JStr ''stdout'' \<or> dict_get c ''stream'' = JStr ''stderr'') \<and> truthy (dict_get c ''data''))"
  shows "consume fmt repr target (c # cs) st = consume fmt repr target cs st"
  using assms by (simp only: consume.simps Let_def if_False if_True)

lemma consume_output:
  assumes "\<not> dict_has c ''exit_code''" "\<not> dict_has c ''error''" "dict_get c ''stream'' = JStr name"
    "name \<in> {''stdout'', ''stderr''}" "dict_get c ''data'' = JStr t" "t \<noteq> []"
  shows "consume fmt repr target (c # cs) st =
    (case consume fmt repr target cs (if name = ''stdout'' then st\<lparr>es_out := tail_append TAIL_BYTES t (es_out st)\<rparr>
          else st\<lparr>es_err := tail_append TAIL_BYTES t (es_err st)\<rparr>) of
       (st', evs, ended) \<Rightarrow> (st', output_spec target name t # evs, ended))"
proof -
  have "(JStr name = JStr ''stdout'' \<or> JStr name = JStr ''stderr'') \<and> truthy (JStr t)" using assms(4,6) by simp
  then show ?thesis using assms(1,2,3,5) by (simp only: consume.simps Let_def simp_thms if_False if_True prod.case json.case)
qed

lemma consume_bad_data:
  assumes "\<not> dict_has c ''exit_code''" "\<not> dict_has c ''error''" "dict_get c ''stream'' = JStr name"
    "name \<in> {''stdout'', ''stderr''}" "truthy (dict_get c ''data'')" "\<forall>t. dict_get c ''data'' \<noteq> JStr t"
  shows "\<exists>m. consume fmt repr target (c # cs) st = (st\<lparr>es_infra := Some m\<rparr>, [], True) \<and> m \<noteq> []"
proof -
  have "(JStr name = JStr ''stdout'' \<or> JStr name = JStr ''stderr'') \<and> truthy (dict_get c ''data'')" using assms(4,5) by simp
  then have "consume fmt repr target (c # cs) st = (st\<lparr>es_infra := Some ''e2b_stream_error: object has no attribute encode''\<rparr>, [], True)"
    using assms(1-3,6) by (cases "dict_get c ''data''") (simp_all only: consume.simps Let_def simp_thms if_False if_True prod.case json.case, simp_all)
  then show ?thesis by blast
qed

lemma consume_infra:
  assumes "list_all chunk_ok cs" "es_infra st \<noteq> Some []" "consume fmt repr target cs st = (st', evs, b)"
  shows "es_infra st' \<noteq> Some [] \<and> (\<forall>sp\<in>set evs. \<exists>stream data. stream \<in> {''stdout'', ''stderr''} \<and> data \<noteq> [] \<and> sp = output_spec target stream data)"
  using assms
proof (induction cs arbitrary: st st' evs b)
  case (Cons c cs)
  then have ok: "chunk_ok c" "list_all chunk_ok cs" by simp_all
  let ?stream = "dict_get c ''stream''" and ?data = "dict_get c ''data''"
  consider "dict_has c ''exit_code''" | "\<not> dict_has c ''exit_code''" "dict_has c ''error''"
    | "\<not> dict_has c ''exit_code''" "\<not> dict_has c ''error''" by blast
  then show ?case
  proof cases
    case 1
    then show ?thesis using Cons.prems(2,3) by (auto split: option.splits)
  next
    case 2
    then show ?thesis using Cons.prems(3) ok(1) by (auto simp: chunk_ok_def py_str_def)
  next
    case 3
    note IH = Cons.IH [OF ok(2)]
    show ?thesis
    proof (cases "(?stream = JStr ''stdout'' \<or> ?stream = JStr ''stderr'') \<and> truthy ?data")
      case False
      then have "consume fmt repr target cs st = (st', evs, b)" using Cons.prems(3) consume_skip [OF 3 False] by simp
      from IH [OF Cons.prems(2) this] show ?thesis .
    next
      case True
      then obtain name where name: "?stream = JStr name" "name \<in> {''stdout'', ''stderr''}" by blast
      show ?thesis
      proof (cases "\<exists>t. ?data = JStr t")
        case False
        then have "\<forall>t. ?data \<noteq> JStr t" by simp
        from consume_bad_data [OF 3 name conjunct2 [OF True] this, of fmt repr target cs st] obtain m where
          "consume fmt repr target (c # cs) st = (st\<lparr>es_infra := Some m\<rparr>, [], True)" "m \<noteq> []" by (elim exE conjE)
        then show ?thesis using Cons.prems(3) by auto
      next
        case T: True
        then obtain t where t: "?data = JStr t" by (elim exE)
        let ?st = "if name = ''stdout'' then st\<lparr>es_out := tail_append TAIL_BYTES t (es_out st)\<rparr>
                   else st\<lparr>es_err := tail_append TAIL_BYTES t (es_err st)\<rparr>"
        obtain s1 e1 b1 where r: "consume fmt repr target cs ?st = (s1, e1, b1)" using prod_cases3 by blast
        have "t \<noteq> []" using True t by auto
        have out: "(st', evs, b) = (s1, output_spec target name t # e1, b1)"
          using Cons.prems(3) r unfolding consume_output [OF 3 name t \<open>t \<noteq> []\<close>] by simp
        have "es_infra ?st \<noteq> Some []" using Cons.prems(2) by simp
        from IH [OF this r] have "es_infra s1 \<noteq> Some []"
          "\<forall>sp\<in>set e1. \<exists>stream data. stream \<in> {''stdout'', ''stderr''} \<and> data \<noteq> [] \<and> sp = output_spec target stream data" by simp_all
        then show ?thesis using out name(2) \<open>t \<noteq> []\<close> by auto
      qed
    qed
  qed
qed simp

lemma run_stream_infra:
  assumes "run_stream fmt repr loads proxy target w = (st, evs)"
  shows "es_infra st \<noteq> Some [] \<and> (\<forall>sp\<in>set evs. \<exists>stream data. stream \<in> {''stdout'', ''stderr''} \<and> data \<noteq> [] \<and> sp = output_spec target stream data)"
proof -
  obtain cs raised where x: "client_exec fmt loads proxy (ae_response w) = (cs, raised)" by fastforce
  then have cs: "list_all chunk_ok cs" using client_exec_ok [of fmt loads proxy "ae_response w"] by simp
  define n where "n = (case ae_cut w of None \<Rightarrow> length cs | Some n \<Rightarrow> n)"
  define new where "new = \<lparr>es_out = empty_tail, es_err = empty_tail, es_exit = None, es_infra = None\<rparr>"
  obtain st' evs' b where c: "consume fmt repr target (take n cs) new = (st', evs', b)" using prod_cases3 by blast
  have "evs = evs' \<and> (st = st' \<or> (\<exists>m. m \<noteq> [] \<and> st = st'\<lparr>es_infra := Some m\<rparr>))"
    using assms x c by (cases "ae_cut w"; cases b; cases raised) (auto simp: run_stream_def n_def new_def Let_def)
  moreover have "list_all chunk_ok (take n cs)" using cs by (auto simp: list_all_iff dest: in_set_takeD)
  ultimately show ?thesis using consume_infra [OF _ _ c] by (auto simp: new_def)
qed

text \<open>The events of an execution are the outputs of its command and the news of a recovery.\<close>

definition sandbox_event :: "string \<Rightarrow> event_spec \<Rightarrow> bool" where
  "sandbox_event target sp \<longleftrightarrow>
     (\<exists>stream data. stream \<in> {''stdout'', ''stderr''} \<and> data \<noteq> [] \<and> sp = output_spec target stream data) \<or>
     (\<exists>old new. sb_id old = target \<and> sp = reprovisioned old new)"

definition well_answered :: "string \<Rightarrow> result_envelope \<times> event_spec list \<times> db \<Rightarrow> bool" where
  "well_answered target out \<longleftrightarrow> valid_envelope (fst out) \<and> (\<forall>sp\<in>set (fst (snd out)). sandbox_event target sp)"

lemma valid_failed: "m \<noteq> [] \<Longrightarrow> valid_envelope (failed m)"
  by (simp add: failed_def valid_lit)

lemma valid_accepted [simp]: "valid_envelope (accepted c)"
  by (simp add: accepted_def valid_envelope_def ResultEnvelope_def)

lemma with_recovery_events:
  assumes "with_recovery wired target eid op e2b now s = (r, evs, s')"
    and op: "\<And>k e. \<forall>sp\<in>set (snd (op k e)). sandbox_event target sp"
  shows "(\<forall>sp\<in>set evs. sandbox_event target sp) \<and> (\<exists>k e. fst (op k e) = r)"
proof (cases "op 0 eid")
  case (Pair r0 evs0)
  have 0: "\<forall>sp\<in>set evs0. sandbox_event target sp" using op [of 0 eid] Pair by simp
  show ?thesis
  proof (cases r0)
    case (Inr x)
    then have "r = r0" "evs = evs0" using Pair assms(1) by (auto simp: with_recovery_def)
    then show ?thesis using 0 Pair by (metis fst_conv)
  next
    case (Inl e)
    show ?thesis
    proof (cases "r = r0 \<and> evs = evs0")
      case True
      then show ?thesis using 0 Pair by (metis fst_conv)
    next
      case False
      then obtain sb new r1 evs1 where sb: "lookup_sandbox target s = Some sb" and r1: "op 1 (sb_e2b new) = (r1, evs1)"
        "r = r1" "evs = evs0 @ reprovisioned sb new # evs1"
        using Pair Inl assms(1) by (auto simp: with_recovery_def split: if_splits option.splits prod.splits sum.splits)
      have "sb_id sb = target" using sb row_get_Some [of sb_id target "db_sandboxes s" sb]
        by (auto simp: lookup_sandbox_def sandbox_get_def split: if_splits)
      then have "sandbox_event target (reprovisioned sb new)" by (auto simp: sandbox_event_def)
      then show ?thesis using 0 r1 op [of 1 "sb_e2b new"] by auto (metis fst_conv)
    qed
  qed
qed

lemma exec_op_ok:
  "(\<forall>sp\<in>set (snd (exec_op w target op k e)). sandbox_event target sp) \<and>
   (case fst (exec_op w target op k e) of Inl x \<Rightarrow> io_text x \<noteq> [] | Inr r \<Rightarrow> valid_envelope (result_of r))"
proof -
  obtain st evs where r: "run_stream (sv_fmt w) (sv_repr w) (sv_loads w) (sv_proxy w) target (sv_outside w k e op) = (st, evs)"
    by fastforce
  note ok = run_stream_infra [OF r]
  have c: "valid_envelope (plain_envelope Cancel [Lit (or_cancelled x)])" for x
    by (rule valid_lit) (auto simp: or_cancelled_def opt_truthy_def)
  show ?thesis using ok c
    by (auto simp: exec_op_def do_exec_attempt_def r sandbox_event_def result_of_def not_wired_def
        intro!: valid_failed split: option.splits)
qed

lemma recovered_ok:
  assumes "with_recovery wired target eid op e2b now s = (r, rest)"
    and op: "\<And>k e. (\<forall>sp\<in>set (snd (op k e)). sandbox_event target sp) \<and> P (fst (op k e))"
    and f: "\<And>r. P r \<Longrightarrow> valid_envelope (f r)"
  shows "well_answered target (f r, rest)"
  using with_recovery_events [of wired target eid op e2b now s r "fst rest" "snd rest"] assms
  unfolding well_answered_def by (metis fst_conv snd_conv prod.collapse)

lemma valid_filesystem_failed: "valid_envelope (filesystem_failed e)"
  by (cases e) (auto simp: filesystem_failed_def intro!: valid_failed)

lemma valid_write_failed: "valid_envelope (write_failed e)"
  by (cases e) (auto simp: write_failed_def valid_filesystem_failed intro!: valid_failed)

lemma run_op_ok: "well_answered target (run_op w target eid account op now s)"
proof (cases op)
  case (OpExec command cwd brain)
  define op' where "op' = OpExec command cwd
    (merge_credentials_into_env (case account of None \<Rightarrow> None | Some a \<Rightarrow> sv_stored w a) brain)"
  obtain r rest where r: "with_recovery (sv_wired w) target eid (exec_op w target op') (sv_e2b w) now s = (r, rest)" by (rule prod.exhaust)
  have "well_answered target (case r of Inl e \<Rightarrow> failed (io_text e) | Inr x \<Rightarrow> result_of x, rest)"
    by (rule recovered_ok [OF r exec_op_ok]) (auto intro!: valid_failed split: sum.splits)
  then show ?thesis using r OpExec by (simp add: run_op_def execute_exec_def op'_def)
next
  case (OpWrite path data)
  let ?op = "\<lambda>k e. (client_write (sv_status w) (sv_proxy w) (ae_response (sv_outside w k e (OpWrite path data))) data, [])"
  obtain r rest where r: "with_recovery (sv_wired w) target eid ?op (sv_e2b w) now s = (r, rest)" by (rule prod.exhaust)
  have "well_answered target (case r of Inl e \<Rightarrow> write_failed e
      | Inr _ \<Rightarrow> accepted (JObj [(''path'', JStr path), (''bytes_written'', JInt (int (length data)))]), rest)"
    by (rule recovered_ok [OF r, where P = "\<lambda>_. True"]) (auto simp: valid_write_failed split: sum.split)
  then show ?thesis using r OpWrite by (simp add: run_op_def execute_write_def)
next
  case (OpRead path)
  let ?op = "\<lambda>k e. (client_read (sv_status w) (sv_proxy w) (ae_response (sv_outside w k e (OpRead path))) path, [])"
  obtain r rest where r: "with_recovery (sv_wired w) target eid ?op (sv_e2b w) now s = (r, rest)" by (rule prod.exhaust)
  have "well_answered target (case r of Inl e \<Rightarrow> filesystem_failed e | Inr data \<Rightarrow> (case classify_bytes data of (t, encoding) \<Rightarrow>
             accepted (JObj [(''path'', JStr path), (''data'', JStr t), (''encoding'', JStr encoding)])), rest)"
    by (rule recovered_ok [OF r, where P = "\<lambda>_. True"]) (auto simp: valid_filesystem_failed split: sum.split prod.split)
  then show ?thesis using r OpRead by (simp add: run_op_def execute_read_def)
next
  case (OpList path depth)
  let ?op = "\<lambda>k e. (client_list (sv_status w) (sv_loads w) (sv_proxy w) (ae_response (sv_outside w k e (OpList path depth))) path, [])"
  obtain r rest where r: "with_recovery (sv_wired w) target eid ?op (sv_e2b w) now s = (r, rest)" by (rule prod.exhaust)
  have "well_answered target (case r of Inl e \<Rightarrow> filesystem_failed e
      | Inr entries \<Rightarrow> accepted (JObj [(''path'', JStr path), (''entries'', entries)]), rest)"
    by (rule recovered_ok [OF r, where P = "\<lambda>_. True"]) (auto simp: valid_filesystem_failed split: sum.split)
  then show ?thesis using r OpList by (simp add: run_op_def execute_list_def)
qed

lemma parse_op_text: "parse_op fmt v = Inl m \<Longrightarrow> m \<noteq> []"
  by (cases v) (auto simp: parse_op_def file_path_def write_data_def Let_def
    split: if_splits sum.splits json.splits option.splits)

lemma sandbox_answers: "well_answered (the (inv_target_id iv)) (sandbox_execute w iv now s)"
proof -
  have "valid_envelope (failed m)" if "parse_op (sv_fmt w) (inv_input iv) = Inl m" for m
    using parse_op_text [OF that] by (rule valid_failed)
  moreover have "well_answered t (failed m, [], s) = valid_envelope (failed m)" for t m
    by (simp add: well_answered_def)
  ultimately show ?thesis
    by (auto simp: sandbox_execute_def Let_def run_op_ok valid_failed split: option.split sum.split)
qed

text \<open>C36: whatever the sandbox, the network and the provider do, and whatever the brain asks, the hand returns
  an envelope the service accepts (one with a reason where it is an error or a cancellation) and streams
  nothing but the outputs of the command, none of them empty, and the news of a recovery of its own sandbox;
  all of these are kinds of event a hand may write.\<close>

theorem sandbox_contract:
  "valid_envelope (fst (sandbox_execute w iv now s)) \<and>
   (\<forall>sp\<in>set (fst (snd (sandbox_execute w iv now s))). is_hand_kind (sp_kind sp) \<and>
      ((\<exists>stream data. stream \<in> {''stdout'', ''stderr''} \<and> data \<noteq> [] \<and> sp = output_spec (the (inv_target_id iv)) stream data) \<or>
       (\<exists>old new. sb_id old = the (inv_target_id iv) \<and> sp = reprovisioned old new)))"
  using sandbox_answers [of iv w now s]
  by (fastforce simp: well_answered_def sandbox_event_def is_hand_kind_def output_spec_def reprovisioned_def)

interpretation sandbox: hand "\<lambda>(w, iv, now, s). fst (sandbox_execute w iv now s)" "\<lambda>(w, iv, now, s). fst (snd (sandbox_execute w iv now s))"
proof
  show "valid_envelope ((\<lambda>(w, iv, now, s). fst (sandbox_execute w iv now s)) x)" for x
    using sandbox_answers by (auto simp: well_answered_def split: prod.split)
  show "is_hand_kind (sp_kind sp)" if "sp \<in> set ((\<lambda>(w, iv, now, s). fst (snd (sandbox_execute w iv now s))) x)" for sp x
    using that sandbox_answers
    by (cases x) (fastforce simp: well_answered_def sandbox_event_def is_hand_kind_def output_spec_def reprovisioned_def)
qed

section \<open>A dead sandbox is replaced once\<close>

lemma reprovision_succeeds:
  assumes b: "bundle_get b s = Some bd" "bundle_sandbox bd = Some dead" "dead \<noteq> []"
    and new: "''sbx_'' @ db_ids s (db_drawn s) \<notin> sb_id ` set (db_sandboxes s)"
  obtains sb s' where "reprovision_for_bundle b (Some dead) (Inr x) now s = (Inr sb, s')" "sb_e2b sb = x" "sb_status sb = ''ready''"
    "sb_id sb = ''sbx_'' @ db_ids s (db_drawn s)" "sandbox_get (sb_id sb) s' = Some sb"
    "bundle_get b s' = Some (bundle_apply (Set_sandbox (sb_id sb)) bd)"
    "\<forall>old. sandbox_get dead s = Some old \<longrightarrow> (\<exists>gone. sandbox_get dead s' = Some gone \<and> sb_bundle gone = sb_bundle old \<and> sb_id gone = dead)"
proof -
  define s1 where "s1 = terminate_sandbox dead now s"
  have keys: "sb_id ` set (db_sandboxes s1) = sb_id ` set (db_sandboxes s)"
    using sandbox_rows.map_key_update [of _ "Update_status ''terminated'' now" "db_sandboxes s"]
    by (simp add: s1_def terminate_sandbox_def sandbox_update_def flip: set_map split: option.split del: sandbox_apply.simps)
  have ids: "db_ids s1 = db_ids s" "db_drawn s1 = db_drawn s" using terminate_simps(3,4) [of "Some dead" now s]
    by (simp_all add: s1_def terminate_opt_def)
  obtain sb s2 where made: "create_fresh b bd (Inr x) now s1 = (Inr sb, s2)"
    using new provision_succeeds [of s1 b bd x now] by (auto simp: keys ids)
  note ok = provision_ok [OF made]
  have run: "reprovision_for_bundle b (Some dead) (Inr x) now s = (Inr sb, set_sandbox b (sb_id sb) s2)"
    using b made by (simp add: reprovision_for_bundle_def replacement_def doomed_def opt_truthy_def terminate_opt_def s1_def)
  have e2b: "sb_e2b sb = x" using made
    by (auto simp: create_fresh_def create_for_bundle_def provision_def draw_def sandbox_create_def ready_sandbox_def Let_def split: if_splits)
  have row: "sandbox_get (sb_id sb) (set_sandbox b (sb_id sb) s2) = Some sb"
    using ok(1,4) by (simp add: sandbox_get_def row_get_append)
  have point: "bundle_get b (set_sandbox b (sb_id sb) s2) = Some (bundle_apply (Set_sandbox (sb_id sb)) bd)"
    using b(1) by (simp add: set_sandbox_get ok(5) s1_def del: bundle_apply.simps)
  have gone: "\<exists>gone. sandbox_get dead (set_sandbox b (sb_id sb) s2) = Some gone \<and> sb_bundle gone = sb_bundle old \<and> sb_id gone = dead"
    if old: "sandbox_get dead s = Some old" for old
  proof -
    have "sb_id old = dead" using old row_get_Some [of sb_id dead "db_sandboxes s" old] by (simp add: sandbox_get_def)
    then have "\<exists>gone. sandbox_get dead s1 = Some gone \<and> sb_bundle gone = sb_bundle old \<and> sb_id gone = dead"
      using old by (simp add: s1_def terminate_get)
    then show ?thesis using ok(1) by (auto simp: sandbox_get_def row_get_append)
  qed
  show ?thesis using that [OF run e2b ok(3) _ row point] gone ok(6) by (simp add: ids)
qed

text \<open>C37: when the sandbox of a bundle turns out to be dead at an operation, the bundle gets a new ready sandbox,
  its two pools stay in order, the news is told on the tape, and the operation is answered by the new sandbox as if nothing
  had happened; an invocation still aimed at the dead sandbox is then answered by the same replacement and
  provisions nothing.  An error that does not tell of a dead sandbox is passed on and changes nothing.\<close>

theorem dead_sandbox_replaced:
  fixes op :: "nat \<Rightarrow> string \<Rightarrow> (io_exc + 'a) \<times> event_spec list"
  assumes old: "sandbox_get target s = Some old" "starts_with ''sbx_'' target" "sb_bundle old = Some b" "b \<noteq> []"
    and b: "bundle_get b s = Some bd" "bundle_sandbox bd = Some target"
    and new: "''sbx_'' @ db_ids s (db_drawn s) \<notin> sb_id ` set (db_sandboxes s)"
    and e: "fst (op 0 (sb_e2b old)) = Inl e"
  shows "if looks_like_dead_sandbox (io_text e)
    then \<exists>sb s'. sb_status sb = ''ready'' \<and> sb_e2b sb = x \<and> sandbox_get (sb_id sb) s = None \<and> sandbox_get (sb_id sb) s' = Some sb \<and>
      map_option bundle_sandbox (bundle_get b s') = Some (Some (sb_id sb)) \<and> (pools_ok s \<longrightarrow> pools_ok s') \<and>
      with_recovery True target (sb_e2b old) op (Inr x) now s =
        (fst (op 1 x), snd (op 0 (sb_e2b old)) @ reprovisioned old sb # snd (op 1 x), s') \<and>
      (\<forall>(op2 :: nat \<Rightarrow> string \<Rightarrow> (io_exc + 'b) \<times> event_spec list) e2b2 now2 e2. fst (op2 0 (sb_e2b old)) = Inl e2 \<and> looks_like_dead_sandbox (io_text e2) \<longrightarrow>
        with_recovery True target (sb_e2b old) op2 e2b2 now2 s' =
          (fst (op2 1 x), snd (op2 0 (sb_e2b old)) @ reprovisioned old sb # snd (op2 1 x), s'))
    else with_recovery True target (sb_e2b old) op (Inr x) now s = (Inl e, snd (op 0 (sb_e2b old)), s)"
proof (cases "looks_like_dead_sandbox (io_text e)")
  case False
  then show ?thesis using e by (cases "op 0 (sb_e2b old)") (simp add: with_recovery_def)
next
  case dead: True
  have id: "sb_id old = target" using old(1) row_get_Some [of sb_id target "db_sandboxes s" old] by (simp add: sandbox_get_def)
  have "target \<noteq> []" using old(2) by (auto simp: starts_with_def)
  then obtain sb s' where r: "reprovision_for_bundle b (Some target) (Inr x) now s = (Inr sb, s')" "sb_e2b sb = x" "sb_status sb = ''ready''"
    "sb_id sb = ''sbx_'' @ db_ids s (db_drawn s)" "sandbox_get (sb_id sb) s' = Some sb"
    "bundle_get b s' = Some (bundle_apply (Set_sandbox (sb_id sb)) bd)"
    "\<forall>old. sandbox_get target s = Some old \<longrightarrow> (\<exists>gone. sandbox_get target s' = Some gone \<and> sb_bundle gone = sb_bundle old \<and> sb_id gone = target)"
    using reprovision_succeeds [OF b _ new, of x now] by blast
  obtain gone where gone: "sandbox_get target s' = Some gone" "sb_bundle gone = Some b" "sb_id gone = target"
    using r(7) old(1,3) by auto
  have first: "with_recovery True target (sb_e2b old) op (Inr x) now s =
        (fst (op 1 x), snd (op 0 (sb_e2b old)) @ reprovisioned old sb # snd (op 1 x), s')"
    using e dead old r(1,2) id
    by (cases "op 0 (sb_e2b old)"; cases "op 1 x") (simp add: with_recovery_def lookup_sandbox_def opt_truthy_def)
  have none: "sandbox_get (sb_id sb) s = None" using new r(4) by (simp add: sandbox_get_def row_get_None)
  then have other: "target \<noteq> sb_id sb" using old(1) by auto
  have again: "reprovision_for_bundle b (Some target) e2b2 now2 s' = (Inr sb, s')" for e2b2 now2
    by (rule ensure_ready(2) [OF r(6) _ _ r(5,3) other]) (simp_all add: r(4))
  have later: "with_recovery True target (sb_e2b old) op2 e2b2 now2 s' =
          (fst (op2 1 x), snd (op2 0 (sb_e2b old)) @ reprovisioned old sb # snd (op2 1 x), s')"
    if "fst (op2 0 (sb_e2b old)) = Inl e2" "looks_like_dead_sandbox (io_text e2)" for op2 :: "nat \<Rightarrow> string \<Rightarrow> (io_exc + 'b) \<times> event_spec list" and e2b2 now2 e2
    using that old(2,4) gone again r(2) id
    by (cases "op2 0 (sb_e2b old)"; cases "op2 1 x") (simp add: with_recovery_def lookup_sandbox_def opt_truthy_def reprovisioned_def)
  have pools: "pools_ok s \<longrightarrow> pools_ok s'" using reprovision_pools r(1) by blast
  have point: "map_option bundle_sandbox (bundle_get b s') = Some (Some (sb_id sb))" using r(6) by simp
  show ?thesis unfolding if_P [OF dead] using later pools first none r(2,3,5) point by blast
qed

definition reaped_row :: sandbox where
  "reaped_row = ready_sandbox ''sbx_d'' ''b'' (Some ''b'') ''op'' ''python'' ''e0'' 0"

definition reaped_db :: db where
  "reaped_db = (sandbox_db [reaped_row])
     \<lparr>db_bundles := [(fresh_bundle ''b'' ''c'' JNull ''p'' ''op'' 0)\<lparr>bundle_sandbox := Some ''sbx_d''\<rparr>]\<rparr>"

definition second_try :: "nat \<Rightarrow> string \<Rightarrow> (io_exc + string) \<times> event_spec list" where
  "second_try k e = (if k = 0 then Inl (Io_error ''502 Bad Gateway'') else Inr e, [])"

lemma dead_sandbox_replaced_witness:
  "\<exists>sb s'. with_recovery True ''sbx_d'' ''e0'' second_try (Inr ''e1'') 5 reaped_db = (Inr ''e1'', [reprovisioned reaped_row sb], s') \<and>
     map_option bundle_sandbox (bundle_get ''b'' s') = Some (Some (sb_id sb)) \<and> sb_e2b sb = ''e1''"
proof -
  have dead: "looks_like_dead_sandbox (io_text (Io_error ''502 Bad Gateway''))" by code_simp
  have old: "sandbox_get ''sbx_d'' reaped_db = Some reaped_row" "starts_with ''sbx_'' ''sbx_d''" "sb_bundle reaped_row = Some ''b''"
    "''b'' \<noteq> []" "bundle_get ''b'' reaped_db = Some ((fresh_bundle ''b'' ''c'' JNull ''p'' ''op'' 0)\<lparr>bundle_sandbox := Some ''sbx_d''\<rparr>)"
    "bundle_sandbox ((fresh_bundle ''b'' ''c'' JNull ''p'' ''op'' 0)\<lparr>bundle_sandbox := Some ''sbx_d''\<rparr>) = Some ''sbx_d''"
    "''sbx_'' @ db_ids reaped_db (db_drawn reaped_db) \<notin> sb_id ` set (db_sandboxes reaped_db)"
    by (simp_all add: reaped_db_def sandbox_db_def sandbox_get_def bundle_get_def reaped_row_def ready_sandbox_def fresh_bundle_def starts_with_def)
  have e: "fst (second_try 0 (sb_e2b reaped_row)) = Inl (Io_error ''502 Bad Gateway'')" by (simp add: second_try_def)
  have eid: "sb_e2b reaped_row = ''e0''" by (simp add: reaped_row_def ready_sandbox_def)
  show ?thesis using dead_sandbox_replaced [where op = second_try, OF old e, where x = "''e1''" and now = 5, unfolded if_P [OF dead] eid]
    by (auto simp: second_try_def)
qed

section \<open>The tail of an output is bounded\<close>

abbreviation lost :: "nat \<Rightarrow> string" where
  "lost j \<equiv> concat (replicate j replacement_char)"

lemma valid_lost: "valid_utf8 D \<Longrightarrow> valid_utf8 (lost j @ D)"
proof (induction j)
  case (Suc j)
  have "valid_utf8 replacement_char" by code_simp
  with valid_append [OF this Suc.IH] Suc.prems show ?case by simp
qed simp

lemma decode_lost:
  assumes "valid_utf8 D" "m \<le> 3 * j"
  shows "\<exists>i. decode_replace (drop m (lost j) @ D) = lost i @ D \<and> 3 * i \<le> 3 * j - m + 4"
  using assms(2)
proof (induction j arbitrary: m)
  case 0
  then show ?case using decode_valid [OF assms(1)] by (intro exI [of _ 0]) simp
next
  case (Suc j)
  note whole = decode_valid [OF valid_lost [OF assms(1)]]
  have c: "list_all continues [CHR 0xBF, CHR 0xBD]" "list_all continues [CHR 0xBD]" by (simp_all add: continues_def byte_of_def)
  have "m = 0 \<or> m = 1 \<or> m = 2 \<or> (\<exists>k. m = k + 3)" by presburger
  then consider "m = 0" | "m = 1" | "m = 2" | k where "m = k + 3" by blast
  then show ?case
  proof cases
    case 1
    then show ?thesis using whole [of "Suc j"] by (intro exI [of _ "Suc j"]) simp
  next
    case 2
    have "decode_replace (drop m (lost (Suc j)) @ D) = lost (j + 2) @ D"
      using decode_continues [OF c(1), of "lost j @ D"] whole [of j] by (simp add: 2 replacement_char_def numeral_2_eq_2)
    then show ?thesis using 2 by (intro exI [of _ "j + 2"]) simp
  next
    case 3
    have "decode_replace (drop m (lost (Suc j)) @ D) = lost (Suc j) @ D"
      using decode_continues [OF c(2), of "lost j @ D"] whole [of j] by (simp add: 3 replacement_char_def)
    then show ?thesis using 3 by (intro exI [of _ "Suc j"]) simp
  next
    case (4 k)
    then have "drop m (lost (Suc j)) = drop k (lost j)" by (simp add: replacement_char_def numeral_3_eq_3)
    then show ?thesis using Suc.IH [of k] Suc.prems 4 by auto
  qed
qed

lemma lost_length [simp]: "length (lost j) = 3 * j"
  by (induction j) (simp_all add: replacement_char_def)

lemma last_bytes_length: "n \<le> length s \<Longrightarrow> length (last_bytes n s) = n"
  by (simp add: last_bytes_def)

text \<open>A text \<open>lost j @ D\<close> cut inside \<open>D\<close>.\<close>

lemma decode_last:
  assumes "valid_utf8 D" "n \<le> length D"
  shows "\<exists>i k. decode_replace (last_bytes n (lost j @ D)) = lost i @ drop k D \<and> valid_utf8 (drop k D) \<and> i \<le> 3 \<and>
    length (drop k D) + i = n"
proof -
  let ?m = "length D - n"
  obtain js v where js: "drop ?m D = js @ v" "list_all continues js" "length js \<le> 3" "valid_utf8 v"
    using valid_suffix [OF assms(1)] by blast
  have v: "v = drop (?m + length js) D" using js(1) by (metis append_eq_conv_conj drop_drop add.commute)
  have "last_bytes n (lost j @ D) = js @ v" using assms(2) js(1) by (simp add: last_bytes_def)
  then have "decode_replace (last_bytes n (lost j @ D)) = lost (length js) @ v"
    using decode_continues [OF js(2), of v] decode_valid [OF js(4)] by simp
  moreover have "length v + length js = n" using js(1) assms(2) by (metis length_append length_drop diff_diff_cancel add.commute)
  ultimately show ?thesis using js(3,4) v by metis
qed

definition tail_ok :: "nat \<Rightarrow> string \<Rightarrow> tail \<Rightarrow> bool" where
  "tail_ok n all b \<longleftrightarrow> (\<exists>j k. concat (tl_chunks b) = lost j @ drop k all \<and> valid_utf8 (drop k all) \<and> j \<le> 3 \<and>
     tl_total b = j + length (drop k all) \<and> (j = 0 \<and> k = 0 \<or> n \<le> length (drop k all) + 3 \<and> n < length all))"

lemma tail_append_trims:
  assumes "t \<noteq> []" "n * 4 < tl_total b + length t" "concat (tl_chunks b @ [t]) = X" "n \<le> length X" "decode_replace (last_bytes n X) = Y"
  shows "tail_append n t b = \<lparr>tl_chunks = [Y], tl_total = n\<rparr>"
  using assms(1,2) last_bytes_length [OF assms(4)] by (simp only: tail_append_def assms(3,5) Let_def if_False if_True)

lemma tail_append_ok:
  assumes "tail_ok n all b" "valid_utf8 t" "0 < n"
  shows "tail_ok n (all @ t) (tail_append n t b)"
proof (cases "t = []")
  case True
  then show ?thesis using assms(1) by (simp add: tail_append_def)
next
  case False
  from assms(1) obtain j k where b: "concat (tl_chunks b) = lost j @ drop k all" "valid_utf8 (drop k all)" "j \<le> 3"
    "tl_total b = j + length (drop k all)" "j = 0 \<and> k = 0 \<or> n \<le> length (drop k all) + 3 \<and> n < length all"
    by (auto simp: tail_ok_def)
  define k' where "k' = min k (length all)"
  have D: "drop k all @ t = drop k' (all @ t)" by (cases "k \<le> length all") (simp_all add: k'_def)
  have v: "valid_utf8 (drop k' (all @ t))" using valid_append [OF b(2) assms(2)] D by simp
  have len: "length (drop k' (all @ t)) = length (drop k all) + length t" by (metis D length_append)
  have chunks: "concat (tl_chunks b @ [t]) = lost j @ drop k' (all @ t)" using b(1) D by simp
  show ?thesis
  proof (cases "n * 4 < tl_total b + length t")
    case False
    have "tail_append n t b = \<lparr>tl_chunks = tl_chunks b @ [t], tl_total = tl_total b + length t\<rparr>"
      using \<open>t \<noteq> []\<close> False by (simp add: tail_append_def Let_def)
    then show ?thesis unfolding tail_ok_def using chunks v b(3-5) len
      by (intro exI [of _ j] exI [of _ k']) (auto simp: k'_def)
  next
    case True
    then have long: "n \<le> length (drop k' (all @ t))" "n < length (drop k' (all @ t))" using b(3,4) len assms(3) by auto
    define X where "X = drop k' (all @ t)"
    note long = long [folded X_def] and v = v [folded X_def] and chunks = chunks [folded X_def]
    obtain i l where cut: "decode_replace (last_bytes n (lost j @ X)) = lost i @ drop l X"
      "valid_utf8 (drop l X)" "i \<le> 3" "length (drop l X) + i = n"
      using decode_last [OF v long(1)] by blast
    have X: "drop l X = drop (l + k') (all @ t)" by (simp only: X_def drop_drop)
    have "n \<le> length (lost j @ X)" using long(1) by simp
    from tail_append_trims [OF \<open>t \<noteq> []\<close> True chunks this cut(1)]
    have "tail_append n t b = \<lparr>tl_chunks = [lost i @ drop l X], tl_total = n\<rparr>" .
    moreover have "n < length (all @ t)" using long(2) by (simp add: X_def)
    ultimately show ?thesis unfolding tail_ok_def using cut(2-4)
      by (rule_tac x = i in exI, rule_tac x = "l + k'" in exI) (simp add: X [symmetric] del: drop_append)
  qed
qed

lemma tail_run_ok:
  assumes "0 < n" "\<forall>t\<in>set ts. valid_utf8 t"
  shows "tail_ok n (concat ts) (fold (tail_append n) ts empty_tail)"
  using assms(2)
proof (induction ts rule: rev_induct)
  case Nil
  then show ?case by (auto simp: tail_ok_def empty_tail_def)
next
  case (snoc t ts)
  then show ?case using tail_append_ok [OF _ _ assms(1)] by simp
qed

lemma tail_value_ok:
  assumes "tail_ok n all b"
  obtains i k where "tail_value n b = lost i @ drop k all" "valid_utf8 (drop k all)" "length (tail_value n b) \<le> n + 6"
    "min (length all) (n - 3) \<le> length (drop k all)" "length all \<le> n \<longrightarrow> tail_value n b = all"
proof -
  from assms obtain j k where b: "concat (tl_chunks b) = lost j @ drop k all" "valid_utf8 (drop k all)" "j \<le> 3"
    "j = 0 \<and> k = 0 \<or> n \<le> length (drop k all) + 3 \<and> n < length all"
    by (auto simp: tail_ok_def)
  let ?D = "drop k all"
  have whole: "decode_replace (lost j @ ?D) = lost j @ ?D" by (rule decode_valid [OF valid_lost [OF b(2)]])
  show ?thesis
  proof (cases "length (lost j @ ?D) \<le> n")
    case True
    then have "tail_value n b = lost j @ ?D" using whole by (simp only: tail_value_def b(1) Let_def if_True)
    then show ?thesis using that [of j k] True b(2,4) by auto
  next
    case long: False
    then have v: "tail_value n b = decode_replace (last_bytes n (lost j @ ?D))" by (simp only: tail_value_def b(1) Let_def if_False)
    have exact: "n < length all" using b(4) long by auto
    show ?thesis
    proof (cases "n \<le> length ?D")
      case True
      from decode_last [OF b(2) True, of j] obtain i l where "tail_value n b = lost i @ drop l ?D" "valid_utf8 (drop l ?D)" "i \<le> 3"
        "length (drop l ?D) + i = n" by (auto simp: v)
      then show ?thesis using that [of i "l + k"] exact by simp
    next
      case False
      define m where "m = 3 * j + length ?D - n"
      have m: "m \<le> 3 * j" using False by (simp add: m_def)
      have "last_bytes n (lost j @ ?D) = drop m (lost j) @ ?D" using m by (simp add: last_bytes_def m_def)
      then obtain i where i: "tail_value n b = lost i @ ?D" "3 * i \<le> 3 * j - m + 4" using decode_lost [OF b(2) m] v by auto
      have "3 * j - m + length ?D = n" using long False by (simp add: m_def)
      then have "length (tail_value n b) \<le> n + 6" using i by simp
      then show ?thesis using that [OF i(1) b(2)] b(4) exact False by auto
    qed
  qed
qed

text \<open>C38: what an exec answers as the tail of a stream is the whole of its text if that is at most 16 KB; else it is a well-formed
  suffix of it, after U+FFFD for a character cut in two, and misses at most three bytes of the last 16 KB,
  however the text came in pieces and whenever the buffer was trimmed.  The replacement characters let it
  exceed the cap, by at most six bytes.\<close>

theorem output_tail:
  assumes "\<forall>t\<in>set ts. valid_utf8 t"
  shows "\<exists>i k. tail_value TAIL_BYTES (fold (tail_append TAIL_BYTES) ts empty_tail) =
      concat (replicate i replacement_char) @ drop k (concat ts) \<and>
    valid_utf8 (drop k (concat ts)) \<and>
    length (tail_value TAIL_BYTES (fold (tail_append TAIL_BYTES) ts empty_tail)) \<le> TAIL_BYTES + 6 \<and>
    min (length (concat ts)) (TAIL_BYTES - 3) \<le> length (drop k (concat ts)) \<and>
    (length (concat ts) \<le> TAIL_BYTES \<longrightarrow> tail_value TAIL_BYTES (fold (tail_append TAIL_BYTES) ts empty_tail) = concat ts)"
proof -
  have "0 < TAIL_BYTES" by (simp add: TAIL_BYTES_def)
  from tail_value_ok [OF tail_run_ok [OF this assms]] show ?thesis by metis
qed

lemma output_tail_witness:
  "tail_value TAIL_BYTES (fold (tail_append TAIL_BYTES) [''a'', [CHR 0xC3, CHR 0xA9]] empty_tail) = [CHR ''a'', CHR 0xC3, CHR 0xA9]"
proof -
  have v: "\<forall>t\<in>set [''a'', [CHR 0xC3, CHR 0xA9]]. valid_utf8 t" by code_simp
  show ?thesis using output_tail [OF v] by (auto simp: TAIL_BYTES_def)
qed

text \<open>The cap is exceeded, at a cap of four bytes.\<close>

lemma tail_exceeds: "length (tail_value 4 (tail_append 4 ([CHR 0xF0, CHR 0x9F, CHR 0x98, CHR 0x80] @ ''a'') empty_tail)) = 10"
  by code_simp

section \<open>Files survive a read and a write\<close>

definition write_input :: "string \<Rightarrow> string \<Rightarrow> string \<Rightarrow> json" where
  "write_input path t encoding = JObj [(''op'', JStr ''write''), (''path'', JStr path), (''data'', JStr t), (''encoding'', JStr encoding)]"

definition read_input :: "string \<Rightarrow> json" where
  "read_input path = JObj [(''op'', JStr ''read''), (''path'', JStr path)]"

lemma lowered [simp]: "lower_or fmt (JStr ''write'') d = ''write''" "lower_or fmt (JStr ''read'') d = ''read''"
  "lower_or fmt (JStr ''base64'') d = ''base64''" "lower_or fmt (JStr ''utf-8'') d = ''utf-8''"
  by (simp_all add: lower_or_def py_str_def) (code_simp+)

lemma parse_write_input:
  assumes "classify_bytes data = (t, encoding)" "path \<noteq> []"
  shows "parse_op fmt (write_input path t encoding) = Inr (OpWrite path data)"
proof -
  have "encoding = ''base64'' \<and> t = b64encode data \<or> encoding = ''utf-8'' \<and> t = data"
    using assms(1) by (auto simp: classify_bytes_def decode_strict_def split: if_splits option.splits)
  then show ?thesis using assms(2)
    by (auto simp: write_input_def parse_op_def dict_get_def dict_has_def file_path_def write_data_def py_str_def Let_def)
qed

lemma parse_read_input: "path \<noteq> [] \<Longrightarrow> parse_op fmt (read_input path) = Inr (OpRead path)"
  by (simp add: read_input_def parse_op_def dict_get_def file_path_def Let_def)

lemma execute_resolved:
  assumes "inv_target_id iv = Some target" "starts_with ''sbx_'' target" "sandbox_get target s = Some sb"
    "parse_op (sv_fmt w) (inv_input iv) = Inr op"
  shows "sandbox_execute w iv now s = run_op w target (sb_e2b sb) (Some (sb_owner sb)) op now s"
proof -
  have "target \<noteq> []" using assms(2) by (auto simp: starts_with_def)
  then show ?thesis using assms by (simp add: sandbox_execute_def opt_truthy_def Let_def)
qed

text \<open>C39: a file that a brain reads from one sandbox and writes, as it was handed to it, to another one arrives
  there byte for byte, whether it is text or not: the answer of the read goes through the operation of the
  write and the request the other sandbox gets carries the bytes the first one sent, in whatever pieces they came.\<close>

theorem file_roundtrip:
  assumes iv: "inv_target_id iv = Some target" "starts_with ''sbx_'' target" "sandbox_get target s = Some sb"
      "inv_input iv = read_input path" "path \<noteq> []" "sv_proxy w"
    and sent: "ae_response (sv_outside w 0 (sb_e2b sb) (OpRead path)) = Response 200 pieces None"
  shows "\<exists>t encoding. sandbox_execute w iv now s =
       (accepted (JObj [(''path'', JStr path), (''data'', JStr t), (''encoding'', JStr encoding)]), [], s) \<and>
     (valid_utf8 (concat pieces) \<and> CHR 0x00 \<notin> set (concat pieces) \<longrightarrow> t = concat pieces \<and> encoding = ''utf-8'') \<and>
     (\<forall>w2 iv2 target2 s2 sb2 path2 now2 code reply. inv_target_id iv2 = Some target2 \<and> starts_with ''sbx_'' target2 \<and>
        sandbox_get target2 s2 = Some sb2 \<and> inv_input iv2 = write_input path2 t encoding \<and> path2 \<noteq> [] \<and> sv_proxy w2 \<and>
        length (concat pieces) \<le> MAX_WRITE_BYTES \<and> 200 \<le> code \<and> code < 300 \<and>
        ae_response (sv_outside w2 0 (sb_e2b sb2) (OpWrite path2 (concat pieces))) = Response code reply None \<longrightarrow>
        sandbox_execute w2 iv2 now2 s2 =
          (accepted (JObj [(''path'', JStr path2), (''bytes_written'', JInt (int (length (concat pieces))))]), [], s2))"
proof -
  obtain t encoding where c: "classify_bytes (concat pieces) = (t, encoding)" by fastforce
  have "client_read (sv_status w) (sv_proxy w) (Response 200 pieces None) path = Inr (concat pieces)"
    using iv(6) by (simp add: client_read_def unary_def raise_for_status_def)
  then have read: "sandbox_execute w iv now s =
       (accepted (JObj [(''path'', JStr path), (''data'', JStr t), (''encoding'', JStr encoding)]), [], s)"
    using iv sent c
    by (simp add: execute_resolved [OF iv(1-3)] parse_read_input run_op_def execute_read_def with_recovery_def)
  have plain: "valid_utf8 (concat pieces) \<and> CHR 0x00 \<notin> set (concat pieces) \<longrightarrow> t = concat pieces \<and> encoding = ''utf-8''"
    using c by (auto simp: classify_bytes_def decode_strict_def)
  have "sandbox_execute w2 iv2 now2 s2 =
          (accepted (JObj [(''path'', JStr path2), (''bytes_written'', JInt (int (length (concat pieces))))]), [], s2)"
    if h: "inv_target_id iv2 = Some target2" "starts_with ''sbx_'' target2" "sandbox_get target2 s2 = Some sb2"
      "inv_input iv2 = write_input path2 t encoding" "path2 \<noteq> []" "sv_proxy w2" "length (concat pieces) \<le> MAX_WRITE_BYTES"
      "200 \<le> code" "code < 300"
      "ae_response (sv_outside w2 0 (sb_e2b sb2) (OpWrite path2 (concat pieces))) = Response code reply None"
    for w2 iv2 target2 s2 sb2 path2 now2 code reply
  proof -
    have "parse_op (sv_fmt w2) (inv_input iv2) = Inr (OpWrite path2 (concat pieces))"
      using parse_write_input [OF c h(5)] h(4) by simp
    moreover have "client_write (sv_status w2) (sv_proxy w2) (Response code reply None) (concat pieces) = Inr ()"
      using h(6-9) by (simp add: client_write_def unary_def raise_for_status_def)
    ultimately show ?thesis using h(10)
      by (simp add: execute_resolved [OF h(1-3)] run_op_def execute_write_def with_recovery_def)
  qed
  then show ?thesis using read plain by blast
qed

definition echo_env :: sandbox_env where
  "echo_env = \<lparr>sv_wired = True, sv_proxy = True, sv_status = (\<lambda>_. []), sv_fmt = (\<lambda>_. []), sv_repr = (\<lambda>_. []), sv_loads = (\<lambda>_. None),
     sv_outside = (\<lambda>_ _ _. \<lparr>ae_response = Response 200 [[CHR 0x00], ''b''] None, ae_cut = None, ae_cancelled = False\<rparr>),
     sv_reason = None, sv_stored = (\<lambda>_. None), sv_e2b = Inr ''e1''\<rparr>"

lemma file_roundtrip_witness:
  "\<exists>t encoding. sandbox_execute echo_env (secret_invocation\<lparr>inv_target_id := Some ''sbx_d'', inv_input := read_input ''/f''\<rparr>) 5 reaped_db =
     (accepted (JObj [(''path'', JStr ''/f''), (''data'', JStr t), (''encoding'', JStr encoding)]), [], reaped_db)"
proof -
  have "sandbox_get ''sbx_d'' reaped_db = Some reaped_row"
    by (simp add: reaped_db_def sandbox_db_def sandbox_get_def reaped_row_def ready_sandbox_def)
  then show ?thesis
    using file_roundtrip [of "secret_invocation\<lparr>inv_target_id := Some ''sbx_d'', inv_input := read_input ''/f''\<rparr>" "''sbx_d''" reaped_db
      reaped_row "''/f''" echo_env "[[CHR 0x00], ''b'']" 5] by (auto simp: starts_with_def echo_env_def)
qed

section \<open>An execution with a recovery\<close>

definition flaky_env :: sandbox_env where
  "flaky_env = echo_env\<lparr>sv_status := (\<lambda>_. ''502 Bad Gateway''),
     sv_outside := (\<lambda>k _ _. \<lparr>ae_response = Response (if k = 0 then 502 else 200) [''b''] None, ae_cut = None, ae_cancelled = False\<rparr>)\<rparr>"

lemma sandbox_contract_witness:
  "\<exists>sb. fst (snd (sandbox_execute flaky_env (secret_invocation\<lparr>inv_target_id := Some ''sbx_d'', inv_input := read_input ''/f''\<rparr>) 5 reaped_db)) =
     [reprovisioned reaped_row sb] \<and> is_hand_kind (sp_kind (reprovisioned reaped_row sb))"
proof -
  let ?iv = "secret_invocation\<lparr>inv_target_id := Some ''sbx_d'', inv_input := read_input ''/f''\<rparr>"
  have dead: "looks_like_dead_sandbox ''502 Bad Gateway''" by code_simp
  have row: "sandbox_get ''sbx_d'' reaped_db = Some reaped_row" "sb_bundle reaped_row = Some ''b''" "sb_id reaped_row = ''sbx_d''"
    by (simp_all add: reaped_db_def sandbox_db_def sandbox_get_def reaped_row_def ready_sandbox_def)
  have b: "bundle_get ''b'' reaped_db = Some ((fresh_bundle ''b'' ''c'' JNull ''p'' ''op'' 0)\<lparr>bundle_sandbox := Some ''sbx_d''\<rparr>)"
    "''sbx_'' @ db_ids reaped_db (db_drawn reaped_db) \<notin> sb_id ` set (db_sandboxes reaped_db)"
    by (simp_all add: reaped_db_def sandbox_db_def bundle_get_def reaped_row_def ready_sandbox_def fresh_bundle_def)
  obtain sb s' where r: "reprovision_for_bundle ''b'' (Some ''sbx_d'') (Inr ''e1'') 5 reaped_db = (Inr sb, s')"
    by (rule reprovision_succeeds [OF b(1) _ _ b(2), of "''sbx_d''" "''e1''" 5]) simp_all
  have "fst (snd (sandbox_execute flaky_env ?iv 5 reaped_db)) = [reprovisioned reaped_row sb]"
    using dead r row
    by (simp add: execute_resolved [of _ "''sbx_d''" _ reaped_row] starts_with_def parse_read_input run_op_def execute_read_def
        with_recovery_def client_read_def unary_def raise_for_status_def lookup_sandbox_def opt_truthy_def flaky_env_def echo_env_def)
  then show ?thesis using sandbox_contract [of flaky_env ?iv 5 reaped_db] by auto
qed

end
