(* ===== verification/Task_Callback.thy ===== *)
theory Task_Callback
  imports Task_Service "HOL-Library.Multiset"
begin

text \<open>
  The callback of a gateway (\<^verbatim>\<open>routes/a2a_callback.py\<close>): one handler that settles a task with what the agent
  reports.  The caller is resolved before it but is no argument of it.  A confidence is the JSON number the
  request carries, or null.
\<close>

section \<open>The request\<close>

record callback_fact =
  cf_claim :: string
  cf_source_url :: "string option"
  cf_captured_by :: string
  cf_confidence :: json

record callback_code_ref =
  cc_repo_url :: string
  cc_branch :: string
  cc_commit_sha :: string
  cc_paths :: "string list"

record callback_request =
  cq_task :: string
  cq_agent :: string
  cq_success :: bool
  cq_summary :: string
  cq_full_output :: string
  cq_blocked_reason :: "string option"
  cq_facts :: "callback_fact list"
  cq_code_refs :: "callback_code_ref list"

section \<open>The handler\<close>

definition fact_json :: "string \<Rightarrow> callback_fact \<Rightarrow> json" where
  "fact_json i f = JObj [(''id'', JStr i), (''claim'', JStr (cf_claim f)), (''source_url'', opt_json (cf_source_url f)),
     (''source_title'', JNull), (''captured_by'', JStr (cf_captured_by f)), (''confidence'', cf_confidence f)]"

fun fact_refs :: "callback_fact list \<Rightarrow> db \<Rightarrow> json list \<times> db" where
  "fact_refs [] s = ([], s)"
| "fact_refs (f # fs) s = (let (i, s1) = draw ''f_'' s; (js, s2) = fact_refs fs s1 in (fact_json i f # js, s2))"

definition code_ref_json :: "callback_code_ref \<Rightarrow> json" where
  "code_ref_json c = JObj [(''repo_url'', JStr (cc_repo_url c)), (''branch'', JStr (cc_branch c)),
     (''commit_sha'', JStr (cc_commit_sha c)), (''paths'', JArr (map JStr (cc_paths c)))]"

definition callback_changes :: "callback_request \<Rightarrow> int \<Rightarrow> task_changes" where
  "callback_changes q now =
     (if cq_success q then no_update\<lparr>up_status := Some TDone, up_completed_at := Some now\<rparr>
      else no_update\<lparr>up_status := Some TBlocked, up_blocked_reason := cq_blocked_reason q\<rparr>)"

definition callback_body :: "callback_request \<Rightarrow> string" where
  "callback_body q = (if cq_full_output q \<noteq> [] then cq_full_output q else if cq_summary q \<noteq> [] then cq_summary q
     else if cq_success q then ''Task completed successfully''
     else ''Task blocked: '' @ (if opt_truthy (cq_blocked_reason q) then the (cq_blocked_reason q) else ''unknown''))"

definition task_callback :: "callback_request \<Rightarrow> int \<Rightarrow> db \<Rightarrow> (task option \<times> event) res \<times> db" where
  "task_callback q now s = (case task_get (cq_task q) s of
       None \<Rightarrow> (Inl (HTTPException 404 ''Task not found''), s)
     | Some t \<Rightarrow>
         if task_status t \<noteq> TClaimed \<and> task_status t \<noteq> TWorking
         then (Inl (HTTPException 400 (''Task '' @ cq_task q @ '' is not in progress (status='' @ task_status_name (task_status t) @ '')'')), s)
         else bind_st (task_update (cq_task q) (callback_changes q now) now s) (\<lambda>updated s1.
           let (facts, s2) = fact_refs (cq_facts q) s1;
               cb = cookbook_id_for_bundle (task_bundle t) s2;
               (i, s3) = draw ''evt_'' s2;
               e = (new_event i cb (Some (task_bundle t)) (Some (cq_task q)) EMilestone (cq_agent q) ByAgent (callback_body q) now)
                 \<lparr>event_facts := facts, event_code_refs := map code_ref_json (cq_code_refs q)\<rparr>
           in (Inr (updated, e), publish_opt updated cb now (event_create e now s3))))"

section \<open>What it does\<close>

lemma fact_refs_state: "fact_refs fs s = (js, s') \<Longrightarrow> \<exists>n. s' = s\<lparr>db_drawn := n\<rparr>"
proof (induction fs arbitrary: s js)
  case Nil
  then show ?case by (auto intro!: exI [of _ "db_drawn s"])
next
  case (Cons f fs)
  then show ?case by (fastforce simp: draw_def Let_def split: prod.splits)
qed

lemma callback_run:
  assumes "task_get (cq_task q) s = Some t" "task_status t = TClaimed \<or> task_status t = TWorking"
  obtains e s' where "task_callback q now s = (Inr (Some (apply_update (callback_changes q now, now) t), e), s')"
    "db_tasks s' = rows_update (\<lambda>r. task_id r = cq_task q) (apply_update (callback_changes q now, now)) (db_tasks s)"
    "db_events s' = db_events s @ [e]" "db_reviews s' = db_reviews s"
    "event_type e = EMilestone" "event_actor e = cq_agent q" "event_task e = Some (cq_task q)" "event_sequence e = 0" "event_created_at e = now"
    "event_visibility e = ''system''" "event_body e = callback_body q"
proof -
  let ?u = "callback_changes q now"
  define s1 where "s1 = s\<lparr>db_tasks := rows_update (\<lambda>r. task_id r = cq_task q) (apply_update (?u, now)) (db_tasks s)\<rparr>"
  have upd: "task_update (cq_task q) ?u now s = (Inr (Some (apply_update (?u, now) t)), s1)"
    using assms(1) by (simp add: task_update_plain callback_changes_def no_update_def nothing_set_def s1_def)
  obtain facts s2 where f: "fact_refs (cq_facts q) s1 = (facts, s2)" by fastforce
  then obtain n where s2: "s2 = s1\<lparr>db_drawn := n\<rparr>" using fact_refs_state by blast
  define cb where "cb = cookbook_id_for_bundle (task_bundle t) s2"
  define e where "e = (new_event (fst (draw ''evt_'' s2)) cb (Some (task_bundle t)) (Some (cq_task q)) EMilestone (cq_agent q) ByAgent (callback_body q) now)
    \<lparr>event_facts := facts, event_code_refs := map code_ref_json (cq_code_refs q)\<rparr>"
  define s' where "s' = publish_opt (Some (apply_update (?u, now) t)) cb now (event_create e now (snd (draw ''evt_'' s2)))"
  have "task_callback q now s = (Inr (Some (apply_update (?u, now) t), e), s')"
    using assms upd f by (auto simp: task_callback_def Let_def case_prod_beta s'_def e_def cb_def)
  moreover have "db_tasks s' = db_tasks s1" "db_events s' = db_events s1 @ [e]" "db_reviews s' = db_reviews s1"
    by (simp_all add: s'_def publish_opt_def publish_task_def s2 draw_def)
  ultimately show ?thesis by (intro that [of e s']) (simp_all add: s1_def e_def new_event_def)
qed

text \<open>Where an event written last is listed: after the events with a smaller number and those with the same
  number that are no younger.\<close>

lemma sort_snoc:
  "sort_key f (xs @ [e]) = filter (\<lambda>x. f x \<le> f e) (sort_key f xs) @ e # filter (\<lambda>x. \<not> f x \<le> f e) (sort_key f xs)"
proof (rule properties_for_sort_key)
  show "mset (filter (\<lambda>x. f x \<le> f e) (sort_key f xs) @ e # filter (\<lambda>x. \<not> f x \<le> f e) (sort_key f xs)) = mset (xs @ [e])"
    by simp
  show "sorted (map f (filter (\<lambda>x. f x \<le> f e) (sort_key f xs) @ e # filter (\<lambda>x. \<not> f x \<le> f e) (sort_key f xs)))"
    by (auto simp: sorted_append sorted_filter)
  fix x
  have st: "filter (\<lambda>y. k = f y) (sort_key f xs) = filter (\<lambda>y. k = f y) xs" for k
    using sort_key_stable [of f k xs] by (simp add: eq_commute [of k])
  have le: "f x \<le> f e \<Longrightarrow> filter (\<lambda>y. f x = f y \<and> f y \<le> f e) zs = filter (\<lambda>y. f x = f y) zs \<and>
      filter (\<lambda>y. f x = f y \<and> \<not> f y \<le> f e) zs = []" for zs
    by (auto simp: filter_empty_conv intro: filter_cong)
  have gt: "\<not> f x \<le> f e \<Longrightarrow> filter (\<lambda>y. f x = f y \<and> \<not> f y \<le> f e) zs = filter (\<lambda>y. f x = f y) zs \<and>
      filter (\<lambda>y. f x = f y \<and> f y \<le> f e) zs = []" for zs
    by (auto simp: filter_empty_conv intro: filter_cong)
  show "filter (\<lambda>y. f x = f y) (filter (\<lambda>x. f x \<le> f e) (sort_key f xs) @ e # filter (\<lambda>x. \<not> f x \<le> f e) (sort_key f xs)) =
      filter (\<lambda>y. f x = f y) (xs @ [e])"
    using le gt by (cases "f x \<le> f e"; cases "f x = f e") (simp_all add: st conj_commute)
qed

definition listed_before :: "event \<Rightarrow> event \<Rightarrow> bool" where
  "listed_before e x \<longleftrightarrow> event_sequence x < event_sequence e \<or>
     event_sequence x = event_sequence e \<and> event_created_at x \<le> event_created_at e"

lemma by_time_snoc:
  "by_time (es @ [e]) = filter (listed_before e) (by_time es) @ e # filter (\<lambda>x. \<not> listed_before e x) (by_time es)"
  (is "_ = ?R")
proof -
  let ?L = "sort_key event_sequence (sort_key event_created_at es)"
  have "sort_key event_sequence (sort_key event_created_at (es @ [e])) = ?R"
    unfolding by_time_def
  proof (rule properties_for_sort_key)
    show "mset (filter (listed_before e) ?L @ e # filter (\<lambda>x. \<not> listed_before e x) ?L) = mset (sort_key event_created_at (es @ [e]))"
      by simp
    have "event_sequence x \<le> event_sequence y"
      if "listed_before e x \<or> x = e" "\<not> listed_before e y \<or> y = e" for x y
      using that by (auto simp: listed_before_def)
    then show "sorted (map event_sequence (filter (listed_before e) ?L @ e # filter (\<lambda>x. \<not> listed_before e x) ?L))"
      by (auto simp: sorted_append sorted_filter)
    fix x
    let ?k = "\<lambda>y. event_sequence x = event_sequence y"
    have st: "filter ?k ?L = sort_key event_created_at (filter ?k es)"
      using sort_key_stable [of event_sequence "event_sequence x" "sort_key event_created_at es"]
      by (simp add: filter_sort eq_commute [of "event_sequence x"])
    have old: "filter ?k (sort_key event_created_at (es @ [e])) =
        sort_key event_created_at (filter ?k es @ (if ?k e then [e] else []))"
      by (simp add: filter_sort)
    have cut: "filter ?k (filter Q ?L) = filter Q (filter ?k ?L)" for Q by (simp add: conj_commute)
    have same: "filter Q (filter ?k ?L) = filter Q' (filter ?k ?L)" if "\<And>y. ?k y \<Longrightarrow> Q y = Q' y" for Q Q'
      using that by (auto intro: filter_cong)
    consider "?k e" | "event_sequence x < event_sequence e" | "event_sequence e < event_sequence x" by linarith
    then show "filter ?k (filter (listed_before e) ?L @ e # filter (\<lambda>x. \<not> listed_before e x) ?L) =
        filter ?k (sort_key event_created_at (es @ [e]))"
    proof cases
      case 1
      have "filter (listed_before e) (filter ?k ?L) = filter (\<lambda>y. event_created_at y \<le> event_created_at e) (filter ?k ?L)"
        "filter (\<lambda>y. \<not> listed_before e y) (filter ?k ?L) = filter (\<lambda>y. \<not> event_created_at y \<le> event_created_at e) (filter ?k ?L)"
        by (rule same; use 1 in \<open>simp add: listed_before_def\<close>)+
      then show ?thesis unfolding filter_append filter.simps cut old if_P [OF 1] by (simp only: st sort_snoc)
    next
      case 2
      have "filter (listed_before e) (filter ?k ?L) = filter (\<lambda>_. True) (filter ?k ?L)"
        "filter (\<lambda>y. \<not> listed_before e y) (filter ?k ?L) = filter (\<lambda>_. False) (filter ?k ?L)"
        by (rule same; use 2 in \<open>simp add: listed_before_def\<close>)+
      then show ?thesis using 2 unfolding filter_append filter.simps cut old by (simp add: st del: filter_filter)
    next
      case 3
      have "filter (listed_before e) (filter ?k ?L) = filter (\<lambda>_. False) (filter ?k ?L)"
        "filter (\<lambda>y. \<not> listed_before e y) (filter ?k ?L) = filter (\<lambda>_. True) (filter ?k ?L)"
        by (rule same; use 3 in \<open>simp add: listed_before_def\<close>)+
      then show ?thesis using 3 unfolding filter_append filter.simps cut old by (simp add: st del: filter_filter)
    qed
  qed
  then show ?thesis unfolding by_time_def .
qed

text \<open>C40: whoever calls, and whichever agent it names, the callback of a task in progress settles it at once: done on success,
  else blocked, with one milestone in the named agent's name, no review and no other task touched, and a second callback that
  comes after the first was answered is refused without effect.  The milestone carries the number 0, not the next one, and is internal: in the
  events of the task, which are listed by number and then by time, the result comes after the events with the number 0
  that are no later, such as those the claim and the start of the work write, and before every event with a
  number above 0, although those were written before it.\<close>

theorem callback_settles:
  assumes t: "task_get (cq_task q) s = Some t" "task_status t = TClaimed \<or> task_status t = TWorking"
  shows "\<exists>t' e s'. task_callback q now s = (Inr (Some t', e), s') \<and> task_get (cq_task q) s' = Some t' \<and>
    task_status t' = (if cq_success q then TDone else TBlocked) \<and> task_claimed_by t' = task_claimed_by t \<and>
    (\<forall>j. j \<noteq> cq_task q \<longrightarrow> task_get j s' = task_get j s) \<and> db_reviews s' = db_reviews s \<and>
    db_events s' = db_events s @ [e] \<and> event_type e = EMilestone \<and> event_actor e = cq_agent q \<and>
    event_body e = callback_body q \<and> event_visibility e = ''system'' \<and>
    (\<forall>q2 now2. cq_task q2 = cq_task q \<longrightarrow> (\<exists>m. task_callback q2 now2 s' = (Inl (HTTPException 400 m), s'))) \<and>
    events_by_task (cq_task q) s' =
      filter (\<lambda>x. event_sequence x < 0 \<or> event_sequence x = 0 \<and> event_created_at x \<le> now) (events_by_task (cq_task q) s) @
      e # filter (\<lambda>x. \<not> (event_sequence x < 0 \<or> event_sequence x = 0 \<and> event_created_at x \<le> now)) (events_by_task (cq_task q) s)"
proof -
  let ?t = "apply_update (callback_changes q now, now) t"
  obtain e s' where r: "task_callback q now s = (Inr (Some ?t, e), s')"
    "db_tasks s' = rows_update (\<lambda>r. task_id r = cq_task q) (apply_update (callback_changes q now, now)) (db_tasks s)"
    "db_events s' = db_events s @ [e]" "db_reviews s' = db_reviews s"
    "event_type e = EMilestone" "event_actor e = cq_agent q" "event_task e = Some (cq_task q)" "event_sequence e = 0" "event_created_at e = now"
    "event_visibility e = ''system''" "event_body e = callback_body q"
    by (rule callback_run [OF t, of now])
  have get: "task_get j s' = (if j = cq_task q then Some ?t else task_get j s)" for j
    using t(1) by (simp add: task_get_def r(2) task_rows.get_update_key)
  have st: "task_status ?t = (if cq_success q then TDone else TBlocked)" "task_claimed_by ?t = task_claimed_by t"
    by (simp_all add: apply_update_def callback_changes_def no_update_def set_opt_def set_opt'_def)
  have again: "\<exists>m. task_callback q2 now2 s' = (Inl (HTTPException 400 m), s')" if "cq_task q2 = cq_task q" for q2 now2
    using that get [of "cq_task q"] st(1) by (simp add: task_callback_def)
  have placed: "events_by_task (cq_task q) s' =
      filter (\<lambda>x. event_sequence x < 0 \<or> event_sequence x = 0 \<and> event_created_at x \<le> now) (events_by_task (cq_task q) s) @
      e # filter (\<lambda>x. \<not> (event_sequence x < 0 \<or> event_sequence x = 0 \<and> event_created_at x \<le> now)) (events_by_task (cq_task q) s)"
    using by_time_snoc [of "filter (\<lambda>e. event_task e = Some (cq_task q)) (db_events s)" e]
    by (simp add: events_by_task_def r(3,7-9) listed_before_def [abs_def])
  show ?thesis
    by (intro exI [of _ ?t] exI [of _ e] exI [of _ s'] conjI) (use r(1,3-6,10,11) get st again placed in simp_all)
qed

definition stranger_report :: callback_request where
  "stranger_report = \<lparr>cq_task = ''t1'', cq_agent = ''mallory'', cq_success = True, cq_summary = [], cq_full_output = [],
     cq_blocked_reason = None, cq_facts = [], cq_code_refs = []\<rparr>"

lemma callback_settles_witness:
  "\<exists>t' e s'. task_callback stranger_report 9 (sample_db\<lparr>db_tasks := [(fresh_task ''t1'' ''b'' ''first'' None [])\<lparr>task_status := TWorking, task_claimed_by := Some ''alice''\<rparr>]\<rparr>) =
     (Inr (Some t', e), s') \<and> task_status t' = TDone \<and> task_claimed_by t' = Some ''alice'' \<and> event_actor e = ''mallory''"
proof -
  let ?t = "(fresh_task ''t1'' ''b'' ''first'' None [])\<lparr>task_status := TWorking, task_claimed_by := Some ''alice''\<rparr>"
  have "task_get (cq_task stranger_report) (sample_db\<lparr>db_tasks := [?t]\<rparr>) = Some ?t" "task_status ?t = TClaimed \<or> task_status ?t = TWorking"
    by (simp_all add: stranger_report_def task_get_def fresh_task_def)
  from callback_settles [OF this, of 9] show ?thesis by (auto simp: stranger_report_def)
qed

end
