(* ===== verification/Spec2Isabelle.thy ===== *)
theory Spec2Isabelle
  imports Invocation_Routes Runtimes Dispatch Orchestration Link_Firing Graph_Runner Graph_Renderer Sandbox_Hand Task_Callback
begin

text \<open>
  A model of krewhub (\<^verbatim>\<open>src/src/krewhub\<close>), the hub between people who ask for work, the agents that do it
  and the sandboxes it is done in.  Work is a bundle of tasks in a cookbook; tasks depend on each other,
  are linked, claimed, reviewed and settled; agents are reached through a mailbox; an invocation is one
  question to a person, a brain or a sandbox with a tape of events; and every change is told on a watch
  log that clients follow.  All of it is one asyncio process over one SQLite database.

  \<^bold>\<open>How the code is translated.\<close>  A table is the list of its rows (theory \<open>Prelude\<close>), the database is the
  record \<open>db\<close> of \<open>Domain\<close>.  A method is a function on the database that returns what it answers or the
  exception it raises (\<open>'a res\<close>) together with the database, since what was committed before a raise
  stays.  The clock is read once per call (\<open>now\<close>, an integer), ids come from the stream \<open>db_ids\<close>, floats
  are rationals, JSON is the datatype \<open>json\<close>, a text with the \<open>repr\<close> of a value keeps its pieces (\<open>msg\<close>).  A
  coroutine is cut where it awaits something others can overtake: the run of an invocation, a message to
  an agent, the recovery of a sandbox, the relay of a token, the dispatch of a graph step.  What lies
  outside the repository is an argument: the answer of e2b, HTTP, AES-GCM, \<open>json.dumps\<close>, the Python
  parser and compiler, pydantic-graph, the wallet service.

  \<^bold>\<open>Theories, and the files they model.\<close>
  \<^item> \<open>Prelude\<close>: JSON values, Python strings and exceptions, tables; the locale \<open>keyed_table\<close> says what an
    UPDATE that keeps the key does to lookups and is interpreted for bundles, tasks, sandboxes and others.
  \<^item> \<open>Invocation_Model\<close> (\<^verbatim>\<open>models/invocation.py\<close>): targets, the schema dialect, and \<open>validate_content\<close> against the
    declarative reading \<open>conforms\<close>.  \<open>Event_Tape\<close> (\<^verbatim>\<open>repositories/invocation_event_repo.py\<close>): numbered tapes,
    the locale \<open>numbered_log\<close> with its paging laws, interpreted on tapes here and on the watch log in
    \<open>Watch\<close>.  \<open>Invocation_Service\<close> (\<^verbatim>\<open>services/invocation_service.py\<close>, \<^verbatim>\<open>repositories/invocation_repo.py\<close>): the
    coroutines as a step relation, with the invariant of every reachable state.  \<open>Invocation_Routes\<close>
    (\<^verbatim>\<open>routes/invocations.py\<close>, \<^verbatim>\<open>routes/credentials.py\<close>): the handlers over service, database and credentials.
  \<^item> \<open>Watch\<close> (\<^verbatim>\<open>watch/*.py\<close>, \<^verbatim>\<open>services/watch_channels.py\<close>, \<^verbatim>\<open>routes/stream.py\<close>): the log, the bounded queues of its
    subscribers and the reconnect.
  \<^item> \<open>Domain\<close> (\<^verbatim>\<open>models/domain.py\<close>,
    \<^verbatim>\<open>db/schema.py\<close>): the rows; \<open>Task_Repo\<close>, \<open>Task_Service\<close>
    (\<^verbatim>\<open>task_repo.py\<close>, \<^verbatim>\<open>event_repo.py\<close>,
    \<^verbatim>\<open>task_service.py\<close>), \<open>Task_Routes\<close>
    (\<^verbatim>\<open>routes/tasks.py\<close>), \<open>Task_Callback\<close>
    (\<^verbatim>\<open>routes/a2a_callback.py\<close>), \<open>Auth\<close> (\<^verbatim>\<open>auth.py\<close>).
  \<^item> \<open>Bundle_Service\<close> (\<^verbatim>\<open>bundle_repo.py\<close>,
    \<^verbatim>\<open>bundle_service.py\<close>), \<open>Bundle_Routes\<close>
    (\<^verbatim>\<open>routes/bundles.py\<close>), \<open>Graph_Attachment\<close>
    (\<^verbatim>\<open>graph_attachment_service.py\<close>) with its three-colour search,
    \<open>Graph_Validator\<close> (\<^verbatim>\<open>graph_sandbox/validator.py\<close>),
    \<open>Graph_Renderer\<close> (\<^verbatim>\<open>sandbox.py\<close> and \<^verbatim>\<open>renderer.py\<close>
    beside it), \<open>Graph_Cycle\<close> (\<^verbatim>\<open>services/graph_runtime\<close>),
    \<open>Graph_Runner\<close> (\<^verbatim>\<open>controllers/graph_runner.py\<close>).
  \<^item> \<open>Reachability\<close>, \<open>Links\<close>, \<open>Link_Graph\<close> (\<^verbatim>\<open>routes/links.py\<close>): the searches, the links and their cascade, the
    two acyclic graphs; \<open>Link_Firing\<close> (\<^verbatim>\<open>controllers/link_reconciler.py\<close>).
  \<^item> \<open>Agents\<close> (\<^verbatim>\<open>agent_repo.py\<close>, \<^verbatim>\<open>routes/agents.py\<close>, \<^verbatim>\<open>presence_controller.py\<close>), \<open>Runtimes\<close>
    (\<^verbatim>\<open>routes/agent_runtimes.py\<close>), \<open>A2A_Gateway\<close> (\<^verbatim>\<open>routes/a2a_gateway.py\<close>), \<open>Dispatch\<close> (\<^verbatim>\<open>task_dispatch.py\<close>,
    \<^verbatim>\<open>planner_dispatch.py\<close>, \<^verbatim>\<open>agent_picker.py\<close>), \<open>Orchestration\<close> (\<^verbatim>\<open>orch_controller.py\<close>).
  \<^item> \<open>Sandboxes\<close> (\<^verbatim>\<open>sandbox_repo.py\<close>, \<^verbatim>\<open>sandbox_service.py\<close>, \<^verbatim>\<open>sandbox_sweeper.py\<close>), \<open>Sharing\<close>
    (\<^verbatim>\<open>cookbook_sharing.py\<close> and its repositories, \<^verbatim>\<open>routes/cookbooks.py\<close>), \<open>Credentials\<close> (\<^verbatim>\<open>elicit_repo.py\<close>,
    \<^verbatim>\<open>credential_relay.py\<close>, \<^verbatim>\<open>credentials_service.py\<close>).
  \<^item> \<open>Hands\<close> (\<^verbatim>\<open>invocations/protocol.py\<close>, \<^verbatim>\<open>workers/human_hand.py\<close>, \<^verbatim>\<open>workers/agent_hand.py\<close>): what the invocation
    service relies on, the locale \<open>hand\<close>, interpreted on the human and the agent hand and, in \<open>Sandbox_Hand\<close>
    (\<^verbatim>\<open>workers/sandbox_hand.py\<close>), on the sandbox hand; \<open>E2b_Stream\<close> (\<^verbatim>\<open>services/e2b_client.py\<close>) is the client it
    uses and \<open>Byte_Text\<close> the UTF-8 and base64 of the standard library under both.

  \<^bold>\<open>What is shown.\<close>  Invariants over every interleaving: one \<open>done\<close> event per invocation and a terminal row that
  never changes; gapless tapes; acyclic links and dependencies; one ready sandbox per bundle while calls do
  not overlap; a message settled once; a question relayed once.  Functional behaviour on every branch:
  claiming, attaching, creating and reading bundles, revoking links, granting and finding repository
  access, storing credentials; a question to the operator reaches the relay.  Round trips through the hands:
  a file read and written, the outputs of a command through the decoder of its stream, the tail of an output
  within its bound.  Every hand answers with an envelope the service accepts.  Termination and progress: the
  cascade, the respawns, a dispatch cycle, an executing run, a graph run, the presence pass, the agent hand.
  Equivalences: the schema check, the cycle check, the choice of a grant, the extraction of a graph.  And where the code does not do what it says, a theorem that it does not.

  \<^bold>\<open>Bounds.\<close>  A queue holds 256 events and a replay reads 500 entries; a page is at most 1000 rows; a message
  lives 300 seconds; a process is stale after 60; a wait of a graph step makes \<open>\<lfloor>timeout / interval\<rfloor> + 1\<close> reads.
  These are the constants of the code.  No definition has a fuel argument: loops that search carry a
  measure, the retry loops count down the attempts the code counts down.

  \<^bold>\<open>Not modelled.\<close> Schema migrations and the connection (SQL text); the parsing of HTTP requests,
  JWT, cookies and OAuth (\<^verbatim>\<open>auth_web.py\<close>, \<^verbatim>\<open>oauth.py\<close>,
  \<^verbatim>\<open>proxy_krewauth.py\<close>, third-party protocols); the clients of A2A and krewauth (requests over
  the network) and the requests to e2b whose outcome is an argument elsewhere; the bare git repositories
  (\<^verbatim>\<open>git/*.py\<close>, \<^verbatim>\<open>git_http.py\<close>); redaction (regular expressions of a
  third-party kind); the routes of the raw tapes and the aggregates (queries); example graphs; timers and start-up of
  the controllers; \<^verbatim>\<open>cycle_helpers.py\<close> and \<^verbatim>\<open>task_scheduler.py\<close>, which
  nothing runs.
\<close>

end
